(* ===== verification/AS_Prelude.thy ===== *)
theory AS_Prelude
  imports Main "HOL-Library.Word"
begin

text \<open>
  Shared vocabulary of the development.  It fixes how the Rust code's basic
  notions are read (results, bounded integers, strings as byte sequences) and
  gives the one data structure every Control table uses: a vector of records
  searched by key.

  \<^item> results: \<open>'e + 'a\<close> with \<open>Inl\<close> for \<open>Err\<close>; \<open>and_then\<close> is Rust's \<open>?\<close>,
    \<open>ensure\<close> is \<open>anyhow::ensure!\<close>, \<open>with_context\<close> and \<open>map_err\<close> replace the error;
  \<^item> \<open>u64\<close>, \<open>u32\<close>, \<open>u16\<close> are \<open>nat\<close> and \<open>i64\<close> is \<open>int\<close>, with every checked or
    saturating operation of the source written out;
  \<^item> a Rust string is the list of its UTF-8 bytes, so \<open>len()\<close> is \<open>length\<close>;
  \<^item> the locale \<open>keyed_table\<close> states what a table promises (find, put, delete),
    and \<open>keyed_list\<close> proves it of the vectors the code uses.
\<close>

named_theorems result_simps "success of a composed result, read as a conjunction"
named_theorems table_simps "what a keyed table contains after an update"

type_synonym byte = "8 word"

section \<open>Results\<close>

fun and_then :: "'e + 'a \<Rightarrow> ('a \<Rightarrow> 'e + 'b) \<Rightarrow> 'e + 'b" where
  "and_then (Inl e) f = Inl e"
| "and_then (Inr x) f = f x"

definition ensure :: "bool \<Rightarrow> 'e \<Rightarrow> 'e + unit" where
  "ensure c e = (if c then Inr () else Inl e)"

fun map_err :: "('e \<Rightarrow> 'f) \<Rightarrow> 'e + 'a \<Rightarrow> 'f + 'a" where
  "map_err g (Inl e) = Inl (g e)"
| "map_err g (Inr x) = Inr x"

definition with_context :: "string \<Rightarrow> 'e + 'a \<Rightarrow> string + 'a" where
  "with_context msg r = map_err (\<lambda>_. msg) r"

fun ok_or :: "'e \<Rightarrow> 'a option \<Rightarrow> 'e + 'a" where
  "ok_or e None = Inl e"
| "ok_or e (Some x) = Inr x"

fun map_ok :: "('a \<Rightarrow> 'b) \<Rightarrow> 'e + 'a \<Rightarrow> 'e + 'b" where
  "map_ok f (Inl e) = Inl e"
| "map_ok f (Inr x) = Inr (f x)"

fun is_ok :: "'e + 'a \<Rightarrow> bool" where
  "is_ok (Inl _) = False"
| "is_ok (Inr _) = True"

text \<open>\<open>collect::<Result<Vec<_>>>()\<close>: the first error, or all values in order.\<close>

fun collect_results :: "('e + 'a) list \<Rightarrow> 'e + 'a list" where
  "collect_results [] = Inr []"
| "collect_results (r # rs) = and_then r (\<lambda>x. and_then (collect_results rs) (\<lambda>xs. Inr (x # xs)))"

text \<open>A loop whose body may fail: the first error ends it.\<close>

primrec fold_ok :: "('a \<Rightarrow> 'd \<Rightarrow> 'e + 'd) \<Rightarrow> 'a list \<Rightarrow> 'd \<Rightarrow> 'e + 'd" where
  "fold_ok f [] d = Inr d"
| "fold_ok f (x # xs) d = and_then (f x d) (fold_ok f xs)"

lemma and_then_Inr [simp, result_simps]:
  "and_then m f = Inr y \<longleftrightarrow> (\<exists>x. m = Inr x \<and> f x = Inr y)"
  by (cases m) auto

lemma and_then_Inl:
  "and_then m f = Inl e \<longleftrightarrow> m = Inl e \<or> (\<exists>x. m = Inr x \<and> f x = Inl e)"
  by (cases m) auto

lemma ensure_Inr [simp, result_simps]: "ensure c e = Inr u \<longleftrightarrow> c"
  by (simp add: ensure_def)

lemma ensure_Inl [simp]: "ensure c e = Inl e' \<longleftrightarrow> \<not> c \<and> e' = e"
  by (auto simp: ensure_def)

lemma map_err_Inr [simp, result_simps]: "map_err g r = Inr x \<longleftrightarrow> r = Inr x"
  by (cases r) auto

lemma map_err_Inl: "map_err g r = Inl e \<longleftrightarrow> (\<exists>e'. r = Inl e' \<and> e = g e')"
  by (cases r) auto

lemma with_context_Inr [simp, result_simps]: "with_context msg r = Inr x \<longleftrightarrow> r = Inr x"
  by (simp add: with_context_def)

lemma ok_or_Inr [simp, result_simps]: "ok_or e r = Inr x \<longleftrightarrow> r = Some x"
  by (cases r) auto

lemma ok_or_Inl [simp]: "ok_or e r = Inl e' \<longleftrightarrow> r = None \<and> e' = e"
  by (cases r) auto

lemma map_ok_Inr [simp, result_simps]: "map_ok f r = Inr y \<longleftrightarrow> (\<exists>x. r = Inr x \<and> y = f x)"
  by (cases r) auto

lemma is_ok_iff: "is_ok r \<longleftrightarrow> (\<exists>x. r = Inr x)"
  by (cases r) auto

lemma collect_results_Inr:
  "collect_results rs = Inr xs \<longleftrightarrow> rs = map Inr xs"
  by (induction rs arbitrary: xs) auto

lemma fold_ok_append: "fold_ok f (xs @ ys) d = and_then (fold_ok f xs d) (fold_ok f ys)"
proof (induction xs arbitrary: d)
  case (Cons x xs)
  then show ?case by (cases "f x d") simp_all
qed simp

lemma fold_ok_invariant:
  assumes "fold_ok f xs d = Inr d'" "P d"
    and "\<And>x d d'. x \<in> set xs \<Longrightarrow> P d \<Longrightarrow> f x d = Inr d' \<Longrightarrow> P d'"
  shows "P d'"
  using assms by (induction xs arbitrary: d) auto

lemma collect_results_map_ok:
  assumes "\<And>x. x \<in> set xs \<Longrightarrow> f (g x) = Inr x"
  shows "collect_results (map f (map g xs)) = Inr xs"
  using assms by (simp add: collect_results_Inr)

section \<open>Bounded integers\<close>

definition u64_max :: nat where "u64_max = 2 ^ 64 - 1"
definition i64_max :: int where "i64_max = 2 ^ 63 - 1"
definition i64_min :: int where "i64_min = - (2 ^ 63)"

definition u64_checked_add :: "nat \<Rightarrow> nat \<Rightarrow> nat option" where
  "u64_checked_add a b = (if a + b \<le> u64_max then Some (a + b) else None)"

definition u64_saturating_add :: "nat \<Rightarrow> nat \<Rightarrow> nat" where
  "u64_saturating_add a b = min (a + b) u64_max"

definition i64_saturating_add :: "int \<Rightarrow> int \<Rightarrow> int" where
  "i64_saturating_add a b = max i64_min (min i64_max (a + b))"

definition i64_checked_add :: "int \<Rightarrow> int \<Rightarrow> int option" where
  "i64_checked_add a b = (if i64_min \<le> a + b \<and> a + b \<le> i64_max then Some (a + b) else None)"

definition i64_abs_diff :: "int \<Rightarrow> int \<Rightarrow> nat" where
  "i64_abs_diff a b = nat \<bar>a - b\<bar>"

text \<open>\<open>i64::try_from\<close> of an unsigned value: the SQLite integer range.\<close>

definition i64_try_from_u64 :: "nat \<Rightarrow> int option" where
  "i64_try_from_u64 n = (if int n \<le> i64_max then Some (int n) else None)"

lemma u64_checked_add_Some [simp]:
  "u64_checked_add a b = Some c \<longleftrightarrow> c = a + b \<and> a + b \<le> u64_max"
  by (auto simp: u64_checked_add_def)

lemma u64_saturating_add_bounds:
  "u64_saturating_add a b \<le> a + b" "a \<le> u64_max \<Longrightarrow> a \<le> u64_saturating_add a b"
  by (auto simp: u64_saturating_add_def)

lemma i64_saturating_add_mono:
  "a \<le> a' \<Longrightarrow> i64_saturating_add a b \<le> i64_saturating_add a' b"
  by (auto simp: i64_saturating_add_def)

lemma i64_try_from_u64_Some [simp]:
  "i64_try_from_u64 n = Some i \<longleftrightarrow> i = int n \<and> int n \<le> i64_max"
  by (auto simp: i64_try_from_u64_def)

section \<open>Strings\<close>

definition string_bytes :: "string \<Rightarrow> byte list" where
  "string_bytes s = map (\<lambda>c. word_of_nat (of_char c)) s"

definition bytes_string :: "byte list \<Rightarrow> string" where
  "bytes_string bs = map (\<lambda>b. char_of (unat b)) bs"

lemma of_char_lt_256: "(of_char c :: nat) < 256"
  by (rule nat_of_char_less_256)

lemma bytes_string_string_bytes [simp]: "bytes_string (string_bytes s) = s"
proof -
  have "unat (word_of_nat (of_char c) :: byte) = of_char c" for c
    by (simp add: unat_of_nat take_bit_nat_eq_self of_char_lt_256)
  thus ?thesis
    by (simp add: bytes_string_def string_bytes_def comp_def)
qed

lemma string_bytes_bytes_string [simp]: "string_bytes (bytes_string bs) = bs"
proof -
  have "(word_of_nat (of_char (char_of (unat b) :: char)) :: byte) = b" for b :: byte
    using unsigned_less [of b, where 'a = nat] by (simp add: of_char_of)
  thus ?thesis
    by (simp add: bytes_string_def string_bytes_def comp_def)
qed

lemma string_bytes_inject [simp]: "string_bytes s = string_bytes t \<longleftrightarrow> s = t"
  by (metis bytes_string_string_bytes)

lemma length_string_bytes [simp]: "length (string_bytes s) = length s"
  by (simp add: string_bytes_def)

lemma string_bytes_append [simp]: "string_bytes (s @ t) = string_bytes s @ string_bytes t"
  by (simp add: string_bytes_def)

definition strip_prefix :: "string \<Rightarrow> string \<Rightarrow> string option" where
  "strip_prefix p s = (if take (length p) s = p then Some (drop (length p) s) else None)"

definition split_once :: "char \<Rightarrow> string \<Rightarrow> (string \<times> string) option" where
  "split_once c s = (case dropWhile (\<lambda>x. x \<noteq> c) s of
      [] \<Rightarrow> None
    | _ # rest \<Rightarrow> Some (takeWhile (\<lambda>x. x \<noteq> c) s, rest))"

definition trim_end_matches :: "char \<Rightarrow> string \<Rightarrow> string" where
  "trim_end_matches c s = rev (dropWhile (\<lambda>x. x = c) (rev s))"

lemma strip_prefix_append [simp]: "strip_prefix p (p @ s) = Some s"
  by (simp add: strip_prefix_def)

lemma strip_prefix_Some: "strip_prefix p s = Some t \<longleftrightarrow> s = p @ t"
  by (auto simp: strip_prefix_def split: if_splits) (metis append_take_drop_id)

lemma split_at_first:
  assumes "c \<notin> set s"
  shows "takeWhile (\<lambda>x. x \<noteq> c) (s @ c # t) = s" "dropWhile (\<lambda>x. x \<noteq> c) (s @ c # t) = c # t"
  using assms by (induction s) auto

lemma split_once_append [simp]:
  "c \<notin> set s \<Longrightarrow> split_once c (s @ c # t) = Some (s, t)"
  by (simp add: split_once_def split_at_first)

lemma split_once_Some:
  "split_once c s = Some (a, b) \<longleftrightarrow> s = a @ c # b \<and> c \<notin> set a"
proof
  assume "split_once c s = Some (a, b)"
  then show "s = a @ c # b \<and> c \<notin> set a"
    unfolding split_once_def
    by (induction s arbitrary: a) (auto split: list.splits if_splits)
qed auto

definition ascii_alphanumeric :: "char \<Rightarrow> bool" where
  "ascii_alphanumeric c \<longleftrightarrow> (let n = (of_char c :: nat) in
     48 \<le> n \<and> n \<le> 57 \<or> 65 \<le> n \<and> n \<le> 90 \<or> 97 \<le> n \<and> n \<le> 122)"

definition quoted :: "string \<Rightarrow> string" where
  "quoted s = CHR 0x27 # s @ [CHR 0x27]"

fun show_nat :: "nat \<Rightarrow> string" where
  "show_nat n = (if n < 10 then [char_of (48 + n)]
     else show_nat (n div 10) @ [char_of (48 + n mod 10)])"

declare show_nat.simps [simp del]

section \<open>Keyed tables\<close>

text \<open>
  The contract of a table of records: \<open>put\<close> replaces the record of the same
  key or adds it, \<open>del\<close> removes the record of a key, and both keep the
  invariant that a key occurs once.
\<close>

locale keyed_table =
  fixes find :: "'k \<Rightarrow> 't \<Rightarrow> 'r option"
    and put :: "'r \<Rightarrow> 't \<Rightarrow> 't"
    and del :: "'k \<Rightarrow> 't \<Rightarrow> 't"
    and key :: "'r \<Rightarrow> 'k"
    and invar :: "'t \<Rightarrow> bool"
    and rows :: "'t \<Rightarrow> 'r set"
  assumes put_invar: "invar t \<Longrightarrow> invar (put r t)"
    and del_invar: "invar t \<Longrightarrow> invar (del k t)"
    and find_put: "invar t \<Longrightarrow> find k (put r t) = (if k = key r then Some r else find k t)"
    and find_del: "invar t \<Longrightarrow> find k (del k' t) = (if k = k' then None else find k t)"
    and rows_iff: "invar t \<Longrightarrow> r \<in> rows t \<longleftrightarrow> find (key r) t = Some r"
    and find_key: "find k t = Some r \<Longrightarrow> key r = k"
begin

lemma rows_put:
  assumes "invar t"
  shows "rows (put r t) = insert r {x \<in> rows t. key x \<noteq> key r}"
  using assms put_invar [OF assms, of r]
  by (auto simp: rows_iff find_put split: if_splits)

lemma rows_del:
  assumes "invar t"
  shows "rows (del k t) = {x \<in> rows t. key x \<noteq> k}"
  using assms del_invar [OF assms, of k]
  by (auto simp: rows_iff find_del split: if_splits)

lemma rows_put_subset: "invar t \<Longrightarrow> x \<in> rows (put r t) \<Longrightarrow> x = r \<or> x \<in> rows t"
  by (auto simp: rows_put)

lemma rows_key_unique:
  "invar t \<Longrightarrow> x \<in> rows t \<Longrightarrow> y \<in> rows t \<Longrightarrow> key x = key y \<Longrightarrow> x = y"
  by (simp add: rows_iff)

text \<open>Two tables that answer every lookup alike go on doing so under the same update.\<close>

lemma same_find_put:
  "invar t \<Longrightarrow> invar u \<Longrightarrow> (\<And>k. find k t = find k u) \<Longrightarrow> find k (put r t) = find k (put r u)"
  by (simp add: find_put)

lemma same_find_del:
  "invar t \<Longrightarrow> invar u \<Longrightarrow> (\<And>k. find k t = find k u) \<Longrightarrow> find k (del k' t) = find k (del k' u)"
  by (simp add: find_del)

lemma same_find_rows:
  "invar t \<Longrightarrow> invar u \<Longrightarrow> (\<And>k. find k t = find k u) \<Longrightarrow> rows t = rows u"
  by (auto simp: rows_iff)

lemma put_then_del: "invar t \<Longrightarrow> find k (del (key r) (put r t)) = find k (del (key r) t)"
  by (simp add: find_del find_put put_invar)

end

text \<open>The vectors of the source: linear search, update in place, append.\<close>

definition find_by :: "('r \<Rightarrow> 'k) \<Rightarrow> 'k \<Rightarrow> 'r list \<Rightarrow> 'r option" where
  "find_by key k t = List.find (\<lambda>r. key r = k) t"

fun upsert_record :: "('r \<Rightarrow> 'r \<Rightarrow> bool) \<Rightarrow> 'r \<Rightarrow> 'r list \<Rightarrow> 'r list" where
  "upsert_record same_key r [] = [r]"
| "upsert_record same_key r (x # xs) =
     (if same_key x r then r # xs else x # upsert_record same_key r xs)"

abbreviation upsert_by :: "('r \<Rightarrow> 'k) \<Rightarrow> 'r \<Rightarrow> 'r list \<Rightarrow> 'r list" where
  "upsert_by key \<equiv> upsert_record (\<lambda>item k. key item = key k)"

definition delete_by :: "('r \<Rightarrow> 'k) \<Rightarrow> 'k \<Rightarrow> 'r list \<Rightarrow> 'r list" where
  "delete_by key k t = filter (\<lambda>r. key r \<noteq> k) t"

definition keys_distinct :: "('r \<Rightarrow> 'k) \<Rightarrow> 'r list \<Rightarrow> bool" where
  "keys_distinct key t \<longleftrightarrow> distinct (map key t)"

lemma find_by_simps [simp]:
  "find_by key k [] = None"
  "find_by key k (x # xs) = (if key x = k then Some x else find_by key k xs)"
  by (simp_all add: find_by_def)

lemma find_by_key: "find_by key k t = Some r \<Longrightarrow> key r = k \<and> r \<in> set t"
  by (induction t) (auto split: if_splits)

lemma find_by_None: "find_by key k t = None \<longleftrightarrow> k \<notin> key ` set t"
  by (induction t) auto

lemma keys_distinct_Nil [simp]: "keys_distinct key []"
  by (simp add: keys_distinct_def)

lemma find_by_Some_iff:
  "keys_distinct key t \<Longrightarrow> find_by key k t = Some r \<longleftrightarrow> r \<in> set t \<and> key r = k"
  unfolding keys_distinct_def by (induction t) force+

lemma map_key_upsert:
  "key ` set (upsert_by key r t) = insert (key r) (key ` set t)"
  by (induction t) auto

lemma keys_distinct_upsert: "keys_distinct key t \<Longrightarrow> keys_distinct key (upsert_by key r t)"
  unfolding keys_distinct_def
  by (induction t) (auto simp: map_key_upsert)

lemma keys_distinct_delete: "keys_distinct key t \<Longrightarrow> keys_distinct key (delete_by key k t)"
  by (simp add: keys_distinct_def delete_by_def distinct_map_filter)

lemma find_by_upsert:
  "find_by key k (upsert_by key r t) = (if k = key r then Some r else find_by key k t)"
  by (induction t) auto

lemma find_by_delete:
  "find_by key k (delete_by key k' t) = (if k = k' then None else find_by key k t)"
  unfolding delete_by_def by (induction t) auto

theorem keyed_list:
  "keyed_table (find_by key) (upsert_by key) (delete_by key) key (keys_distinct key) set"
  by unfold_locales
    (auto simp: keys_distinct_upsert keys_distinct_delete find_by_upsert find_by_delete
      find_by_Some_iff dest: find_by_key)

lemma upsert_by_absent: "key r \<notin> key ` set t \<Longrightarrow> upsert_by key r t = t @ [r]"
  by (induction t) auto

lemma set_upsert_by:
  "keys_distinct key t \<Longrightarrow> set (upsert_by key r t) = insert r {x \<in> set t. key x \<noteq> key r}"
  by (rule keyed_table.rows_put [OF keyed_list])

lemma set_delete_by [table_simps]: "set (delete_by key k t) = {x \<in> set t. key x \<noteq> k}"
  by (auto simp: delete_by_def)

lemma set_upsert_subset: "x \<in> set (upsert_by key r t) \<Longrightarrow> x = r \<or> x \<in> set t"
  by (induction t) (auto split: if_splits)

text \<open>A second column stays unique under an update whose value is new in it.\<close>

lemma keys_distinct_upsert_col:
  assumes "keys_distinct col t"
    and "\<And>x. x \<in> set t \<Longrightarrow> key x \<noteq> key r \<Longrightarrow> col x \<noteq> col r"
    and "keys_distinct key t"
  shows "keys_distinct col (upsert_by key r t)"
  using assms
proof (induction t)
  case (Cons x xs)
  have "col x \<notin> col ` set (upsert_by key r xs)" if "key x \<noteq> key r"
    using Cons.prems that set_upsert_subset [of _ key r xs]
    by (auto simp: keys_distinct_def image_iff)
  moreover have "col r \<notin> col ` set xs" if "key x = key r"
    using Cons.prems that by (auto simp: keys_distinct_def image_iff) (metis image_eqI)
  ultimately show ?case
    using Cons by (auto simp: keys_distinct_def)
qed (simp add: keys_distinct_def)

end
