(* ===== verification/External.thy ===== *)
theory External
  imports AS_Prelude
begin

text \<open>
  Code the repository calls but does not contain, as one record of functions
  that the model takes as an argument: Ed25519 identities and signatures
  (\<open>iroh_base\<close>), SHA-256, base64url, hex, the text form of JSON
  (\<open>serde_json\<close>), URLs (\<open>url\<close>), certificate requests (\<open>rcgen\<close>) and the error
  texts of SQLite.  The documented behaviour a property relies on is a named
  predicate (\<open>sig_laws\<close>, \<open>id_laws\<close>, \<open>json_laws\<close>, \dots) and appears as a
  hypothesis of that property.  The last section builds one concrete record,
  \<open>ref_ext\<close>, that satisfies all of them; the witnesses evaluate on it.
\<close>

section \<open>Documents and identities\<close>

datatype json =
    JNull
  | JBool bool
  | JNum int
  | JStr string
  | JArr "json list"
  | JObj "(string \<times> json) list"

datatype EndpointId = EndpointId (id_bytes: "byte list")
datatype SecretKey = SecretKey (key_bytes: "byte list")
datatype Signature = Signature (sig_bytes: "byte list")

definition SIGNATURE_LENGTH :: nat where "SIGNATURE_LENGTH = 64"

record Url =
  u_scheme :: string
  u_host :: "string option"
  u_path :: string
  u_query :: "string option"
  u_fragment :: "string option"

text \<open>The issuer of certificates is made of the DER of its key and of its certificate; what Control sets in a
  certificate before it is signed, with dates in seconds.\<close>

record Issuer =
  is_key_der :: "byte list"
  is_cert_der :: "byte list"

record TlsCertParams =
  tc_is_ca :: bool
  tc_key_usages :: "string list"
  tc_extended_key_usages :: "string list"
  tc_authority_key_identifier :: bool
  tc_common_name :: string
  tc_not_before :: int
  tc_not_after :: int

datatype DbError =
    UniqueViolation string
  | ForeignKeyViolation string
  | CheckViolation string
  | DbIo

record Ext =
  ed_public :: "SecretKey \<Rightarrow> EndpointId"
  ed_sign :: "SecretKey \<Rightarrow> byte list \<Rightarrow> Signature"
  ed_verify :: "EndpointId \<Rightarrow> byte list \<Rightarrow> Signature \<Rightarrow> bool"
  id_to_string :: "EndpointId \<Rightarrow> string"
  id_parse :: "string \<Rightarrow> string + EndpointId"
  sha256 :: "byte list \<Rightarrow> byte list"
  b64_encode :: "byte list \<Rightarrow> string"
  b64_decode :: "string \<Rightarrow> string + byte list"
  hex_encode :: "byte list \<Rightarrow> string"
  hex_decode :: "string \<Rightarrow> string + byte list"
  json_to_vec :: "json \<Rightarrow> byte list"
  json_from_slice :: "byte list \<Rightarrow> string + json"
  sig_to_json :: "Signature \<Rightarrow> json"
  sig_of_json :: "json \<Rightarrow> string + Signature"
  url_parse :: "string \<Rightarrow> string + Url"
  url_set_path :: "string \<Rightarrow> Url \<Rightarrow> Url"
  url_to_string :: "Url \<Rightarrow> string"
  csr_sans :: "byte list \<Rightarrow> string + string list"
  cert_sans :: "string \<Rightarrow> string + string list"
  csr_signed_by :: "Issuer \<Rightarrow> byte list \<Rightarrow> TlsCertParams \<Rightarrow> string + byte list"
  db_error_text :: "DbError \<Rightarrow> string"
  json_to_vec_pretty :: "json \<Rightarrow> byte list"
  url_join :: "Url \<Rightarrow> string \<Rightarrow> string + Url"
  relay_url_parse :: "string \<Rightarrow> string + string"

section \<open>Documented behaviour\<close>

text \<open>A signature made with a key verifies under that key's identity.\<close>

definition sig_laws :: "Ext \<Rightarrow> bool" where
  "sig_laws X \<longleftrightarrow>
     (\<forall>k m. ed_verify X (ed_public X k) m (ed_sign X k m)) \<and>
     (\<forall>k m. length (sig_bytes (ed_sign X k m)) = SIGNATURE_LENGTH)"

text \<open>An identity is printed as a non-empty text without a colon, and parses back.\<close>

definition id_laws :: "Ext \<Rightarrow> bool" where
  "id_laws X \<longleftrightarrow>
     (\<forall>i. id_parse X (id_to_string X i) = Inr i) \<and>
     (\<forall>i. id_to_string X i \<noteq> [] \<and> CHR '':'' \<notin> set (id_to_string X i))"

text \<open>Base64url and hex decode what they encode; hex of a non-empty input is
  non-empty and has no colon.\<close>

definition text_laws :: "Ext \<Rightarrow> bool" where
  "text_laws X \<longleftrightarrow>
     (\<forall>bs. b64_decode X (b64_encode X bs) = Inr bs) \<and>
     (\<forall>bs. hex_decode X (hex_encode X bs) = Inr bs) \<and>
     (\<forall>bs. CHR '':'' \<notin> set (hex_encode X bs)) \<and>
     (\<forall>bs. bs \<noteq> [] \<longrightarrow> hex_encode X bs \<noteq> [])"

text \<open>JSON text parses back to the document it was printed from, and so does
  the JSON form of a signature.\<close>

definition json_laws :: "Ext \<Rightarrow> bool" where
  "json_laws X \<longleftrightarrow>
     (\<forall>v. json_from_slice X (json_to_vec X v) = Inr v) \<and>
     (\<forall>s. sig_of_json X (sig_to_json X s) = Inr s)"

text \<open>Indented JSON text, with or without a final newline, parses back too.\<close>

definition pretty_laws :: "Ext \<Rightarrow> bool" where
  "pretty_laws X \<longleftrightarrow>
     (\<forall>v. json_from_slice X (json_to_vec_pretty X v) = Inr v) \<and>
     (\<forall>v. json_from_slice X (json_to_vec_pretty X v @ [10]) = Inr v)"

text \<open>A relay URL is its normal form as text, and the normal form parses to itself.\<close>

definition relay_url_laws :: "Ext \<Rightarrow> bool" where
  "relay_url_laws X \<longleftrightarrow> (\<forall>s u. relay_url_parse X s = Inr u \<longrightarrow> relay_url_parse X u = Inr u)"

lemma json_to_vec_inject:
  "json_laws X \<Longrightarrow> json_to_vec X v = json_to_vec X w \<longleftrightarrow> v = w"
  unfolding json_laws_def by (metis sum.inject(2))

lemma id_to_string_inject:
  "id_laws X \<Longrightarrow> id_to_string X i = id_to_string X j \<longleftrightarrow> i = j"
  unfolding id_laws_def by (metis sum.inject(2))

lemma id_parse_to_string: "id_laws X \<Longrightarrow> id_parse X (id_to_string X i) = Inr i"
  by (simp add: id_laws_def)

lemma ed_verify_sign: "sig_laws X \<Longrightarrow> ed_verify X (ed_public X k) m (ed_sign X k m)"
  by (simp add: sig_laws_def)

lemma b64_round_trip: "text_laws X \<Longrightarrow> b64_decode X (b64_encode X bs) = Inr bs"
  by (simp add: text_laws_def)

lemma json_round_trip: "json_laws X \<Longrightarrow> json_from_slice X (json_to_vec X v) = Inr v"
  by (simp add: json_laws_def)

lemma sig_json_round_trip: "json_laws X \<Longrightarrow> sig_of_json X (sig_to_json X s) = Inr s"
  by (simp add: json_laws_def)

lemmas ext_round_trips = id_parse_to_string ed_verify_sign b64_round_trip json_round_trip
  sig_json_round_trip

section \<open>Reading documents as \<open>serde\<close> does\<close>

text \<open>
  A derived \<open>Deserialize\<close> looks a field up by name, ignores unknown fields and
  refuses a missing or repeated one.  An \<open>Option\<close> field that is missing or
  \<open>null\<close> reads as \<open>None\<close>.
\<close>

definition obj_field :: "string \<Rightarrow> json \<Rightarrow> string + json" where
  "obj_field name v = (case v of
      JObj kvs \<Rightarrow> (case filter (\<lambda>kv. fst kv = name) kvs of
          [] \<Rightarrow> Inl (''missing field '' @ name)
        | [kv] \<Rightarrow> Inr (snd kv)
        | _ \<Rightarrow> Inl (''duplicate field '' @ name))
    | _ \<Rightarrow> Inl ''invalid type: expected an object'')"

definition obj_field_opt :: "string \<Rightarrow> json \<Rightarrow> string + json" where
  "obj_field_opt name v = (case v of
      JObj kvs \<Rightarrow> (case filter (\<lambda>kv. fst kv = name) kvs of
          [] \<Rightarrow> Inr JNull
        | [kv] \<Rightarrow> Inr (snd kv)
        | _ \<Rightarrow> Inl (''duplicate field '' @ name))
    | _ \<Rightarrow> Inl ''invalid type: expected an object'')"

fun as_string :: "json \<Rightarrow> string + string" where
  "as_string (JStr s) = Inr s"
| "as_string _ = Inl ''invalid type: expected a string''"

fun as_unsigned :: "nat \<Rightarrow> json \<Rightarrow> string + nat" where
  "as_unsigned bits (JNum n) = (if 0 \<le> n \<and> n < 2 ^ bits then Inr (nat n)
      else Inl ''invalid value: integer out of range'')"
| "as_unsigned bits _ = Inl ''invalid type: expected an integer''"

fun as_i64 :: "json \<Rightarrow> string + int" where
  "as_i64 (JNum n) = (if i64_min \<le> n \<and> n \<le> i64_max then Inr n
      else Inl ''invalid value: integer out of range'')"
| "as_i64 _ = Inl ''invalid type: expected an integer''"

fun as_option :: "(json \<Rightarrow> string + 'a) \<Rightarrow> json \<Rightarrow> string + 'a option" where
  "as_option f JNull = Inr None"
| "as_option f v = map_ok Some (f v)"

fun as_list :: "(json \<Rightarrow> string + 'a) \<Rightarrow> json \<Rightarrow> string + 'a list" where
  "as_list f (JArr vs) = collect_results (map f vs)"
| "as_list f _ = Inl ''invalid type: expected a sequence''"

definition unsigned_json :: "nat \<Rightarrow> json" where "unsigned_json n = JNum (int n)"

fun option_json :: "('a \<Rightarrow> json) \<Rightarrow> 'a option \<Rightarrow> json" where
  "option_json f None = JNull"
| "option_json f (Some x) = f x"

definition bytes_json :: "byte list \<Rightarrow> json" where
  "bytes_json bs = JArr (map (\<lambda>b. JNum (int (unat b))) bs)"

lemma as_unsigned_json [simp]: "as_unsigned b (unsigned_json n) = Inr m \<longleftrightarrow> m = n \<and> n < 2 ^ b"
proof -
  have "int n < 2 ^ b \<longleftrightarrow> n < 2 ^ b"
    by (metis of_nat_less_iff of_nat_numeral of_nat_power)
  thus ?thesis by (auto simp: unsigned_json_def)
qed

lemma as_i64_num [simp]: "as_i64 (JNum n) = Inr m \<longleftrightarrow> m = n \<and> i64_min \<le> n \<and> n \<le> i64_max"
  by auto

lemma as_list_map:
  "(\<And>x. x \<in> set xs \<Longrightarrow> f (g x) = Inr x) \<Longrightarrow> as_list f (JArr (map g xs)) = Inr xs"
  by (simp add: collect_results_Inr)

lemma unsigned_json_inject [simp]: "unsigned_json m = unsigned_json n \<longleftrightarrow> m = n"
  by (simp add: unsigned_json_def)

lemma bytes_json_inject [simp]: "bytes_json m = bytes_json n \<longleftrightarrow> m = n"
proof -
  have "inj (\<lambda>b :: byte. JNum (int (unat b)))"
    by (simp add: inj_def word_uint_eq_iff)
  thus ?thesis by (simp add: bytes_json_def inj_map_eq_map)
qed

lemma option_json_inject:
  assumes "\<And>x y. f x = f y \<longleftrightarrow> x = y" "\<And>x. f x \<noteq> JNull"
  shows "option_json f a = option_json f b \<longleftrightarrow> a = b"
  using assms by (cases a; cases b) (auto dest: sym)

section \<open>A record of functions that satisfies the laws\<close>

text \<open>A length-prefixed binary form of documents stands for JSON text.\<close>

fun enc_nat :: "nat \<Rightarrow> byte list" where
  "enc_nat n = (if n < 128 then [word_of_nat n]
     else word_of_nat (128 + n mod 128) # enc_nat (n div 128))"

declare enc_nat.simps [simp del]

fun dec_nat :: "byte list \<Rightarrow> (nat \<times> byte list) option" where
  "dec_nat [] = None"
| "dec_nat (b # bs) = (if unat b < 128 then Some (unat b, bs)
     else (case dec_nat bs of None \<Rightarrow> None
       | Some (m, rest) \<Rightarrow> Some (unat b - 128 + 128 * m, rest)))"

lemma dec_enc_nat [simp]: "dec_nat (enc_nat n @ rest) = Some (n, rest)"
proof (induction n rule: enc_nat.induct)
  case (1 n)
  show ?case
  proof (cases "n < 128")
    case True
    then have "unat (word_of_nat n :: byte) = n"
      by (simp add: unat_of_nat take_bit_nat_eq_self)
    with True show ?thesis by (simp add: enc_nat.simps [of n])
  next
    case False
    have "unat (word_of_nat (128 + n mod 128) :: byte) = 128 + n mod 128"
      by (subst unat_of_nat) (simp add: take_bit_nat_eq_self)
    with False 1 [OF False] show ?thesis
      by (simp add: enc_nat.simps [of n])
  qed
qed

fun enc_json :: "json \<Rightarrow> byte list" where
  "enc_json JNull = [0]"
| "enc_json (JBool b) = [if b then 2 else 1]"
| "enc_json (JNum n) = (if n < 0 then 4 # enc_nat (nat (- n)) else 3 # enc_nat (nat n))"
| "enc_json (JStr s) = 5 # enc_nat (length s) @ string_bytes s"
| "enc_json (JArr vs) = 6 # enc_nat (length vs) @ concat (map enc_json vs)"
| "enc_json (JObj kvs) = 7 # enc_nat (length kvs) @
     concat (map (\<lambda>(k, v). enc_nat (length k) @ string_bytes k @ enc_json v) kvs)"

primrec dec_many :: "(byte list \<Rightarrow> ('a \<times> byte list) option) \<Rightarrow> nat \<Rightarrow> byte list
    \<Rightarrow> ('a list \<times> byte list) option" where
  "dec_many f 0 bs = Some ([], bs)"
| "dec_many f (Suc k) bs = (case f bs of None \<Rightarrow> None | Some (x, r) \<Rightarrow>
     (case dec_many f k r of None \<Rightarrow> None | Some (xs, r') \<Rightarrow> Some (x # xs, r')))"

definition dec_str :: "byte list \<Rightarrow> (string \<times> byte list) option" where
  "dec_str bs = (case dec_nat bs of None \<Rightarrow> None
     | Some (n, r) \<Rightarrow> Some (bytes_string (take n r), drop n r))"

lemma dec_str_enc [simp]:
  "dec_str (enc_nat (length s) @ string_bytes s @ rest) = Some (s, rest)"
  by (simp add: dec_str_def)

primrec dec_json :: "nat \<Rightarrow> byte list \<Rightarrow> (json \<times> byte list) option" where
  "dec_json 0 = (\<lambda>_. None)"
| "dec_json (Suc n) = (\<lambda>bs. case bs of [] \<Rightarrow> None | t # bs \<Rightarrow>
     if t = 0 then Some (JNull, bs)
     else if t = 1 then Some (JBool False, bs)
     else if t = 2 then Some (JBool True, bs)
     else if t = 3 then map_option (\<lambda>(k, r). (JNum (int k), r)) (dec_nat bs)
     else if t = 4 then map_option (\<lambda>(k, r). (JNum (- int k), r)) (dec_nat bs)
     else if t = 5 then map_option (\<lambda>(s, r). (JStr s, r)) (dec_str bs)
     else if t = 6 then (case dec_nat bs of None \<Rightarrow> None | Some (k, r) \<Rightarrow>
       map_option (\<lambda>(vs, r). (JArr vs, r)) (dec_many (dec_json n) k r))
     else (case dec_nat bs of None \<Rightarrow> None | Some (k, r) \<Rightarrow>
       map_option (\<lambda>(kvs, r). (JObj kvs, r))
         (dec_many (\<lambda>bs. case dec_str bs of None \<Rightarrow> None | Some (s, r) \<Rightarrow>
            map_option (\<lambda>(v, r). ((s, v), r)) (dec_json n r)) k r)))"

lemma dec_many_enc:
  assumes "\<And>x rest. x \<in> set xs \<Longrightarrow> f (g x @ rest) = Some (x, rest)"
  shows "dec_many f (length xs) (concat (map g xs) @ rest) = Some (xs, rest)"
  using assms by (induction xs) simp_all

lemma length_concat_member: "x \<in> set xs \<Longrightarrow> length (g x) \<le> length (concat (map g xs))"
  by (induction xs) auto

lemma dec_enc_json: "length (enc_json v) \<le> n \<Longrightarrow> dec_json n (enc_json v @ rest) = Some (v, rest)"
proof (induction v arbitrary: n rest)
  case (JArr vs)
  then obtain m where n: "n = Suc m" by (cases n) auto
  have "dec_json m (enc_json v @ rest) = Some (v, rest)" if "v \<in> set vs" for v rest
    using JArr.IH [OF that] JArr.prems n length_concat_member [OF that, of enc_json] by simp
  from dec_many_enc [of vs "dec_json m" enc_json, OF this] show ?case by (simp add: n)
next
  case (JObj kvs)
  then obtain m where n: "n = Suc m" by (cases n) auto
  let ?g = "\<lambda>(k, v). enc_nat (length k) @ string_bytes k @ enc_json v"
  let ?f = "\<lambda>bs. case dec_str bs of None \<Rightarrow> None | Some (s, r) \<Rightarrow>
      map_option (\<lambda>(v, r). ((s, v), r)) (dec_json m r)"
  have "?f (?g kv @ rest) = Some (kv, rest)" if "kv \<in> set kvs" for kv rest
  proof -
    obtain k v where kv: "kv = (k, v)" by (cases kv)
    have "v \<in> Basic_BNFs.snds kv" by (simp add: kv)
    from JObj.IH [OF that this] show ?thesis
      using JObj.prems n length_concat_member [OF that, of ?g] by (simp add: kv)
  qed
  from dec_many_enc [of kvs ?f ?g, OF this] show ?case by (simp add: n)
next
  case JNull
  then show ?case by (cases n) simp_all
next
  case (JBool b)
  then show ?case by (cases n) simp_all
next
  case (JNum i)
  then show ?case by (cases n) (simp_all split: if_splits)
next
  case (JStr t)
  then show ?case by (cases n) simp_all
qed

text \<open>Two letters per byte stand for hex and base64url.\<close>

fun enc_text :: "byte list \<Rightarrow> string" where
  "enc_text [] = []"
| "enc_text (b # bs) =
     char_of (97 + unat b div 16) # char_of (97 + unat b mod 16) # enc_text bs"

fun dec_text :: "string \<Rightarrow> string + byte list" where
  "dec_text [] = Inr []"
| "dec_text (c # d # cs) = map_ok (\<lambda>bs. word_of_nat
     (16 * (of_char c - 97) + (of_char d - 97)) # bs) (dec_text cs)"
| "dec_text _ = Inl ''odd length''"

lemma dec_enc_text [simp]: "dec_text (enc_text bs) = Inr bs"
proof (induction bs)
  case (Cons b bs)
  have b: "unat b < 256" using unsigned_less [of b, where 'a = nat] by simp
  then have "(of_char (char_of (97 + unat b div 16) :: char) :: nat) = 97 + unat b div 16"
    "(of_char (char_of (97 + unat b mod 16) :: char) :: nat) = 97 + unat b mod 16"
    by (simp_all add: of_char_of)
  then show ?case using Cons by simp
qed simp

lemma enc_text_no_colon: "CHR '':'' \<notin> set (enc_text bs)"
proof (induction bs)
  case (Cons b bs)
  have "unat b < 256" using unsigned_less [of b, where 'a = nat] by simp
  then have "(of_char (char_of (97 + unat b div 16) :: char) :: nat) \<noteq> of_char (CHR '':'')"
    "(of_char (char_of (97 + unat b mod 16) :: char) :: nat) \<noteq> of_char (CHR '':'')"
    by (simp_all add: of_char_of)
  then have "char_of (97 + unat b div 16) \<noteq> CHR '':''" "char_of (97 + unat b mod 16) \<noteq> CHR '':''"
    by metis+
  then show ?case using Cons by auto
qed simp

definition ref_sign :: "byte list \<Rightarrow> byte list \<Rightarrow> Signature" where
  "ref_sign k m = Signature (take SIGNATURE_LENGTH (k @ m @ replicate SIGNATURE_LENGTH 0))"

definition ref_ext :: Ext where
  "ref_ext = \<lparr>
     ed_public = (\<lambda>k. EndpointId (key_bytes k)),
     ed_sign = (\<lambda>k m. ref_sign (key_bytes k) m),
     ed_verify = (\<lambda>i m s. s = ref_sign (id_bytes i) m),
     id_to_string = (\<lambda>i. CHR ''x'' # enc_text (id_bytes i)),
     id_parse = (\<lambda>s. case s of c # r \<Rightarrow>
        (if c = CHR ''x'' then map_ok EndpointId (dec_text r) else Inl ''bad id'')
        | [] \<Rightarrow> Inl ''bad id''),
     sha256 = (\<lambda>bs. bs),
     b64_encode = enc_text,
     b64_decode = dec_text,
     hex_encode = enc_text,
     hex_decode = dec_text,
     json_to_vec = enc_json,
     json_from_slice = (\<lambda>bs. case dec_json (length bs) bs of
        Some (v, rest) \<Rightarrow> if list_all (\<lambda>b. b = 10) rest then Inr v else Inl ''trailing characters''
        | None \<Rightarrow> Inl ''bad document''),
     sig_to_json = (\<lambda>s. JStr (bytes_string (sig_bytes s))),
     sig_of_json = (\<lambda>v. map_ok (\<lambda>s. Signature (string_bytes s)) (as_string v)),
     url_parse = (\<lambda>s. Inr \<lparr>u_scheme = ''https'', u_host = Some s, u_path = ''/'',
        u_query = None, u_fragment = None\<rparr>),
     url_set_path = (\<lambda>p u. u\<lparr>u_path := p\<rparr>),
     url_to_string = (\<lambda>u. case u_host u of None \<Rightarrow> [] | Some h \<Rightarrow> h),
     csr_sans = (\<lambda>bs. Inr [bytes_string bs]),
     cert_sans = (\<lambda>h. Inr [h]),
     csr_signed_by = (\<lambda>_ bs p. Inr (bs @ [word_of_int (tc_not_after p)])),
     db_error_text = (\<lambda>_. ''database error''),
     json_to_vec_pretty = enc_json,
     url_join = (\<lambda>u p. Inr (u\<lparr>u_path := p\<rparr>)),
     relay_url_parse = (\<lambda>s. if s = [] then Inl ''empty'' else
       Inr (if last s = CHR ''/'' then s else s @ ''/''))\<rparr>"

theorem ref_ext_laws [simp]:
  "sig_laws ref_ext" "id_laws ref_ext" "text_laws ref_ext" "json_laws ref_ext"
  "pretty_laws ref_ext" "relay_url_laws ref_ext"
proof -
  show "sig_laws ref_ext"
    by (auto simp: sig_laws_def ref_ext_def ref_sign_def SIGNATURE_LENGTH_def)
  show "id_laws ref_ext"
    by (simp add: id_laws_def ref_ext_def enc_text_no_colon)
  show "text_laws ref_ext"
    by (auto simp: text_laws_def ref_ext_def enc_text_no_colon elim: enc_text.elims)
  have dec: "dec_json (length (enc_json v @ r)) (enc_json v @ r) = Some (v, r)" for v r
    using dec_enc_json [of v "length (enc_json v @ r)" r] by simp
  show "json_laws ref_ext" "pretty_laws ref_ext"
    using dec [of _ "[]"] dec [of _ "[10]"] by (simp_all add: json_laws_def pretty_laws_def ref_ext_def)
  show "relay_url_laws ref_ext"
    by (auto simp: relay_url_laws_def ref_ext_def split: if_splits)
qed

end
