(* ===== verification/Control_Api.thy ===== *)
theory Control_Api
  imports External
begin

text \<open>
  The crate \<open>control-api\<close> (\<open>crates/control-api/src/lib.rs\<close>): the messages that
  Control, clients, edges and relays exchange, the bytes each one signs, and the
  join token.  Every struct is a record, its derived \<open>Serialize\<close> a function into
  \<open>json\<close> that keeps the field order and the \<open>serde\<close> attributes.
\<close>

definition CONTROL_PROTOCOL_VERSION :: nat where "CONTROL_PROTOCOL_VERSION = 5"

definition domain :: "string \<Rightarrow> byte list" where
  "domain s = string_bytes s @ [0]"

definition INVITE_DOMAIN :: "byte list" where
  "INVITE_DOMAIN = domain ''agent-scale-control-invite-v5''"
definition CLAIM_DOMAIN :: "byte list" where
  "CLAIM_DOMAIN = domain ''agent-scale-control-claim-v5''"
definition EDGE_INVITE_REQUEST_DOMAIN :: "byte list" where
  "EDGE_INVITE_REQUEST_DOMAIN = domain ''agent-scale-control-edge-invite-request-v5''"
definition EDGE_REMOVE_REQUEST_DOMAIN :: "byte list" where
  "EDGE_REMOVE_REQUEST_DOMAIN = domain ''agent-scale-control-edge-remove-request-v5''"
definition STATUS_REQUEST_DOMAIN :: "byte list" where
  "STATUS_REQUEST_DOMAIN = domain ''agent-scale-control-status-request-v5''"
definition WATCH_DOMAIN :: "byte list" where
  "WATCH_DOMAIN = domain ''agent-scale-control-watch-v5''"
definition MAP_DOMAIN :: "byte list" where
  "MAP_DOMAIN = domain ''agent-scale-control-map-v5''"

section \<open>Messages\<close>

datatype InviteKind = IKClient | IKEdge string | IKRelay string

record Invite =
  inv_protocol_version :: nat
  inv_audience :: string
  inv_control_url :: string
  inv_control_id :: string
  inv_invite_id :: string
  inv_name :: string
  inv_kind :: InviteKind
  inv_secret_hash :: string
  inv_expires_at :: int

record JoinToken =
  jt_invite :: Invite
  jt_secret :: string
  jt_signature :: Signature

record Claim =
  cl_protocol_version :: nat
  cl_invite_id :: string
  cl_endpoint_id :: string
  cl_issued_at :: int
  cl_nonce :: string
  cl_relay_qad_port :: "nat option"
  cl_relay_tls_csr :: "byte list option"

record ClaimRequest =
  cr_token :: JoinToken
  cr_claim :: Claim
  cr_signature :: Signature

record EdgeInviteRequest =
  eir_protocol_version :: nat
  eir_client_id :: string
  eir_audience :: string
  eir_request_id :: string
  eir_issued_at :: int
  eir_name :: string
  eir_ttl_secs :: nat
  eir_signature :: Signature

record EdgeRemoveRequest =
  err_protocol_version :: nat
  err_client_id :: string
  err_audience :: string
  err_nonce :: string
  err_issued_at :: int
  err_name :: string
  err_endpoint_id :: string
  err_signature :: Signature

record StatusRequest =
  sr_protocol_version :: nat
  sr_client_id :: string
  sr_audience :: string
  sr_issued_at :: int
  sr_nonce :: string
  sr_signature :: Signature

record WatchRequest =
  wr_protocol_version :: nat
  wr_endpoint_id :: string
  wr_known_revision :: nat
  wr_issued_at :: int
  wr_nonce :: string
  wr_relay_qad_port :: "nat option"
  wr_signature :: Signature

record RelayInfo =
  ri_name :: string
  ri_url :: string
  ri_qad_port :: "nat option"

record EdgeInfo =
  ei_name :: string
  ei_endpoint_id :: string
  ei_owner_id :: string
  ei_owner_name :: string

record ClientInfo =
  ci_name :: string
  ci_endpoint_id :: string
  ci_edges :: nat

record RelayNodeInfo =
  rni_name :: string
  rni_endpoint_id :: string
  rni_url :: string
  rni_qad_port :: "nat option"

record InviteInfo =
  ii_invite_id :: string
  ii_name :: string
  ii_kind :: InviteKind
  ii_expires_at :: int
  ii_state :: string

record Overview =
  ov_revision :: nat
  ov_clients :: "ClientInfo list"
  ov_edges :: "EdgeInfo list"
  ov_relays :: "RelayNodeInfo list"
  ov_invites :: "InviteInfo list"

record NodeMap =
  nm_protocol_version :: nat
  nm_audience :: string
  nm_control_url :: string
  nm_control_id :: string
  nm_revision :: nat
  nm_issued_at :: int
  nm_recipient_id :: string
  nm_relays :: "RelayInfo list"
  nm_relay_credential :: "string option"
  nm_relay_ca_der :: "byte list"
  nm_allowed_clients :: "string list"
  nm_edges :: "EdgeInfo list"

record SignedNodeMap =
  snm_map :: NodeMap
  snm_signature :: Signature

record ControlStatus =
  cst_audience :: string
  cst_control_url :: string
  cst_control_id :: string
  cst_revision :: nat
  cst_clients :: nat
  cst_edges :: nat
  cst_relays :: nat

record JoinResult =
  jr_name :: string
  jr_kind :: InviteKind
  jr_map :: SignedNodeMap
  jr_relay_tls_certificate_der :: "byte list option"

record InviteResult =
  ir_invite_id :: string
  ir_join_url :: string
  ir_expires_at :: int

section \<open>Serialization\<close>

definition domain_bytes :: "Ext \<Rightarrow> byte list \<Rightarrow> json \<Rightarrow> byte list" where
  "domain_bytes X prefix v = prefix @ json_to_vec X v"

definition ensure_protocol_version :: "nat \<Rightarrow> string + unit" where
  "ensure_protocol_version version = ensure (version = CONTROL_PROTOCOL_VERSION)
     (''unsupported control protocol version '' @ show_nat version @ ''; expected '' @
      show_nat CONTROL_PROTOCOL_VERSION)"

definition hash_secret :: "Ext \<Rightarrow> string \<Rightarrow> string" where
  "hash_secret X secret =
     hex_encode X (sha256 X (domain ''agent-scale-invite-secret-v2'' @ string_bytes secret))"

fun InviteKind_json :: "InviteKind \<Rightarrow> json" where
  "InviteKind_json IKClient = JObj [(''kind'', JStr ''client'')]"
| "InviteKind_json (IKEdge owner_id) =
     JObj [(''kind'', JStr ''edge''), (''owner_id'', JStr owner_id)]"
| "InviteKind_json (IKRelay url) = JObj [(''kind'', JStr ''relay''), (''url'', JStr url)]"

definition Invite_json :: "Invite \<Rightarrow> json" where
  "Invite_json i = JObj [
     (''protocol_version'', unsigned_json (inv_protocol_version i)),
     (''audience'', JStr (inv_audience i)),
     (''control_url'', JStr (inv_control_url i)),
     (''control_id'', JStr (inv_control_id i)),
     (''invite_id'', JStr (inv_invite_id i)),
     (''name'', JStr (inv_name i)),
     (''kind'', InviteKind_json (inv_kind i)),
     (''secret_hash'', JStr (inv_secret_hash i)),
     (''expires_at'', JNum (inv_expires_at i))]"

definition JoinToken_json :: "Ext \<Rightarrow> JoinToken \<Rightarrow> json" where
  "JoinToken_json X t = JObj [
     (''invite'', Invite_json (jt_invite t)),
     (''secret'', JStr (jt_secret t)),
     (''signature'', sig_to_json X (jt_signature t))]"

text \<open>\<open>skip_serializing_if = "Option::is_none"\<close>: an absent value leaves no field.\<close>

fun skip_none :: "string \<Rightarrow> ('a \<Rightarrow> json) \<Rightarrow> 'a option \<Rightarrow> (string \<times> json) list" where
  "skip_none name f None = []"
| "skip_none name f (Some x) = [(name, f x)]"

definition Claim_json :: "Claim \<Rightarrow> json" where
  "Claim_json c = JObj ([
     (''protocol_version'', unsigned_json (cl_protocol_version c)),
     (''invite_id'', JStr (cl_invite_id c)),
     (''endpoint_id'', JStr (cl_endpoint_id c)),
     (''issued_at'', JNum (cl_issued_at c)),
     (''nonce'', JStr (cl_nonce c))] @
     skip_none ''relay_qad_port'' unsigned_json (cl_relay_qad_port c) @
     skip_none ''relay_tls_csr'' bytes_json (cl_relay_tls_csr c))"

definition RelayInfo_json :: "RelayInfo \<Rightarrow> json" where
  "RelayInfo_json r = JObj [
     (''name'', JStr (ri_name r)),
     (''url'', JStr (ri_url r)),
     (''qad_port'', option_json unsigned_json (ri_qad_port r))]"

definition EdgeInfo_json :: "EdgeInfo \<Rightarrow> json" where
  "EdgeInfo_json e = JObj [
     (''name'', JStr (ei_name e)),
     (''endpoint_id'', JStr (ei_endpoint_id e)),
     (''owner_id'', JStr (ei_owner_id e)),
     (''owner_name'', JStr (ei_owner_name e))]"

definition NodeMap_json :: "NodeMap \<Rightarrow> json" where
  "NodeMap_json m = JObj ([
     (''protocol_version'', unsigned_json (nm_protocol_version m)),
     (''audience'', JStr (nm_audience m)),
     (''control_url'', JStr (nm_control_url m)),
     (''control_id'', JStr (nm_control_id m)),
     (''revision'', unsigned_json (nm_revision m)),
     (''issued_at'', JNum (nm_issued_at m)),
     (''recipient_id'', JStr (nm_recipient_id m)),
     (''relays'', JArr (map RelayInfo_json (nm_relays m)))] @
     skip_none ''relay_credential'' JStr (nm_relay_credential m) @ [
     (''relay_ca_der'', bytes_json (nm_relay_ca_der m)),
     (''allowed_clients'', JArr (map JStr (nm_allowed_clients m))),
     (''edges'', JArr (map EdgeInfo_json (nm_edges m)))])"

section \<open>Join tokens\<close>

definition JoinToken_new :: "Ext \<Rightarrow> Invite \<Rightarrow> string \<Rightarrow> SecretKey \<Rightarrow> JoinToken" where
  "JoinToken_new X invite secret key = \<lparr>
     jt_invite = invite,
     jt_secret = secret,
     jt_signature = ed_sign X key (domain_bytes X INVITE_DOMAIN (Invite_json invite))\<rparr>"

definition JoinToken_verify :: "Ext \<Rightarrow> JoinToken \<Rightarrow> string + EndpointId" where
  "JoinToken_verify X t =
     and_then (ensure_protocol_version (inv_protocol_version (jt_invite t))) (\<lambda>_.
     and_then (with_context ''invalid control id'' (id_parse X (inv_control_id (jt_invite t)))) (\<lambda>id.
     and_then (ensure (ed_verify X id (domain_bytes X INVITE_DOMAIN (Invite_json (jt_invite t)))
         (jt_signature t)) ''invalid invite signature'') (\<lambda>_.
     and_then (ensure (hash_secret X (jt_secret t) = inv_secret_hash (jt_invite t))
         ''invalid invite secret'') (\<lambda>_.
     Inr id))))"

definition JoinToken_encode :: "Ext \<Rightarrow> JoinToken \<Rightarrow> string" where
  "JoinToken_encode X t = b64_encode X (json_to_vec X (JoinToken_json X t))"

definition field :: "string \<Rightarrow> (json \<Rightarrow> string + 'a) \<Rightarrow> json \<Rightarrow> string + 'a" where
  "field name f v = and_then (obj_field name v) f"

definition InviteKind_of_json :: "json \<Rightarrow> string + InviteKind" where
  "InviteKind_of_json v = and_then (field ''kind'' as_string v) (\<lambda>tag.
     if tag = ''client'' then Inr IKClient
     else if tag = ''edge'' then map_ok IKEdge (field ''owner_id'' as_string v)
     else if tag = ''relay'' then map_ok IKRelay (field ''url'' as_string v)
     else Inl ''unknown variant'')"

definition Invite_of_json :: "json \<Rightarrow> string + Invite" where
  "Invite_of_json v =
     and_then (field ''protocol_version'' (as_unsigned 32) v) (\<lambda>protocol_version.
     and_then (field ''audience'' as_string v) (\<lambda>audience.
     and_then (field ''control_url'' as_string v) (\<lambda>control_url.
     and_then (field ''control_id'' as_string v) (\<lambda>control_id.
     and_then (field ''invite_id'' as_string v) (\<lambda>invite_id.
     and_then (field ''name'' as_string v) (\<lambda>name.
     and_then (field ''kind'' InviteKind_of_json v) (\<lambda>kind.
     and_then (field ''secret_hash'' as_string v) (\<lambda>secret_hash.
     and_then (field ''expires_at'' as_i64 v) (\<lambda>expires_at.
     Inr \<lparr>inv_protocol_version = protocol_version, inv_audience = audience,
       inv_control_url = control_url, inv_control_id = control_id,
       inv_invite_id = invite_id, inv_name = name, inv_kind = kind,
       inv_secret_hash = secret_hash, inv_expires_at = expires_at\<rparr>)))))))))"

definition JoinToken_of_json :: "Ext \<Rightarrow> json \<Rightarrow> string + JoinToken" where
  "JoinToken_of_json X v =
     and_then (field ''invite'' Invite_of_json v) (\<lambda>invite.
     and_then (field ''secret'' as_string v) (\<lambda>secret.
     and_then (field ''signature'' (sig_of_json X) v) (\<lambda>signature.
     Inr \<lparr>jt_invite = invite, jt_secret = secret, jt_signature = signature\<rparr>)))"

definition JoinToken_decode :: "Ext \<Rightarrow> string \<Rightarrow> string + JoinToken" where
  "JoinToken_decode X value =
     and_then (with_context ''invalid join token encoding'' (b64_decode X value)) (\<lambda>bytes.
     with_context ''invalid join token''
       (and_then (json_from_slice X bytes) (JoinToken_of_json X)))"

definition join_url :: "Ext \<Rightarrow> JoinToken \<Rightarrow> string" where
  "join_url X t = trim_end_matches (CHR ''/'') (inv_control_url (jt_invite t)) @ ''/join#'' @
     JoinToken_encode X t"

text \<open>\<open>decode_json_fragment\<close>, with the type's own reader as argument.\<close>

definition decode_json_fragment :: "Ext \<Rightarrow> (json \<Rightarrow> string + 'a) \<Rightarrow> string \<Rightarrow> string + 'a" where
  "decode_json_fragment X of_json value =
     and_then (with_context ''invalid base64url'' (b64_decode X value)) (\<lambda>bytes.
     with_context ''invalid encoded JSON'' (and_then (json_from_slice X bytes) of_json))"

section \<open>Claims\<close>

definition ClaimRequest_sign_with_relay_qad ::
  "Ext \<Rightarrow> JoinToken \<Rightarrow> SecretKey \<Rightarrow> int \<Rightarrow> string \<Rightarrow> nat option \<Rightarrow> byte list option \<Rightarrow> ClaimRequest"
where
  "ClaimRequest_sign_with_relay_qad X token key issued_at nonce qad_port csr =
     (let c = \<lparr>cl_protocol_version = CONTROL_PROTOCOL_VERSION,
                cl_invite_id = inv_invite_id (jt_invite token),
                cl_endpoint_id = id_to_string X (ed_public X key),
                cl_issued_at = issued_at, cl_nonce = nonce,
                cl_relay_qad_port = qad_port, cl_relay_tls_csr = csr\<rparr>
      in \<lparr>cr_token = token, cr_claim = c,
           cr_signature = ed_sign X key (domain_bytes X CLAIM_DOMAIN (Claim_json c))\<rparr>)"

definition ClaimRequest_sign ::
  "Ext \<Rightarrow> JoinToken \<Rightarrow> SecretKey \<Rightarrow> int \<Rightarrow> string \<Rightarrow> ClaimRequest" where
  "ClaimRequest_sign X token key issued_at nonce =
     ClaimRequest_sign_with_relay_qad X token key issued_at nonce None None"

definition ClaimRequest_verify :: "Ext \<Rightarrow> ClaimRequest \<Rightarrow> string + EndpointId" where
  "ClaimRequest_verify X r =
     and_then (ensure_protocol_version (cl_protocol_version (cr_claim r))) (\<lambda>_.
     and_then (ensure (cl_invite_id (cr_claim r) = inv_invite_id (jt_invite (cr_token r)))
         ''invite id mismatch'') (\<lambda>_.
     and_then (with_context ''invalid endpoint id'' (id_parse X (cl_endpoint_id (cr_claim r)))) (\<lambda>id.
     and_then (ensure (ed_verify X id (domain_bytes X CLAIM_DOMAIN (Claim_json (cr_claim r)))
         (cr_signature r)) ''invalid claim signature'') (\<lambda>_.
     Inr id))))"

section \<open>Signed requests of registered nodes\<close>

definition placeholder_signature :: "Ext \<Rightarrow> SecretKey \<Rightarrow> Signature" where
  "placeholder_signature X key = ed_sign X key (string_bytes ''placeholder'')"

definition EdgeInviteRequest_signing_bytes :: "Ext \<Rightarrow> EdgeInviteRequest \<Rightarrow> byte list" where
  "EdgeInviteRequest_signing_bytes X r = domain_bytes X EDGE_INVITE_REQUEST_DOMAIN (JArr [
     unsigned_json (eir_protocol_version r), JStr (eir_client_id r), JStr (eir_audience r),
     JStr (eir_request_id r), JNum (eir_issued_at r), JStr (eir_name r),
     unsigned_json (eir_ttl_secs r)])"

definition EdgeInviteRequest_sign ::
  "Ext \<Rightarrow> SecretKey \<Rightarrow> string \<Rightarrow> string \<Rightarrow> int \<Rightarrow> string \<Rightarrow> nat \<Rightarrow> EdgeInviteRequest" where
  "EdgeInviteRequest_sign X key audience request_id issued_at name ttl_secs =
     (let request = \<lparr>eir_protocol_version = CONTROL_PROTOCOL_VERSION,
        eir_client_id = id_to_string X (ed_public X key), eir_audience = audience,
        eir_request_id = request_id, eir_issued_at = issued_at, eir_name = name,
        eir_ttl_secs = ttl_secs, eir_signature = placeholder_signature X key\<rparr>
      in request\<lparr>eir_signature := ed_sign X key (EdgeInviteRequest_signing_bytes X request)\<rparr>)"

definition EdgeInviteRequest_verify :: "Ext \<Rightarrow> EdgeInviteRequest \<Rightarrow> string + EndpointId" where
  "EdgeInviteRequest_verify X r =
     and_then (ensure_protocol_version (eir_protocol_version r)) (\<lambda>_.
     and_then (with_context ''invalid client id'' (id_parse X (eir_client_id r))) (\<lambda>id.
     and_then (ensure (ed_verify X id (EdgeInviteRequest_signing_bytes X r) (eir_signature r))
         ''invalid edge invitation request signature'') (\<lambda>_.
     Inr id)))"

definition EdgeRemoveRequest_signing_bytes :: "Ext \<Rightarrow> EdgeRemoveRequest \<Rightarrow> byte list" where
  "EdgeRemoveRequest_signing_bytes X r = domain_bytes X EDGE_REMOVE_REQUEST_DOMAIN (JArr [
     unsigned_json (err_protocol_version r), JStr (err_client_id r), JStr (err_audience r),
     JStr (err_nonce r), JNum (err_issued_at r), JStr (err_name r), JStr (err_endpoint_id r)])"

definition EdgeRemoveRequest_sign ::
  "Ext \<Rightarrow> SecretKey \<Rightarrow> string \<Rightarrow> string \<Rightarrow> int \<Rightarrow> string \<Rightarrow> string \<Rightarrow> string + EdgeRemoveRequest" where
  "EdgeRemoveRequest_sign X key audience nonce issued_at name endpoint_id =
     and_then (with_context ''invalid edge endpoint id'' (id_parse X endpoint_id)) (\<lambda>_.
     let request = \<lparr>err_protocol_version = CONTROL_PROTOCOL_VERSION,
        err_client_id = id_to_string X (ed_public X key), err_audience = audience,
        err_nonce = nonce, err_issued_at = issued_at, err_name = name,
        err_endpoint_id = endpoint_id, err_signature = placeholder_signature X key\<rparr>
     in Inr (request\<lparr>err_signature := ed_sign X key (EdgeRemoveRequest_signing_bytes X request)\<rparr>))"

definition EdgeRemoveRequest_verify :: "Ext \<Rightarrow> EdgeRemoveRequest \<Rightarrow> string + EndpointId" where
  "EdgeRemoveRequest_verify X r =
     and_then (ensure_protocol_version (err_protocol_version r)) (\<lambda>_.
     and_then (with_context ''invalid edge endpoint id'' (id_parse X (err_endpoint_id r))) (\<lambda>_.
     and_then (with_context ''invalid client id'' (id_parse X (err_client_id r))) (\<lambda>id.
     and_then (ensure (ed_verify X id (EdgeRemoveRequest_signing_bytes X r) (err_signature r))
         ''invalid edge removal request signature'') (\<lambda>_.
     Inr id))))"

definition StatusRequest_signing_bytes :: "Ext \<Rightarrow> StatusRequest \<Rightarrow> byte list" where
  "StatusRequest_signing_bytes X r = domain_bytes X STATUS_REQUEST_DOMAIN (JArr [
     unsigned_json (sr_protocol_version r), JStr (sr_client_id r), JStr (sr_audience r),
     JNum (sr_issued_at r), JStr (sr_nonce r)])"

definition StatusRequest_sign ::
  "Ext \<Rightarrow> SecretKey \<Rightarrow> string \<Rightarrow> int \<Rightarrow> string \<Rightarrow> StatusRequest" where
  "StatusRequest_sign X key audience issued_at nonce =
     (let request = \<lparr>sr_protocol_version = CONTROL_PROTOCOL_VERSION,
        sr_client_id = id_to_string X (ed_public X key), sr_audience = audience,
        sr_issued_at = issued_at, sr_nonce = nonce, sr_signature = placeholder_signature X key\<rparr>
      in request\<lparr>sr_signature := ed_sign X key (StatusRequest_signing_bytes X request)\<rparr>)"

definition StatusRequest_verify :: "Ext \<Rightarrow> StatusRequest \<Rightarrow> string + EndpointId" where
  "StatusRequest_verify X r =
     and_then (ensure_protocol_version (sr_protocol_version r)) (\<lambda>_.
     and_then (with_context ''invalid client id'' (id_parse X (sr_client_id r))) (\<lambda>id.
     and_then (ensure (ed_verify X id (StatusRequest_signing_bytes X r) (sr_signature r))
         ''invalid status request signature'') (\<lambda>_.
     Inr id)))"

definition WatchRequest_signing_bytes :: "Ext \<Rightarrow> WatchRequest \<Rightarrow> byte list" where
  "WatchRequest_signing_bytes X r = domain_bytes X WATCH_DOMAIN (JArr [
     unsigned_json (wr_protocol_version r), JStr (wr_endpoint_id r),
     unsigned_json (wr_known_revision r), JNum (wr_issued_at r), JStr (wr_nonce r),
     option_json unsigned_json (wr_relay_qad_port r)])"

definition WatchRequest_sign ::
  "Ext \<Rightarrow> SecretKey \<Rightarrow> nat \<Rightarrow> int \<Rightarrow> string \<Rightarrow> WatchRequest" where
  "WatchRequest_sign X key known_revision issued_at nonce =
     (let request = \<lparr>wr_protocol_version = CONTROL_PROTOCOL_VERSION,
        wr_endpoint_id = id_to_string X (ed_public X key), wr_known_revision = known_revision,
        wr_issued_at = issued_at, wr_nonce = nonce, wr_relay_qad_port = None,
        wr_signature = placeholder_signature X key\<rparr>
      in request\<lparr>wr_signature := ed_sign X key (WatchRequest_signing_bytes X request)\<rparr>)"

definition WatchRequest_sign_relay ::
  "Ext \<Rightarrow> SecretKey \<Rightarrow> nat \<Rightarrow> int \<Rightarrow> string \<Rightarrow> nat option \<Rightarrow> WatchRequest" where
  "WatchRequest_sign_relay X key known_revision issued_at nonce qad_port =
     (let request = (WatchRequest_sign X key known_revision issued_at nonce)
            \<lparr>wr_relay_qad_port := qad_port\<rparr>
      in request\<lparr>wr_signature := ed_sign X key (WatchRequest_signing_bytes X request)\<rparr>)"

definition WatchRequest_verify :: "Ext \<Rightarrow> WatchRequest \<Rightarrow> string + EndpointId" where
  "WatchRequest_verify X r =
     and_then (ensure_protocol_version (wr_protocol_version r)) (\<lambda>_.
     and_then (with_context ''invalid endpoint id'' (id_parse X (wr_endpoint_id r))) (\<lambda>id.
     and_then (ensure (ed_verify X id (WatchRequest_signing_bytes X r) (wr_signature r))
         ''invalid watch signature'') (\<lambda>_.
     Inr id)))"

section \<open>Node maps\<close>

definition SignedNodeMap_sign :: "Ext \<Rightarrow> NodeMap \<Rightarrow> SecretKey \<Rightarrow> SignedNodeMap" where
  "SignedNodeMap_sign X m key = \<lparr>snm_map = m,
     snm_signature = ed_sign X key (domain_bytes X MAP_DOMAIN (NodeMap_json m))\<rparr>"

definition SignedNodeMap_verify ::
  "Ext \<Rightarrow> SignedNodeMap \<Rightarrow> EndpointId \<Rightarrow> EndpointId \<Rightarrow> string + unit" where
  "SignedNodeMap_verify X s control_id recipient =
     and_then (ensure_protocol_version (nm_protocol_version (snm_map s))) (\<lambda>_.
     and_then (ensure (nm_control_id (snm_map s) = id_to_string X control_id)
         ''control id mismatch'') (\<lambda>_.
     and_then (ensure (nm_recipient_id (snm_map s) = id_to_string X recipient)
         ''map recipient mismatch'') (\<lambda>_.
     ensure (ed_verify X control_id (domain_bytes X MAP_DOMAIN (NodeMap_json (snm_map s)))
         (snm_signature s)) ''invalid node map signature'')))"

section \<open>What a signature covers\<close>

lemma InviteKind_json_inject [simp]: "InviteKind_json a = InviteKind_json b \<longleftrightarrow> a = b"
  by (cases a; cases b) auto

lemma Invite_json_inject [simp]: "Invite_json a = Invite_json b \<longleftrightarrow> a = b"
  by (cases a; cases b) (simp add: Invite_json_def)

lemma skip_none_append_inject:
  assumes "\<And>x y. f x = f y \<longleftrightarrow> x = y" "n \<notin> fst ` set xs" "n \<notin> fst ` set ys"
  shows "skip_none n f a @ xs = skip_none n f b @ ys \<longleftrightarrow> a = b \<and> xs = ys"
  using assms by (cases a; cases b) (auto simp: image_iff)

lemma skip_none_inject:
  assumes "\<And>x y. f x = f y \<longleftrightarrow> x = y"
  shows "skip_none n f a = skip_none n f b \<longleftrightarrow> a = b"
  using assms by (cases a; cases b) auto

lemma skip_none_keys: "fst ` set (skip_none n f x) \<subseteq> {n}"
  by (cases x) auto

lemma Claim_json_inject [simp]: "Claim_json a = Claim_json b \<longleftrightarrow> a = b"
proof -
  have "''relay_qad_port'' \<notin> fst ` set (skip_none ''relay_tls_csr'' bytes_json x)" for x
    using skip_none_keys by fastforce
  then show ?thesis
    by (cases a; cases b)
      (simp add: Claim_json_def skip_none_append_inject skip_none_inject)
qed

lemma qad_json_inject [simp]:
  "option_json unsigned_json a = option_json unsigned_json b \<longleftrightarrow> a = b"
  by (rule option_json_inject) (simp_all add: unsigned_json_def)

lemma RelayInfo_json_inject [simp]: "RelayInfo_json a = RelayInfo_json b \<longleftrightarrow> a = b"
  by (cases a; cases b) (simp add: RelayInfo_json_def)

lemma EdgeInfo_json_inject [simp]: "EdgeInfo_json a = EdgeInfo_json b \<longleftrightarrow> a = b"
  by (cases a; cases b) (simp add: EdgeInfo_json_def)

lemma map_json_inject:
  "(\<And>x y. f x = f y \<longleftrightarrow> x = y) \<Longrightarrow> map f xs = map f ys \<longleftrightarrow> xs = ys"
  by (metis injI inj_map_eq_map)

lemma NodeMap_json_inject [simp]: "NodeMap_json a = NodeMap_json b \<longleftrightarrow> a = b"
  by (cases a; cases b)
    (simp add: NodeMap_json_def map_json_inject skip_none_append_inject skip_none_inject)

lemma domain_bytes_inject:
  "json_laws X \<Longrightarrow> domain_bytes X d v = domain_bytes X d w \<longleftrightarrow> v = w"
  by (simp add: domain_bytes_def json_to_vec_inject)

text \<open>
  The contract of a signed request: what verification establishes, and that two
  requests with the same signed bytes say the same.  It is provided by each of
  the four request types and used through the interpretations below.
\<close>

locale signed_request =
  fixes X :: Ext
    and version :: "'m \<Rightarrow> nat"
    and claimed :: "'m \<Rightarrow> string"
    and preimage :: "'m \<Rightarrow> byte list"
    and signature :: "'m \<Rightarrow> Signature"
    and content :: "'m \<Rightarrow> 'c"
    and verify :: "'m \<Rightarrow> string + EndpointId"
  assumes verified: "verify m = Inr i \<Longrightarrow> version m = CONTROL_PROTOCOL_VERSION \<and>
      id_parse X (claimed m) = Inr i \<and> ed_verify X i (preimage m) (signature m)"
    and accepts: "version m = CONTROL_PROTOCOL_VERSION \<Longrightarrow> id_parse X (claimed m) = Inr i \<Longrightarrow>
      ed_verify X i (preimage m) (signature m) \<Longrightarrow> is_ok (verify m) \<Longrightarrow> verify m = Inr i"
    and covered: "json_laws X \<Longrightarrow> preimage m = preimage m' \<Longrightarrow> content m = content m'"
begin

lemma identity_is_claimed:
  "id_laws X \<Longrightarrow> verify m = Inr i \<Longrightarrow> claimed m = id_to_string X j \<Longrightarrow> i = j"
  using verified [of m i] by (simp add: id_parse_to_string)

text \<open>An altered request is accepted only with a signature over other bytes.\<close>

lemma altered_needs_other_bytes:
  "json_laws X \<Longrightarrow> content m \<noteq> content m' \<Longrightarrow> verify m = Inr i \<Longrightarrow>
   preimage m \<noteq> preimage m' \<and> ed_verify X i (preimage m) (signature m)"
  using verified [of m i] covered [of m m'] by blast

end

interpretation edge_invite_sig: signed_request X eir_protocol_version eir_client_id
  "EdgeInviteRequest_signing_bytes X" eir_signature "\<lambda>r. r\<lparr>eir_signature := Signature []\<rparr>"
  "EdgeInviteRequest_verify X" for X
proof unfold_locales
  fix m m' :: EdgeInviteRequest
  assume "json_laws X" "EdgeInviteRequest_signing_bytes X m = EdgeInviteRequest_signing_bytes X m'"
  then show "m\<lparr>eir_signature := Signature []\<rparr> = m'\<lparr>eir_signature := Signature []\<rparr>"
    by (cases m; cases m') (simp add: EdgeInviteRequest_signing_bytes_def domain_bytes_inject)
qed (auto simp: EdgeInviteRequest_verify_def ensure_protocol_version_def is_ok_iff)

interpretation edge_remove_sig: signed_request X err_protocol_version err_client_id
  "EdgeRemoveRequest_signing_bytes X" err_signature "\<lambda>r. r\<lparr>err_signature := Signature []\<rparr>"
  "EdgeRemoveRequest_verify X" for X
proof unfold_locales
  fix m m' :: EdgeRemoveRequest
  assume "json_laws X" "EdgeRemoveRequest_signing_bytes X m = EdgeRemoveRequest_signing_bytes X m'"
  then show "m\<lparr>err_signature := Signature []\<rparr> = m'\<lparr>err_signature := Signature []\<rparr>"
    by (cases m; cases m') (simp add: EdgeRemoveRequest_signing_bytes_def domain_bytes_inject)
qed (auto simp: EdgeRemoveRequest_verify_def ensure_protocol_version_def is_ok_iff)

interpretation status_sig: signed_request X sr_protocol_version sr_client_id
  "StatusRequest_signing_bytes X" sr_signature "\<lambda>r. r\<lparr>sr_signature := Signature []\<rparr>"
  "StatusRequest_verify X" for X
proof unfold_locales
  fix m m' :: StatusRequest
  assume "json_laws X" "StatusRequest_signing_bytes X m = StatusRequest_signing_bytes X m'"
  then show "m\<lparr>sr_signature := Signature []\<rparr> = m'\<lparr>sr_signature := Signature []\<rparr>"
    by (cases m; cases m') (simp add: StatusRequest_signing_bytes_def domain_bytes_inject)
qed (auto simp: StatusRequest_verify_def ensure_protocol_version_def is_ok_iff)

interpretation watch_sig: signed_request X wr_protocol_version wr_endpoint_id
  "WatchRequest_signing_bytes X" wr_signature "\<lambda>r. r\<lparr>wr_signature := Signature []\<rparr>"
  "WatchRequest_verify X" for X
proof unfold_locales
  fix m m' :: WatchRequest
  assume "json_laws X" "WatchRequest_signing_bytes X m = WatchRequest_signing_bytes X m'"
  then show "m\<lparr>wr_signature := Signature []\<rparr> = m'\<lparr>wr_signature := Signature []\<rparr>"
    by (cases m; cases m') (simp add: WatchRequest_signing_bytes_def domain_bytes_inject)
qed (auto simp: WatchRequest_verify_def ensure_protocol_version_def is_ok_iff)

section \<open>Signing and verifying\<close>

lemma EdgeInviteRequest_sign_verify:
  "sig_laws X \<Longrightarrow> id_laws X \<Longrightarrow>
   EdgeInviteRequest_verify X (EdgeInviteRequest_sign X key a r t n s) = Inr (ed_public X key)"
  by (simp add: EdgeInviteRequest_verify_def EdgeInviteRequest_sign_def Let_def
      ensure_protocol_version_def EdgeInviteRequest_signing_bytes_def ext_round_trips)

lemma EdgeRemoveRequest_sign_verify:
  "sig_laws X \<Longrightarrow> id_laws X \<Longrightarrow> EdgeRemoveRequest_sign X key a nc t n e = Inr r \<Longrightarrow>
   EdgeRemoveRequest_verify X r = Inr (ed_public X key)"
  by (auto simp: EdgeRemoveRequest_verify_def EdgeRemoveRequest_sign_def Let_def
      ensure_protocol_version_def EdgeRemoveRequest_signing_bytes_def ext_round_trips)

lemma StatusRequest_sign_verify:
  "sig_laws X \<Longrightarrow> id_laws X \<Longrightarrow>
   StatusRequest_verify X (StatusRequest_sign X key a t n) = Inr (ed_public X key)"
  by (simp add: StatusRequest_verify_def StatusRequest_sign_def Let_def
      ensure_protocol_version_def StatusRequest_signing_bytes_def ext_round_trips)

lemma WatchRequest_sign_verify:
  "sig_laws X \<Longrightarrow> id_laws X \<Longrightarrow>
   WatchRequest_verify X (WatchRequest_sign X key k t n) = Inr (ed_public X key)"
  by (simp add: WatchRequest_verify_def WatchRequest_sign_def Let_def
      ensure_protocol_version_def WatchRequest_signing_bytes_def ext_round_trips)

lemma WatchRequest_sign_relay_verify:
  "sig_laws X \<Longrightarrow> id_laws X \<Longrightarrow>
   WatchRequest_verify X (WatchRequest_sign_relay X key k t n p) = Inr (ed_public X key)"
  by (simp add: WatchRequest_verify_def WatchRequest_sign_relay_def WatchRequest_sign_def Let_def
      ensure_protocol_version_def WatchRequest_signing_bytes_def ext_round_trips)

lemma ClaimRequest_sign_verify:
  "sig_laws X \<Longrightarrow> id_laws X \<Longrightarrow>
   ClaimRequest_verify X (ClaimRequest_sign_with_relay_qad X tok key t n p c) = Inr (ed_public X key)"
  by (simp add: ClaimRequest_verify_def ClaimRequest_sign_with_relay_qad_def Let_def
      ensure_protocol_version_def ext_round_trips)

lemma JoinToken_new_verify:
  assumes "sig_laws X" "id_laws X"
  shows "JoinToken_verify X (JoinToken_new X invite secret key) = Inr (ed_public X key) \<longleftrightarrow>
     inv_protocol_version invite = CONTROL_PROTOCOL_VERSION \<and>
     id_parse X (inv_control_id invite) = Inr (ed_public X key) \<and>
     hash_secret X secret = inv_secret_hash invite"
  using assms by (auto simp: JoinToken_verify_def JoinToken_new_def ensure_protocol_version_def
      ext_round_trips)

lemma SignedNodeMap_sign_verify:
  assumes "sig_laws X" "id_laws X"
  shows "SignedNodeMap_verify X (SignedNodeMap_sign X m key) (ed_public X key) recipient = Inr u \<longleftrightarrow>
     nm_protocol_version m = CONTROL_PROTOCOL_VERSION \<and>
     nm_control_id m = id_to_string X (ed_public X key) \<and>
     nm_recipient_id m = id_to_string X recipient"
  using assms by (auto simp: SignedNodeMap_verify_def SignedNodeMap_sign_def
      ensure_protocol_version_def ext_round_trips)

section \<open>Join tokens survive their text form\<close>

definition invite_in_range :: "Invite \<Rightarrow> bool" where
  "invite_in_range i \<longleftrightarrow> inv_protocol_version i < 2 ^ 32 \<and>
     i64_min \<le> inv_expires_at i \<and> inv_expires_at i \<le> i64_max"

lemma InviteKind_round_trip [simp]: "InviteKind_of_json (InviteKind_json k) = Inr k"
  by (cases k) (simp_all add: InviteKind_of_json_def field_def obj_field_def)

lemma Invite_round_trip: "invite_in_range i \<Longrightarrow> Invite_of_json (Invite_json i) = Inr i"
  by (simp add: Invite_of_json_def Invite_json_def field_def obj_field_def invite_in_range_def)

lemma JoinToken_json_round_trip:
  "json_laws X \<Longrightarrow> invite_in_range (jt_invite t) \<Longrightarrow>
   JoinToken_of_json X (JoinToken_json X t) = Inr t"
  by (simp add: JoinToken_of_json_def JoinToken_json_def field_def obj_field_def Invite_round_trip
      ext_round_trips)

section \<open>Properties\<close>

text \<open>C19: A request built by \<open>sign\<close> is accepted by the matching \<open>verify\<close> as coming
  from the signing key, for every kind of request (edge invitation, edge removal,
  status, watch, claim), with and without a relay's port; signing an edge removal refuses a
  malformed edge identity.\<close>

theorem signed_requests_verify:
  assumes "sig_laws X" "id_laws X"
  shows "EdgeInviteRequest_verify X (EdgeInviteRequest_sign X key aud rid t name ttl)
      = Inr (ed_public X key) \<and>
    and_then (EdgeRemoveRequest_sign X key aud nonce t name eid) (EdgeRemoveRequest_verify X)
      = (if is_ok (id_parse X eid) then Inr (ed_public X key) else Inl ''invalid edge endpoint id'') \<and>
    StatusRequest_verify X (StatusRequest_sign X key aud t nonce) = Inr (ed_public X key) \<and>
    WatchRequest_verify X (WatchRequest_sign X key known t nonce) = Inr (ed_public X key) \<and>
    WatchRequest_verify X (WatchRequest_sign_relay X key known t nonce port)
      = Inr (ed_public X key) \<and>
    ClaimRequest_verify X (ClaimRequest_sign X token key t nonce) = Inr (ed_public X key) \<and>
    ClaimRequest_verify X (ClaimRequest_sign_with_relay_qad X token key t nonce port csr)
      = Inr (ed_public X key)"
proof -
  have "and_then (EdgeRemoveRequest_sign X key aud nonce t name eid) (EdgeRemoveRequest_verify X)
      = (if is_ok (id_parse X eid) then Inr (ed_public X key) else Inl ''invalid edge endpoint id'')"
    using EdgeRemoveRequest_sign_verify [OF assms, of key aud nonce t name eid]
    by (cases "id_parse X eid") (simp_all add: EdgeRemoveRequest_sign_def with_context_def Let_def)
  with assms show ?thesis
    by (simp add: EdgeInviteRequest_sign_verify StatusRequest_sign_verify
        WatchRequest_sign_verify WatchRequest_sign_relay_verify ClaimRequest_sign_def ClaimRequest_sign_verify)
qed

theorem signed_requests_verify_witness:
  "EdgeInviteRequest_verify ref_ext
     (EdgeInviteRequest_sign ref_ext (SecretKey [7]) ''prod'' ''r1'' 100 ''edge'' 900)
   = Inr (ed_public ref_ext (SecretKey [7]))"
  using signed_requests_verify [of ref_ext "SecretKey [7]" "''prod''" "''r1''" 100 "''edge''" 900]
  by simp

text \<open>The signed bytes of a message determine its content, but for the signature.\<close>

lemma request_bytes_cover:
  assumes "json_laws X"
  shows "EdgeInviteRequest_signing_bytes X a = EdgeInviteRequest_signing_bytes X a' \<Longrightarrow>
        a\<lparr>eir_signature := s\<rparr> = a'\<lparr>eir_signature := s\<rparr>"
     and "EdgeRemoveRequest_signing_bytes X b = EdgeRemoveRequest_signing_bytes X b' \<Longrightarrow>
        b\<lparr>err_signature := s\<rparr> = b'\<lparr>err_signature := s\<rparr>"
     and "StatusRequest_signing_bytes X c = StatusRequest_signing_bytes X c' \<Longrightarrow>
        c\<lparr>sr_signature := s\<rparr> = c'\<lparr>sr_signature := s\<rparr>"
     and "WatchRequest_signing_bytes X d = WatchRequest_signing_bytes X d' \<Longrightarrow>
        d\<lparr>wr_signature := s\<rparr> = d'\<lparr>wr_signature := s\<rparr>"
proof -
  show "a\<lparr>eir_signature := s\<rparr> = a'\<lparr>eir_signature := s\<rparr>"
    if "EdgeInviteRequest_signing_bytes X a = EdgeInviteRequest_signing_bytes X a'"
    using edge_invite_sig.covered [OF assms that] by (cases a; cases a') simp
  show "b\<lparr>err_signature := s\<rparr> = b'\<lparr>err_signature := s\<rparr>"
    if "EdgeRemoveRequest_signing_bytes X b = EdgeRemoveRequest_signing_bytes X b'"
    using edge_remove_sig.covered [OF assms that] by (cases b; cases b') simp
  show "c\<lparr>sr_signature := s\<rparr> = c'\<lparr>sr_signature := s\<rparr>"
    if "StatusRequest_signing_bytes X c = StatusRequest_signing_bytes X c'"
    using status_sig.covered [OF assms that] by (cases c; cases c') simp
  show "d\<lparr>wr_signature := s\<rparr> = d'\<lparr>wr_signature := s\<rparr>"
    if "WatchRequest_signing_bytes X d = WatchRequest_signing_bytes X d'"
    using watch_sig.covered [OF assms that] by (cases d; cases d') simp
qed

text \<open>C21: A join token survives its text form: decoding the encoded token, or the part of
  the join URL after its first \<open>#\<close>, gives the token back.\<close>

theorem join_token_round_trip:
  assumes "text_laws X" "json_laws X" "invite_in_range (jt_invite t)"
  shows "JoinToken_decode X (JoinToken_encode X t) = Inr t \<and>
    (CHR ''#'' \<notin> set (inv_control_url (jt_invite t)) \<longrightarrow>
      and_then (ok_or ''no fragment'' (split_once (CHR ''#'') (join_url X t)))
        (\<lambda>parts. JoinToken_decode X (snd parts)) = Inr t)"
proof -
  have decode: "JoinToken_decode X (JoinToken_encode X t) = Inr t"
    using assms by (simp add: JoinToken_decode_def JoinToken_encode_def JoinToken_json_round_trip
        ext_round_trips)
  have "split_once (CHR ''#'') (join_url X t)
      = Some (trim_end_matches (CHR ''/'') (inv_control_url (jt_invite t)) @ ''/join'',
          JoinToken_encode X t)" if "CHR ''#'' \<notin> set (inv_control_url (jt_invite t))"
  proof -
    have "set (trim_end_matches c s) \<subseteq> set s" for c s
      using set_dropWhileD [of _ "\<lambda>x. x = c" "rev s"] by (auto simp: trim_end_matches_def)
    with that have "CHR ''#'' \<notin> set (trim_end_matches (CHR ''/'') (inv_control_url (jt_invite t)) @ ''/join'')"
      by auto
    from split_once_append [OF this] show ?thesis by (simp add: join_url_def)
  qed
  with decode show ?thesis by simp
qed

definition sample_invite :: Invite where
  "sample_invite = \<lparr>inv_protocol_version = 5, inv_audience = ''prod'',
     inv_control_url = ''https://c'', inv_control_id = id_to_string ref_ext (EndpointId [9]),
     inv_invite_id = ''i'', inv_name = ''dev'', inv_kind = IKClient,
     inv_secret_hash = hash_secret ref_ext ''s'', inv_expires_at = 100\<rparr>"

theorem join_token_round_trip_witness:
  "JoinToken_decode ref_ext (JoinToken_encode ref_ext
     (JoinToken_new ref_ext sample_invite ''s'' (SecretKey [9])))
   = Inr (JoinToken_new ref_ext sample_invite ''s'' (SecretKey [9]))"
  using join_token_round_trip [of ref_ext "JoinToken_new ref_ext sample_invite ''s'' (SecretKey [9])"]
  by (simp add: JoinToken_new_def sample_invite_def invite_in_range_def i64_min_def i64_max_def)

end
