(* ===== verification/Provisioner_Api.thy ===== *)
theory Provisioner_Api
  imports Control_Api
begin

text \<open>
  \<open>crates/control-api/src/provisioner.rs\<close>: the actions an external reconciler may
  ask for, the JSON body of a request, and the \<open>Authorization\<close> header that signs the
  digest of that exact body.
\<close>

definition PROVISIONER_AUTH_SCHEME :: string where
  "PROVISIONER_AUTH_SCHEME = ''AgentScale-Ed25519''"

definition REQUEST_DOMAIN :: "byte list" where
  "REQUEST_DOMAIN = domain ''agent-scale-control-provisioner-http-v1'' @ domain ''POST'' @
     domain ''/v1/provisioner''"

datatype ProvisionerAction =
    GetTopology
  | InviteClient (pa_name: string) (pa_ttl_secs: nat) (pa_secret: string)
  | InviteEdge (pa_owner: string) (pa_name: string) (pa_ttl_secs: nat) (pa_secret: string)
  | RevokeInvite (pa_invite_id: string)
  | RemoveClient (pa_name: string)
  | RemoveEdge (pa_owner: string) (pa_name: string)
  | TransferEdge (pa_owner: string) (pa_name: string) (pa_endpoint_id: string) (pa_new_owner: string)

record ProvisionerRequest =
  pr_protocol_version :: nat
  pr_audience :: string
  pr_request_id :: string
  pr_issued_at :: int
  pr_expected_revision :: "nat option"
  pr_action :: ProvisionerAction

record ProvisionerHttpRequest =
  ph_body :: "byte list"
  ph_authorization :: string

record ManagedEdgeInfo =
  me_name :: string
  me_endpoint_id :: string

record ManagedClientInfo =
  mc_name :: string
  mc_endpoint_id :: string
  mc_edges :: "ManagedEdgeInfo list"

record ProvisionerTopology =
  pt_revision :: nat
  pt_clients :: "ManagedClientInfo list"
  pt_invites :: "InviteInfo list"

datatype ProvisionerResponse =
    RTopology ProvisionerTopology
  | RInvite InviteResult
  | ROk nat

section \<open>The request body\<close>

fun ProvisionerAction_json :: "ProvisionerAction \<Rightarrow> json" where
  "ProvisionerAction_json GetTopology = JObj [(''action'', JStr ''get_topology'')]"
| "ProvisionerAction_json (InviteClient name ttl_secs secret) = JObj [
     (''action'', JStr ''invite_client''), (''name'', JStr name),
     (''ttl_secs'', unsigned_json ttl_secs), (''secret'', JStr secret)]"
| "ProvisionerAction_json (InviteEdge owner name ttl_secs secret) = JObj [
     (''action'', JStr ''invite_edge''), (''owner'', JStr owner), (''name'', JStr name),
     (''ttl_secs'', unsigned_json ttl_secs), (''secret'', JStr secret)]"
| "ProvisionerAction_json (RevokeInvite invite_id) = JObj [
     (''action'', JStr ''revoke_invite''), (''invite_id'', JStr invite_id)]"
| "ProvisionerAction_json (RemoveClient name) = JObj [
     (''action'', JStr ''remove_client''), (''name'', JStr name)]"
| "ProvisionerAction_json (RemoveEdge owner name) = JObj [
     (''action'', JStr ''remove_edge''), (''owner'', JStr owner), (''name'', JStr name)]"
| "ProvisionerAction_json (TransferEdge owner name endpoint_id new_owner) = JObj [
     (''action'', JStr ''transfer_edge''), (''owner'', JStr owner), (''name'', JStr name),
     (''endpoint_id'', JStr endpoint_id), (''new_owner'', JStr new_owner)]"

definition ProvisionerRequest_json :: "ProvisionerRequest \<Rightarrow> json" where
  "ProvisionerRequest_json r = JObj [
     (''protocol_version'', unsigned_json (pr_protocol_version r)),
     (''audience'', JStr (pr_audience r)),
     (''request_id'', JStr (pr_request_id r)),
     (''issued_at'', JNum (pr_issued_at r)),
     (''expected_revision'', option_json unsigned_json (pr_expected_revision r)),
     (''action'', ProvisionerAction_json (pr_action r))]"

definition ProvisionerAction_of_json :: "json \<Rightarrow> string + ProvisionerAction" where
  "ProvisionerAction_of_json v = and_then (field ''action'' as_string v) (\<lambda>tag.
     if tag = ''get_topology'' then Inr GetTopology
     else if tag = ''invite_client'' then
       and_then (field ''name'' as_string v) (\<lambda>name.
       and_then (field ''ttl_secs'' (as_unsigned 64) v) (\<lambda>ttl_secs.
       and_then (field ''secret'' as_string v) (\<lambda>secret.
       Inr (InviteClient name ttl_secs secret))))
     else if tag = ''invite_edge'' then
       and_then (field ''owner'' as_string v) (\<lambda>owner.
       and_then (field ''name'' as_string v) (\<lambda>name.
       and_then (field ''ttl_secs'' (as_unsigned 64) v) (\<lambda>ttl_secs.
       and_then (field ''secret'' as_string v) (\<lambda>secret.
       Inr (InviteEdge owner name ttl_secs secret)))))
     else if tag = ''revoke_invite'' then map_ok RevokeInvite (field ''invite_id'' as_string v)
     else if tag = ''remove_client'' then map_ok RemoveClient (field ''name'' as_string v)
     else if tag = ''remove_edge'' then
       and_then (field ''owner'' as_string v) (\<lambda>owner.
       and_then (field ''name'' as_string v) (\<lambda>name.
       Inr (RemoveEdge owner name)))
     else if tag = ''transfer_edge'' then
       and_then (field ''owner'' as_string v) (\<lambda>owner.
       and_then (field ''name'' as_string v) (\<lambda>name.
       and_then (field ''endpoint_id'' as_string v) (\<lambda>endpoint_id.
       and_then (field ''new_owner'' as_string v) (\<lambda>new_owner.
       Inr (TransferEdge owner name endpoint_id new_owner)))))
     else Inl ''unknown variant'')"

definition ProvisionerRequest_of_json :: "json \<Rightarrow> string + ProvisionerRequest" where
  "ProvisionerRequest_of_json v =
     and_then (field ''protocol_version'' (as_unsigned 32) v) (\<lambda>protocol_version.
     and_then (field ''audience'' as_string v) (\<lambda>audience.
     and_then (field ''request_id'' as_string v) (\<lambda>request_id.
     and_then (field ''issued_at'' as_i64 v) (\<lambda>issued_at.
     and_then (and_then (obj_field_opt ''expected_revision'' v) (as_option (as_unsigned 64)))
       (\<lambda>expected_revision.
     and_then (field ''action'' ProvisionerAction_of_json v) (\<lambda>action.
     Inr \<lparr>pr_protocol_version = protocol_version, pr_audience = audience,
       pr_request_id = request_id, pr_issued_at = issued_at,
       pr_expected_revision = expected_revision, pr_action = action\<rparr>))))))"

section \<open>Authorization\<close>

definition provisioner_signing_bytes :: "Ext \<Rightarrow> byte list \<Rightarrow> byte list" where
  "provisioner_signing_bytes X body = REQUEST_DOMAIN @ sha256 X body"

definition provisioner_authorization :: "Ext \<Rightarrow> SecretKey \<Rightarrow> byte list \<Rightarrow> string" where
  "provisioner_authorization X key body =
     (let signature = ed_sign X key (provisioner_signing_bytes X body)
      in PROVISIONER_AUTH_SCHEME @ '' '' @ id_to_string X (ed_public X key) @ '':'' @
         hex_encode X (sig_bytes signature))"

definition verify_provisioner_authorization ::
  "Ext \<Rightarrow> string \<Rightarrow> byte list \<Rightarrow> string + EndpointId" where
  "verify_provisioner_authorization X value body =
     and_then (ok_or ''unsupported provisioner authorization scheme''
       (Option.bind (strip_prefix PROVISIONER_AUTH_SCHEME value) (strip_prefix '' ''))) (\<lambda>credentials.
     and_then (ok_or ''malformed provisioner authorization credentials''
       (split_once (CHR '':'') credentials)) (\<lambda>(endpoint_id, encoded_signature).
     and_then (ensure (endpoint_id \<noteq> []) ''missing provisioner endpoint id'') (\<lambda>_.
     and_then (ensure (encoded_signature \<noteq> [] \<and> CHR '':'' \<notin> set encoded_signature)
       ''malformed provisioner signature'') (\<lambda>_.
     and_then (with_context ''invalid provisioner endpoint id'' (id_parse X endpoint_id)) (\<lambda>id.
     and_then (with_context ''invalid provisioner signature encoding''
       (hex_decode X encoded_signature)) (\<lambda>signature_bytes.
     and_then (ensure (length signature_bytes = SIGNATURE_LENGTH)
       ''invalid provisioner signature length'') (\<lambda>_.
     and_then (ensure (ed_verify X id (provisioner_signing_bytes X body) (Signature signature_bytes))
       ''invalid provisioner request signature'') (\<lambda>_.
     Inr id))))))))"

definition ProvisionerHttpRequest_new ::
  "Ext \<Rightarrow> ProvisionerRequest \<Rightarrow> SecretKey \<Rightarrow> ProvisionerHttpRequest" where
  "ProvisionerHttpRequest_new X request key =
     (let body = json_to_vec X (ProvisionerRequest_json request)
      in \<lparr>ph_body = body, ph_authorization = provisioner_authorization X key body\<rparr>)"

definition ProvisionerRequest_sign ::
  "Ext \<Rightarrow> SecretKey \<Rightarrow> string \<Rightarrow> string \<Rightarrow> int \<Rightarrow> nat option \<Rightarrow> ProvisionerAction
    \<Rightarrow> ProvisionerHttpRequest" where
  "ProvisionerRequest_sign X key audience request_id issued_at expected_revision action =
     ProvisionerHttpRequest_new X \<lparr>pr_protocol_version = CONTROL_PROTOCOL_VERSION,
       pr_audience = audience, pr_request_id = request_id, pr_issued_at = issued_at,
       pr_expected_revision = expected_revision, pr_action = action\<rparr> key"

definition ProvisionerHttpRequest_verify ::
  "Ext \<Rightarrow> ProvisionerHttpRequest \<Rightarrow> string + EndpointId" where
  "ProvisionerHttpRequest_verify X r =
     verify_provisioner_authorization X (ph_authorization r) (ph_body r)"

definition verify_protocol :: "ProvisionerRequest \<Rightarrow> string + unit" where
  "verify_protocol r = ensure_protocol_version (pr_protocol_version r)"

definition action_hash :: "Ext \<Rightarrow> ProvisionerAction \<Rightarrow> string" where
  "action_hash X action = hex_encode X (sha256 X
     (domain ''agent-scale-control-provisioner-action-v1'' @
      json_to_vec X (ProvisionerAction_json action)))"

section \<open>Lemmas\<close>

fun action_in_range :: "ProvisionerAction \<Rightarrow> bool" where
  "action_in_range (InviteClient _ ttl_secs _) = (ttl_secs < 2 ^ 64)"
| "action_in_range (InviteEdge _ _ ttl_secs _) = (ttl_secs < 2 ^ 64)"
| "action_in_range _ = True"

definition request_in_range :: "ProvisionerRequest \<Rightarrow> bool" where
  "request_in_range r \<longleftrightarrow> pr_protocol_version r < 2 ^ 32 \<and>
     i64_min \<le> pr_issued_at r \<and> pr_issued_at r \<le> i64_max \<and>
     (case pr_expected_revision r of None \<Rightarrow> True | Some e \<Rightarrow> e < 2 ^ 64) \<and>
     action_in_range (pr_action r)"

lemma ProvisionerAction_json_inject [simp]: "ProvisionerAction_json a = ProvisionerAction_json b \<longleftrightarrow> a = b"
  by (cases a; cases b) auto

lemma ProvisionerRequest_json_inject [simp]: "ProvisionerRequest_json a = ProvisionerRequest_json b \<longleftrightarrow> a = b"
proof -
  have "option_json unsigned_json x = option_json unsigned_json y \<longleftrightarrow> x = y" for x y
    by (rule option_json_inject) (simp_all add: unsigned_json_def)
  then show ?thesis by (cases a; cases b) (auto simp: ProvisionerRequest_json_def)
qed

lemma ProvisionerAction_round_trip:
  "action_in_range a \<Longrightarrow> ProvisionerAction_of_json (ProvisionerAction_json a) = Inr a"
  by (cases a) (simp_all add: ProvisionerAction_of_json_def field_def obj_field_def)

lemma as_option_unsigned:
  "(case e of None \<Rightarrow> True | Some n \<Rightarrow> n < 2 ^ b) \<Longrightarrow>
   as_option (as_unsigned b) (option_json unsigned_json e) = Inr e"
proof (cases e)
  case (Some n)
  assume "case e of None \<Rightarrow> True | Some n \<Rightarrow> n < 2 ^ b"
  with Some have "as_unsigned b (unsigned_json n) = Inr n" by simp
  with Some show ?thesis by (simp add: unsigned_json_def del: as_unsigned.simps)
qed simp

lemma ProvisionerRequest_round_trip:
  "request_in_range r \<Longrightarrow> ProvisionerRequest_of_json (ProvisionerRequest_json r) = Inr r"
  by (simp add: ProvisionerRequest_of_json_def ProvisionerRequest_json_def field_def obj_field_def
      obj_field_opt_def request_in_range_def ProvisionerAction_round_trip as_option_unsigned
      del: as_option.simps)

lemma verify_authorization_iff:
  "verify_provisioner_authorization X value body = Inr i \<longleftrightarrow>
     (\<exists>idt sigt sb. value = PROVISIONER_AUTH_SCHEME @ '' '' @ idt @ '':'' @ sigt \<and>
        CHR '':'' \<notin> set idt \<and> idt \<noteq> [] \<and> CHR '':'' \<notin> set sigt \<and> sigt \<noteq> [] \<and>
        id_parse X idt = Inr i \<and> hex_decode X sigt = Inr sb \<and>
        length sb = SIGNATURE_LENGTH \<and>
        ed_verify X i (provisioner_signing_bytes X body) (Signature sb))"
  unfolding verify_provisioner_authorization_def
  by (auto simp: strip_prefix_Some split_once_Some bind_eq_Some_conv) blast

lemma provisioner_authorization_verifies:
  assumes "sig_laws X" "id_laws X" "text_laws X"
  shows "verify_provisioner_authorization X (provisioner_authorization X key body) body
    = Inr (ed_public X key)"
proof -
  let ?s = "ed_sign X key (provisioner_signing_bytes X body)"
  have len: "length (sig_bytes ?s) = SIGNATURE_LENGTH" and ok: "Signature (sig_bytes ?s) = ?s"
    using assms by (simp_all add: sig_laws_def)
  then have "sig_bytes ?s \<noteq> []" by (auto simp: SIGNATURE_LENGTH_def)
  with assms len have "id_to_string X (ed_public X key) \<noteq> []"
    "CHR '':'' \<notin> set (id_to_string X (ed_public X key))"
    "hex_encode X (sig_bytes ?s) \<noteq> []" "CHR '':'' \<notin> set (hex_encode X (sig_bytes ?s))"
    "hex_decode X (hex_encode X (sig_bytes ?s)) = Inr (sig_bytes ?s)"
    "id_parse X (id_to_string X (ed_public X key)) = Inr (ed_public X key)"
    "ed_verify X (ed_public X key) (provisioner_signing_bytes X body) (Signature (sig_bytes ?s))"
    by (simp_all add: id_laws_def text_laws_def ok ext_round_trips)
  with len show ?thesis
    unfolding verify_authorization_iff provisioner_authorization_def Let_def by blast
qed

section \<open>Properties\<close>

text \<open>C22: A provisioner request prepared by a client is accepted by Control: the header
  verifies over the body as the signing key, and the body reads back as the request that
  was signed.\<close>

theorem provisioner_http_round_trip:
  assumes "sig_laws X" "id_laws X" "text_laws X" "json_laws X" "request_in_range r"
  shows "ProvisionerHttpRequest_verify X (ProvisionerHttpRequest_new X r key)
      = Inr (ed_public X key) \<and>
    and_then (json_from_slice X (ph_body (ProvisionerHttpRequest_new X r key)))
      ProvisionerRequest_of_json = Inr r"
  using assms
  by (simp add: ProvisionerHttpRequest_verify_def ProvisionerHttpRequest_new_def Let_def
      provisioner_authorization_verifies ProvisionerRequest_round_trip ext_round_trips)

definition sample_request :: ProvisionerRequest where
  "sample_request = \<lparr>pr_protocol_version = 5, pr_audience = ''prod'', pr_request_id = ''request-1'',
     pr_issued_at = 1700000000, pr_expected_revision = Some 7, pr_action = RemoveClient ''job-1''\<rparr>"

theorem provisioner_http_round_trip_witness:
  "ProvisionerHttpRequest_verify ref_ext
     (ProvisionerHttpRequest_new ref_ext sample_request (SecretKey [7])) =
   Inr (ed_public ref_ext (SecretKey [7]))"
  using provisioner_http_round_trip [of ref_ext sample_request "SecretKey [7]"]
  by (simp add: sample_request_def request_in_range_def i64_min_def i64_max_def)

text \<open>Exactly the header values \<open>AgentScale-Ed25519 id:signature\<close> authorize a body:
  the scheme followed by one space, a non-empty identity text that parses to the
  returned identity, one colon, and the hex of a 64-byte signature of that identity over
  the digest of this exact body.\<close>

theorem provisioner_header_accepted_iff:
  "verify_provisioner_authorization X value body = Inr i \<longleftrightarrow>
     (\<exists>idt sigt sb. value = ''AgentScale-Ed25519 '' @ idt @ '':'' @ sigt \<and>
        CHR '':'' \<notin> set idt \<and> idt \<noteq> [] \<and> CHR '':'' \<notin> set sigt \<and> sigt \<noteq> [] \<and>
        id_parse X idt = Inr i \<and> hex_decode X sigt = Inr sb \<and> length sb = 64 \<and>
        ed_verify X i (REQUEST_DOMAIN @ sha256 X body) (Signature sb))"
  unfolding verify_authorization_iff
  by (simp add: PROVISIONER_AUTH_SCHEME_def SIGNATURE_LENGTH_def provisioner_signing_bytes_def)

end
