(* ===== verification/Relay_Api.thy ===== *)
theory Relay_Api
  imports Control_Api
begin

text \<open>
  The crate \<open>relay-api\<close> (\<open>crates/relay-api/src/lib.rs\<close>): the admission credential
  Control signs for a node, and the revocation updates it signs for relays.
\<close>

definition CREDENTIAL_DOMAIN :: "byte list" where
  "CREDENTIAL_DOMAIN = domain ''agent-scale-relay-credential-v3''"
definition REVOCATION_DOMAIN :: "byte list" where
  "REVOCATION_DOMAIN = domain ''agent-scale-relay-revocations-v3''"
definition RELAY_PROTOCOL_VERSION :: nat where "RELAY_PROTOCOL_VERSION = 3"

datatype RelaySubjectKind = SubjectClient | SubjectEdge

record RelayCredential =
  rc_protocol_version :: nat
  rc_audience :: string
  rc_control_id :: string
  rc_endpoint_id :: string
  rc_kind :: RelaySubjectKind
  rc_generation :: nat
  rc_issued_at :: int
  rc_expires_at :: int

record SignedRelayCredential =
  src_credential :: RelayCredential
  src_signature :: Signature

record Revocation =
  rvk_endpoint_id :: string
  rvk_revoked_through_generation :: nat
  rvk_expires_at :: int
  rvk_revision :: nat

record RevocationUpdate =
  ru_protocol_version :: nat
  ru_audience :: string
  ru_version :: nat
  ru_issued_at :: int
  ru_revocations :: "Revocation list"

record SignedRevocationUpdate =
  sru_update :: RevocationUpdate
  sru_signature :: Signature

record RelayStatus =
  rs_audience :: string
  rs_control_id :: string
  rs_version :: nat
  rs_revocations :: nat

section \<open>Serialization\<close>

definition canonical_bytes :: "Ext \<Rightarrow> byte list \<Rightarrow> json \<Rightarrow> byte list" where
  "canonical_bytes X prefix v = prefix @ json_to_vec X v"

fun RelaySubjectKind_json :: "RelaySubjectKind \<Rightarrow> json" where
  "RelaySubjectKind_json SubjectClient = JStr ''client''"
| "RelaySubjectKind_json SubjectEdge = JStr ''edge''"

definition RelayCredential_json :: "RelayCredential \<Rightarrow> json" where
  "RelayCredential_json c = JObj [
     (''protocol_version'', unsigned_json (rc_protocol_version c)),
     (''audience'', JStr (rc_audience c)),
     (''control_id'', JStr (rc_control_id c)),
     (''endpoint_id'', JStr (rc_endpoint_id c)),
     (''kind'', RelaySubjectKind_json (rc_kind c)),
     (''generation'', unsigned_json (rc_generation c)),
     (''issued_at'', JNum (rc_issued_at c)),
     (''expires_at'', JNum (rc_expires_at c))]"

definition SignedRelayCredential_json :: "Ext \<Rightarrow> SignedRelayCredential \<Rightarrow> json" where
  "SignedRelayCredential_json X s = JObj [
     (''credential'', RelayCredential_json (src_credential s)),
     (''signature'', sig_to_json X (src_signature s))]"

definition Revocation_json :: "Revocation \<Rightarrow> json" where
  "Revocation_json r = JObj [
     (''endpoint_id'', JStr (rvk_endpoint_id r)),
     (''revoked_through_generation'', unsigned_json (rvk_revoked_through_generation r)),
     (''expires_at'', JNum (rvk_expires_at r)),
     (''revision'', unsigned_json (rvk_revision r))]"

definition RevocationUpdate_json :: "RevocationUpdate \<Rightarrow> json" where
  "RevocationUpdate_json u = JObj [
     (''protocol_version'', unsigned_json (ru_protocol_version u)),
     (''audience'', JStr (ru_audience u)),
     (''version'', unsigned_json (ru_version u)),
     (''issued_at'', JNum (ru_issued_at u)),
     (''revocations'', JArr (map Revocation_json (ru_revocations u)))]"

definition RelaySubjectKind_of_json :: "json \<Rightarrow> string + RelaySubjectKind" where
  "RelaySubjectKind_of_json v = and_then (as_string v) (\<lambda>s.
     if s = ''client'' then Inr SubjectClient
     else if s = ''edge'' then Inr SubjectEdge
     else Inl ''unknown variant'')"

definition RelayCredential_of_json :: "json \<Rightarrow> string + RelayCredential" where
  "RelayCredential_of_json v =
     and_then (field ''protocol_version'' (as_unsigned 32) v) (\<lambda>protocol_version.
     and_then (field ''audience'' as_string v) (\<lambda>audience.
     and_then (field ''control_id'' as_string v) (\<lambda>control_id.
     and_then (field ''endpoint_id'' as_string v) (\<lambda>endpoint_id.
     and_then (field ''kind'' RelaySubjectKind_of_json v) (\<lambda>kind.
     and_then (field ''generation'' (as_unsigned 64) v) (\<lambda>generation.
     and_then (field ''issued_at'' as_i64 v) (\<lambda>issued_at.
     and_then (field ''expires_at'' as_i64 v) (\<lambda>expires_at.
     Inr \<lparr>rc_protocol_version = protocol_version, rc_audience = audience,
       rc_control_id = control_id, rc_endpoint_id = endpoint_id, rc_kind = kind,
       rc_generation = generation, rc_issued_at = issued_at, rc_expires_at = expires_at\<rparr>))))))))"

definition SignedRelayCredential_of_json :: "Ext \<Rightarrow> json \<Rightarrow> string + SignedRelayCredential" where
  "SignedRelayCredential_of_json X v =
     and_then (field ''credential'' RelayCredential_of_json v) (\<lambda>credential.
     and_then (field ''signature'' (sig_of_json X) v) (\<lambda>signature.
     Inr \<lparr>src_credential = credential, src_signature = signature\<rparr>))"

section \<open>Credentials\<close>

definition relay_ensure_protocol_version :: "nat \<Rightarrow> string + unit" where
  "relay_ensure_protocol_version version = ensure (version = RELAY_PROTOCOL_VERSION)
     (''unsupported Relay protocol version '' @ show_nat version @ ''; expected '' @
      show_nat RELAY_PROTOCOL_VERSION)"

definition credential_endpoint_id :: "Ext \<Rightarrow> RelayCredential \<Rightarrow> string + EndpointId" where
  "credential_endpoint_id X c =
     with_context ''invalid credential endpoint id'' (id_parse X (rc_endpoint_id c))"

definition RelayCredential_validate :: "Ext \<Rightarrow> RelayCredential \<Rightarrow> string + unit" where
  "RelayCredential_validate X c =
     and_then (relay_ensure_protocol_version (rc_protocol_version c)) (\<lambda>_.
     and_then (ensure (rc_audience c \<noteq> []) ''credential audience is empty'') (\<lambda>_.
     and_then (ensure (rc_generation c > 0) ''credential generation must be positive'') (\<lambda>_.
     and_then (ensure (rc_expires_at c > rc_issued_at c)
       ''credential expiry must follow issuance'') (\<lambda>_.
     and_then (credential_endpoint_id X c) (\<lambda>_.
     and_then (with_context ''invalid credential control id'' (id_parse X (rc_control_id c))) (\<lambda>_.
     Inr ()))))))"

definition RelayCredential_canonical_bytes :: "Ext \<Rightarrow> RelayCredential \<Rightarrow> byte list" where
  "RelayCredential_canonical_bytes X c = canonical_bytes X CREDENTIAL_DOMAIN (RelayCredential_json c)"

definition SignedRelayCredential_sign ::
  "Ext \<Rightarrow> RelayCredential \<Rightarrow> SecretKey \<Rightarrow> string + SignedRelayCredential" where
  "SignedRelayCredential_sign X credential key =
     and_then (RelayCredential_validate X credential) (\<lambda>_.
     Inr \<lparr>src_credential = credential,
       src_signature = ed_sign X key (RelayCredential_canonical_bytes X credential)\<rparr>)"

definition SignedRelayCredential_verify ::
  "Ext \<Rightarrow> SignedRelayCredential \<Rightarrow> EndpointId \<Rightarrow> string + unit" where
  "SignedRelayCredential_verify X s control_id =
     and_then (ensure (rc_control_id (src_credential s) = id_to_string X control_id)
       ''control id mismatch'') (\<lambda>_.
     ensure (ed_verify X control_id (RelayCredential_canonical_bytes X (src_credential s))
       (src_signature s)) ''invalid Control signature'')"

definition SignedRelayCredential_encode :: "Ext \<Rightarrow> SignedRelayCredential \<Rightarrow> string" where
  "SignedRelayCredential_encode X s = b64_encode X (json_to_vec X (SignedRelayCredential_json X s))"

definition SignedRelayCredential_decode :: "Ext \<Rightarrow> string \<Rightarrow> string + SignedRelayCredential" where
  "SignedRelayCredential_decode X value =
     and_then (with_context ''invalid Relay credential encoding'' (b64_decode X value)) (\<lambda>bytes.
     with_context ''invalid Relay credential''
       (and_then (json_from_slice X bytes) (SignedRelayCredential_of_json X)))"

section \<open>Revocation updates\<close>

definition RevocationUpdate_canonical_bytes :: "Ext \<Rightarrow> RevocationUpdate \<Rightarrow> byte list" where
  "RevocationUpdate_canonical_bytes X u =
     canonical_bytes X REVOCATION_DOMAIN (RevocationUpdate_json u)"

definition RevocationUpdate_entries ::
  "Ext \<Rightarrow> RevocationUpdate \<Rightarrow> string + (EndpointId \<times> nat) list" where
  "RevocationUpdate_entries X u = collect_results (map (\<lambda>r.
     and_then (with_context (''invalid revoked endpoint id '' @ quoted (rvk_endpoint_id r))
       (id_parse X (rvk_endpoint_id r))) (\<lambda>id.
     Inr (id, rvk_revoked_through_generation r))) (ru_revocations u))"

fun validate_revocation_records :: "nat \<Rightarrow> Revocation list \<Rightarrow> string + unit" where
  "validate_revocation_records version [] = Inr ()"
| "validate_revocation_records version (r # rs) =
     and_then (ensure (rvk_revoked_through_generation r > 0)
       ''revoked generation must be positive'') (\<lambda>_.
     and_then (ensure (rvk_revision r > 0 \<and> rvk_revision r \<le> version)
       ''revocation revision is outside the signed update range'') (\<lambda>_.
     validate_revocation_records version rs))"

definition RevocationUpdate_validate :: "Ext \<Rightarrow> RevocationUpdate \<Rightarrow> string + unit" where
  "RevocationUpdate_validate X u =
     and_then (relay_ensure_protocol_version (ru_protocol_version u)) (\<lambda>_.
     and_then (ensure (ru_audience u \<noteq> []) ''revocation audience is empty'') (\<lambda>_.
     and_then (validate_revocation_records (ru_version u) (ru_revocations u)) (\<lambda>_.
     and_then (RevocationUpdate_entries X u) (\<lambda>_.
     Inr ()))))"

definition SignedRevocationUpdate_sign ::
  "Ext \<Rightarrow> RevocationUpdate \<Rightarrow> SecretKey \<Rightarrow> string + SignedRevocationUpdate" where
  "SignedRevocationUpdate_sign X update key =
     and_then (RevocationUpdate_validate X update) (\<lambda>_.
     Inr \<lparr>sru_update = update,
       sru_signature = ed_sign X key (RevocationUpdate_canonical_bytes X update)\<rparr>)"

definition SignedRevocationUpdate_verify ::
  "Ext \<Rightarrow> SignedRevocationUpdate \<Rightarrow> EndpointId \<Rightarrow> string + unit" where
  "SignedRevocationUpdate_verify X s control_id =
     ensure (ed_verify X control_id (RevocationUpdate_canonical_bytes X (sru_update s))
       (sru_signature s)) ''invalid Control signature''"

section \<open>Lemmas\<close>

definition credential_in_range :: "RelayCredential \<Rightarrow> bool" where
  "credential_in_range c \<longleftrightarrow> rc_protocol_version c < 2 ^ 32 \<and> rc_generation c < 2 ^ 64 \<and>
     i64_min \<le> rc_issued_at c \<and> rc_issued_at c \<le> i64_max \<and>
     i64_min \<le> rc_expires_at c \<and> rc_expires_at c \<le> i64_max"

lemma RelaySubjectKind_round_trip [simp]:
  "RelaySubjectKind_of_json (RelaySubjectKind_json k) = Inr k"
  by (cases k) (simp_all add: RelaySubjectKind_of_json_def)

lemma RelaySubjectKind_json_inject [simp]:
  "RelaySubjectKind_json a = RelaySubjectKind_json b \<longleftrightarrow> a = b"
  by (cases a; cases b) simp_all

lemma RelayCredential_json_inject [simp]: "RelayCredential_json a = RelayCredential_json b \<longleftrightarrow> a = b"
  by (cases a; cases b) (simp add: RelayCredential_json_def)

lemma Revocation_json_inject [simp]: "Revocation_json a = Revocation_json b \<longleftrightarrow> a = b"
  by (cases a; cases b) (simp add: Revocation_json_def)

lemma RevocationUpdate_json_inject [simp]:
  "RevocationUpdate_json a = RevocationUpdate_json b \<longleftrightarrow> a = b"
  by (cases a; cases b) (simp add: RevocationUpdate_json_def map_json_inject)

lemma canonical_bytes_inject:
  "json_laws X \<Longrightarrow> canonical_bytes X d v = canonical_bytes X d w \<longleftrightarrow> v = w"
  by (simp add: canonical_bytes_def json_to_vec_inject)

lemma RelayCredential_round_trip:
  "credential_in_range c \<Longrightarrow> RelayCredential_of_json (RelayCredential_json c) = Inr c"
  by (simp add: RelayCredential_of_json_def RelayCredential_json_def field_def obj_field_def
      credential_in_range_def)

lemma SignedRelayCredential_decode_encode:
  assumes "text_laws X" "json_laws X" "credential_in_range (src_credential s)"
  shows "SignedRelayCredential_decode X (SignedRelayCredential_encode X s) = Inr s"
  using assms by (simp add: SignedRelayCredential_decode_def SignedRelayCredential_encode_def
      SignedRelayCredential_of_json_def SignedRelayCredential_json_def field_def obj_field_def
      RelayCredential_round_trip ext_round_trips)

lemma RelayCredential_validate_iff:
  "RelayCredential_validate X c = Inr u \<longleftrightarrow>
     rc_protocol_version c = RELAY_PROTOCOL_VERSION \<and> rc_audience c \<noteq> [] \<and>
     rc_generation c > 0 \<and> rc_expires_at c > rc_issued_at c \<and>
     is_ok (id_parse X (rc_endpoint_id c)) \<and> is_ok (id_parse X (rc_control_id c))"
  by (auto simp: RelayCredential_validate_def relay_ensure_protocol_version_def
      credential_endpoint_id_def is_ok_iff)

lemma validate_revocation_records_iff:
  "validate_revocation_records v rs = Inr u \<longleftrightarrow>
     (\<forall>r \<in> set rs. rvk_revoked_through_generation r > 0 \<and> rvk_revision r > 0 \<and> rvk_revision r \<le> v)"
  by (induction rs) auto

lemma SignedRelayCredential_sign_verify:
  assumes "sig_laws X" "SignedRelayCredential_sign X c key = Inr s"
    and "rc_control_id c = id_to_string X (ed_public X key)"
  shows "SignedRelayCredential_verify X s (ed_public X key) = Inr () \<and>
    RelayCredential_validate X (src_credential s) = Inr () \<and> src_credential s = c"
  using assms by (auto simp: SignedRelayCredential_sign_def SignedRelayCredential_verify_def
      ext_round_trips)

lemma SignedRevocationUpdate_sign_verify:
  assumes "sig_laws X" "SignedRevocationUpdate_sign X u key = Inr s"
  shows "SignedRevocationUpdate_verify X s (ed_public X key) = Inr () \<and>
    RevocationUpdate_validate X (sru_update s) = Inr () \<and> sru_update s = u"
  using assms by (auto simp: SignedRevocationUpdate_sign_def SignedRevocationUpdate_verify_def
      ext_round_trips)

section \<open>Properties\<close>

text \<open>A credential that Control signs reaches a relay intact: decoding its text form
  gives a credential that verifies under Control's identity and validates, for exactly the
  endpoint, generation and lifetime that were signed.\<close>

theorem credential_text_round_trip:
  assumes "sig_laws X" "text_laws X" "json_laws X" "credential_in_range c"
    and "rc_control_id c = id_to_string X (ed_public X key)"
    and "SignedRelayCredential_sign X c key = Inr s"
  shows "\<exists>d. SignedRelayCredential_decode X (SignedRelayCredential_encode X s) = Inr d \<and>
    src_credential d = c \<and> SignedRelayCredential_verify X d (ed_public X key) = Inr () \<and>
    RelayCredential_validate X (src_credential d) = Inr ()"
  using assms SignedRelayCredential_sign_verify [OF assms(1,6,5)]
  by (auto simp: SignedRelayCredential_decode_encode)

definition sample_credential :: RelayCredential where
  "sample_credential = \<lparr>rc_protocol_version = 3, rc_audience = ''prod'',
     rc_control_id = id_to_string ref_ext (EndpointId [9]),
     rc_endpoint_id = id_to_string ref_ext (EndpointId [4]), rc_kind = SubjectEdge,
     rc_generation = 7, rc_issued_at = 40, rc_expires_at = 80\<rparr>"

lemma sample_credential_signs:
  "SignedRelayCredential_sign ref_ext sample_credential (SecretKey [9]) = Inr \<lparr>
     src_credential = sample_credential, src_signature = ed_sign ref_ext (SecretKey [9])
       (RelayCredential_canonical_bytes ref_ext sample_credential)\<rparr>"
proof -
  have "RelayCredential_validate ref_ext sample_credential = Inr ()"
    by (simp add: RelayCredential_validate_iff sample_credential_def RELAY_PROTOCOL_VERSION_def
        id_parse_to_string)
  then show ?thesis by (simp add: SignedRelayCredential_sign_def)
qed

theorem credential_text_round_trip_witness:
  "\<exists>d. SignedRelayCredential_decode ref_ext (SignedRelayCredential_encode ref_ext \<lparr>
     src_credential = sample_credential, src_signature = ed_sign ref_ext (SecretKey [9])
       (RelayCredential_canonical_bytes ref_ext sample_credential)\<rparr>) = Inr d \<and>
    src_credential d = sample_credential \<and>
    SignedRelayCredential_verify ref_ext d (ed_public ref_ext (SecretKey [9])) = Inr () \<and>
    RelayCredential_validate ref_ext (src_credential d) = Inr ()"
  by (rule credential_text_round_trip [OF ref_ext_laws(1,3,4) _ _ sample_credential_signs])
    (simp_all add: sample_credential_def credential_in_range_def i64_min_def i64_max_def ref_ext_def)

lemma relay_bytes_cover:
  assumes "json_laws X"
  shows "RelayCredential_canonical_bytes X c = RelayCredential_canonical_bytes X c' \<longleftrightarrow> c = c'"
    and "RevocationUpdate_canonical_bytes X u = RevocationUpdate_canonical_bytes X u' \<longleftrightarrow> u = u'"
  using assms by (simp_all add: RelayCredential_canonical_bytes_def RevocationUpdate_canonical_bytes_def
      canonical_bytes_inject)

end
