(* ===== verification/Control_State.thy ===== *)
theory Control_State
  imports Provisioner_Api Relay_Api
begin

text \<open>
  The in-memory state of Control (\<open>crates/as-control/src/main.rs\<close>): its six tables,
  the changes a mutation is made of, the checks the handlers share, and the maps and
  invitations Control signs.  Each clock reading is a \<open>now\<close> argument and each random
  token an argument of its own.
\<close>

definition STATE_SCHEMA :: nat where "STATE_SCHEMA = 6"
definition CLOCK_SKEW_SECS :: int where "CLOCK_SKEW_SECS = 300"
definition RELAY_CREDENTIAL_LIFETIME_SECS :: int where
  "RELAY_CREDENTIAL_LIFETIME_SECS = 7 * 24 * 60 * 60"
definition RELAY_CREDENTIAL_RENEW_BEFORE_SECS :: int where
  "RELAY_CREDENTIAL_RENEW_BEFORE_SECS = 2 * 24 * 60 * 60"
definition INVITATION_RETENTION_SECS :: int where
  "INVITATION_RETENTION_SECS = 7 * 24 * 60 * 60"

section \<open>Errors\<close>

record ApiError =
  ae_status :: nat
  ae_message :: string
  ae_retry_after :: bool

definition api_error :: "nat \<Rightarrow> string \<Rightarrow> ApiError" where
  "api_error status message =
     \<lparr>ae_status = status, ae_message = message, ae_retry_after = False\<rparr>"

definition api_bad :: "string \<Rightarrow> ApiError" where "api_bad = api_error 400"
definition api_unauthorized :: "string \<Rightarrow> ApiError" where "api_unauthorized = api_error 401"
definition api_forbidden :: "string \<Rightarrow> ApiError" where "api_forbidden = api_error 403"
definition api_conflict :: "string \<Rightarrow> ApiError" where "api_conflict = api_error 409"
definition api_gone :: "string \<Rightarrow> ApiError" where "api_gone = api_error 410"
definition api_internal :: "string \<Rightarrow> ApiError" where "api_internal = api_error 500"
definition api_retryable :: "nat \<Rightarrow> string \<Rightarrow> ApiError" where
  "api_retryable status message = (api_error status message)\<lparr>ae_retry_after := True\<rparr>"

text \<open>\<open>IntoResponse\<close>: status, body and the \<open>Retry-After\<close> header.\<close>

definition into_response :: "ApiError \<Rightarrow> nat \<times> string \<times> (string \<times> string) list" where
  "into_response e = (ae_status e, ae_message e,
     if ae_retry_after e then [(''retry-after'', ''1'')] else [])"

section \<open>Tables\<close>

record ClientRecord =
  c_name :: string
  c_endpoint_id :: string
  c_managed_by :: "string option"
  c_generation :: nat
  c_issued_at :: int
  c_expires_at :: int

record EdgeRecord =
  e_name :: string
  e_endpoint_id :: string
  e_owner_id :: string
  e_generation :: nat
  e_issued_at :: int
  e_expires_at :: int

record RelayRecord =
  r_name :: string
  r_endpoint_id :: string
  r_url :: string
  r_qad_port :: "nat option"

record RevocationRecord =
  rv_endpoint_id :: string
  rv_generation :: nat
  rv_expires_at :: int
  rv_revision :: nat

record ProvisionerRecord =
  p_name :: string
  p_endpoint_id :: string

datatype InviteState = Pending | Claimed | Revoked

record InviteRecord =
  i_invite :: Invite
  i_state :: InviteState
  i_claimed_by :: "string option"
  i_request_id :: "string option"
  i_managed_by :: "string option"
  i_request_hash :: "string option"
  i_terminal_at :: "int option"

abbreviation i_id :: "InviteRecord \<Rightarrow> string" where
  "i_id i \<equiv> inv_invite_id (i_invite i)"

record ControlState =
  cs_schema :: nat
  cs_audience :: string
  cs_public_url :: string
  cs_relay_ca_der :: "byte list"
  revision :: nat
  relay_revision :: nat
  clients :: "ClientRecord list"
  edges :: "EdgeRecord list"
  relays :: "RelayRecord list"
  invites :: "InviteRecord list"
  provisioners :: "ProvisionerRecord list"
  revocations :: "RevocationRecord list"

section \<open>Changes\<close>

datatype StateChange =
    PutClient ClientRecord
  | DeleteClient string
  | PutEdge EdgeRecord
  | DeleteEdge string
  | PutRelay RelayRecord
  | DeleteRelay string
  | PutInvite InviteRecord
  | DeleteInvite string
  | PutProvisioner ProvisionerRecord
  | DeleteProvisioner string
  | PutRevocation RevocationRecord
  | DeleteRevocation string

datatype Publish = PublishNone | PublishNodes | PublishNodesAndRelays

record StateDelta =
  sd_changes :: "StateChange list"
  sd_publish :: Publish

definition quiet :: "StateChange list \<Rightarrow> StateDelta" where
  "quiet changes = \<lparr>sd_changes = changes, sd_publish = PublishNone\<rparr>"
definition topology :: "StateChange list \<Rightarrow> StateDelta" where
  "topology changes = \<lparr>sd_changes = changes, sd_publish = PublishNodes\<rparr>"
definition revocation :: "StateChange list \<Rightarrow> StateDelta" where
  "revocation changes = \<lparr>sd_changes = changes, sd_publish = PublishNodesAndRelays\<rparr>"

fun apply_change :: "StateChange \<Rightarrow> ControlState \<Rightarrow> ControlState" where
  "apply_change (PutClient record) st =
     st\<lparr>clients := upsert_by c_endpoint_id record (clients st)\<rparr>"
| "apply_change (DeleteClient endpoint_id) st =
     st\<lparr>clients := delete_by c_endpoint_id endpoint_id (clients st)\<rparr>"
| "apply_change (PutEdge record) st = st\<lparr>edges := upsert_by e_endpoint_id record (edges st)\<rparr>"
| "apply_change (DeleteEdge endpoint_id) st =
     st\<lparr>edges := delete_by e_endpoint_id endpoint_id (edges st)\<rparr>"
| "apply_change (PutRelay record) st = st\<lparr>relays := upsert_by r_endpoint_id record (relays st)\<rparr>"
| "apply_change (DeleteRelay endpoint_id) st =
     st\<lparr>relays := delete_by r_endpoint_id endpoint_id (relays st)\<rparr>"
| "apply_change (PutInvite record) st = st\<lparr>invites := upsert_by i_id record (invites st)\<rparr>"
| "apply_change (DeleteInvite invite_id) st =
     st\<lparr>invites := delete_by i_id invite_id (invites st)\<rparr>"
| "apply_change (PutProvisioner record) st =
     st\<lparr>provisioners := upsert_by p_endpoint_id record (provisioners st)\<rparr>"
| "apply_change (DeleteProvisioner endpoint_id) st =
     st\<lparr>provisioners := delete_by p_endpoint_id endpoint_id (provisioners st)\<rparr>"
| "apply_change (PutRevocation record) st =
     st\<lparr>revocations := upsert_by rv_endpoint_id record (revocations st)\<rparr>"
| "apply_change (DeleteRevocation endpoint_id) st =
     st\<lparr>revocations := delete_by rv_endpoint_id endpoint_id (revocations st)\<rparr>"

definition StateDelta_apply :: "StateDelta \<Rightarrow> ControlState \<Rightarrow> ControlState" where
  "StateDelta_apply delta st = fold apply_change (sd_changes delta) st"

section \<open>Checks\<close>

definition name_char :: "char \<Rightarrow> bool" where
  "name_char c \<longleftrightarrow> ascii_alphanumeric c \<or> c = CHR ''-'' \<or> c = CHR ''_'' \<or> c = CHR ''.''"

definition validate_name :: "string \<Rightarrow> string + unit" where
  "validate_name name =
     and_then (ensure (name \<noteq> [] \<and> length name \<le> 64) ''name must contain 1-64 characters'') (\<lambda>_.
     ensure (list_all name_char name)
       (''name may contain only ASCII letters, digits, '' @ quoted ''-'' @ '', '' @ quoted ''_'' @
        '', and '' @ quoted ''.''))"

definition validate_request_id :: "string \<Rightarrow> string + unit" where
  "validate_request_id value =
     and_then (ensure (1 \<le> length value \<and> length value \<le> 128)
       ''request id must contain 1-128 characters'') (\<lambda>_.
     ensure (list_all (\<lambda>c. name_char c \<or> c = CHR '':'' \<or> c = CHR ''/'') value)
       ''request id contains unsupported characters'')"

definition validate_join_secret :: "string \<Rightarrow> string + unit" where
  "validate_join_secret value =
     and_then (ensure (32 \<le> length value \<and> length value \<le> 128)
       ''join secret must contain 32-128 characters'') (\<lambda>_.
     ensure (list_all (\<lambda>c. ascii_alphanumeric c \<or> c = CHR ''-'' \<or> c = CHR ''_'') value)
       ''join secret must use URL-safe base64 characters'')"

definition check_time :: "int \<Rightarrow> int \<Rightarrow> string + unit" where
  "check_time issued_at now = ensure (i64_abs_diff issued_at now \<le> nat CLOCK_SKEW_SECS)
     ''request timestamp outside allowed window''"

definition validate_qad_port :: "nat option \<Rightarrow> string + unit" where
  "validate_qad_port port =
     ensure (port \<noteq> Some 0) ''QAD public port must be between 1 and 65535''"

definition loopback_host :: "string option \<Rightarrow> bool" where
  "loopback_host h \<longleftrightarrow> h = Some ''localhost'' \<or> h = Some ''127.0.0.1'' \<or> h = Some ''::1''"

definition normalize_public_url :: "Ext \<Rightarrow> string \<Rightarrow> string + string" where
  "normalize_public_url X value =
     and_then (with_context ''invalid public URL'' (url_parse X value)) (\<lambda>url.
     and_then (ensure (u_query url = None \<and> u_fragment url = None)
       ''public URL cannot contain query or fragment'') (\<lambda>_.
     and_then (ensure (u_scheme url = ''https'' \<or> u_scheme url = ''http'' \<and> loopback_host (u_host url))
       ''public URL must use HTTPS unless it targets loopback'') (\<lambda>_.
     Inr (trim_end_matches (CHR ''/'') (url_to_string X
       (url_set_path X (trim_end_matches (CHR ''/'') (u_path url)) url))))))"

definition normalize_relay_url :: "Ext \<Rightarrow> string \<Rightarrow> string + string" where
  "normalize_relay_url X value =
     and_then (with_context ''invalid relay URL'' (url_parse X value)) (\<lambda>url.
     and_then (ensure (u_query url = None \<and> u_fragment url = None)
       ''relay URL cannot contain query or fragment'') (\<lambda>_.
     and_then (ensure (u_scheme url = ''https'' \<or> u_scheme url = ''http'' \<and> loopback_host (u_host url))
       ''relay URL must use HTTPS unless it targets loopback'') (\<lambda>_.
     Inr (url_to_string X (if u_path url = [] then url_set_path X ''/'' url else url)))))"

definition client_name :: "ControlState \<Rightarrow> string \<Rightarrow> string option" where
  "client_name st cid = map_option c_name (find_by c_endpoint_id cid (clients st))"

definition anyhow_client_exists :: "ControlState \<Rightarrow> string \<Rightarrow> ApiError + unit" where
  "anyhow_client_exists st cid =
     ensure (list_ex (\<lambda>item. c_endpoint_id item = cid) (clients st)) (api_bad ''unknown client'')"

definition anyhow_node_exists :: "Ext \<Rightarrow> ControlState \<Rightarrow> EndpointId \<Rightarrow> ApiError + unit" where
  "anyhow_node_exists X st node =
     ensure (list_ex (\<lambda>item. c_endpoint_id item = id_to_string X node) (clients st) \<or>
             list_ex (\<lambda>item. e_endpoint_id item = id_to_string X node) (edges st))
       (api_forbidden ''node is not registered'')"

definition anyhow_relay_exists :: "Ext \<Rightarrow> ControlState \<Rightarrow> EndpointId \<Rightarrow> ApiError + unit" where
  "anyhow_relay_exists X st node =
     ensure (list_ex (\<lambda>item. r_endpoint_id item = id_to_string X node) (relays st))
       (api_forbidden ''relay is not registered'')"

definition invite_is_active_pending :: "int \<Rightarrow> InviteRecord \<Rightarrow> bool" where
  "invite_is_active_pending now record \<longleftrightarrow>
     i_state record = Pending \<and> inv_expires_at (i_invite record) \<ge> now"

fun same_slot :: "Invite \<Rightarrow> string \<Rightarrow> InviteKind \<Rightarrow> bool" where
  "same_slot invite name kind = (case (inv_kind invite, kind) of
      (IKClient, IKClient) \<Rightarrow> inv_name invite = name
    | (IKEdge left, IKEdge right) \<Rightarrow> left = right \<and> inv_name invite = name
    | (IKRelay left, IKRelay right) \<Rightarrow> inv_name invite = name \<or> left = right
    | _ \<Rightarrow> False)"

definition validate_invite_name ::
  "ControlState \<Rightarrow> int \<Rightarrow> string \<Rightarrow> InviteKind \<Rightarrow> ApiError + unit" where
  "validate_invite_name st now name kind =
     (let registered_duplicate = (case kind of
            IKClient \<Rightarrow> list_ex (\<lambda>item. c_name item = name) (clients st)
          | IKEdge owner_id \<Rightarrow>
              list_ex (\<lambda>item. e_owner_id item = owner_id \<and> e_name item = name) (edges st)
          | IKRelay url \<Rightarrow> list_ex (\<lambda>item. r_name item = name \<or> r_url item = url) (relays st));
          pending_duplicate = list_ex (\<lambda>record. invite_is_active_pending now record \<and>
            same_slot (i_invite record) name kind) (invites st)
      in if registered_duplicate \<or> pending_duplicate
         then Inl (api_conflict ''name or relay URL already exists'') else Inr ())"

definition validate_token_for_state ::
  "Ext \<Rightarrow> JoinToken \<Rightarrow> ControlState \<Rightarrow> EndpointId \<Rightarrow> int \<Rightarrow> ApiError + unit" where
  "validate_token_for_state X token st control_id now =
     and_then (ensure (\<not> (inv_control_id (jt_invite token) \<noteq> id_to_string X control_id \<or>
         inv_audience (jt_invite token) \<noteq> cs_audience st \<or>
         inv_control_url (jt_invite token) \<noteq> cs_public_url st))
       (api_unauthorized ''invite belongs to another control'')) (\<lambda>_.
     and_then (ensure (\<not> inv_expires_at (jt_invite token) < now) (api_gone ''invite expired'')) (\<lambda>_.
     and_then (ok_or (api_gone ''unknown invite'')
       (find_by i_id (inv_invite_id (jt_invite token)) (invites st))) (\<lambda>stored.
     ensure (\<not> i_invite stored \<noteq> jt_invite token) (api_unauthorized ''invite payload mismatch''))))"

section \<open>Retention\<close>

definition invite_terminal :: "int \<Rightarrow> InviteRecord \<Rightarrow> int" where
  "invite_terminal now i = (case i_state i of
      Pending \<Rightarrow> inv_expires_at (i_invite i)
    | Claimed \<Rightarrow> (case i_terminal_at i of Some t \<Rightarrow> t | None \<Rightarrow> now)
    | Revoked \<Rightarrow> (case i_terminal_at i of Some t \<Rightarrow> t | None \<Rightarrow> now))"

definition cleanup_invitations :: "int \<Rightarrow> ControlState \<Rightarrow> bool \<times> ControlState" where
  "cleanup_invitations now st =
     (let kept = filter (\<lambda>i. now < i64_saturating_add (invite_terminal now i)
            INVITATION_RETENTION_SECS) (invites st)
      in (length kept \<noteq> length (invites st), st\<lparr>invites := kept\<rparr>))"

definition cleanup_revocations :: "int \<Rightarrow> ControlState \<Rightarrow> bool \<times> ControlState" where
  "cleanup_revocations now st =
     (let kept = filter (\<lambda>r. rv_expires_at r > now) (revocations st)
      in (length kept \<noteq> length (revocations st), st\<lparr>revocations := kept\<rparr>))"

text \<open>The changes one tick of \<open>invitation_cleanup_loop\<close> commits.\<close>

definition cleanup_changes :: "int \<Rightarrow> ControlState \<Rightarrow> StateChange list" where
  "cleanup_changes now st =
     map (\<lambda>i. DeleteInvite (i_id i))
       (filter (\<lambda>i. now \<ge> i64_saturating_add (invite_terminal now i) INVITATION_RETENTION_SECS)
          (invites st)) @
     map (\<lambda>r. DeleteRevocation (rv_endpoint_id r))
       (filter (\<lambda>r. rv_expires_at r \<le> now) (revocations st))"

section \<open>Node changes\<close>

definition revocation_record ::
  "ControlState \<Rightarrow> string \<Rightarrow> nat \<Rightarrow> int \<Rightarrow> RevocationRecord" where
  "revocation_record st endpoint_id generation expires_at =
     (let next = u64_saturating_add (relay_revision st) 1
      in case find_by rv_endpoint_id endpoint_id (revocations st) of
           Some existing \<Rightarrow> \<lparr>rv_endpoint_id = endpoint_id,
             rv_generation = max (rv_generation existing) generation,
             rv_expires_at = max (rv_expires_at existing) expires_at, rv_revision = next\<rparr>
         | None \<Rightarrow> \<lparr>rv_endpoint_id = endpoint_id, rv_generation = generation,
             rv_expires_at = expires_at, rv_revision = next\<rparr>)"

definition revocation_change ::
  "ControlState \<Rightarrow> string \<Rightarrow> nat \<Rightarrow> int \<Rightarrow> StateChange" where
  "revocation_change st endpoint_id generation expires_at =
     PutRevocation (revocation_record st endpoint_id generation expires_at)"

definition claimed_node_change ::
  "Ext \<Rightarrow> ControlState \<Rightarrow> Invite \<Rightarrow> EndpointId \<Rightarrow> string option \<Rightarrow> nat option \<Rightarrow> nat \<Rightarrow> int
    \<Rightarrow> ApiError + StateChange" where
  "claimed_node_change X st invite endpoint_id managed_by relay_qad_port generation now =
     (case inv_kind invite of
        IKClient \<Rightarrow>
          if list_ex (\<lambda>item. c_name item = inv_name invite \<or>
               c_endpoint_id item = id_to_string X endpoint_id) (clients st)
          then Inl (api_conflict ''client name or identity already exists'')
          else Inr (PutClient \<lparr>c_name = inv_name invite,
            c_endpoint_id = id_to_string X endpoint_id, c_managed_by = managed_by,
            c_generation = generation, c_issued_at = now,
            c_expires_at = i64_saturating_add now RELAY_CREDENTIAL_LIFETIME_SECS\<rparr>)
      | IKEdge owner_id \<Rightarrow>
          and_then (anyhow_client_exists st owner_id) (\<lambda>_.
          if list_ex (\<lambda>item. e_owner_id item = owner_id \<and> e_name item = inv_name invite \<or>
               e_endpoint_id item = id_to_string X endpoint_id) (edges st)
          then Inl (api_conflict ''edge name or identity already exists'')
          else Inr (PutEdge \<lparr>e_name = inv_name invite,
            e_endpoint_id = id_to_string X endpoint_id, e_owner_id = owner_id,
            e_generation = generation, e_issued_at = now,
            e_expires_at = i64_saturating_add now RELAY_CREDENTIAL_LIFETIME_SECS\<rparr>))
      | IKRelay url \<Rightarrow>
          if list_ex (\<lambda>item. r_name item = inv_name invite \<or> r_url item = url \<or>
               r_endpoint_id item = id_to_string X endpoint_id) (relays st)
          then Inl (api_conflict ''relay name, URL, or identity already exists'')
          else Inr (PutRelay \<lparr>r_name = inv_name invite,
            r_endpoint_id = id_to_string X endpoint_id, r_url = url,
            r_qad_port = relay_qad_port\<rparr>))"

section \<open>Signed maps\<close>

definition sign_relay_credential ::
  "Ext \<Rightarrow> ControlState \<Rightarrow> SecretKey \<Rightarrow> EndpointId \<Rightarrow> RelaySubjectKind \<Rightarrow> nat \<Rightarrow> int \<Rightarrow> int
    \<Rightarrow> string + string" where
  "sign_relay_credential X st key endpoint_id kind generation issued_at expires_at =
     map_ok (SignedRelayCredential_encode X)
       (SignedRelayCredential_sign X \<lparr>rc_protocol_version = RELAY_PROTOCOL_VERSION,
          rc_audience = cs_audience st, rc_control_id = id_to_string X (ed_public X key),
          rc_endpoint_id = id_to_string X endpoint_id, rc_kind = kind,
          rc_generation = generation, rc_issued_at = issued_at, rc_expires_at = expires_at\<rparr> key)"

definition node_view ::
  "Ext \<Rightarrow> ControlState \<Rightarrow> SecretKey \<Rightarrow> EndpointId
    \<Rightarrow> string + string option \<times> string list \<times> EdgeInfo list" where
  "node_view X st key recipient =
     (let recipient_string = id_to_string X recipient in
      case find_by e_endpoint_id recipient_string (edges st) of
        Some edge \<Rightarrow>
          and_then (sign_relay_credential X st key recipient SubjectEdge
            (e_generation edge) (e_issued_at edge) (e_expires_at edge)) (\<lambda>credential.
          Inr (Some credential, [e_owner_id edge], []))
      | None \<Rightarrow> (case find_by c_endpoint_id recipient_string (clients st) of
          Some client \<Rightarrow>
            and_then (sign_relay_credential X st key recipient SubjectClient
              (c_generation client) (c_issued_at client) (c_expires_at client)) (\<lambda>credential.
            Inr (Some credential, [],
              map (\<lambda>edge. \<lparr>ei_name = e_name edge, ei_endpoint_id = e_endpoint_id edge,
                  ei_owner_id = e_owner_id edge,
                  ei_owner_name = (case client_name st (e_owner_id edge) of
                    Some n \<Rightarrow> n | None \<Rightarrow> ''unknown'')\<rparr>)
                (filter (\<lambda>edge. e_owner_id edge = recipient_string) (edges st))))
        | None \<Rightarrow>
            if list_ex (\<lambda>relay. r_endpoint_id relay = recipient_string) (relays st)
            then Inr (None, [], [])
            else Inl ''node is not registered''))"

definition signed_map ::
  "Ext \<Rightarrow> ControlState \<Rightarrow> SecretKey \<Rightarrow> int \<Rightarrow> EndpointId \<Rightarrow> string + SignedNodeMap" where
  "signed_map X st key now recipient =
     and_then (node_view X st key recipient) (\<lambda>(relay_credential, allowed_clients, edge_infos).
     Inr (SignedNodeMap_sign X \<lparr>nm_protocol_version = CONTROL_PROTOCOL_VERSION,
        nm_audience = cs_audience st, nm_control_url = cs_public_url st,
        nm_control_id = id_to_string X (ed_public X key), nm_revision = revision st,
        nm_issued_at = now, nm_recipient_id = id_to_string X recipient,
        nm_relays = map (\<lambda>relay. \<lparr>ri_name = r_name relay, ri_url = r_url relay,
          ri_qad_port = r_qad_port relay\<rparr>) (relays st),
        nm_relay_credential = relay_credential, nm_relay_ca_der = cs_relay_ca_der st,
        nm_allowed_clients = allowed_clients, nm_edges = edge_infos\<rparr> key))"

section \<open>Invitations\<close>

definition build_invite ::
  "Ext \<Rightarrow> SecretKey \<Rightarrow> ControlState \<Rightarrow> int \<Rightarrow> string \<Rightarrow> string \<Rightarrow> InviteKind \<Rightarrow> nat \<Rightarrow> string
    \<Rightarrow> string + InviteResult \<times> InviteRecord" where
  "build_invite X key st now invite_id name kind ttl_secs secret =
     and_then (ensure (1 \<le> ttl_secs \<and> ttl_secs \<le> 7 * 24 * 60 * 60)
       ''TTL must be between 1 second and 7 days'') (\<lambda>_.
     and_then (ok_or ''invite expiry overflow'' (i64_checked_add now (int ttl_secs))) (\<lambda>expires_at.
     let invite = \<lparr>inv_protocol_version = CONTROL_PROTOCOL_VERSION,
           inv_audience = cs_audience st, inv_control_url = cs_public_url st,
           inv_control_id = id_to_string X (ed_public X key), inv_invite_id = invite_id,
           inv_name = name, inv_kind = kind, inv_secret_hash = hash_secret X secret,
           inv_expires_at = expires_at\<rparr>;
         token = JoinToken_new X invite secret key
     in Inr (\<lparr>ir_invite_id = invite_id, ir_join_url = join_url X token, ir_expires_at = expires_at\<rparr>,
          \<lparr>i_invite = invite, i_state = Pending, i_claimed_by = None, i_request_id = None,
           i_managed_by = None, i_request_hash = None, i_terminal_at = None\<rparr>)))"

definition invite_result ::
  "Ext \<Rightarrow> SecretKey \<Rightarrow> Invite \<Rightarrow> string \<Rightarrow> string + InviteResult" where
  "invite_result X key invite secret =
     and_then (ensure (hash_secret X secret = inv_secret_hash invite)
       ''join secret does not match existing request'') (\<lambda>_.
     Inr \<lparr>ir_invite_id = inv_invite_id invite,
       ir_join_url = join_url X (JoinToken_new X invite secret key),
       ir_expires_at = inv_expires_at invite\<rparr>)"

definition create_invite_with_secret ::
  "Ext \<Rightarrow> SecretKey \<Rightarrow> int \<Rightarrow> string \<Rightarrow> string \<Rightarrow> InviteKind \<Rightarrow> nat \<Rightarrow> string \<Rightarrow> ControlState
    \<Rightarrow> string + InviteResult \<times> ControlState" where
  "create_invite_with_secret X key now invite_id name kind ttl_secs secret st =
     and_then (build_invite X key st now invite_id name kind ttl_secs secret) (\<lambda>(result, record).
     Inr (result, st\<lparr>invites := invites st @ [record]\<rparr>))"

definition invite_state_text :: "InviteState \<Rightarrow> string" where
  "invite_state_text s = (case s of Pending \<Rightarrow> ''pending'' | Claimed \<Rightarrow> ''claimed''
     | Revoked \<Rightarrow> ''revoked'')"

definition invite_info :: "int \<Rightarrow> InviteRecord \<Rightarrow> InviteInfo" where
  "invite_info now i = \<lparr>ii_invite_id = i_id i, ii_name = inv_name (i_invite i),
     ii_kind = inv_kind (i_invite i), ii_expires_at = inv_expires_at (i_invite i),
     ii_state = (if i_state i = Pending \<and> inv_expires_at (i_invite i) < now then ''expired''
       else invite_state_text (i_state i))\<rparr>"

end
