(* ===== verification/Control_Events.thy ===== *)
theory Control_Events
  imports Control_State
begin

text \<open>
  What Control promises, independently of how a handler is written: the invariant of
  its tables, the mutations that may ever be committed (\<open>control_event\<close>), and what every
  such mutation keeps.  The handler theories show that a handler either leaves the store
  as it was or commits one of these mutations.
\<close>

section \<open>The tables as keyed tables\<close>

interpretation client_table: keyed_table "find_by c_endpoint_id" "upsert_by c_endpoint_id"
  "delete_by c_endpoint_id" c_endpoint_id "keys_distinct c_endpoint_id" set
  by (rule keyed_list)
interpretation edge_table: keyed_table "find_by e_endpoint_id" "upsert_by e_endpoint_id"
  "delete_by e_endpoint_id" e_endpoint_id "keys_distinct e_endpoint_id" set
  by (rule keyed_list)
interpretation relay_table: keyed_table "find_by r_endpoint_id" "upsert_by r_endpoint_id"
  "delete_by r_endpoint_id" r_endpoint_id "keys_distinct r_endpoint_id" set
  by (rule keyed_list)
interpretation invite_table: keyed_table "find_by i_id" "upsert_by i_id"
  "delete_by i_id" i_id "keys_distinct i_id" set
  by (rule keyed_list)
interpretation provisioner_table: keyed_table "find_by p_endpoint_id" "upsert_by p_endpoint_id"
  "delete_by p_endpoint_id" p_endpoint_id "keys_distinct p_endpoint_id" set
  by (rule keyed_list)
interpretation revocation_table: keyed_table "find_by rv_endpoint_id" "upsert_by rv_endpoint_id"
  "delete_by rv_endpoint_id" rv_endpoint_id "keys_distinct rv_endpoint_id" set
  by (rule keyed_list)

section \<open>The invariant\<close>

definition clients_ok :: "nat \<Rightarrow> ControlState \<Rightarrow> bool" where
  "clients_ok vn st \<longleftrightarrow> keys_distinct c_endpoint_id (clients st) \<and>
     keys_distinct c_name (clients st) \<and>
     (\<forall>c \<in> set (clients st). 0 < c_generation c \<and> c_generation c \<le> vn \<and>
        c_issued_at c < c_expires_at c)"

definition edge_slot :: "EdgeRecord \<Rightarrow> string \<times> string" where
  "edge_slot e = (e_owner_id e, e_name e)"

definition edges_ok :: "nat \<Rightarrow> ControlState \<Rightarrow> bool" where
  "edges_ok vn st \<longleftrightarrow> keys_distinct e_endpoint_id (edges st) \<and>
     keys_distinct edge_slot (edges st) \<and>
     (\<forall>e \<in> set (edges st). 0 < e_generation e \<and> e_generation e \<le> vn \<and>
        e_issued_at e < e_expires_at e \<and> e_owner_id e \<in> c_endpoint_id ` set (clients st))"

definition relays_ok :: "ControlState \<Rightarrow> bool" where
  "relays_ok st \<longleftrightarrow> keys_distinct r_endpoint_id (relays st) \<and> keys_distinct r_name (relays st) \<and>
     keys_distinct r_url (relays st) \<and> (\<forall>r \<in> set (relays st). r_qad_port r \<noteq> Some 0)"

definition invite_ok :: "InviteRecord \<Rightarrow> bool" where
  "invite_ok i \<longleftrightarrow> (i_state i = Pending \<longleftrightarrow> i_terminal_at i = None) \<and>
     (i_state i = Claimed \<longleftrightarrow> i_claimed_by i \<noteq> None)"

definition invites_ok :: "ControlState \<Rightarrow> bool" where
  "invites_ok st \<longleftrightarrow> keys_distinct i_id (invites st) \<and> (\<forall>i \<in> set (invites st). invite_ok i)"

definition provisioners_ok :: "ControlState \<Rightarrow> bool" where
  "provisioners_ok st \<longleftrightarrow> keys_distinct p_endpoint_id (provisioners st) \<and>
     keys_distinct p_name (provisioners st)"

definition revocations_ok :: "nat \<Rightarrow> nat \<Rightarrow> ControlState \<Rightarrow> bool" where
  "revocations_ok vn vr st \<longleftrightarrow> keys_distinct rv_endpoint_id (revocations st) \<and>
     (\<forall>r \<in> set (revocations st). 0 < rv_generation r \<and> rv_generation r \<le> vn \<and>
        0 < rv_revision r \<and> rv_revision r \<le> vr)"

definition tables_ok :: "nat \<Rightarrow> nat \<Rightarrow> ControlState \<Rightarrow> bool" where
  "tables_ok vn vr st \<longleftrightarrow> clients_ok vn st \<and> edges_ok vn st \<and> relays_ok st \<and>
     invites_ok st \<and> provisioners_ok st \<and> revocations_ok vn vr st"

definition state_ok :: "ControlState \<Rightarrow> bool" where
  "state_ok st \<longleftrightarrow> tables_ok (revision st) (relay_revision st) st \<and> relay_revision st > 0"

lemmas tables_ok_defs = clients_ok_def edges_ok_def relays_ok_def invites_ok_def
  provisioners_ok_def revocations_ok_def

lemma tables_ok_mono:
  "tables_ok vn vr st \<Longrightarrow> vn \<le> vn' \<Longrightarrow> vr \<le> vr' \<Longrightarrow> tables_ok vn' vr' st"
  unfolding tables_ok_def tables_ok_defs by (meson le_trans)

lemma tables_ok_distinct:
  assumes "tables_ok vn vr st"
  shows "keys_distinct c_endpoint_id (clients st)" "keys_distinct e_endpoint_id (edges st)"
    "keys_distinct r_endpoint_id (relays st)" "keys_distinct i_id (invites st)"
    "keys_distinct p_endpoint_id (provisioners st)" "keys_distinct rv_endpoint_id (revocations st)"
  using assms by (simp_all add: tables_ok_def tables_ok_defs)

section \<open>Changes that keep the invariant\<close>

fun change_ok :: "nat \<Rightarrow> nat \<Rightarrow> ControlState \<Rightarrow> StateChange \<Rightarrow> bool" where
  "change_ok vn vr st (PutClient c) = (0 < c_generation c \<and> c_generation c \<le> vn \<and>
     c_issued_at c < c_expires_at c \<and>
     (\<forall>x \<in> set (clients st). c_endpoint_id x \<noteq> c_endpoint_id c \<longrightarrow> c_name x \<noteq> c_name c))"
| "change_ok vn vr st (DeleteClient k) = (\<forall>e \<in> set (edges st). e_owner_id e \<noteq> k)"
| "change_ok vn vr st (PutEdge e) = (0 < e_generation e \<and> e_generation e \<le> vn \<and>
     e_issued_at e < e_expires_at e \<and> e_owner_id e \<in> c_endpoint_id ` set (clients st) \<and>
     (\<forall>x \<in> set (edges st). e_endpoint_id x \<noteq> e_endpoint_id e \<longrightarrow> edge_slot x \<noteq> edge_slot e))"
| "change_ok vn vr st (DeleteEdge k) = True"
| "change_ok vn vr st (PutRelay r) = (r_qad_port r \<noteq> Some 0 \<and>
     (\<forall>x \<in> set (relays st). r_endpoint_id x \<noteq> r_endpoint_id r \<longrightarrow>
        r_name x \<noteq> r_name r \<and> r_url x \<noteq> r_url r))"
| "change_ok vn vr st (DeleteRelay k) = True"
| "change_ok vn vr st (PutInvite i) = invite_ok i"
| "change_ok vn vr st (DeleteInvite k) = True"
| "change_ok vn vr st (PutProvisioner p) =
     (\<forall>x \<in> set (provisioners st). p_endpoint_id x \<noteq> p_endpoint_id p \<longrightarrow> p_name x \<noteq> p_name p)"
| "change_ok vn vr st (DeleteProvisioner k) = True"
| "change_ok vn vr st (PutRevocation r) = (0 < rv_generation r \<and> rv_generation r \<le> vn \<and>
     0 < rv_revision r \<and> rv_revision r \<le> vr)"
| "change_ok vn vr st (DeleteRevocation k) = True"

primrec changes_ok :: "nat \<Rightarrow> nat \<Rightarrow> StateChange list \<Rightarrow> ControlState \<Rightarrow> bool" where
  "changes_ok vn vr [] st = True"
| "changes_ok vn vr (ch # chs) st =
     (change_ok vn vr st ch \<and> changes_ok vn vr chs (apply_change ch st))"

lemma keys_distinct_delete_col: "keys_distinct col t \<Longrightarrow> keys_distinct col (delete_by key k t)"
  by (simp add: keys_distinct_def delete_by_def distinct_map_filter)

lemma client_ids_upsert [simp]:
  "c_endpoint_id ` set (upsert_by c_endpoint_id r t) = insert (c_endpoint_id r) (c_endpoint_id ` set t)"
  by (rule map_key_upsert)

lemma image_key_minus: "f ` {x \<in> A. f x \<noteq> k} = f ` A - {k}"
  by auto

lemmas keyed_updates = image_key_minus
  client_table.put_invar edge_table.put_invar relay_table.put_invar
  invite_table.put_invar provisioner_table.put_invar revocation_table.put_invar
  client_table.del_invar edge_table.del_invar relay_table.del_invar
  invite_table.del_invar provisioner_table.del_invar revocation_table.del_invar
  client_table.rows_put edge_table.rows_put relay_table.rows_put
  invite_table.rows_put provisioner_table.rows_put revocation_table.rows_put
  set_delete_by keys_distinct_delete_col keys_distinct_upsert_col

lemma apply_change_ok:
  assumes "tables_ok vn vr st" "change_ok vn vr st ch"
  shows "tables_ok vn vr (apply_change ch st)"
  using assms unfolding tables_ok_def tables_ok_defs
  by (cases ch) (auto simp: keyed_updates)

lemma changes_ok_fold:
  "tables_ok vn vr st \<Longrightarrow> changes_ok vn vr chs st \<Longrightarrow> tables_ok vn vr (fold apply_change chs st)"
  by (induction chs arbitrary: st) (simp_all add: apply_change_ok)

section \<open>The mutations of Control\<close>

text \<open>
  \<open>control_event now st d\<close>: in state \<open>st\<close>, at the clock reading \<open>now\<close>, Control may commit
  the delta \<open>d\<close>.  One rule per kind of mutation, whichever handler asks for it.
\<close>

definition claimed :: "InviteRecord \<Rightarrow> string \<Rightarrow> int \<Rightarrow> InviteRecord" where
  "claimed i who now = i\<lparr>i_state := Claimed, i_claimed_by := Some who, i_terminal_at := Some now\<rparr>"

definition lifetime_from :: "int \<Rightarrow> int" where
  "lifetime_from now = i64_saturating_add now RELAY_CREDENTIAL_LIFETIME_SECS"

inductive control_event :: "int \<Rightarrow> ControlState \<Rightarrow> StateDelta \<Rightarrow> bool" where
  enrol_client: "i \<in> set (invites st) \<Longrightarrow> i_state i = Pending \<Longrightarrow>
    inv_kind (i_invite i) = IKClient \<Longrightarrow> c_name c = inv_name (i_invite i) \<Longrightarrow>
    c_managed_by c = i_managed_by i \<Longrightarrow> c_generation c = revision st + 1 \<Longrightarrow>
    c_issued_at c = now \<Longrightarrow> c_expires_at c = lifetime_from now \<Longrightarrow> now < lifetime_from now \<Longrightarrow>
    c_name c \<notin> c_name ` set (clients st) \<Longrightarrow>
    c_endpoint_id c \<notin> c_endpoint_id ` set (clients st) \<Longrightarrow>
    control_event now st (topology [PutClient c, PutInvite (claimed i (c_endpoint_id c) now)])"
| enrol_edge: "i \<in> set (invites st) \<Longrightarrow> i_state i = Pending \<Longrightarrow>
    inv_kind (i_invite i) = IKEdge (e_owner_id e) \<Longrightarrow> e_name e = inv_name (i_invite i) \<Longrightarrow>
    e_owner_id e \<in> c_endpoint_id ` set (clients st) \<Longrightarrow> e_generation e = revision st + 1 \<Longrightarrow>
    e_issued_at e = now \<Longrightarrow> e_expires_at e = lifetime_from now \<Longrightarrow> now < lifetime_from now \<Longrightarrow>
    edge_slot e \<notin> edge_slot ` set (edges st) \<Longrightarrow>
    e_endpoint_id e \<notin> e_endpoint_id ` set (edges st) \<Longrightarrow>
    control_event now st (topology [PutEdge e, PutInvite (claimed i (e_endpoint_id e) now)])"
| enrol_relay: "i \<in> set (invites st) \<Longrightarrow> i_state i = Pending \<Longrightarrow>
    inv_kind (i_invite i) = IKRelay (r_url r) \<Longrightarrow> r_name r = inv_name (i_invite i) \<Longrightarrow>
    r_qad_port r \<noteq> Some 0 \<Longrightarrow>
    r_name r \<notin> r_name ` set (relays st) \<Longrightarrow> r_url r \<notin> r_url ` set (relays st) \<Longrightarrow>
    r_endpoint_id r \<notin> r_endpoint_id ` set (relays st) \<Longrightarrow>
    control_event now st (topology [PutRelay r, PutInvite (claimed i (r_endpoint_id r) now)])"
| invite: "i_state i = Pending \<Longrightarrow> i_claimed_by i = None \<Longrightarrow> i_terminal_at i = None \<Longrightarrow>
    control_event now st (topology [PutInvite i])"
| revoke_invite: "i \<in> set (invites st) \<Longrightarrow> i_state i = Pending \<Longrightarrow>
    control_event now st (topology [PutInvite (i\<lparr>i_state := Revoked, i_terminal_at := Some now\<rparr>)])"
| remove_client: "c \<in> set (clients st) \<Longrightarrow>
    (\<forall>e \<in> set (edges st). e_owner_id e \<noteq> c_endpoint_id c) \<Longrightarrow>
    control_event now st (revocation [DeleteClient (c_endpoint_id c),
      revocation_change st (c_endpoint_id c) (c_generation c) (c_expires_at c)])"
| remove_edge: "e \<in> set (edges st) \<Longrightarrow>
    control_event now st (revocation [DeleteEdge (e_endpoint_id e),
      revocation_change st (e_endpoint_id e) (e_generation e) (e_expires_at e)])"
| transfer_edge: "e \<in> set (edges st) \<Longrightarrow> owner \<in> c_endpoint_id ` set (clients st) \<Longrightarrow>
    (owner, e_name e) \<notin> edge_slot ` set (edges st) \<Longrightarrow>
    control_event now st (topology [PutEdge (e\<lparr>e_owner_id := owner\<rparr>)])"
| remove_relay: "r \<in> set (relays st) \<Longrightarrow>
    control_event now st (revocation [DeleteRelay (r_endpoint_id r)])"
| update_port: "r \<in> set (relays st) \<Longrightarrow> port \<noteq> Some 0 \<Longrightarrow>
    control_event now st (topology [PutRelay (r\<lparr>r_qad_port := port\<rparr>)])"
| renew_client: "c \<in> set (clients st) \<Longrightarrow> now < lifetime_from now \<Longrightarrow>
    c_expires_at c \<le> lifetime_from now \<Longrightarrow>
    control_event now st (quiet [PutClient (c\<lparr>c_issued_at := now, c_expires_at := lifetime_from now\<rparr>)])"
| renew_edge: "e \<in> set (edges st) \<Longrightarrow> now < lifetime_from now \<Longrightarrow>
    e_expires_at e \<le> lifetime_from now \<Longrightarrow>
    control_event now st (quiet [PutEdge (e\<lparr>e_issued_at := now, e_expires_at := lifetime_from now\<rparr>)])"
| add_provisioner: "p_name p \<notin> p_name ` set (provisioners st) \<Longrightarrow>
    p_endpoint_id p \<notin> p_endpoint_id ` set (provisioners st) \<Longrightarrow>
    control_event now st (topology [PutProvisioner p])"
| remove_provisioner: "p \<in> set (provisioners st) \<Longrightarrow>
    (\<forall>c \<in> set (clients st). c_managed_by c \<noteq> Some (p_endpoint_id p)) \<Longrightarrow>
    control_event now st (topology [DeleteProvisioner (p_endpoint_id p)])"
| cleanup: "control_event now st (quiet (cleanup_changes now st))"

definition next_revision :: "StateDelta \<Rightarrow> ControlState \<Rightarrow> nat" where
  "next_revision d st = (case sd_publish d of PublishNone \<Rightarrow> revision st | _ \<Rightarrow> revision st + 1)"

definition next_relay_revision :: "StateDelta \<Rightarrow> ControlState \<Rightarrow> nat" where
  "next_relay_revision d st = (case sd_publish d of PublishNodesAndRelays \<Rightarrow> relay_revision st + 1
     | _ \<Rightarrow> relay_revision st)"

text \<open>The state after a committed delta.\<close>

definition after_delta :: "StateDelta \<Rightarrow> ControlState \<Rightarrow> ControlState" where
  "after_delta d st = (StateDelta_apply d st)
     \<lparr>revision := next_revision d st, relay_revision := next_relay_revision d st\<rparr>"

lemma after_delta_changes:
  "after_delta d st = (fold apply_change (sd_changes d) st)
     \<lparr>revision := next_revision d st, relay_revision := next_relay_revision d st\<rparr>"
  by (simp add: after_delta_def StateDelta_apply_def)

lemma publish_simps [simp]:
  "sd_changes (quiet c) = c" "sd_changes (topology c) = c" "sd_changes (revocation c) = c"
  "next_revision (quiet c) st = revision st" "next_revision (topology c) st = revision st + 1"
  "next_revision (revocation c) st = revision st + 1"
  "next_relay_revision (quiet c) st = relay_revision st"
  "next_relay_revision (topology c) st = relay_revision st"
  "next_relay_revision (revocation c) st = relay_revision st + 1"
  by (simp_all add: quiet_def topology_def revocation_def next_revision_def next_relay_revision_def)

lemma next_revision_ge: "revision st \<le> next_revision d st"
  "relay_revision st \<le> next_relay_revision d st"
  by (simp_all add: next_revision_def next_relay_revision_def split: Publish.splits)

lemma revocation_record_key [simp]: "rv_endpoint_id (revocation_record st k g x) = k"
  by (simp add: revocation_record_def Let_def split: option.splits)

lemma revocation_record_covers:
  "g \<le> rv_generation (revocation_record st k g x)" "x \<le> rv_expires_at (revocation_record st k g x)"
  by (simp_all add: revocation_record_def Let_def split: option.splits)

lemma revocation_record_revision:
  "0 < rv_revision (revocation_record st k g x)"
  "rv_revision (revocation_record st k g x) \<le> Suc (relay_revision st)"
  by (simp_all add: revocation_record_def Let_def u64_saturating_add_def u64_max_def
      split: option.splits)

lemma revocation_record_bounded:
  assumes "\<And>r. r \<in> set (revocations st) \<Longrightarrow> rv_generation r \<le> vn" "g \<le> vn"
  shows "rv_generation (revocation_record st k g x) \<le> vn"
  using assms by (auto simp: revocation_record_def Let_def split: option.splits dest: find_by_key)

lemma revocation_record_extends:
  assumes "keys_distinct rv_endpoint_id (revocations st)"
    and "r \<in> set (revocations st)" "rv_endpoint_id r = k"
  shows "rv_generation r \<le> rv_generation (revocation_record st k g x) \<and>
    rv_expires_at r \<le> rv_expires_at (revocation_record st k g x)"
proof -
  have "find_by rv_endpoint_id k (revocations st) = Some r"
    using assms by (simp add: find_by_Some_iff)
  then show ?thesis by (simp add: revocation_record_def Let_def)
qed

section \<open>Every mutation keeps the invariant\<close>

lemma apply_change_fields [simp]:
  "revision (apply_change ch st) = revision st"
  "relay_revision (apply_change ch st) = relay_revision st"
  "cs_audience (apply_change ch st) = cs_audience st"
  "cs_public_url (apply_change ch st) = cs_public_url st"
  "cs_relay_ca_der (apply_change ch st) = cs_relay_ca_der st"
  "cs_schema (apply_change ch st) = cs_schema st"
  by (cases ch; simp)+

fun is_cleanup :: "StateChange \<Rightarrow> bool" where
  "is_cleanup (DeleteInvite _) = True"
| "is_cleanup (DeleteRevocation _) = True"
| "is_cleanup _ = False"

lemma changes_ok_cleanup: "list_all is_cleanup chs \<Longrightarrow> changes_ok vn vr chs st"
proof (induction chs arbitrary: st)
  case (Cons ch chs)
  then show ?case by (cases ch) simp_all
qed simp

lemma cleanup_changes_are_cleanup: "list_all is_cleanup (cleanup_changes now st)"
  by (auto simp: cleanup_changes_def list_all_iff)

lemma image_fresh: "k \<notin> f ` A \<longleftrightarrow> (\<forall>x \<in> A. f x \<noteq> k)"
  by auto

lemma event_changes_ok:
  assumes "control_event now st d" "tables_ok (revision st) (relay_revision st) st"
  shows "changes_ok (next_revision d st) (next_relay_revision d st) (sd_changes d) st"
  using assms
proof cases
  case (enrol_client i c)
  then show ?thesis by (simp add: claimed_def invite_ok_def image_fresh)
next
  case (enrol_edge i e)
  then show ?thesis by (simp add: claimed_def invite_ok_def image_fresh)
next
  case (enrol_relay i r)
  then show ?thesis by (simp add: claimed_def invite_ok_def image_fresh)
next
  case (revoke_invite i)
  then show ?thesis using assms(2) by (auto simp: tables_ok_def invites_ok_def invite_ok_def)
next
  case (remove_client c)
  then have "0 < c_generation c" "c_generation c \<le> revision st"
    using assms(2) by (auto simp: tables_ok_def clients_ok_def)
  then show ?thesis
    using assms(2) remove_client revocation_record_covers(1) [of "c_generation c"]
    by (auto simp: revocation_change_def revocation_record_revision tables_ok_def revocations_ok_def
        intro!: revocation_record_bounded less_le_trans [OF _ revocation_record_covers(1)])
next
  case (remove_edge e)
  then have "0 < e_generation e" "e_generation e \<le> revision st"
    using assms(2) by (auto simp: tables_ok_def edges_ok_def)
  then show ?thesis
    using assms(2) remove_edge
    by (auto simp: revocation_change_def revocation_record_revision tables_ok_def revocations_ok_def
        intro!: revocation_record_bounded less_le_trans [OF _ revocation_record_covers(1)])
next
  case (transfer_edge e owner)
  then show ?thesis
    using assms(2) by (auto simp: tables_ok_def edges_ok_def edge_slot_def image_iff)
next
  case (update_port r port)
  then show ?thesis
    using assms(2) by (auto simp: tables_ok_def relays_ok_def keys_distinct_def distinct_map inj_on_def)
next
  case (renew_client c)
  then show ?thesis
    using assms(2) by (auto simp: tables_ok_def clients_ok_def keys_distinct_def distinct_map inj_on_def)
next
  case (renew_edge e)
  then show ?thesis
    using assms(2)
    by (auto simp: tables_ok_def edges_ok_def keys_distinct_def distinct_map inj_on_def edge_slot_def)
next
  case cleanup
  then show ?thesis by (simp add: changes_ok_cleanup cleanup_changes_are_cleanup)
qed (simp_all add: invite_ok_def image_fresh)

lemma tables_ok_revisions [simp]:
  "tables_ok vn vr (st\<lparr>revision := a, relay_revision := b\<rparr>) = tables_ok vn vr st"
  by (simp add: tables_ok_def tables_ok_defs)

theorem event_state_ok:
  assumes "state_ok st" "control_event now st d"
  shows "state_ok (after_delta d st)"
proof -
  have "tables_ok (next_revision d st) (next_relay_revision d st) st"
    using assms(1) next_revision_ge by (auto simp: state_ok_def intro: tables_ok_mono)
  then have "tables_ok (next_revision d st) (next_relay_revision d st) (StateDelta_apply d st)"
    unfolding StateDelta_apply_def
    using assms by (auto simp: state_ok_def intro: changes_ok_fold event_changes_ok)
  then show ?thesis
    using assms(1) next_revision_ge(2) [of st d] by (simp add: state_ok_def after_delta_def)
qed

section \<open>Credentials stay accounted for\<close>

text \<open>
  A credential for endpoint \<open>k\<close> of generation \<open>g\<close> that lasts until \<open>x\<close> is covered at time
  \<open>now\<close> when it has expired, when its node is still registered under that generation for
  at least as long, or when a revocation record of \<open>k\<close> reaches \<open>g\<close> and outlives it.
\<close>

definition revoked :: "RevocationRecord list \<Rightarrow> string \<Rightarrow> nat \<Rightarrow> int \<Rightarrow> bool" where
  "revoked rs k g x \<longleftrightarrow> (\<exists>r \<in> set rs.
     rv_endpoint_id r = k \<and> g \<le> rv_generation r \<and> x \<le> rv_expires_at r)"

definition registered :: "ClientRecord list \<Rightarrow> EdgeRecord list \<Rightarrow> string \<Rightarrow> nat \<Rightarrow> int \<Rightarrow> bool" where
  "registered cs es k g x \<longleftrightarrow>
     (\<exists>c \<in> set cs. c_endpoint_id c = k \<and> c_generation c = g \<and> x \<le> c_expires_at c) \<or>
     (\<exists>e \<in> set es. e_endpoint_id e = k \<and> e_generation e = g \<and> x \<le> e_expires_at e)"

definition covered :: "int \<Rightarrow> ControlState \<Rightarrow> string \<Rightarrow> nat \<Rightarrow> int \<Rightarrow> bool" where
  "covered now st k g x \<longleftrightarrow> x \<le> now \<or> registered (clients st) (edges st) k g x \<or>
     revoked (revocations st) k g x"

lemma revoked_put:
  assumes "keys_distinct rv_endpoint_id (revocations st)" "revoked (revocations st) k g x"
  shows "revoked (upsert_by rv_endpoint_id (revocation_record st k' g' x')
    (revocations st)) k g x"
proof -
  from assms(2) obtain r where r: "r \<in> set (revocations st)" "rv_endpoint_id r = k"
    "g \<le> rv_generation r" "x \<le> rv_expires_at r"
    by (auto simp: revoked_def)
  show ?thesis
  proof (cases "k' = k")
    case True
    with r revocation_record_extends [OF assms(1) r(1,2), of g' x'] show ?thesis
      by (auto simp: revoked_def revocation_table.rows_put assms(1))
  next
    case False
    with r show ?thesis by (auto simp: revoked_def revocation_table.rows_put assms(1))
  qed
qed

lemma revoked_new:
  assumes "keys_distinct rv_endpoint_id (revocations st)" "g \<le> g'" "x \<le> x'"
  shows "revoked (upsert_by rv_endpoint_id (revocation_record st k g' x')
    (revocations st)) k g x"
  using assms revocation_record_covers(1) [of g' st k x'] revocation_record_covers(2) [of x' st k g']
  by (fastforce simp: revoked_def revocation_table.rows_put)

lemma fold_cleanup_nodes:
  "list_all is_cleanup chs \<Longrightarrow> clients (fold apply_change chs st) = clients st \<and>
     edges (fold apply_change chs st) = edges st"
proof (induction chs arbitrary: st)
  case (Cons ch chs)
  then show ?case by (cases ch) simp_all
qed simp

lemma fold_delete_revocations:
  "revocations (fold apply_change (map (\<lambda>r. DeleteRevocation (rv_endpoint_id r)) rs) st)
   = filter (\<lambda>r. rv_endpoint_id r \<notin> rv_endpoint_id ` set rs) (revocations st)"
  by (induction rs arbitrary: st) (auto simp: delete_by_def intro: filter_cong)

lemma fold_delete_invites:
  "fold apply_change (map (\<lambda>i. DeleteInvite (i_id i)) is) st
   = st\<lparr>invites := filter (\<lambda>i. i_id i \<notin> i_id ` set is) (invites st)\<rparr>"
  by (induction "is" arbitrary: st) (auto simp: delete_by_def intro: filter_cong)

lemma filter_by_key:
  assumes "keys_distinct key t"
  shows "filter (\<lambda>r. key r \<notin> key ` set (filter P t)) t = filter (\<lambda>r. \<not> P r) t"
  using assms by (intro filter_cong) (auto simp: keys_distinct_def distinct_map inj_on_def)

lemma cleanup_is_retention:
  assumes "keys_distinct i_id (invites st)" "keys_distinct rv_endpoint_id (revocations st)"
  shows "StateDelta_apply (quiet (cleanup_changes now st)) st
    = snd (cleanup_revocations now (snd (cleanup_invitations now st)))"
proof -
  let ?old = "\<lambda>i. i64_saturating_add (invite_terminal now i) INVITATION_RETENTION_SECS \<le> now"
  have inv: "filter (\<lambda>i. i_id i \<notin> i_id ` set (filter ?old (invites st))) (invites st)
      = filter (\<lambda>i. now < i64_saturating_add (invite_terminal now i) INVITATION_RETENTION_SECS) (invites st)"
    unfolding filter_by_key [OF assms(1)] by (simp add: not_le)
  have rv: "filter (\<lambda>r. rv_endpoint_id r \<notin> rv_endpoint_id ` set
      (filter (\<lambda>r. rv_expires_at r \<le> now) (revocations st))) (revocations st)
      = filter (\<lambda>r. now < rv_expires_at r) (revocations st)"
    unfolding filter_by_key [OF assms(2)] by (simp add: not_le)
  have nodes: "fold apply_change (map (\<lambda>r. DeleteRevocation (rv_endpoint_id r)) rs) s
      = s\<lparr>revocations := filter (\<lambda>r. rv_endpoint_id r \<notin> rv_endpoint_id ` set rs) (revocations s)\<rparr>" for rs s
    by (induction rs arbitrary: s) (auto simp: delete_by_def intro: filter_cong)
  show ?thesis
    by (simp add: StateDelta_apply_def cleanup_changes_def fold_delete_invites nodes inv rv
        cleanup_revocations_def cleanup_invitations_def Let_def del: set_filter)
qed

lemma registered_put_client:
  assumes "keys_distinct c_endpoint_id cs" "registered cs es k g x"
    and "\<And>c. c \<in> set cs \<Longrightarrow> c_endpoint_id c = c_endpoint_id c' \<Longrightarrow>
      c_generation c' = c_generation c \<and> c_expires_at c \<le> c_expires_at c'"
  shows "registered (upsert_by c_endpoint_id c' cs) es k g x"
  using assms unfolding registered_def by (simp add: client_table.rows_put) (metis order_trans)

lemma registered_put_edge:
  assumes "keys_distinct e_endpoint_id es" "registered cs es k g x"
    and "\<And>e. e \<in> set es \<Longrightarrow> e_endpoint_id e = e_endpoint_id e' \<Longrightarrow>
      e_generation e' = e_generation e \<and> e_expires_at e \<le> e_expires_at e'"
  shows "registered cs (upsert_by e_endpoint_id e' es) k g x"
  using assms unfolding registered_def by (simp add: edge_table.rows_put) (metis order_trans)

lemma registered_delete_client:
  assumes "keys_distinct c_endpoint_id cs" "registered cs es k g x" "c \<in> set cs"
  shows "registered (delete_by c_endpoint_id (c_endpoint_id c) cs) es k g x \<or>
    k = c_endpoint_id c \<and> g = c_generation c \<and> x \<le> c_expires_at c"
  using assms unfolding registered_def
  by (auto simp: set_delete_by dest: client_table.rows_key_unique)

lemma registered_delete_edge:
  assumes "keys_distinct e_endpoint_id es" "registered cs es k g x" "e \<in> set es"
  shows "registered cs (delete_by e_endpoint_id (e_endpoint_id e) es) k g x \<or>
    k = e_endpoint_id e \<and> g = e_generation e \<and> x \<le> e_expires_at e"
  using assms unfolding registered_def
  by (auto simp: set_delete_by dest: edge_table.rows_key_unique)

theorem event_keeps_covered:
  assumes "state_ok st" "control_event t st d" "t \<le> now" "covered now st k g x"
  shows "covered now (after_delta d st) k g x"
proof (cases "x \<le> now")
  case False
  then have reg: "registered (clients st) (edges st) k g x \<or> revoked (revocations st) k g x" using assms(4) by (simp add: covered_def)
  have tables: "tables_ok (revision st) (relay_revision st) st" using assms(1) by (simp add: state_ok_def)
  note keys = tables_ok_distinct [OF tables]
  note upd = after_delta_def StateDelta_apply_def covered_def
  from assms(2) show ?thesis
  proof cases
    case (enrol_client i c)
    with reg show ?thesis
      by (auto simp: upd image_fresh keys intro!: registered_put_client)
  next
    case (enrol_edge i e)
    with reg show ?thesis
      by (auto simp: upd image_fresh keys intro!: registered_put_edge)
  next
    case (transfer_edge e owner)
    then have uniq: "e' = e" if "e' \<in> set (edges st)" "e_endpoint_id e' = e_endpoint_id e" for e'
      using that keys by (intro edge_table.rows_key_unique) auto
    from reg transfer_edge show ?thesis
      by (auto simp: upd image_fresh keys dest: uniq intro!: registered_put_edge)
  next
    case (renew_client c)
    then have uniq: "c' = c" if "c' \<in> set (clients st)" "c_endpoint_id c' = c_endpoint_id c" for c'
      using that keys by (intro client_table.rows_key_unique) auto
    from reg renew_client show ?thesis
      by (auto simp: upd image_fresh keys dest: uniq intro!: registered_put_client)
  next
    case (renew_edge e)
    then have uniq: "e' = e" if "e' \<in> set (edges st)" "e_endpoint_id e' = e_endpoint_id e" for e'
      using that keys by (intro edge_table.rows_key_unique) auto
    from reg renew_edge show ?thesis
      by (auto simp: upd image_fresh keys dest: uniq intro!: registered_put_edge)
  next
    case (remove_client c)
    then show ?thesis
      using reg registered_delete_client [OF keys(1), of "edges st" k g x c]
        revoked_new [OF keys(6), of g "c_generation c" x "c_expires_at c" k]
        revoked_put [OF keys(6), of k g x "c_endpoint_id c" "c_generation c" "c_expires_at c"]
      by (auto simp: upd revocation_change_def)
  next
    case (remove_edge e)
    then show ?thesis
      using reg registered_delete_edge [OF keys(2), of "clients st" k g x e]
        revoked_new [OF keys(6), of g "e_generation e" x "e_expires_at e" k]
        revoked_put [OF keys(6), of k g x "e_endpoint_id e" "e_generation e" "e_expires_at e"]
      by (auto simp: upd revocation_change_def)
  next
    case cleanup
    have "revoked (filter (\<lambda>r. t < rv_expires_at r) rs) k g x" if "revoked rs k g x" for rs
      using that False \<open>t \<le> now\<close> by (auto simp: revoked_def)
    then show ?thesis
      using reg cleanup
      by (auto simp: after_delta_def covered_def cleanup_is_retention keys
          cleanup_revocations_def cleanup_invitations_def Let_def)
  qed (use reg in \<open>auto simp: upd\<close>)
qed (simp add: covered_def)

end
