(* ===== verification/Control_Db.thy ===== *)
theory Control_Db
  imports Control_Events "HOL-Library.List_Lexorder" "HOL-Library.Char_ord"
begin

text \<open>
  Control's durable state (\<open>crates/as-control/src/db.rs\<close> and \<open>schema.sql\<close>): the SQLite
  tables as lists of rows in rowid order, one definition per SQL statement with the
  constraints the schema puts on it (primary keys, unique columns, foreign keys with
  \<open>RESTRICT\<close> and \<open>SET NULL\<close>, checks), and the transactions built from them.  A failing
  statement ends the transaction, and the tables stay as they were.
\<close>

section \<open>Rows\<close>

record ProvisionerRow =
  pv_endpoint_id :: string
  pv_name :: string
  pv_active :: bool

record InvitationRow =
  iw_invite_id :: string
  iw_name :: string
  iw_kind :: string
  iw_owner_id :: "string option"
  iw_invite_json :: "byte list"
  iw_expires_at :: int
  iw_state :: string
  iw_claimed_by :: "string option"
  iw_request_id :: "string option"
  iw_managed_by :: "string option"
  iw_request_hash :: "string option"
  iw_terminal_at :: "int option"

record Metadata =
  md_schema :: nat
  md_audience :: string
  md_public_url :: string
  md_relay_ca_der :: "byte list"
  md_revision :: int
  md_relay_revision :: int

record Database =
  db_metadata :: "Metadata option"
  db_provisioners :: "ProvisionerRow list"
  db_clients :: "ClientRecord list"
  db_edges :: "EdgeRecord list"
  db_relays :: "RelayRecord list"
  db_revocations :: "RevocationRecord list"
  db_invitations :: "InvitationRow list"

definition empty_database :: Database where
  "empty_database = \<lparr>db_metadata = None, db_provisioners = [], db_clients = [], db_edges = [],
     db_relays = [], db_revocations = [], db_invitations = []\<rparr>"

abbreviation unique_violation :: "Ext \<Rightarrow> string \<Rightarrow> string" where
  "unique_violation X column \<equiv> db_error_text X (UniqueViolation column)"
abbreviation fk_violation :: "Ext \<Rightarrow> string \<Rightarrow> string" where
  "fk_violation X column \<equiv> db_error_text X (ForeignKeyViolation column)"
abbreviation check_violation :: "Ext \<Rightarrow> string \<Rightarrow> string" where
  "check_violation X column \<equiv> db_error_text X (CheckViolation column)"

definition sqlite_range :: "string \<Rightarrow> nat \<Rightarrow> string + int" where
  "sqlite_range msg n = with_context msg (ok_or () (i64_try_from_u64 n))"

section \<open>Statements\<close>

definition ensure_provisioner_placeholder :: "string \<Rightarrow> Database \<Rightarrow> Database" where
  "ensure_provisioner_placeholder endpoint_id db =
     (if endpoint_id \<in> pv_endpoint_id ` set (db_provisioners db) then db
      else db\<lparr>db_provisioners := db_provisioners db @
        [\<lparr>pv_endpoint_id = endpoint_id, pv_name = ''deleted:'' @ endpoint_id, pv_active = False\<rparr>]\<rparr>)"

definition placeholder_for :: "string option \<Rightarrow> Database \<Rightarrow> Database" where
  "placeholder_for managed_by db = (case managed_by of None \<Rightarrow> db
     | Some endpoint_id \<Rightarrow> ensure_provisioner_placeholder endpoint_id db)"

definition db_put_provisioner :: "Ext \<Rightarrow> ProvisionerRecord \<Rightarrow> Database \<Rightarrow> string + Database" where
  "db_put_provisioner X item db =
     and_then (ensure (\<forall>r \<in> set (db_provisioners db). pv_endpoint_id r \<noteq> p_endpoint_id item \<longrightarrow>
         pv_active r \<longrightarrow> pv_name r \<noteq> p_name item)
       (unique_violation X ''provisioners.name'')) (\<lambda>_.
     Inr (db\<lparr>db_provisioners := upsert_by pv_endpoint_id
       \<lparr>pv_endpoint_id = p_endpoint_id item, pv_name = p_name item, pv_active = True\<rparr>
       (db_provisioners db)\<rparr>))"

definition db_deactivate_provisioner :: "string \<Rightarrow> Database \<Rightarrow> Database" where
  "db_deactivate_provisioner endpoint_id db = db\<lparr>db_provisioners :=
     map (\<lambda>r. if pv_endpoint_id r = endpoint_id then r\<lparr>pv_active := False\<rparr> else r)
       (db_provisioners db)\<rparr>"

definition db_put_client :: "Ext \<Rightarrow> ClientRecord \<Rightarrow> Database \<Rightarrow> string + Database" where
  "db_put_client X item db =
     and_then (sqlite_range ''Client credential generation exceeds SQLite range''
       (c_generation item)) (\<lambda>_.
     and_then (ensure (c_generation item > 0 \<and> c_expires_at item > c_issued_at item)
       (check_violation X ''clients'')) (\<lambda>_.
     and_then (ensure (\<forall>r \<in> set (db_clients db). c_endpoint_id r \<noteq> c_endpoint_id item \<longrightarrow>
         c_name r \<noteq> c_name item) (unique_violation X ''clients.name'')) (\<lambda>_.
     and_then (ensure (case c_managed_by item of None \<Rightarrow> True
         | Some p \<Rightarrow> p \<in> pv_endpoint_id ` set (db_provisioners db))
       (fk_violation X ''clients.managed_by'')) (\<lambda>_.
     Inr (db\<lparr>db_clients := upsert_by c_endpoint_id item (db_clients db)\<rparr>)))))"

definition db_delete_client :: "Ext \<Rightarrow> string \<Rightarrow> Database \<Rightarrow> string + Database" where
  "db_delete_client X endpoint_id db =
     and_then (ensure (\<forall>e \<in> set (db_edges db). e_owner_id e \<noteq> endpoint_id)
       (fk_violation X ''edges.owner_id'')) (\<lambda>_.
     Inr (db\<lparr>db_clients := delete_by c_endpoint_id endpoint_id (db_clients db),
       db_invitations := map (\<lambda>r. if iw_owner_id r = Some endpoint_id
         then r\<lparr>iw_owner_id := None\<rparr> else r) (db_invitations db)\<rparr>))"

definition db_put_edge :: "Ext \<Rightarrow> EdgeRecord \<Rightarrow> Database \<Rightarrow> string + Database" where
  "db_put_edge X item db =
     and_then (sqlite_range ''Edge credential generation exceeds SQLite range''
       (e_generation item)) (\<lambda>_.
     and_then (ensure (e_generation item > 0 \<and> e_expires_at item > e_issued_at item)
       (check_violation X ''edges'')) (\<lambda>_.
     and_then (ensure (\<forall>r \<in> set (db_edges db). e_endpoint_id r \<noteq> e_endpoint_id item \<longrightarrow>
         edge_slot r \<noteq> edge_slot item) (unique_violation X ''edges.owner_id, edges.name'')) (\<lambda>_.
     and_then (ensure (e_owner_id item \<in> c_endpoint_id ` set (db_clients db))
       (fk_violation X ''edges.owner_id'')) (\<lambda>_.
     Inr (db\<lparr>db_edges := upsert_by e_endpoint_id item (db_edges db)\<rparr>)))))"

definition db_delete_edge :: "string \<Rightarrow> Database \<Rightarrow> Database" where
  "db_delete_edge endpoint_id db =
     db\<lparr>db_edges := delete_by e_endpoint_id endpoint_id (db_edges db)\<rparr>"

definition db_put_relay :: "Ext \<Rightarrow> RelayRecord \<Rightarrow> Database \<Rightarrow> string + Database" where
  "db_put_relay X item db =
     and_then (ensure (case r_qad_port item of None \<Rightarrow> True | Some p \<Rightarrow> 1 \<le> p \<and> p \<le> 65535)
       (check_violation X ''relays.qad_port'')) (\<lambda>_.
     and_then (ensure (\<forall>r \<in> set (db_relays db). r_endpoint_id r \<noteq> r_endpoint_id item \<longrightarrow>
         r_name r \<noteq> r_name item \<and> r_url r \<noteq> r_url item) (unique_violation X ''relays'')) (\<lambda>_.
     Inr (db\<lparr>db_relays := upsert_by r_endpoint_id item (db_relays db)\<rparr>)))"

definition db_delete_relay :: "string \<Rightarrow> Database \<Rightarrow> Database" where
  "db_delete_relay endpoint_id db =
     db\<lparr>db_relays := delete_by r_endpoint_id endpoint_id (db_relays db)\<rparr>"

definition db_put_revocation :: "Ext \<Rightarrow> RevocationRecord \<Rightarrow> Database \<Rightarrow> string + Database" where
  "db_put_revocation X item db =
     and_then (sqlite_range ''revoked credential generation exceeds SQLite range''
       (rv_generation item)) (\<lambda>_.
     and_then (sqlite_range ''revocation revision exceeds SQLite range'' (rv_revision item)) (\<lambda>_.
     and_then (ensure (rv_generation item > 0 \<and> rv_revision item > 0)
       (check_violation X ''relay_revocations'')) (\<lambda>_.
     Inr (db\<lparr>db_revocations := upsert_by rv_endpoint_id item (db_revocations db)\<rparr>))))"

definition db_delete_revocation :: "string \<Rightarrow> Database \<Rightarrow> Database" where
  "db_delete_revocation endpoint_id db =
     db\<lparr>db_revocations := delete_by rv_endpoint_id endpoint_id (db_revocations db)\<rparr>"

fun kind_columns :: "InviteKind \<Rightarrow> string \<times> string option" where
  "kind_columns IKClient = (''client'', None)"
| "kind_columns (IKEdge owner_id) = (''edge'', Some owner_id)"
| "kind_columns (IKRelay _) = (''relay'', None)"

definition invitation_row :: "Ext \<Rightarrow> string option \<Rightarrow> InviteRecord \<Rightarrow> InvitationRow" where
  "invitation_row X owner_id item = \<lparr>iw_invite_id = i_id item, iw_name = inv_name (i_invite item),
     iw_kind = fst (kind_columns (inv_kind (i_invite item))), iw_owner_id = owner_id,
     iw_invite_json = json_to_vec X (Invite_json (i_invite item)),
     iw_expires_at = inv_expires_at (i_invite item), iw_state = invite_state_text (i_state item),
     iw_claimed_by = i_claimed_by item, iw_request_id = i_request_id item,
     iw_managed_by = i_managed_by item, iw_request_hash = i_request_hash item,
     iw_terminal_at = i_terminal_at item\<rparr>"

definition db_put_invitation :: "Ext \<Rightarrow> InvitationRow \<Rightarrow> Database \<Rightarrow> string + Database" where
  "db_put_invitation X row db =
     and_then (ensure (iw_kind row = ''edge'' \<or> iw_owner_id row = None)
       (check_violation X ''invitations.owner_id'')) (\<lambda>_.
     and_then (ensure ((iw_state row = ''pending'') = (iw_terminal_at row = None))
       (check_violation X ''invitations.terminal_at'')) (\<lambda>_.
     and_then (ensure (\<forall>r \<in> set (db_invitations db). iw_invite_id r \<noteq> iw_invite_id row \<longrightarrow>
         iw_request_id row \<noteq> None \<longrightarrow> iw_request_id r \<noteq> iw_request_id row)
       (unique_violation X ''invitations.request_id'')) (\<lambda>_.
     and_then (ensure (case iw_owner_id row of None \<Rightarrow> True
         | Some owner \<Rightarrow> owner \<in> c_endpoint_id ` set (db_clients db))
       (fk_violation X ''invitations.owner_id'')) (\<lambda>_.
     and_then (ensure (case iw_managed_by row of None \<Rightarrow> True
         | Some p \<Rightarrow> p \<in> pv_endpoint_id ` set (db_provisioners db))
       (fk_violation X ''invitations.managed_by'')) (\<lambda>_.
     Inr (db\<lparr>db_invitations := upsert_by iw_invite_id row (db_invitations db)\<rparr>))))))"

definition db_delete_invitation :: "string \<Rightarrow> Database \<Rightarrow> Database" where
  "db_delete_invitation invite_id db =
     db\<lparr>db_invitations := delete_by iw_invite_id invite_id (db_invitations db)\<rparr>"

text \<open>The clean-up that ends every transaction: inactive provisioners that no invitation
  and no client refers to.\<close>

definition db_purge_provisioners :: "Database \<Rightarrow> Database" where
  "db_purge_provisioners db = db\<lparr>db_provisioners := filter (\<lambda>r. \<not> (\<not> pv_active r \<and>
     Some (pv_endpoint_id r) \<notin> iw_managed_by ` set (db_invitations db) \<and>
     Some (pv_endpoint_id r) \<notin> c_managed_by ` set (db_clients db))) (db_provisioners db)\<rparr>"

section \<open>Applying a delta\<close>

fun db_change :: "Ext \<Rightarrow> nat \<Rightarrow> StateChange \<Rightarrow> Database \<Rightarrow> string + Database" where
  "db_change X relay_rev (PutClient item) db =
     db_put_client X item (placeholder_for (c_managed_by item) db)"
| "db_change X relay_rev (DeleteClient endpoint_id) db = db_delete_client X endpoint_id db"
| "db_change X relay_rev (PutEdge item) db = db_put_edge X item db"
| "db_change X relay_rev (DeleteEdge endpoint_id) db = Inr (db_delete_edge endpoint_id db)"
| "db_change X relay_rev (PutRelay item) db = db_put_relay X item db"
| "db_change X relay_rev (DeleteRelay endpoint_id) db = Inr (db_delete_relay endpoint_id db)"
| "db_change X relay_rev (PutInvite item) db =
     db_put_invitation X (invitation_row X (snd (kind_columns (inv_kind (i_invite item)))) item)
       (placeholder_for (i_managed_by item) db)"
| "db_change X relay_rev (DeleteInvite invite_id) db = Inr (db_delete_invitation invite_id db)"
| "db_change X relay_rev (PutProvisioner item) db = db_put_provisioner X item db"
| "db_change X relay_rev (DeleteProvisioner endpoint_id) db =
     Inr (db_deactivate_provisioner endpoint_id db)"
| "db_change X relay_rev (PutRevocation item) db =
     and_then (ensure (rv_revision item \<le> relay_rev)
       ''revocation record is ahead of Relay revision'') (\<lambda>_.
     db_put_revocation X item db)"
| "db_change X relay_rev (DeleteRevocation endpoint_id) db = Inr (db_delete_revocation endpoint_id db)"

definition db_update_revisions ::
  "Ext \<Rightarrow> int \<Rightarrow> int \<Rightarrow> int \<Rightarrow> int \<Rightarrow> Database \<Rightarrow> string + Database" where
  "db_update_revisions X rev_new relay_new rev_old relay_old db = (case db_metadata db of
      Some md \<Rightarrow>
        if md_revision md = rev_old \<and> md_relay_revision md = relay_old
        then and_then (ensure (rev_new \<ge> 0 \<and> relay_new > 0) (check_violation X ''metadata'')) (\<lambda>_.
          Inr (db\<lparr>db_metadata := Some (md\<lparr>md_revision := rev_new, md_relay_revision := relay_new\<rparr>)\<rparr>))
        else Inl ''durable Control revision changed while applying mutation''
    | None \<Rightarrow> Inl ''durable Control revision changed while applying mutation'')"

text \<open>\<open>io\<close> stands for the outcome of opening, writing and committing the transaction.\<close>

definition apply_delta_sync ::
  "Ext \<Rightarrow> bool \<Rightarrow> nat \<Rightarrow> nat \<Rightarrow> nat \<Rightarrow> nat \<Rightarrow> StateDelta \<Rightarrow> Database \<Rightarrow> string + Database" where
  "apply_delta_sync X io expected_rev expected_relay_rev rev_new relay_rev delta db =
     and_then (ensure (rev_new = expected_rev \<or> rev_new = u64_saturating_add expected_rev 1)
       ''control revision must remain unchanged or advance atomically by one'') (\<lambda>_.
     and_then (ensure (relay_rev = expected_relay_rev \<or>
         relay_rev = u64_saturating_add expected_relay_rev 1)
       ''Relay revision must remain unchanged or advance atomically by one'') (\<lambda>_.
     and_then (ensure io (db_error_text X DbIo)) (\<lambda>_.
     and_then (fold_ok (db_change X relay_rev) (sd_changes delta) db) (\<lambda>db.
     let db = db_purge_provisioners db in
     and_then (sqlite_range ''control revision exceeds SQLite range'' rev_new) (\<lambda>rev_new.
     and_then (sqlite_range ''Relay revision exceeds SQLite range'' relay_rev) (\<lambda>relay_rev.
     and_then (sqlite_range ''control revision exceeds SQLite range'' expected_rev) (\<lambda>expected_rev.
     and_then (sqlite_range ''Relay revision exceeds SQLite range'' expected_relay_rev)
       (\<lambda>expected_relay_rev.
     db_update_revisions X rev_new relay_rev expected_rev expected_relay_rev db))))))))"

lemma sqlite_range_Inr [simp]: "sqlite_range msg n = Inr i \<longleftrightarrow> i = int n \<and> int n \<le> i64_max"
  by (simp add: sqlite_range_def)

lemma db_put_client_Inr:
  "db_put_client X c db = Inr db' \<longleftrightarrow> int (c_generation c) \<le> i64_max \<and> c_generation c > 0 \<and>
     c_expires_at c > c_issued_at c \<and>
     (\<forall>r \<in> set (db_clients db). c_endpoint_id r \<noteq> c_endpoint_id c \<longrightarrow> c_name r \<noteq> c_name c) \<and>
     (case c_managed_by c of None \<Rightarrow> True | Some p \<Rightarrow> p \<in> pv_endpoint_id ` set (db_provisioners db)) \<and>
     db' = db\<lparr>db_clients := upsert_by c_endpoint_id c (db_clients db)\<rparr>"
  unfolding db_put_client_def by auto

lemma db_put_edge_Inr:
  "db_put_edge X e db = Inr db' \<longleftrightarrow> int (e_generation e) \<le> i64_max \<and> e_generation e > 0 \<and>
     e_expires_at e > e_issued_at e \<and>
     (\<forall>r \<in> set (db_edges db). e_endpoint_id r \<noteq> e_endpoint_id e \<longrightarrow> edge_slot r \<noteq> edge_slot e) \<and>
     e_owner_id e \<in> c_endpoint_id ` set (db_clients db) \<and>
     db' = db\<lparr>db_edges := upsert_by e_endpoint_id e (db_edges db)\<rparr>"
  unfolding db_put_edge_def by auto

lemma db_put_relay_Inr:
  "db_put_relay X r db = Inr db' \<longleftrightarrow>
     (case r_qad_port r of None \<Rightarrow> True | Some p \<Rightarrow> 1 \<le> p \<and> p \<le> 65535) \<and>
     (\<forall>x \<in> set (db_relays db). r_endpoint_id x \<noteq> r_endpoint_id r \<longrightarrow>
        r_name x \<noteq> r_name r \<and> r_url x \<noteq> r_url r) \<and>
     db' = db\<lparr>db_relays := upsert_by r_endpoint_id r (db_relays db)\<rparr>"
  unfolding db_put_relay_def by auto

lemma db_put_revocation_Inr:
  "db_put_revocation X r db = Inr db' \<longleftrightarrow> int (rv_generation r) \<le> i64_max \<and>
     int (rv_revision r) \<le> i64_max \<and> rv_generation r > 0 \<and> rv_revision r > 0 \<and>
     db' = db\<lparr>db_revocations := upsert_by rv_endpoint_id r (db_revocations db)\<rparr>"
  unfolding db_put_revocation_def by auto

lemma db_put_provisioner_Inr:
  "db_put_provisioner X p db = Inr db' \<longleftrightarrow>
     (\<forall>r \<in> set (db_provisioners db). pv_endpoint_id r \<noteq> p_endpoint_id p \<longrightarrow> pv_active r \<longrightarrow>
        pv_name r \<noteq> p_name p) \<and>
     db' = db\<lparr>db_provisioners := upsert_by pv_endpoint_id
       \<lparr>pv_endpoint_id = p_endpoint_id p, pv_name = p_name p, pv_active = True\<rparr> (db_provisioners db)\<rparr>"
  unfolding db_put_provisioner_def by auto

lemma db_delete_client_Inr:
  "db_delete_client X k db = Inr db' \<longleftrightarrow> (\<forall>e \<in> set (db_edges db). e_owner_id e \<noteq> k) \<and>
     db' = db\<lparr>db_clients := delete_by c_endpoint_id k (db_clients db),
       db_invitations := map (\<lambda>r. if iw_owner_id r = Some k
         then r\<lparr>iw_owner_id := None\<rparr> else r) (db_invitations db)\<rparr>"
  unfolding db_delete_client_def by auto

lemma db_put_invitation_Inr:
  "db_put_invitation X row db = Inr db' \<longleftrightarrow>
     (iw_kind row = ''edge'' \<or> iw_owner_id row = None) \<and>
     ((iw_state row = ''pending'') = (iw_terminal_at row = None)) \<and>
     (\<forall>r \<in> set (db_invitations db). iw_invite_id r \<noteq> iw_invite_id row \<longrightarrow>
        iw_request_id row \<noteq> None \<longrightarrow> iw_request_id r \<noteq> iw_request_id row) \<and>
     (case iw_owner_id row of None \<Rightarrow> True | Some owner \<Rightarrow> owner \<in> c_endpoint_id ` set (db_clients db)) \<and>
     (case iw_managed_by row of None \<Rightarrow> True
       | Some p \<Rightarrow> p \<in> pv_endpoint_id ` set (db_provisioners db)) \<and>
     db' = db\<lparr>db_invitations := upsert_by iw_invite_id row (db_invitations db)\<rparr>"
  unfolding db_put_invitation_def and_then_Inr ensure_Inr by auto

lemmas db_put_Inr = db_put_client_Inr db_put_edge_Inr db_put_relay_Inr db_put_revocation_Inr
  db_put_provisioner_Inr db_delete_client_Inr db_put_invitation_Inr

section \<open>Agreement of the tables with the state in memory\<close>

interpretation provisioner_rows: keyed_table "find_by pv_endpoint_id" "upsert_by pv_endpoint_id"
  "delete_by pv_endpoint_id" pv_endpoint_id "keys_distinct pv_endpoint_id" set
  by (rule keyed_list)
interpretation invitation_rows: keyed_table "find_by iw_invite_id" "upsert_by iw_invite_id"
  "delete_by iw_invite_id" iw_invite_id "keys_distinct iw_invite_id" set
  by (rule keyed_list)

definition erase_owner :: "InvitationRow \<Rightarrow> InvitationRow" where
  "erase_owner r = r\<lparr>iw_owner_id := None\<rparr>"

definition provisioner_of :: "ProvisionerRow \<Rightarrow> ProvisionerRecord" where
  "provisioner_of r = \<lparr>p_name = pv_name r, p_endpoint_id = pv_endpoint_id r\<rparr>"

definition active_rows :: "ProvisionerRow list \<Rightarrow> ProvisionerRow set" where
  "active_rows rs = {r \<in> set rs. pv_active r}"

text \<open>The rows hold exactly the records in memory; the owner column of an invitation is
  derived data, and inactive provisioners exist on disk only.\<close>

definition tables_coherent :: "Ext \<Rightarrow> Database \<Rightarrow> ControlState \<Rightarrow> bool" where
  "tables_coherent X db st \<longleftrightarrow>
     keys_distinct c_endpoint_id (db_clients db) \<and> set (db_clients db) = set (clients st) \<and>
     keys_distinct e_endpoint_id (db_edges db) \<and> set (db_edges db) = set (edges st) \<and>
     keys_distinct r_endpoint_id (db_relays db) \<and> set (db_relays db) = set (relays st) \<and>
     keys_distinct rv_endpoint_id (db_revocations db) \<and>
       set (db_revocations db) = set (revocations st) \<and>
     keys_distinct pv_endpoint_id (db_provisioners db) \<and>
       provisioner_of ` active_rows (db_provisioners db) = set (provisioners st) \<and>
     keys_distinct iw_invite_id (db_invitations db) \<and>
       erase_owner ` set (db_invitations db) = invitation_row X None ` set (invites st)"

definition metadata_coherent :: "Database \<Rightarrow> ControlState \<Rightarrow> bool" where
  "metadata_coherent db st \<longleftrightarrow> db_metadata db = Some \<lparr>md_schema = cs_schema st,
     md_audience = cs_audience st, md_public_url = cs_public_url st,
     md_relay_ca_der = cs_relay_ca_der st, md_revision = int (revision st),
     md_relay_revision = int (relay_revision st)\<rparr>"

definition coherent :: "Ext \<Rightarrow> Database \<Rightarrow> ControlState \<Rightarrow> bool" where
  "coherent X db st \<longleftrightarrow> tables_coherent X db st \<and> metadata_coherent db st"

definition tables_keyed :: "ControlState \<Rightarrow> bool" where
  "tables_keyed st \<longleftrightarrow> keys_distinct c_endpoint_id (clients st) \<and>
     keys_distinct e_endpoint_id (edges st) \<and> keys_distinct r_endpoint_id (relays st) \<and>
     keys_distinct i_id (invites st) \<and> keys_distinct p_endpoint_id (provisioners st) \<and>
     keys_distinct rv_endpoint_id (revocations st)"

lemma tables_keyed_change: "tables_keyed st \<Longrightarrow> tables_keyed (apply_change ch st)"
  by (cases ch) (simp_all add: tables_keyed_def keyed_updates)

lemma state_ok_keyed: "state_ok st \<Longrightarrow> tables_keyed st"
  using tables_ok_distinct [of "revision st" "relay_revision st" st]
  by (simp add: state_ok_def tables_keyed_def)

lemma placeholder_rows:
  "active_rows (db_provisioners (placeholder_for m db)) = active_rows (db_provisioners db)"
  "keys_distinct pv_endpoint_id (db_provisioners db) \<Longrightarrow>
   keys_distinct pv_endpoint_id (db_provisioners (placeholder_for m db))"
  by (auto simp: placeholder_for_def ensure_provisioner_placeholder_def active_rows_def
      keys_distinct_def split: option.splits)

lemma placeholder_other [simp]:
  "db_clients (placeholder_for m db) = db_clients db" "db_edges (placeholder_for m db) = db_edges db"
  "db_relays (placeholder_for m db) = db_relays db"
  "db_revocations (placeholder_for m db) = db_revocations db"
  "db_invitations (placeholder_for m db) = db_invitations db"
  "db_metadata (placeholder_for m db) = db_metadata db"
  by (simp_all add: placeholder_for_def ensure_provisioner_placeholder_def split: option.splits)

lemma placeholder_coherent:
  "tables_coherent X db st \<Longrightarrow> tables_coherent X (placeholder_for m db) st"
  by (simp add: tables_coherent_def placeholder_rows)

lemma invitation_row_key [simp]: "iw_invite_id (invitation_row X owner i) = i_id i"
  by (simp add: invitation_row_def)

lemma erase_owner_row [simp]: "erase_owner (invitation_row X owner i) = invitation_row X None i"
  by (simp add: erase_owner_def invitation_row_def)

lemma erase_owner_key [simp]: "iw_invite_id (erase_owner r) = iw_invite_id r"
  by (simp add: erase_owner_def)

lemma image_filter_key:
  assumes "f ` A = g ` B" "\<And>x. kf (f x) = k1 x" "\<And>y. kf (g y) = k2 y"
  shows "f ` {x \<in> A. k1 x \<noteq> k} = g ` {y \<in> B. k2 y \<noteq> k}"
proof -
  have "f ` {x \<in> A. k1 x \<noteq> k} = {z \<in> f ` A. kf z \<noteq> k}" using assms(2) by auto
  also have "\<dots> = {z \<in> g ` B. kf z \<noteq> k}" using assms(1) by simp
  also have "\<dots> = g ` {y \<in> B. k2 y \<noteq> k}" using assms(3) by auto
  finally show ?thesis .
qed

lemma invitations_filter:
  assumes "erase_owner ` set rows = invitation_row X None ` set is"
  shows "erase_owner ` {r \<in> set rows. iw_invite_id r \<noteq> k} = invitation_row X None ` {i \<in> set is. i_id i \<noteq> k}"
  using assms by (rule image_filter_key [where kf = iw_invite_id]) simp_all

lemma provisioner_of_key [simp]: "p_endpoint_id (provisioner_of r) = pv_endpoint_id r"
  by (simp add: provisioner_of_def)

lemma provisioners_filter:
  assumes "provisioner_of ` active_rows rows = set ps"
  shows "provisioner_of ` {r \<in> active_rows rows. pv_endpoint_id r \<noteq> k} = {p \<in> set ps. p_endpoint_id p \<noteq> k}"
  using image_filter_key [of provisioner_of "active_rows rows" "\<lambda>p. p" "set ps" p_endpoint_id] assms
  by simp

lemma db_put_provisioner_coherent:
  assumes "tables_coherent X db st" "tables_keyed st" "db_put_provisioner X p db = Inr db'"
  shows "tables_coherent X db' (apply_change (PutProvisioner p) st)"
proof -
  let ?row = "\<lparr>pv_endpoint_id = p_endpoint_id p, pv_name = p_name p, pv_active = True\<rparr>"
  have keys: "keys_distinct pv_endpoint_id (db_provisioners db)"
    and act: "provisioner_of ` active_rows (db_provisioners db) = set (provisioners st)"
    using assms(1) by (auto simp: tables_coherent_def)
  have "active_rows (upsert_by pv_endpoint_id ?row (db_provisioners db))
      = insert ?row {r \<in> active_rows (db_provisioners db). pv_endpoint_id r \<noteq> p_endpoint_id p}"
    by (auto simp: active_rows_def provisioner_rows.rows_put keys)
  then have "provisioner_of ` active_rows (upsert_by pv_endpoint_id ?row (db_provisioners db))
      = insert p {q \<in> set (provisioners st). p_endpoint_id q \<noteq> p_endpoint_id p}"
    by (cases p) (simp add: provisioners_filter [OF act], simp add: provisioner_of_def)
  then show ?thesis
    using assms by (simp add: db_put_provisioner_Inr tables_coherent_def tables_keyed_def
        provisioner_rows.put_invar provisioner_table.rows_put)
qed

lemma keys_distinct_map_same:
  "(\<And>r. key (f r) = key r) \<Longrightarrow> keys_distinct key (map f rs) = keys_distinct key rs"
  by (simp add: keys_distinct_def comp_def)

lemma db_deactivate_provisioner_coherent:
  assumes "tables_coherent X db st" "tables_keyed st"
  shows "tables_coherent X (db_deactivate_provisioner k db) (apply_change (DeleteProvisioner k) st)"
proof -
  let ?off = "\<lambda>r :: ProvisionerRow. if pv_endpoint_id r = k then r\<lparr>pv_active := False\<rparr> else r"
  have act: "provisioner_of ` active_rows (db_provisioners db) = set (provisioners st)"
    using assms(1) by (auto simp: tables_coherent_def)
  have "active_rows (map ?off (db_provisioners db))
      = {r \<in> active_rows (db_provisioners db). pv_endpoint_id r \<noteq> k}"
    by (auto simp: active_rows_def)
  moreover have "keys_distinct pv_endpoint_id (map ?off rs) = keys_distinct pv_endpoint_id rs" for rs
    by (rule keys_distinct_map_same) simp
  ultimately show ?thesis
    using assms provisioners_filter [OF act, of k]
    by (simp add: db_deactivate_provisioner_def tables_coherent_def set_delete_by)
qed

lemma db_delete_client_coherent:
  assumes "tables_coherent X db st" "db_delete_client X k db = Inr db'"
  shows "tables_coherent X db' (apply_change (DeleteClient k) st)"
proof -
  let ?null = "\<lambda>r :: InvitationRow. if iw_owner_id r = Some k then r\<lparr>iw_owner_id := None\<rparr> else r"
  have "keys_distinct iw_invite_id (map ?null rs) = keys_distinct iw_invite_id rs" for rs
    by (rule keys_distinct_map_same) simp
  moreover have "erase_owner ` set (map ?null rs) = erase_owner ` set rs" for rs
    unfolding set_map image_image by (rule image_cong) (simp_all add: erase_owner_def)
  ultimately show ?thesis
    using assms by (simp add: db_delete_client_Inr tables_coherent_def client_table.del_invar
        set_delete_by del: set_map)
qed

lemma db_put_invitation_coherent:
  assumes "tables_coherent X db st" "tables_keyed st"
    and "db_put_invitation X (invitation_row X owner i) db = Inr db'"
  shows "tables_coherent X db' (apply_change (PutInvite i) st)"
proof -
  have rows: "erase_owner ` set (db_invitations db) = invitation_row X None ` set (invites st)"
    and keys: "keys_distinct iw_invite_id (db_invitations db)"
    using assms(1) by (simp_all add: tables_coherent_def)
  have db': "db' = db\<lparr>db_invitations := upsert_by iw_invite_id (invitation_row X owner i)
      (db_invitations db)\<rparr>"
    using assms(3) by (simp add: db_put_invitation_Inr)
  show ?thesis
    using assms(1,2) invitations_filter [OF rows, of "i_id i"]
    by (simp add: db' tables_coherent_def tables_keyed_def invitation_rows.put_invar
        invitation_rows.rows_put invite_table.rows_put)
qed

lemma db_change_coherent:
  assumes "tables_coherent X db st" "tables_keyed st" "db_change X relay_rev ch db = Inr db'"
  shows "tables_coherent X db' (apply_change ch st)"
proof (cases ch)
  case (PutInvite i)
  with assms(3) show ?thesis
    using db_put_invitation_coherent [OF placeholder_coherent [OF assms(1)] assms(2)] by simp
next
  case (PutProvisioner p)
  with assms show ?thesis using db_put_provisioner_coherent by simp
next
  case (DeleteProvisioner k)
  with assms(3) show ?thesis using db_deactivate_provisioner_coherent [OF assms(1,2), of k] by simp
next
  case (DeleteClient k)
  with assms(3) show ?thesis using db_delete_client_coherent [OF assms(1), of k db'] by simp
next
  case (DeleteInvite k)
  then have "db' = db_delete_invitation k db" using assms(3) by simp
  with DeleteInvite assms(1) show ?thesis
    using invitations_filter [of "db_invitations db" X "invites st" k]
    by (simp add: db_delete_invitation_def tables_coherent_def invitation_rows.del_invar set_delete_by)
next
  case (PutClient c)
  then show ?thesis
    using assms(2,3) placeholder_coherent [OF assms(1), of "c_managed_by c"]
    by (simp add: db_put_client_Inr tables_coherent_def tables_keyed_def client_table.put_invar
        client_table.rows_put)
next
  case (PutEdge e)
  with assms show ?thesis
    by (simp add: db_put_edge_Inr tables_coherent_def tables_keyed_def edge_table.put_invar
        edge_table.rows_put)
next
  case (DeleteEdge k)
  with assms(1,3) show ?thesis
    by (auto simp: db_delete_edge_def tables_coherent_def edge_table.del_invar set_delete_by)
next
  case (PutRelay r)
  with assms show ?thesis
    by (simp add: db_put_relay_Inr tables_coherent_def tables_keyed_def relay_table.put_invar
        relay_table.rows_put)
next
  case (DeleteRelay k)
  with assms(1,3) show ?thesis
    by (auto simp: db_delete_relay_def tables_coherent_def relay_table.del_invar set_delete_by)
next
  case (PutRevocation r)
  with assms show ?thesis
    by (simp add: db_put_revocation_Inr tables_coherent_def tables_keyed_def
        revocation_table.put_invar revocation_table.rows_put)
next
  case (DeleteRevocation k)
  with assms(1,3) show ?thesis
    by (auto simp: db_delete_revocation_def tables_coherent_def revocation_table.del_invar
        set_delete_by)
qed

lemma db_change_metadata:
  "db_change X relay_rev ch db = Inr db' \<Longrightarrow> db_metadata db' = db_metadata db"
  by (cases ch) (auto simp: db_put_Inr db_delete_edge_def db_delete_relay_def
      db_delete_revocation_def db_delete_invitation_def db_deactivate_provisioner_def)

lemma db_changes_coherent:
  assumes "fold_ok (db_change X relay_rev) chs db = Inr db'" "tables_coherent X db st" "tables_keyed st"
  shows "tables_coherent X db' (fold apply_change chs st) \<and> db_metadata db' = db_metadata db"
  using assms
proof (induction chs arbitrary: db st)
  case (Cons ch chs)
  then obtain mid where "db_change X relay_rev ch db = Inr mid"
    "fold_ok (db_change X relay_rev) chs mid = Inr db'"
    by auto
  then show ?case
    using Cons.IH [of mid "apply_change ch st"] Cons.prems
      db_change_coherent [of X db st relay_rev ch mid]
      db_change_metadata [of X relay_rev ch db mid] tables_keyed_change [of st ch]
    by simp
qed simp

lemma active_rows_filter:
  "(\<And>r. pv_active r \<Longrightarrow> Q r) \<Longrightarrow> active_rows (filter Q rs) = active_rows rs"
  by (auto simp: active_rows_def)

lemma purge_coherent:
  assumes "tables_coherent X db st"
  shows "tables_coherent X (db_purge_provisioners db) st"
proof -
  have "keys_distinct pv_endpoint_id (filter Q (db_provisioners db))" for Q
    using assms by (simp add: tables_coherent_def keys_distinct_def distinct_map_filter)
  then show ?thesis
    using assms by (simp add: tables_coherent_def db_purge_provisioners_def active_rows_filter)
qed

lemma purge_metadata [simp]: "db_metadata (db_purge_provisioners db) = db_metadata db"
  by (simp add: db_purge_provisioners_def)

lemma apply_delta_sync_Inr:
  assumes "apply_delta_sync X io v w v' w' d db = Inr db'"
  obtains mid md where "fold_ok (db_change X w') (sd_changes d) db = Inr mid"
    "db_metadata mid = Some md" "md_revision md = int v" "md_relay_revision md = int w" "io"
    "int v' \<le> i64_max" "int w' \<le> i64_max" "w' > 0"
    "db' = (db_purge_provisioners mid)\<lparr>db_metadata := Some (md\<lparr>md_revision := int v',
       md_relay_revision := int w'\<rparr>)\<rparr>"
  using assms
  by (auto simp: apply_delta_sync_def Let_def db_update_revisions_def split: option.splits if_splits)

lemma tables_coherent_revisions [simp]:
  "tables_coherent X (db\<lparr>db_metadata := m\<rparr>) st = tables_coherent X db st"
  "tables_coherent X db (st\<lparr>revision := a, relay_revision := b\<rparr>) = tables_coherent X db st"
  by (simp_all add: tables_coherent_def)

lemma fold_change_fields [simp]:
  "revision (fold apply_change chs st) = revision st"
  "relay_revision (fold apply_change chs st) = relay_revision st"
  "cs_audience (fold apply_change chs st) = cs_audience st"
  "cs_public_url (fold apply_change chs st) = cs_public_url st"
  "cs_relay_ca_der (fold apply_change chs st) = cs_relay_ca_der st"
  "cs_schema (fold apply_change chs st) = cs_schema st"
  by (induction chs arbitrary: st; simp)+

text \<open>A transaction that commits leaves the rows in agreement with the delta applied in memory.\<close>

theorem apply_delta_coherent:
  assumes "coherent X db st" "tables_keyed st"
    and "apply_delta_sync X io (revision st) (relay_revision st) (next_revision d st)
      (next_relay_revision d st) d db = Inr db'"
  shows "coherent X db' (after_delta d st)"
proof -
  obtain mid md where mid: "fold_ok (db_change X (next_relay_revision d st)) (sd_changes d) db = Inr mid"
    "db_metadata mid = Some md"
    "db' = (db_purge_provisioners mid)\<lparr>db_metadata := Some (md\<lparr>md_revision := int (next_revision d st),
       md_relay_revision := int (next_relay_revision d st)\<rparr>)\<rparr>"
    by (rule apply_delta_sync_Inr [OF assms(3)])
  have "tables_coherent X mid (fold apply_change (sd_changes d) st)" "db_metadata mid = db_metadata db"
    using db_changes_coherent [OF mid(1), of st] assms(1,2) by (simp_all add: coherent_def)
  with assms(1) mid show ?thesis
    by (auto simp: coherent_def metadata_coherent_def after_delta_def StateDelta_apply_def purge_coherent)
qed

section \<open>Mutations the database accepts\<close>

text \<open>The two facts about an invitation that the schema checks and the state alone does not
  guarantee: its owner is a client, and no other invitation has its request id.\<close>

definition invite_storable :: "ControlState \<Rightarrow> InviteRecord \<Rightarrow> bool" where
  "invite_storable st i \<longleftrightarrow>
     (case inv_kind (i_invite i) of IKEdge owner \<Rightarrow> owner \<in> c_endpoint_id ` set (clients st) | _ \<Rightarrow> True) \<and>
     (\<forall>j \<in> set (invites st). i_id j \<noteq> i_id i \<longrightarrow> i_request_id i \<noteq> None \<longrightarrow>
        i_request_id j \<noteq> i_request_id i)"

definition request_ids_unique :: "ControlState \<Rightarrow> bool" where
  "request_ids_unique st \<longleftrightarrow> (\<forall>i \<in> set (invites st). \<forall>j \<in> set (invites st).
     i_request_id i \<noteq> None \<longrightarrow> i_request_id i = i_request_id j \<longrightarrow> i_id i = i_id j)"

definition ports_u16 :: "StateChange list \<Rightarrow> bool" where
  "ports_u16 chs \<longleftrightarrow> (\<forall>r p. PutRelay r \<in> set chs \<longrightarrow> r_qad_port r = Some p \<longrightarrow> p \<le> 65535)"

fun change_storable :: "ControlState \<Rightarrow> StateChange \<Rightarrow> bool" where
  "change_storable st (PutInvite i) = invite_storable st i"
| "change_storable st (PutRelay r) = (\<forall>p. r_qad_port r = Some p \<longrightarrow> p \<le> 65535)"
| "change_storable st _ = True"

primrec changes_storable :: "StateChange list \<Rightarrow> ControlState \<Rightarrow> bool" where
  "changes_storable [] st = True"
| "changes_storable (ch # chs) st = (change_storable st ch \<and> changes_storable chs (apply_change ch st))"

lemma placeholder_present:
  "(case m of None \<Rightarrow> True | Some p \<Rightarrow> p \<in> pv_endpoint_id ` set (db_provisioners (placeholder_for m db)))"
  by (auto simp: placeholder_for_def ensure_provisioner_placeholder_def split: option.splits)

lemma invitation_row_check:
  "invite_ok i \<Longrightarrow> (iw_state (invitation_row X o' i) = ''pending'') = (iw_terminal_at (invitation_row X o' i) = None)"
  by (cases "i_state i") (auto simp: invitation_row_def invite_state_text_def invite_ok_def)

lemma db_put_invitation_accepts:
  assumes "tables_coherent X db st" "invite_ok i" "invite_storable st i"
    and "case i_managed_by i of None \<Rightarrow> True | Some p \<Rightarrow> p \<in> pv_endpoint_id ` set (db_provisioners db)"
  shows "\<exists>db'. db_put_invitation X
    (invitation_row X (snd (kind_columns (inv_kind (i_invite i)))) i) db = Inr db'"
proof -
  let ?row = "invitation_row X (snd (kind_columns (inv_kind (i_invite i)))) i"
  have rows: "erase_owner ` set (db_invitations db) = invitation_row X None ` set (invites st)"
    and cls: "set (db_clients db) = set (clients st)"
    using assms(1) by (simp_all add: tables_coherent_def)
  have "\<exists>j \<in> set (invites st). iw_invite_id r = i_id j \<and> iw_request_id r = i_request_id j"
    if "r \<in> set (db_invitations db)" for r
  proof -
    have "erase_owner r \<in> invitation_row X None ` set (invites st)" using that rows by blast
    then show ?thesis by (cases r) (auto simp: erase_owner_def invitation_row_def)
  qed
  then have "\<forall>r \<in> set (db_invitations db). iw_invite_id r \<noteq> i_id i \<longrightarrow> i_request_id i \<noteq> None \<longrightarrow>
      iw_request_id r \<noteq> i_request_id i"
    using assms(3) by (fastforce simp: invite_storable_def)
  moreover have "iw_kind ?row = ''edge'' \<or> iw_owner_id ?row = None"
    "case iw_owner_id ?row of None \<Rightarrow> True | Some owner \<Rightarrow> owner \<in> c_endpoint_id ` set (db_clients db)"
    using assms(3) by (cases "inv_kind (i_invite i)"; simp add: invitation_row_def invite_storable_def cls)+
  moreover have "iw_request_id ?row = i_request_id i" "iw_managed_by ?row = i_managed_by i"
    by (simp_all add: invitation_row_def)
  ultimately show ?thesis
    using assms(4) invitation_row_check [OF assms(2)] by (simp add: db_put_invitation_Inr)
qed

lemma db_change_accepts:
  assumes "tables_coherent X db st" "change_ok vn vr st ch" "change_storable st ch"
    and "int vn \<le> i64_max" "int vr \<le> i64_max"
    and "\<And>p. ch = PutProvisioner p \<Longrightarrow> p_endpoint_id p \<notin> p_endpoint_id ` set (provisioners st)"
  shows "\<exists>db'. db_change X vr ch db = Inr db'"
proof (cases ch)
  case (PutInvite i)
  then show ?thesis
    using assms(2,3) placeholder_coherent [OF assms(1), of "i_managed_by i"]
      placeholder_present [of "i_managed_by i" db] db_put_invitation_accepts by simp
next
  case (PutProvisioner p)
  have "pv_name r \<noteq> p_name p" if "r \<in> set (db_provisioners db)" "pv_active r" for r
  proof -
    have "provisioner_of r \<in> set (provisioners st)"
      using that assms(1) by (auto simp: tables_coherent_def active_rows_def)
    moreover from this have "p_endpoint_id (provisioner_of r) \<noteq> p_endpoint_id p"
      using assms(6) [OF PutProvisioner] by (metis imageI)
    ultimately show ?thesis
      using assms(2) PutProvisioner by (auto simp: provisioner_of_def)
  qed
  with PutProvisioner show ?thesis by (simp add: db_put_provisioner_Inr)
next
  case (PutClient c)
  then show ?thesis
    using assms placeholder_present [of "c_managed_by c" db]
    by (auto simp: db_put_client_Inr tables_coherent_def)
next
  case (PutRevocation r)
  then show ?thesis using assms by (auto simp: db_put_revocation_Inr)
next
  case (PutEdge e)
  then show ?thesis using assms by (auto simp: db_put_edge_Inr tables_coherent_def)
next
  case (PutRelay r)
  then have "case r_qad_port r of None \<Rightarrow> True | Some p \<Rightarrow> 1 \<le> p \<and> p \<le> 65535"
    using assms(2,3) by (auto split: option.splits)
  with PutRelay assms(1,2) show ?thesis by (simp add: db_put_relay_Inr tables_coherent_def)
next
  case (DeleteClient k)
  then show ?thesis using assms(1,2) by (auto simp: db_delete_client_Inr tables_coherent_def)
qed simp_all

lemma db_changes_accept:
  assumes "tables_coherent X db st" "tables_keyed st" "changes_ok vn vr chs st" "changes_storable chs st"
    and "int vn \<le> i64_max" "int vr \<le> i64_max"
    and "list_all (\<lambda>ch. \<forall>p. ch \<noteq> PutProvisioner p) chs \<or>
      (\<exists>p. chs = [PutProvisioner p] \<and> p_endpoint_id p \<notin> p_endpoint_id ` set (provisioners st))"
  shows "\<exists>db'. fold_ok (db_change X vr) chs db = Inr db'"
  using assms
proof (induction chs arbitrary: db st)
  case (Cons ch chs)
  have "\<exists>mid. db_change X vr ch db = Inr mid"
    using Cons.prems by (intro db_change_accepts [of X db st vn vr ch]) auto
  then obtain mid where mid: "db_change X vr ch db = Inr mid" ..
  have "list_all (\<lambda>ch. \<forall>p. ch \<noteq> PutProvisioner p) chs" using Cons.prems by auto
  then have "\<exists>db'. fold_ok (db_change X vr) chs mid = Inr db'"
    using Cons.prems mid
    by (intro Cons.IH [of mid "apply_change ch st"])
      (auto intro: db_change_coherent tables_keyed_change)
  then show ?case by (simp add: mid)
qed simp

lemma invite_storable_same:
  assumes "request_ids_unique st" "i \<in> set (invites st)" "i_id i' = i_id i"
    "i_request_id i' = i_request_id i"
    and "case inv_kind (i_invite i') of IKEdge owner \<Rightarrow> owner \<in> c_endpoint_id ` set (clients st) | _ \<Rightarrow> True"
  shows "invite_storable st i'"
  using assms unfolding invite_storable_def request_ids_unique_def by metis

text \<open>Every mutation but the recording or revoking of an invitation is storable as it is.\<close>

lemma event_storable:
  assumes "control_event now st d" "request_ids_unique st" "ports_u16 (sd_changes d)"
    and "\<And>i. sd_changes d = [PutInvite i] \<Longrightarrow> invite_storable st i"
  shows "changes_storable (sd_changes d) st"
  using assms(1)
proof cases
  case (enrol_client i c)
  then have "invite_storable (st\<lparr>clients := x\<rparr>) (claimed i (c_endpoint_id c) now)" for x
    using assms(2) by (intro invite_storable_same [of _ i]) (auto simp: claimed_def request_ids_unique_def)
  with enrol_client show ?thesis by simp
next
  case (enrol_edge i e)
  then have "invite_storable (st\<lparr>edges := x\<rparr>) (claimed i (e_endpoint_id e) now)" for x
    using assms(2) by (intro invite_storable_same [of _ i]) (auto simp: claimed_def request_ids_unique_def)
  with enrol_edge show ?thesis by simp
next
  case (enrol_relay i r)
  then have "invite_storable (st\<lparr>relays := x\<rparr>) (claimed i (r_endpoint_id r) now)" for x
    using assms(2) by (intro invite_storable_same [of _ i]) (auto simp: claimed_def request_ids_unique_def)
  with enrol_relay assms(3) show ?thesis by (simp add: ports_u16_def)
next
  case (update_port r port)
  with assms(3) show ?thesis by (simp add: ports_u16_def)
next
  case cleanup
  have "list_all is_cleanup chs \<Longrightarrow> changes_storable chs s" for chs s
  proof (induction chs arbitrary: s)
    case (Cons ch chs)
    then show ?case by (cases ch) simp_all
  qed simp
  with cleanup show ?thesis by (simp add: cleanup_changes_are_cleanup)
qed (use assms(4) in \<open>simp_all add: revocation_change_def\<close>)

theorem event_commits:
  assumes "coherent X db st" "state_ok st" "request_ids_unique st" "control_event now st d"
    and "ports_u16 (sd_changes d)" "\<And>i. sd_changes d = [PutInvite i] \<Longrightarrow> invite_storable st i"
    and "int (next_revision d st) \<le> i64_max" "int (next_relay_revision d st) \<le> i64_max"
  shows "\<exists>db'. apply_delta_sync X True (revision st) (relay_revision st) (next_revision d st)
    (next_relay_revision d st) d db = Inr db'"
proof -
  have ok: "changes_ok (next_revision d st) (next_relay_revision d st) (sd_changes d) st"
    using assms(2,4) by (simp add: state_ok_def event_changes_ok)
  have prov: "list_all (\<lambda>ch. \<forall>p. ch \<noteq> PutProvisioner p) (sd_changes d) \<or>
      (\<exists>p. sd_changes d = [PutProvisioner p] \<and> p_endpoint_id p \<notin> p_endpoint_id ` set (provisioners st))"
    using assms(4) by cases (auto simp: revocation_change_def cleanup_changes_def list_all_iff)
  have "tables_coherent X db st" "tables_keyed st"
    using assms(1,2) by (simp_all add: coherent_def state_ok_keyed)
  from db_changes_accept [OF this ok event_storable [OF assms(4,3,5,6)] assms(7,8) prov]
  obtain mid where mid: "fold_ok (db_change X (next_relay_revision d st)) (sd_changes d) db = Inr mid" ..
  have "db_metadata mid = db_metadata db"
    using db_changes_coherent [OF mid] \<open>tables_coherent X db st\<close> \<open>tables_keyed st\<close> by blast
  moreover have "revision st \<le> next_revision d st" "relay_revision st \<le> next_relay_revision d st"
    by (rule next_revision_ge)+
  moreover have "next_revision d st = revision st \<or> next_revision d st = u64_saturating_add (revision st) 1"
    "next_relay_revision d st = relay_revision st \<or>
     next_relay_revision d st = u64_saturating_add (relay_revision st) 1"
    using assms(7,8) by (auto simp: next_revision_def next_relay_revision_def u64_saturating_add_def
        u64_max_def i64_max_def split: Publish.splits)
  ultimately show ?thesis
    using assms(1,2,7,8) mid
    by (simp add: apply_delta_sync_def coherent_def metadata_coherent_def db_update_revisions_def
        state_ok_def)
qed

section \<open>Request ids stay unique\<close>

lemma unique_insert:
  assumes "\<forall>a \<in> A. \<forall>b \<in> A. f a \<noteq> None \<longrightarrow> f a = f b \<longrightarrow> k a = k b"
    and "\<forall>b \<in> A. k b \<noteq> k i \<longrightarrow> f i \<noteq> None \<longrightarrow> f b \<noteq> f i"
    and "B = insert i {x \<in> A. k x \<noteq> k i}"
  shows "\<forall>a \<in> B. \<forall>b \<in> B. f a \<noteq> None \<longrightarrow> f a = f b \<longrightarrow> k a = k b"
proof (intro ballI impI)
  fix a b assume ab: "a \<in> B" "b \<in> B" "f a \<noteq> None" "f a = f b"
  then consider "a = i" "b = i" | "a = i" "b \<in> A" "k b \<noteq> k i" | "b = i" "a \<in> A" "k a \<noteq> k i" | "a \<in> A" "b \<in> A"
    using assms(3) by blast
  then show "k a = k b"
    using assms(1,2) ab(3,4) by cases metis+
qed

lemma row_of_invite:
  assumes "tables_coherent X db st" "j \<in> set (invites st)"
  shows "\<exists>r \<in> set (db_invitations db). iw_invite_id r = i_id j \<and> iw_request_id r = i_request_id j"
proof -
  have "invitation_row X None j \<in> erase_owner ` set (db_invitations db)"
    using assms by (simp add: tables_coherent_def)
  then obtain r where "r \<in> set (db_invitations db)" "invitation_row X None j = erase_owner r"
    by blast
  then show ?thesis by (intro bexI [of _ r]) (cases r; simp add: invitation_row_def erase_owner_def)+
qed

lemma db_change_request_ids:
  assumes "tables_coherent X db st" "tables_keyed st" "request_ids_unique st"
    and "db_change X vr ch db = Inr db'"
  shows "request_ids_unique (apply_change ch st)"
proof (cases ch)
  case (PutInvite i)
  then have fresh: "\<forall>r \<in> set (db_invitations db). iw_invite_id r \<noteq> i_id i \<longrightarrow>
      i_request_id i \<noteq> None \<longrightarrow> iw_request_id r \<noteq> i_request_id i"
    using assms(4) by (simp add: db_put_invitation_Inr) (simp add: invitation_row_def)
  have "\<forall>j \<in> set (invites st). i_id j \<noteq> i_id i \<longrightarrow> i_request_id i \<noteq> None \<longrightarrow>
      i_request_id j \<noteq> i_request_id i"
  proof (intro ballI impI)
    fix j assume j: "j \<in> set (invites st)" "i_id j \<noteq> i_id i" "i_request_id i \<noteq> None"
    then obtain r where "r \<in> set (db_invitations db)" "iw_invite_id r = i_id j"
      "iw_request_id r = i_request_id j"
      using row_of_invite [OF assms(1)] by blast
    with fresh j show "i_request_id j \<noteq> i_request_id i" by metis
  qed
  moreover have "set (invites (apply_change ch st)) = insert i {j \<in> set (invites st). i_id j \<noteq> i_id i}"
    using assms(2) PutInvite by (simp add: tables_keyed_def invite_table.rows_put)
  ultimately show ?thesis
    using assms(3) unfolding request_ids_unique_def by (rule unique_insert [rotated])
next
  case (DeleteInvite k)
  then have "set (invites (apply_change ch st)) \<subseteq> set (invites st)" by (auto simp: set_delete_by)
  then show ?thesis using assms(3) unfolding request_ids_unique_def by (meson subsetD)
qed (use assms(3) in \<open>simp_all add: request_ids_unique_def\<close>)

lemma db_changes_request_ids:
  assumes "fold_ok (db_change X vr) chs db = Inr db'" "tables_coherent X db st" "tables_keyed st"
    "request_ids_unique st"
  shows "request_ids_unique (fold apply_change chs st)"
  using assms
proof (induction chs arbitrary: db st)
  case (Cons ch chs)
  then obtain mid where "db_change X vr ch db = Inr mid" "fold_ok (db_change X vr) chs mid = Inr db'"
    by auto
  then show ?case
    using Cons.IH [of mid "apply_change ch st"] Cons.prems
      db_change_coherent [of X db st vr ch mid] tables_keyed_change [of st ch]
      db_change_request_ids [of X db st vr ch mid]
    by simp
qed simp

theorem apply_delta_request_ids:
  assumes "coherent X db st" "tables_keyed st" "request_ids_unique st"
    and "apply_delta_sync X io v w v' w' d db = Inr db'"
  shows "request_ids_unique (after_delta d st)"
proof -
  obtain mid where "fold_ok (db_change X w') (sd_changes d) db = Inr mid"
    by (rule apply_delta_sync_Inr [OF assms(4)])
  from db_changes_request_ids [OF this, of st] assms(1-3)
  have "request_ids_unique (StateDelta_apply d st)"
    by (simp add: StateDelta_apply_def coherent_def)
  then show ?thesis by (simp add: after_delta_def request_ids_unique_def)
qed

end
