(* ===== verification/Control_Store.thy ===== *)
theory Control_Store
  imports Control_Db "HOL-Library.Multiset"
begin

text \<open>
  The store the handlers of Control share (\<open>crates/as-control/src/main.rs\<close>): the state
  behind its mutex, the database, the two notification channels and the watch registry;
  the admission queues; and \<open>commit_delta\<close>, the only way the state changes.

  A handler is a function from the store to a result and a store.  Everything it does
  while it holds the mutex is one step, since the mutex serializes those sections.
  What a handler reads from its surroundings is one \<open>Env\<close>: the clock when the request is
  verified and when the mutation runs, the outcome of the two admission queues, the fresh
  random tokens, and whether the disk write succeeds.
\<close>

section \<open>Surroundings\<close>

datatype Acquire = Acquired | AcquireTimedOut | AcquireClosed

record Admission =
  ad_waiting :: nat
  ad_acquire :: Acquire

record Env =
  env_now :: int
  env_later :: int
  env_verify :: Admission
  env_mutate :: Admission
  env_io :: bool
  env_token16 :: string
  env_token32 :: string

definition admitted :: "Admission \<Rightarrow> string \<Rightarrow> ApiError + unit" where
  "admitted adm label =
     and_then (ensure (ad_waiting adm > 0) (api_retryable 503 (label @ '' queue is full''))) (\<lambda>_.
     case ad_acquire adm of
       Acquired \<Rightarrow> Inr ()
     | AcquireTimedOut \<Rightarrow> Inl (api_retryable 503 (label @ '' queue timed out''))
     | AcquireClosed \<Rightarrow> Inl (api_internal (label @ '' queue closed'')))"

definition verification_permit :: "Env \<Rightarrow> ApiError + unit" where
  "verification_permit env = admitted (env_verify env) ''signature verification''"

section \<open>The store\<close>

definition WATCHES_PER_ENDPOINT :: nat where "WATCHES_PER_ENDPOINT = 2"

record Store =
  st_db :: Database
  st_key :: SecretKey
  st_relay_ca :: Issuer
  st_state :: ControlState
  st_changed :: nat
  st_relay_changed :: nat
  st_watches :: "string \<rightharpoonup> nat"

type_synonym 'a op = "Store \<Rightarrow> (ApiError + 'a) \<times> Store"

definition op_ok :: "'a \<Rightarrow> 'a op" where "op_ok x s = (Inr x, s)"
definition op_fail :: "ApiError \<Rightarrow> 'a op" where "op_fail e s = (Inl e, s)"

definition op_check :: "ApiError + 'a \<Rightarrow> ('a \<Rightarrow> 'b op) \<Rightarrow> 'b op" where
  "op_check r f s = (case r of Inl e \<Rightarrow> (Inl e, s) | Inr x \<Rightarrow> f x s)"

definition op_then :: "'a op \<Rightarrow> ('a \<Rightarrow> 'b op) \<Rightarrow> 'b op" where
  "op_then m f s = (case m s of (Inl e, s') \<Rightarrow> (Inl e, s') | (Inr x, s') \<Rightarrow> f x s')"

text \<open>Taking the mutex: the continuation sees the store as it is then.\<close>

definition op_lock :: "(Store \<Rightarrow> 'a op) \<Rightarrow> 'a op" where
  "op_lock f s = f s s"

definition run_mutation :: "Env \<Rightarrow> 'a op \<Rightarrow> 'a op" where
  "run_mutation env operation = op_check (admitted (env_mutate env) ''mutation'') (\<lambda>_. operation)"

section \<open>Committing\<close>

definition delta_revisions :: "StateDelta \<Rightarrow> ControlState \<Rightarrow> ApiError + nat \<times> nat" where
  "delta_revisions delta current =
     and_then (case sd_publish delta of
         PublishNone \<Rightarrow> Inr (revision current)
       | _ \<Rightarrow> ok_or (api_internal ''revision overflow'') (u64_checked_add (revision current) 1)) (\<lambda>rev_new.
     and_then (case sd_publish delta of
         PublishNodesAndRelays \<Rightarrow>
           ok_or (api_internal ''Relay revision overflow'') (u64_checked_add (relay_revision current) 1)
       | _ \<Rightarrow> Inr (relay_revision current)) (\<lambda>relay_new.
     Inr (rev_new, relay_new)))"

definition commit_delta :: "Ext \<Rightarrow> Env \<Rightarrow> StateDelta \<Rightarrow> unit op" where
  "commit_delta X env delta s =
     (let current = st_state s in
      case and_then (delta_revisions delta current) (\<lambda>(rev_new, relay_new).
        and_then (map_err api_internal (apply_delta_sync X (env_io env) (revision current)
          (relay_revision current) rev_new relay_new delta (st_db s))) (\<lambda>db.
        Inr (rev_new, relay_new, db))) of
        Inl e \<Rightarrow> (Inl e, s)
      | Inr (rev_new, relay_new, db) \<Rightarrow> (Inr (), s\<lparr>st_db := db,
          st_state := (StateDelta_apply delta current)\<lparr>revision := rev_new, relay_revision := relay_new\<rparr>,
          st_changed := (if sd_publish delta \<noteq> PublishNone then Suc (st_changed s) else st_changed s),
          st_relay_changed := (if sd_publish delta = PublishNodesAndRelays
            then Suc (st_relay_changed s) else st_relay_changed s)\<rparr>))"

section \<open>Watch registry\<close>

definition watch_acquire :: "string \<Rightarrow> (string \<rightharpoonup> nat) \<Rightarrow> (ApiError + unit) \<times> (string \<rightharpoonup> nat)" where
  "watch_acquire endpoint_id counts =
     (let n = (case counts endpoint_id of None \<Rightarrow> 0 | Some c \<Rightarrow> c) in
      if n \<ge> WATCHES_PER_ENDPOINT
      then (Inl (api_retryable 429 ''too many concurrent watches for this endpoint''),
            counts(endpoint_id \<mapsto> n))
      else (Inr (), counts(endpoint_id \<mapsto> n + 1)))"

definition watch_drop :: "string \<Rightarrow> (string \<rightharpoonup> nat) \<Rightarrow> (string \<rightharpoonup> nat)" where
  "watch_drop endpoint_id counts = (case counts endpoint_id of
      None \<Rightarrow> counts
    | Some n \<Rightarrow> if n - 1 = 0 then counts(endpoint_id := None)
        else counts(endpoint_id \<mapsto> n - 1))"

text \<open>Requests come and go in any order; \<open>guards\<close> is the multiset of watches in progress.\<close>

inductive watch_run :: "string multiset \<Rightarrow> (string \<rightharpoonup> nat) \<Rightarrow> bool" where
  idle: "watch_run {#} Map.empty"
| enter: "watch_run guards counts \<Longrightarrow> watch_acquire k counts = (Inr (), counts') \<Longrightarrow>
    watch_run (add_mset k guards) counts'"
| refuse: "watch_run guards counts \<Longrightarrow> watch_acquire k counts = (Inl e, counts') \<Longrightarrow>
    watch_run guards counts'"
| leave: "watch_run guards counts \<Longrightarrow> k \<in># guards \<Longrightarrow>
    watch_run (guards - {#k#}) (watch_drop k counts)"

lemma watch_run_counts:
  "watch_run guards counts \<Longrightarrow>
   (\<forall>k. counts k = (if count guards k = 0 then None else Some (count guards k)) \<and>
      count guards k \<le> WATCHES_PER_ENDPOINT)"
proof (induction rule: watch_run.induct)
  case (enter guards counts j counts')
  then have "counts' = counts(j \<mapsto> count guards j + 1)" "count guards j < WATCHES_PER_ENDPOINT"
    by (auto simp: watch_acquire_def Let_def split: if_splits)
  with enter.IH show ?case by (auto simp: Suc_leI count_eq_zero_iff)
next
  case (refuse guards counts j e counts')
  then have "counts' = counts(j \<mapsto> count guards j)" "count guards j \<noteq> 0"
    by (auto simp: watch_acquire_def Let_def WATCHES_PER_ENDPOINT_def
        split: if_splits)
  with refuse.IH show ?case by (simp add: count_eq_zero_iff)
next
  case (leave guards counts j)
  then have "counts j = Some (count guards j)" "count guards j \<noteq> 0"
    by auto
  with leave.IH show ?case
    by (auto simp: watch_drop_def count_eq_zero_iff intro: diff_le_self order_trans)
qed simp

section \<open>A write-through store\<close>

text \<open>
  The contract between a durable writer and the copy of its state in memory: a write that
  succeeds leaves the two in agreement, and an allowed change keeps the state's invariant.
  The client of the contract, a commit that writes first and then changes the copy, keeps
  both, and a failed commit changes neither.
\<close>

locale write_through =
  fixes persist :: "'d \<Rightarrow> 'st \<Rightarrow> 'db \<Rightarrow> 'e + 'db"
    and change :: "'d \<Rightarrow> 'st \<Rightarrow> 'st"
    and agree :: "'db \<Rightarrow> 'st \<Rightarrow> bool"
    and good :: "'st \<Rightarrow> bool"
    and allowed :: "'st \<Rightarrow> 'd \<Rightarrow> bool"
  assumes change_good: "good st \<Longrightarrow> allowed st d \<Longrightarrow> good (change d st)"
    and write_agree: "good st \<Longrightarrow> agree db st \<Longrightarrow> persist d st db = Inr db' \<Longrightarrow> agree db' (change d st)"
begin

definition commit :: "'d \<Rightarrow> 'db \<times> 'st \<Rightarrow> ('e + unit) \<times> 'db \<times> 'st" where
  "commit d p = (case persist d (snd p) (fst p) of
     Inl e \<Rightarrow> (Inl e, p) | Inr db' \<Rightarrow> (Inr (), db', change d (snd p)))"

inductive run :: "'db \<times> 'st \<Rightarrow> 'db \<times> 'st \<Rightarrow> bool" for p where
  start: "run p p"
| step: "run p q \<Longrightarrow> allowed (snd q) d \<Longrightarrow> run p (snd (commit d q))"

lemma commit_keeps:
  assumes "good (snd p)" "agree (fst p) (snd p)" "allowed (snd p) d"
  shows "good (snd (snd (commit d p))) \<and> agree (fst (snd (commit d p))) (snd (snd (commit d p)))"
proof (cases "persist d (snd p) (fst p)")
  case (Inr db')
  with assms show ?thesis
    using change_good [of "snd p" d] write_agree [of "snd p" "fst p" d db'] by (simp add: commit_def)
qed (simp add: commit_def assms)

lemma failed_commit_is_noop: "fst (commit d p) = Inl e \<Longrightarrow> snd (commit d p) = p"
  by (simp add: commit_def split: sum.splits)

lemma run_keeps:
  "run p q \<Longrightarrow> good (snd p) \<Longrightarrow> agree (fst p) (snd p) \<Longrightarrow> good (snd q) \<and> agree (fst q) (snd q)"
  by (induction rule: run.induct) (simp_all add: commit_keeps)

end

text \<open>Control provides it: the writer is \<open>apply_delta\<close>, the change \<open>StateDelta::apply\<close> with the
  new revisions, and the allowed changes are the mutations of \<open>control_event\<close>.\<close>

definition durable_write :: "Ext \<Rightarrow> bool \<Rightarrow> StateDelta \<Rightarrow> ControlState \<Rightarrow> Database \<Rightarrow> string + Database" where
  "durable_write X io d st db = apply_delta_sync X io (revision st) (relay_revision st)
     (next_revision d st) (next_relay_revision d st) d db"

definition agrees :: "Ext \<Rightarrow> Database \<Rightarrow> ControlState \<Rightarrow> bool" where
  "agrees X db st \<longleftrightarrow> coherent X db st \<and> request_ids_unique st"

interpretation control_wt: write_through "durable_write X io" after_delta "agrees X" state_ok
  "\<lambda>st d. \<exists>now. control_event now st d" for X io
proof
  fix st d db db'
  assume "state_ok st" "agrees X db st" "durable_write X io d st db = Inr db'"
  then show "agrees X db' (after_delta d st)"
    unfolding agrees_def durable_write_def
    using apply_delta_coherent apply_delta_request_ids state_ok_keyed by blast
qed (blast intro: event_state_ok)

section \<open>What a commit does to the store\<close>

definition store_ok :: "Ext \<Rightarrow> Store \<Rightarrow> bool" where
  "store_ok X s \<longleftrightarrow> state_ok (st_state s) \<and> agrees X (st_db s) (st_state s)"

lemma delta_revisions_Inr:
  "delta_revisions d st = Inr (v, w) \<longleftrightarrow> v = next_revision d st \<and> w = next_relay_revision d st \<and>
     (sd_publish d \<noteq> PublishNone \<longrightarrow> revision st + 1 \<le> u64_max) \<and>
     (sd_publish d = PublishNodesAndRelays \<longrightarrow> relay_revision st + 1 \<le> u64_max)"
  by (cases "sd_publish d")
    (auto simp: delta_revisions_def next_revision_def next_relay_revision_def)

lemma commit_delta_cases:
  assumes "commit_delta X env d s = (r, s')"
  obtains (failed) e where "r = Inl e" "s' = s"
  | (committed) "r = Inr ()" "durable_write X (env_io env) d (st_state s) (st_db s) = Inr (st_db s')"
      "st_state s' = after_delta d (st_state s)" "st_key s' = st_key s" "st_watches s' = st_watches s"
      "st_changed s' = (if sd_publish d \<noteq> PublishNone then Suc (st_changed s) else st_changed s)"
      "st_relay_changed s' = (if sd_publish d = PublishNodesAndRelays
         then Suc (st_relay_changed s) else st_relay_changed s)"
proof (cases "delta_revisions d (st_state s)")
  case (Inl e)
  with assms show thesis by (intro failed) (auto simp: commit_delta_def Let_def)
next
  case (Inr vw)
  then obtain v w where vw: "delta_revisions d (st_state s) = Inr (v, w)" by (cases vw) auto
  then have nx: "v = next_revision d (st_state s)" "w = next_relay_revision d (st_state s)"
    by (simp_all add: delta_revisions_Inr)
  show thesis
  proof (cases "durable_write X (env_io env) d (st_state s) (st_db s)")
    case (Inl e)
    with assms vw nx show thesis
      by (intro failed) (auto simp: commit_delta_def Let_def durable_write_def)
  next
    case (Inr db)
    with assms vw nx show thesis
      by (intro committed) (auto simp: commit_delta_def Let_def durable_write_def after_delta_def)
  qed
qed

lemma commit_delta_ok:
  assumes "store_ok X s" "control_event now (st_state s) d" "commit_delta X env d s = (r, s')"
  shows "store_ok X s'"
  using assms(3)
proof (cases rule: commit_delta_cases)
  case committed
  then show ?thesis
    using assms(1,2) control_wt.commit_keeps [of "(st_db s, st_state s)" X d "env_io env"]
    by (auto simp: store_ok_def control_wt.commit_def)
qed (use assms(1) in simp)

lemma commit_accepts:
  assumes "store_ok X s" "env_io env" "control_event now (st_state s) d"
    and "ports_u16 (sd_changes d)"
    and "\<And>i. sd_changes d = [PutInvite i] \<Longrightarrow> invite_storable (st_state s) i"
    and "int (next_revision d (st_state s)) \<le> i64_max"
    and "int (next_relay_revision d (st_state s)) \<le> i64_max"
  shows "\<exists>s'. commit_delta X env d s = (Inr (), s') \<and> st_state s' = after_delta d (st_state s)"
proof -
  obtain db where "durable_write X True d (st_state s) (st_db s) = Inr db"
    using event_commits [OF _ _ _ assms(3-7)] assms(1)
    by (auto simp: durable_write_def store_ok_def agrees_def)
  moreover have "delta_revisions d (st_state s) =
      Inr (next_revision d (st_state s), next_relay_revision d (st_state s))"
    using assms(6,7) by (auto simp: delta_revisions_Inr u64_max_def i64_max_def next_revision_def
        next_relay_revision_def split: Publish.splits)
  ultimately show ?thesis
    using assms(2) by (auto simp: commit_delta_def Let_def durable_write_def after_delta_def)
qed

section \<open>Reasoning about handlers\<close>

text \<open>\<open>op_wp m P s\<close>: from \<open>s\<close>, the handler \<open>m\<close> ends in a result and a store that satisfy \<open>P\<close>.\<close>

definition op_wp :: "'a op \<Rightarrow> (ApiError + 'a \<Rightarrow> Store \<Rightarrow> bool) \<Rightarrow> Store \<Rightarrow> bool" where
  "op_wp m P s \<longleftrightarrow> P (fst (m s)) (snd (m s))"

named_theorems wp_rules "weakest preconditions of the handler combinators"

lemma wp_ok [wp_rules]: "P (Inr x) s \<Longrightarrow> op_wp (op_ok x) P s"
  by (simp add: op_wp_def op_ok_def)

lemma wp_fail [wp_rules]: "P (Inl e) s \<Longrightarrow> op_wp (op_fail e) P s"
  by (simp add: op_wp_def op_fail_def)

lemma wp_check [wp_rules]:
  "(\<And>e. r = Inl e \<Longrightarrow> P (Inl e) s) \<Longrightarrow> (\<And>x. r = Inr x \<Longrightarrow> op_wp (f x) P s) \<Longrightarrow>
   op_wp (op_check r f) P s"
  by (cases r) (simp_all add: op_wp_def op_check_def)

lemma wp_lock [wp_rules]: "op_wp (f s) P s \<Longrightarrow> op_wp (op_lock f) P s"
  by (simp add: op_wp_def op_lock_def)

lemma wp_then:
  "op_wp m (\<lambda>r s'. case r of Inl e \<Rightarrow> P (Inl e) s' | Inr x \<Rightarrow> op_wp (f x) P s') s \<Longrightarrow>
   op_wp (op_then m f) P s"
  by (auto simp: op_wp_def op_then_def split: prod.splits sum.splits)

lemma wp_commit_then [wp_rules]:
  assumes "\<And>e. P (Inl e) s"
    and "\<And>s'. commit_delta X env d s = (Inr (), s') \<Longrightarrow> op_wp (f ()) P s'"
  shows "op_wp (op_then (commit_delta X env d) f) P s"
proof -
  obtain r s' where rs: "commit_delta X env d s = (r, s')" by fastforce
  then show ?thesis
    using assms by (cases rule: commit_delta_cases) (auto simp: op_wp_def op_then_def rs)
qed

lemma wp_run_mutation [wp_rules]:
  "(\<And>e. P (Inl e) s) \<Longrightarrow> op_wp m P s \<Longrightarrow> op_wp (run_mutation env m) P s"
  unfolding run_mutation_def by (rule wp_check)

lemma wp_option [wp_rules]:
  "(x = None \<Longrightarrow> op_wp m P s) \<Longrightarrow> (\<And>y. x = Some y \<Longrightarrow> op_wp (f y) P s) \<Longrightarrow>
   op_wp (case x of None \<Rightarrow> m | Some y \<Rightarrow> f y) P s"
  by (cases x) simp_all

lemma wp_if [wp_rules]:
  "(b \<Longrightarrow> op_wp m P s) \<Longrightarrow> (\<not> b \<Longrightarrow> op_wp m' P s) \<Longrightarrow> op_wp (if b then m else m') P s"
  by simp

lemma wp_invite_state [wp_rules]:
  "(x = Pending \<Longrightarrow> op_wp m P s) \<Longrightarrow> (x = Claimed \<Longrightarrow> op_wp m' P s) \<Longrightarrow>
   (x = Revoked \<Longrightarrow> op_wp m'' P s) \<Longrightarrow>
   op_wp (case x of Pending \<Rightarrow> m | Claimed \<Rightarrow> m' | Revoked \<Rightarrow> m'') P s"
  by (cases x) simp_all

lemma wp_result: "op_wp m P s \<Longrightarrow> m s = (r, s') \<Longrightarrow> P r s'"
  by (simp add: op_wp_def)

lemma wp_mono: "op_wp m P s \<Longrightarrow> (\<And>r s'. P r s' \<Longrightarrow> Q r s') \<Longrightarrow> op_wp m Q s"
  by (simp add: op_wp_def)

lemma commit_state: "commit_delta X env d s = (Inr (), s') \<Longrightarrow> st_state s' = after_delta d (st_state s)"
  by (erule commit_delta_cases) simp_all

lemma commit_key: "commit_delta X env d s = (Inr (), s') \<Longrightarrow> st_key s' = st_key s"
  by (erule commit_delta_cases) simp_all

text \<open>A handler run at clock readings up to \<open>t\<close> leaves the store, or commits one mutation.\<close>

definition mutates :: "Ext \<Rightarrow> int \<Rightarrow> Store \<Rightarrow> Store \<Rightarrow> bool" where
  "mutates X t s s' \<longleftrightarrow> s' = s \<or> (\<exists>env now d. now \<le> t \<and> control_event now (st_state s) d \<and>
     commit_delta X env d s = (Inr (), s'))"

lemma mutates_refl [simp, intro]: "mutates X t s s"
  by (simp add: mutates_def)

lemma mutatesI:
  "now \<le> t \<Longrightarrow> control_event now (st_state s) d \<Longrightarrow> commit_delta X env d s = (Inr (), s') \<Longrightarrow>
   mutates X t s s'"
  by (auto simp: mutates_def)

lemma mutates_mono: "mutates X t s s' \<Longrightarrow> t \<le> u \<Longrightarrow> mutates X u s s'"
  by (auto simp: mutates_def intro: order_trans)

lemma mutates_store_ok: "store_ok X s \<Longrightarrow> mutates X t s s' \<Longrightarrow> store_ok X s'"
  by (auto simp: mutates_def intro: commit_delta_ok)

lemma mutates_covered:
  assumes "store_ok X s" "mutates X t s s'" "t \<le> now" "covered now (st_state s) k g x"
  shows "covered now (st_state s') k g x"
proof -
  have "covered now (after_delta d (st_state s)) k g x" if "control_event t' (st_state s) d" "t' \<le> t" for t' d
    using event_keeps_covered [OF _ that(1)] that(2) assms(1,3,4) by (simp add: store_ok_def)
  with assms(2,4) show ?thesis by (auto simp: mutates_def commit_state)
qed

text \<open>
  The contract of a mutating handler, and what every client of Control may conclude from
  it.  Each handler below provides it.
\<close>

locale control_handler =
  fixes X :: Ext
    and t :: int
    and h :: "'a op"
  assumes refines: "state_ok (st_state s) \<Longrightarrow> op_wp h (\<lambda>r s'. mutates X t s s') s"
begin

lemma result: "state_ok (st_state s) \<Longrightarrow> h s = (r, s') \<Longrightarrow> mutates X t s s'"
  using refines [of s] by (simp add: op_wp_def)

lemma result_cases:
  assumes "store_ok X s" "h s = (r, s')"
  obtains (same) "s' = s"
  | (event) env now d where "now \<le> t" "control_event now (st_state s) d"
      "commit_delta X env d s = (Inr (), s')" "st_state s' = after_delta d (st_state s)"
      "st_key s' = st_key s"
proof -
  have "mutates X t s s'" using result [OF _ assms(2)] assms(1) by (simp add: store_ok_def)
  then show thesis
    unfolding mutates_def using same event by (metis commit_delta_cases sum.distinct(1))
qed

lemma keeps_store_ok:
  assumes "store_ok X s" "h s = (r, s')"
  shows "store_ok X s'"
  using mutates_store_ok [OF assms(1) result] assms by (simp add: store_ok_def)

lemma keeps_key:
  assumes "store_ok X s" "h s = (r, s')"
  shows "st_key s' = st_key s"
  using assms by (cases rule: result_cases) simp_all

lemma revisions_advance:
  assumes "store_ok X s" "h s = (r, s')"
  shows "revision (st_state s') \<in> {revision (st_state s), revision (st_state s) + 1} \<and>
    relay_revision (st_state s') \<in> {relay_revision (st_state s), relay_revision (st_state s) + 1}"
  using assms by (cases rule: result_cases)
    (simp_all add: after_delta_def next_revision_def next_relay_revision_def split: Publish.splits)

lemma keeps_covered:
  assumes "store_ok X s" "h s = (r, s')" "t \<le> now" "covered now (st_state s) k g x"
  shows "covered now (st_state s') k g x"
  using mutates_covered [OF assms(1) result assms(3,4)] assms(1,2) by (simp add: store_ok_def)

end

end
