(* ===== verification/Control_Handlers.thy ===== *)
theory Control_Handlers
  imports Control_Store
begin

text \<open>
  The public HTTP handlers of Control for clients and enrolling nodes
  (\<open>crates/as-control/src/main.rs\<close>): \<open>status\<close>, \<open>claim\<close>, \<open>client_edge_invite\<close> and
  \<open>client_edge_remove\<close>, each with every check in the order of the source.
\<close>

section \<open>Status\<close>

definition status :: "Ext \<Rightarrow> Env \<Rightarrow> StatusRequest \<Rightarrow> ControlStatus op" where
  "status X env request =
     op_check (verification_permit env) (\<lambda>_.
     op_check (map_err api_unauthorized (StatusRequest_verify X request)) (\<lambda>client.
     op_check (map_err api_unauthorized (check_time (sr_issued_at request) (env_now env))) (\<lambda>_.
     op_check (ensure (\<not> (sr_nonce request = [] \<or> length (sr_nonce request) > 128))
       (api_bad ''nonce must contain 1-128 characters'')) (\<lambda>_.
     op_lock (\<lambda>store. let st = st_state store in
     op_check (ensure (sr_audience request = cs_audience st)
       (api_unauthorized ''control audience mismatch'')) (\<lambda>_.
     op_check (ensure (list_ex (\<lambda>c. c_endpoint_id c = id_to_string X client) (clients st))
       (api_forbidden ''client is not registered'')) (\<lambda>_.
     op_ok \<lparr>cst_audience = cs_audience st, cst_control_url = cs_public_url st,
       cst_control_id = id_to_string X (ed_public X (st_key store)), cst_revision = revision st,
       cst_clients = length (clients st), cst_edges = length (edges st),
       cst_relays = length (relays st)\<rparr>)))))))"

section \<open>Claims\<close>

definition validate_relay_claim ::
  "InviteKind \<Rightarrow> nat option \<Rightarrow> byte list option \<Rightarrow> ApiError + nat option" where
  "validate_relay_claim kind qad_port csr_der =
     (case kind of
        IKRelay _ \<Rightarrow>
          and_then (map_err api_bad (validate_qad_port qad_port)) (\<lambda>_.
          and_then (ensure ((qad_port \<noteq> None) = (csr_der \<noteq> None))
            (api_bad ''Relay QAD port and TLS CSR must be provided together'')) (\<lambda>_.
          Inr qad_port))
      | _ \<Rightarrow>
          and_then (ensure (\<not> (qad_port \<noteq> None \<or> csr_der \<noteq> None))
            (api_bad ''only Relay claims may advertise QAD'')) (\<lambda>_.
          Inr None))"

definition relay_cert_params :: "string \<Rightarrow> int \<Rightarrow> TlsCertParams" where
  "relay_cert_params host now = \<lparr>tc_is_ca = False, tc_key_usages = [''DigitalSignature''],
     tc_extended_key_usages = [''ServerAuth''], tc_authority_key_identifier = True, tc_common_name = host,
     tc_not_before = now - 24 * 60 * 60, tc_not_after = now + 825 * 24 * 60 * 60\<rparr>"

text \<open>\<open>now\<close> is the clock when the certificate is made.\<close>

definition issue_relay_tls_certificate ::
  "Ext \<Rightarrow> int \<Rightarrow> byte list option \<Rightarrow> InviteKind \<Rightarrow> nat option \<Rightarrow> Issuer \<Rightarrow> ApiError + byte list option" where
  "issue_relay_tls_certificate X now csr_der kind qad_port issuer =
     (case kind of
        IKRelay url \<Rightarrow>
          (case qad_port of
             None \<Rightarrow>
               and_then (ensure (csr_der = None)
                 (api_bad ''QAD is disabled for this Relay enrollment'')) (\<lambda>_. Inr None)
           | Some _ \<Rightarrow>
               and_then (ok_or (api_bad ''QAD-enabled Relay claim is missing its TLS CSR'') csr_der) (\<lambda>csr.
               and_then (ensure (\<not> length csr > 16 * 1024) (api_bad ''Relay TLS CSR is too large'')) (\<lambda>_.
               and_then (map_err api_bad (url_parse X url)) (\<lambda>parsed.
               and_then (ok_or (api_bad ''Relay URL has no host'') (u_host parsed)) (\<lambda>host.
               and_then (map_err api_bad (csr_sans X csr)) (\<lambda>sans.
               and_then (map_err api_bad (cert_sans X host)) (\<lambda>expected.
               and_then (ensure (\<not> sans \<noteq> expected)
                 (api_bad ''Relay TLS CSR SAN does not match its Relay URL host'')) (\<lambda>_.
               and_then (map_err api_internal (csr_signed_by X issuer csr (relay_cert_params host now))) (\<lambda>certificate.
               Inr (Some certificate))))))))))
      | _ \<Rightarrow>
          and_then (ensure (csr_der = None)
            (api_bad ''only Relay claims may include a TLS CSR'')) (\<lambda>_. Inr None))"

definition claim_reply ::
  "Ext \<Rightarrow> Env \<Rightarrow> EndpointId \<Rightarrow> Invite \<Rightarrow> byte list option \<Rightarrow> JoinResult op" where
  "claim_reply X env endpoint_id invite certificate =
     op_lock (\<lambda>store.
     op_check (map_err api_internal (signed_map X (st_state store) (st_key store) (env_later env)
       endpoint_id)) (\<lambda>node_map.
     op_ok \<lparr>jr_name = inv_name invite, jr_kind = inv_kind invite, jr_map = node_map,
       jr_relay_tls_certificate_der = certificate\<rparr>))"

definition claim_pending ::
  "Ext \<Rightarrow> Env \<Rightarrow> EndpointId \<Rightarrow> InviteRecord \<Rightarrow> nat option \<Rightarrow> byte list option \<Rightarrow> JoinResult op" where
  "claim_pending X env endpoint_id record qad_port certificate =
     op_lock (\<lambda>store. let st = st_state store in
     op_check (ok_or (api_internal ''revision overflow'') (u64_checked_add (revision st) 1)) (\<lambda>generation.
     op_check (claimed_node_change X st (i_invite record) endpoint_id (i_managed_by record) qad_port
       generation (env_now env)) (\<lambda>node_change.
     op_then (commit_delta X env (topology [node_change, PutInvite (record\<lparr>i_state := Claimed,
         i_claimed_by := Some (id_to_string X endpoint_id), i_terminal_at := Some (env_now env)\<rparr>)])) (\<lambda>_.
     claim_reply X env endpoint_id (i_invite record) certificate))))"

definition claim_mutation :: "Ext \<Rightarrow> Env \<Rightarrow> ClaimRequest \<Rightarrow> EndpointId \<Rightarrow> JoinResult op" where
  "claim_mutation X env request endpoint_id =
     op_lock (\<lambda>store. let st = st_state store; c = cr_claim request in
     op_check (validate_token_for_state X (cr_token request) st (ed_public X (st_key store))
       (env_now env)) (\<lambda>_.
     op_check (ok_or (api_gone ''unknown invite'') (find_by i_id (cl_invite_id c) (invites st))) (\<lambda>record.
     op_check (validate_relay_claim (inv_kind (i_invite record)) (cl_relay_qad_port c)
       (cl_relay_tls_csr c)) (\<lambda>qad_port.
     op_check (issue_relay_tls_certificate X (env_later env) (cl_relay_tls_csr c) (inv_kind (i_invite record))
       qad_port (st_relay_ca store)) (\<lambda>certificate.
     case i_state record of
       Pending \<Rightarrow> claim_pending X env endpoint_id record qad_port certificate
     | Claimed \<Rightarrow>
         if i_claimed_by record = Some (cl_endpoint_id c) then
           if (case find_by r_endpoint_id (cl_endpoint_id c) (relays st) of
                 Some relay \<Rightarrow> r_qad_port relay \<noteq> qad_port | None \<Rightarrow> False)
           then op_fail (api_conflict ''Relay QAD port differs from its enrolled value'')
           else claim_reply X env endpoint_id (i_invite record) certificate
         else op_fail (api_conflict ''invite was already claimed'')
     | Revoked \<Rightarrow> op_fail (api_gone ''invite was revoked''))))))"

definition claim :: "Ext \<Rightarrow> Env \<Rightarrow> ClaimRequest \<Rightarrow> JoinResult op" where
  "claim X env request =
     op_check (verification_permit env) (\<lambda>_.
     op_check (map_err api_unauthorized (JoinToken_verify X (cr_token request))) (\<lambda>_.
     op_check (map_err api_unauthorized (ClaimRequest_verify X request)) (\<lambda>endpoint_id.
     op_check (map_err api_unauthorized (check_time (cl_issued_at (cr_claim request)) (env_now env))) (\<lambda>_.
     run_mutation env (claim_mutation X env request endpoint_id)))))"

section \<open>Edge invitations and removals by their owner\<close>

definition client_edge_invite_mutation ::
  "Ext \<Rightarrow> Env \<Rightarrow> EdgeInviteRequest \<Rightarrow> EndpointId \<Rightarrow> InviteResult op" where
  "client_edge_invite_mutation X env request client_id =
     op_lock (\<lambda>store. let st = st_state store; kind = IKEdge (id_to_string X client_id) in
     op_check (ensure (eir_audience request = cs_audience st)
       (api_unauthorized ''control audience mismatch'')) (\<lambda>_.
     op_check (ok_or (api_forbidden ''client is not registered'') (map_option c_managed_by
       (find_by c_endpoint_id (id_to_string X client_id) (clients st)))) (\<lambda>managed_by.
     op_check (ensure (\<not> list_ex (\<lambda>i. i_request_id i = Some (eir_request_id request)) (invites st))
       (api_conflict ''edge invitation request was already used'')) (\<lambda>_.
     op_check (validate_invite_name st (env_later env) (eir_name request) kind) (\<lambda>_.
     op_check (map_err api_bad (build_invite X (st_key store) st (env_later env) (env_token16 env)
       (eir_name request) kind (eir_ttl_secs request) (env_token32 env))) (\<lambda>(result, record).
     op_then (commit_delta X env (topology [PutInvite (record\<lparr>
         i_request_id := Some (eir_request_id request), i_managed_by := managed_by\<rparr>)])) (\<lambda>_.
     op_ok result)))))))"

definition client_edge_invite :: "Ext \<Rightarrow> Env \<Rightarrow> EdgeInviteRequest \<Rightarrow> InviteResult op" where
  "client_edge_invite X env request =
     op_check (verification_permit env) (\<lambda>_.
     op_check (map_err api_unauthorized (EdgeInviteRequest_verify X request)) (\<lambda>client_id.
     op_check (map_err api_unauthorized (check_time (eir_issued_at request) (env_now env))) (\<lambda>_.
     op_check (map_err api_bad (validate_name (eir_name request))) (\<lambda>_.
     op_check (ensure (\<not> (eir_request_id request = [] \<or> length (eir_request_id request) > 128))
       (api_bad ''request id must contain 1-128 characters'')) (\<lambda>_.
     run_mutation env (client_edge_invite_mutation X env request client_id))))))"

definition client_edge_remove_mutation ::
  "Ext \<Rightarrow> Env \<Rightarrow> EdgeRemoveRequest \<Rightarrow> EndpointId \<Rightarrow> SignedNodeMap op" where
  "client_edge_remove_mutation X env request client_endpoint =
     op_lock (\<lambda>store. let st = st_state store; client_id = id_to_string X client_endpoint in
     op_check (ensure (err_audience request = cs_audience st)
       (api_unauthorized ''control audience mismatch'')) (\<lambda>_.
     op_check (ensure (list_ex (\<lambda>c. c_endpoint_id c = client_id) (clients st))
       (api_forbidden ''client is not registered'')) (\<lambda>_.
     op_check (ok_or (api_bad (''unknown edge '' @ quoted (err_name request) @
         '' with the expected identity''))
       (List.find (\<lambda>e. e_owner_id e = client_id \<and> e_name e = err_name request \<and>
         e_endpoint_id e = err_endpoint_id request) (edges st))) (\<lambda>removed.
     op_then (commit_delta X env (revocation [DeleteEdge (e_endpoint_id removed),
         revocation_change st (e_endpoint_id removed) (e_generation removed) (e_expires_at removed)])) (\<lambda>_.
     op_lock (\<lambda>store'.
     op_check (map_err api_internal (signed_map X (st_state store') (st_key store') (env_later env)
       client_endpoint)) (\<lambda>node_map.
     op_ok node_map)))))))"

definition client_edge_remove :: "Ext \<Rightarrow> Env \<Rightarrow> EdgeRemoveRequest \<Rightarrow> SignedNodeMap op" where
  "client_edge_remove X env request =
     op_check (verification_permit env) (\<lambda>_.
     op_check (map_err api_unauthorized (EdgeRemoveRequest_verify X request)) (\<lambda>client_endpoint.
     op_check (map_err api_unauthorized (check_time (err_issued_at request) (env_now env))) (\<lambda>_.
     op_check (map_err api_bad (validate_name (err_name request))) (\<lambda>_.
     op_check (ensure (\<not> (err_nonce request = [] \<or> length (err_nonce request) > 128))
       (api_bad ''nonce must contain 1-128 characters'')) (\<lambda>_.
     run_mutation env (client_edge_remove_mutation X env request client_endpoint))))))"

section \<open>The handlers meet their contract\<close>

definition env_time :: "Env \<Rightarrow> int" where
  "env_time env = max (env_now env) (env_later env)"

lemma env_time_ge [simp]: "env_now env \<le> env_time env" "env_later env \<le> env_time env"
  by (simp_all add: env_time_def)

text \<open>What the database adds to a commit: a stored credential expires after its issue.\<close>

lemma commit_put_client:
  "commit_delta X env d s = (Inr (), s') \<Longrightarrow> sd_changes d = PutClient c # chs \<Longrightarrow>
   c_issued_at c < c_expires_at c"
  by (erule commit_delta_cases)
    (auto simp: durable_write_def db_put_client_Inr elim!: apply_delta_sync_Inr)

lemma commit_put_edge:
  "commit_delta X env d s = (Inr (), s') \<Longrightarrow> sd_changes d = PutEdge e # chs \<Longrightarrow>
   e_issued_at e < e_expires_at e"
  by (erule commit_delta_cases)
    (auto simp: durable_write_def db_put_edge_Inr elim!: apply_delta_sync_Inr)

lemma claim_event:
  assumes "i \<in> set (invites st)" "i_state i = Pending"
    and "claimed_node_change X st (i_invite i) endpoint (i_managed_by i) port (revision st + 1) now
      = Inr ch"
    and "port \<noteq> Some 0"
    and "\<And>c. ch = PutClient c \<Longrightarrow> c_issued_at c < c_expires_at c"
    and "\<And>e. ch = PutEdge e \<Longrightarrow> e_issued_at e < e_expires_at e"
  shows "control_event now st (topology [ch, PutInvite (i\<lparr>i_state := Claimed,
    i_claimed_by := Some (id_to_string X endpoint), i_terminal_at := Some now\<rparr>)])"
proof (cases "inv_kind (i_invite i)")
  case IKClient
  let ?c = "\<lparr>c_name = inv_name (i_invite i), c_endpoint_id = id_to_string X endpoint,
    c_managed_by = i_managed_by i, c_generation = revision st + 1, c_issued_at = now,
    c_expires_at = lifetime_from now\<rparr>"
  have "ch = PutClient ?c" "inv_name (i_invite i) \<notin> c_name ` set (clients st)"
    "id_to_string X endpoint \<notin> c_endpoint_id ` set (clients st)"
    using IKClient assms(3)
    by (auto simp: claimed_node_change_def lifetime_from_def list_ex_iff split: if_splits)
  then show ?thesis
    using enrol_client [of i st ?c now] assms(1,2) assms(5) [of ?c] IKClient by (simp add: claimed_def)
next
  case (IKEdge owner)
  let ?e = "\<lparr>e_name = inv_name (i_invite i), e_endpoint_id = id_to_string X endpoint,
    e_owner_id = owner, e_generation = revision st + 1, e_issued_at = now,
    e_expires_at = lifetime_from now\<rparr>"
  have "ch = PutEdge ?e" "owner \<in> c_endpoint_id ` set (clients st)"
    "edge_slot ?e \<notin> edge_slot ` set (edges st)"
    "id_to_string X endpoint \<notin> e_endpoint_id ` set (edges st)"
    using IKEdge assms(3)
    by (auto simp: claimed_node_change_def lifetime_from_def list_ex_iff edge_slot_def
        anyhow_client_exists_def split: if_splits)
  then show ?thesis
    using enrol_edge [of i st ?e now] assms(1,2) assms(6) [of ?e] IKEdge by (simp add: claimed_def)
next
  case (IKRelay url)
  let ?r = "\<lparr>r_name = inv_name (i_invite i), r_endpoint_id = id_to_string X endpoint,
    r_url = url, r_qad_port = port\<rparr>"
  have "ch = PutRelay ?r" "inv_name (i_invite i) \<notin> r_name ` set (relays st)"
    "url \<notin> r_url ` set (relays st)" "id_to_string X endpoint \<notin> r_endpoint_id ` set (relays st)"
    using IKRelay assms(3)
    by (auto simp: claimed_node_change_def list_ex_iff split: if_splits)
  then show ?thesis
    using enrol_relay [of i st ?r now] assms IKRelay by (simp add: claimed_def)
qed

lemma wp_claim_reply [wp_rules]: "(\<And>r. P r s) \<Longrightarrow> op_wp (claim_reply X env node invite c) P s"
  unfolding claim_reply_def by (intro wp_rules) auto

lemma validate_relay_claim_port: "validate_relay_claim kind p c = Inr port \<Longrightarrow> port \<noteq> Some 0"
  by (auto simp: validate_relay_claim_def validate_qad_port_def split: InviteKind.splits)

lemma claim_pending_refines:
  assumes "i \<in> set (invites (st_state s))" "i_state i = Pending" "port \<noteq> Some 0"
  shows "op_wp (claim_pending X env node i port cert) (\<lambda>r s'. mutates X (env_time env) s s') s"
  unfolding claim_pending_def Let_def
proof (intro wp_rules, goal_cases)
  case (4 generation ch s' r)
  then have "generation = revision (st_state s) + 1" by simp
  with 4(2,3) assms show ?case
    by (intro mutatesI [OF env_time_ge(1) claim_event 4(3)])
      (auto dest: commit_put_client commit_put_edge)
qed simp_all

lemma claim_refines: "op_wp (claim X env request) (\<lambda>r s'. mutates X (env_time env) s s') s"
  unfolding claim_def claim_mutation_def Let_def
  by (intro wp_rules)
    (auto dest: find_by_key intro!: claim_pending_refines validate_relay_claim_port)

lemma build_invite_pending:
  "build_invite X key st now tok name kind ttl secret = Inr (res, i) \<Longrightarrow>
   i_state i = Pending \<and> i_claimed_by i = None \<and> i_terminal_at i = None"
  by (auto simp: build_invite_def Let_def)

text \<open>The random invitation id is not in use.\<close>

definition token_fresh :: "Env \<Rightarrow> ControlState \<Rightarrow> bool" where
  "token_fresh env st \<longleftrightarrow> env_token16 env \<notin> i_id ` set (invites st)"

lemma build_invite_id:
  "build_invite X key st now tok name kind ttl secret = Inr (res, i) \<Longrightarrow> i_id i = tok"
  by (auto simp: build_invite_def Let_def)

lemma commit_mutates:
  "commit_delta X env d s = (Inr (), s') \<Longrightarrow> control_event now (st_state s) d \<Longrightarrow> now \<le> t \<Longrightarrow>
   mutates X t s s'"
  by (rule mutatesI)

lemmas commit_mutations = commit_mutates [OF _ control_event.invite]
  commit_mutates [OF _ control_event.revoke_invite] commit_mutates [OF _ control_event.remove_client]
  commit_mutates [OF _ control_event.remove_edge] commit_mutates [OF _ control_event.transfer_edge]
  commit_mutates [OF _ control_event.remove_relay] commit_mutates [OF _ control_event.update_port]
  commit_mutates [OF _ control_event.add_provisioner]
  commit_mutates [OF _ control_event.remove_provisioner]

lemma client_edge_invite_refines:
  "op_wp (client_edge_invite X env request) (\<lambda>r s'. mutates X (env_time env) s s') s"
  unfolding client_edge_invite_def client_edge_invite_mutation_def Let_def split_def
  by (intro wp_rules)
    (auto dest!: build_invite_pending elim!: commit_mutations(1) [OF _ _ _ _ env_time_ge(2)])

lemma find_member: "List.find P es = Some e \<Longrightarrow> e \<in> set es \<and> P e"
  by (auto simp: find_Some_iff)

lemma client_edge_remove_refines:
  "op_wp (client_edge_remove X env request) (\<lambda>r s'. mutates X (env_time env) s s') s"
  unfolding client_edge_remove_def client_edge_remove_mutation_def Let_def
  by (intro wp_rules)
    (auto dest!: find_member elim!: commit_mutations(4) [OF _ _ env_time_ge(2)])

lemma status_refines: "op_wp (status X env request) (\<lambda>r s'. s' = s) s"
  unfolding status_def Let_def by (intro wp_rules) simp_all

interpretation claim_handler: control_handler X "env_time env" "claim X env request" for X env request
  by unfold_locales (rule claim_refines)

interpretation edge_invite_handler: control_handler X "env_time env"
  "client_edge_invite X env request" for X env request
  by unfold_locales (rule client_edge_invite_refines)

interpretation edge_remove_handler: control_handler X "env_time env"
  "client_edge_remove X env request" for X env request
  by unfold_locales (rule client_edge_remove_refines)

end
