(* ===== verification/Control_Sample.thy ===== *)
theory Control_Sample
  imports Control_Store
begin

text \<open>
  A small deployment at which the properties of the handlers are evaluated: one
  provisioner, a client it manages, an edge of that client, a relay, and two pending
  invitations, in memory and on disk.
\<close>

definition control_key :: SecretKey where "control_key = SecretKey [9]"
definition provisioner_key :: SecretKey where "provisioner_key = SecretKey [7]"
definition alice_key :: SecretKey where "alice_key = SecretKey [1]"
definition box_key :: SecretKey where "box_key = SecretKey [2]"
definition relay_key :: SecretKey where "relay_key = SecretKey [3]"
definition bob_key :: SecretKey where "bob_key = SecretKey [4]"

definition key_id :: "SecretKey \<Rightarrow> string" where
  "key_id k = id_to_string ref_ext (ed_public ref_ext k)"

lemma key_ids [simp]:
  "key_id control_key = ''xaj''" "key_id provisioner_key = ''xah''" "key_id alice_key = ''xab''"
  "key_id box_key = ''xac''" "key_id relay_key = ''xad''" "key_id bob_key = ''xae''"
  by code_simp+

definition alice :: ClientRecord where
  "alice = \<lparr>c_name = ''alice'', c_endpoint_id = ''xab'', c_managed_by = Some ''xah'',
     c_generation = 3, c_issued_at = 900, c_expires_at = 605700\<rparr>"

definition box :: EdgeRecord where
  "box = \<lparr>e_name = ''box'', e_endpoint_id = ''xac'', e_owner_id = ''xab'',
     e_generation = 4, e_issued_at = 900, e_expires_at = 605700\<rparr>"

definition relay_one :: RelayRecord where
  "relay_one = \<lparr>r_name = ''relay-1'', r_endpoint_id = ''xad'', r_url = ''relay.example'',
     r_qad_port = Some 7842\<rparr>"

definition sample_invitation :: "string \<Rightarrow> string \<Rightarrow> InviteKind \<Rightarrow> Invite" where
  "sample_invitation i name kind = \<lparr>inv_protocol_version = 5, inv_audience = ''prod'',
     inv_control_url = ''https://control'', inv_control_id = ''xaj'', inv_invite_id = i,
     inv_name = name, inv_kind = kind, inv_secret_hash = hash_secret ref_ext ''s'',
     inv_expires_at = 2000\<rparr>"

definition pending :: "Invite \<Rightarrow> InviteRecord" where
  "pending i = \<lparr>i_invite = i, i_state = Pending, i_claimed_by = None, i_request_id = None,
     i_managed_by = None, i_request_hash = None, i_terminal_at = None\<rparr>"

definition sample_state :: ControlState where
  "sample_state = \<lparr>cs_schema = 6, cs_audience = ''prod'', cs_public_url = ''https://control'',
     cs_relay_ca_der = [1], revision = 5, relay_revision = 2, clients = [alice], edges = [box],
     relays = [relay_one],
     invites = [pending (sample_invitation ''i1'' ''bob'' IKClient),
       pending (sample_invitation ''i2'' ''lab'' (IKEdge ''xab''))],
     provisioners = [\<lparr>p_name = ''jobs'', p_endpoint_id = ''xah''\<rparr>], revocations = []\<rparr>"

definition sample_db :: Database where
  "sample_db = \<lparr>db_metadata = Some \<lparr>md_schema = 6, md_audience = ''prod'',
       md_public_url = ''https://control'', md_relay_ca_der = [1], md_revision = 5,
       md_relay_revision = 2\<rparr>,
     db_provisioners = [\<lparr>pv_endpoint_id = ''xah'', pv_name = ''jobs'', pv_active = True\<rparr>],
     db_clients = [alice], db_edges = [box], db_relays = [relay_one], db_revocations = [],
     db_invitations = [invitation_row ref_ext None (pending (sample_invitation ''i1'' ''bob'' IKClient)),
       invitation_row ref_ext (Some ''xab'')
         (pending (sample_invitation ''i2'' ''lab'' (IKEdge ''xab'')))]\<rparr>"

definition sample_store :: Store where
  "sample_store = \<lparr>st_db = sample_db, st_key = control_key,
     st_relay_ca = \<lparr>is_key_der = [5], is_cert_der = [1]\<rparr>, st_state = sample_state,
     st_changed = 0, st_relay_changed = 0, st_watches = Map.empty\<rparr>"

definition sample_env :: Env where
  "sample_env = \<lparr>env_now = 1000, env_later = 1000,
     env_verify = \<lparr>ad_waiting = 1, ad_acquire = Acquired\<rparr>,
     env_mutate = \<lparr>ad_waiting = 1, ad_acquire = Acquired\<rparr>, env_io = True,
     env_token16 = ''fresh'', env_token32 = ''token''\<rparr>"

lemma sample_state_ok: "state_ok sample_state"
  by (simp add: state_ok_def tables_ok_def tables_ok_defs sample_state_def alice_def box_def
      relay_one_def keys_distinct_def invite_ok_def pending_def sample_invitation_def edge_slot_def)

lemma sample_db_agrees: "agrees ref_ext sample_db sample_state"
  by (simp add: agrees_def coherent_def
      tables_coherent_def metadata_coherent_def request_ids_unique_def sample_db_def
      sample_state_def keys_distinct_def invitation_row_def erase_owner_def
      pending_def sample_invitation_def active_rows_def provisioner_of_def Collect_conv_if)

lemma sample_store_ok: "store_ok ref_ext sample_store"
  using sample_state_ok sample_db_agrees by (simp add: store_ok_def sample_store_def)

lemma sample_bounds:
  "env_now sample_env = 1000" "env_io sample_env" "st_state sample_store = sample_state"
  "st_key sample_store = control_key" "st_relay_ca sample_store = \<lparr>is_key_der = [5], is_cert_der = [1]\<rparr>"
  "(1000::int) < lifetime_from 1000" "cs_audience sample_state = ''prod''"
  "env_later sample_env = 1000" "revision sample_state = 5" "relay_revision sample_state = 2"
  "(5::int) < i64_max" "(6::int) \<le> i64_max" "(2::int) \<le> i64_max" "(3::int) \<le> i64_max"
  "int (revision sample_state) < i64_max" "int (relay_revision sample_state) \<le> i64_max"
  by (simp_all add: sample_env_def sample_store_def sample_state_def lifetime_from_def
      i64_saturating_add_def RELAY_CREDENTIAL_LIFETIME_SECS_def i64_max_def i64_min_def)

end
