(* ===== verification/Control_Provisioner.thy ===== *)
theory Control_Provisioner
  imports Control_Handlers Control_Sample
begin

text \<open>
  The Provisioner endpoint of Control (\<open>crates/as-control/src/main.rs\<close>,
  \<open>provisioner_request\<close> and what it dispatches to): an external authority that may
  invite, remove and transfer only the clients and edges it manages.
\<close>

section \<open>Authority and views\<close>

definition authorize_provisioner :: "ControlState \<Rightarrow> string \<Rightarrow> string \<Rightarrow> ApiError + unit" where
  "authorize_provisioner st audience provisioner_id =
     and_then (ensure (\<not> audience \<noteq> cs_audience st)
       (api_unauthorized ''control audience mismatch'')) (\<lambda>_.
     ensure (list_ex (\<lambda>item. p_endpoint_id item = provisioner_id) (provisioners st))
       (api_forbidden ''provisioner is not registered''))"

definition provisioner_topology :: "int \<Rightarrow> ControlState \<Rightarrow> string \<Rightarrow> ProvisionerTopology" where
  "provisioner_topology now st provisioner_id =
     \<lparr>pt_revision = revision st,
      pt_clients = map (\<lambda>client. \<lparr>mc_name = c_name client, mc_endpoint_id = c_endpoint_id client,
          mc_edges = map (\<lambda>edge. \<lparr>me_name = e_name edge, me_endpoint_id = e_endpoint_id edge\<rparr>)
            (filter (\<lambda>edge. e_owner_id edge = c_endpoint_id client) (edges st))\<rparr>)
        (filter (\<lambda>client. c_managed_by client = Some provisioner_id) (clients st)),
      pt_invites = map (invite_info now)
        (filter (\<lambda>i. i_managed_by i = Some provisioner_id) (invites st))\<rparr>"

definition provisioner_ok :: "ProvisionerResponse op" where
  "provisioner_ok = op_lock (\<lambda>store. op_ok (ROk (revision (st_state store))))"

definition managed_client_id :: "ControlState \<Rightarrow> string \<Rightarrow> string \<Rightarrow> ApiError + string" where
  "managed_client_id st name provisioner_id =
     ok_or (api_bad (''unknown managed client '' @ quoted name))
       (map_option c_endpoint_id (List.find (\<lambda>client. c_name client = name \<and>
          c_managed_by client = Some provisioner_id) (clients st)))"

definition check_expected_revision :: "ControlState \<Rightarrow> nat option \<Rightarrow> ApiError + unit" where
  "check_expected_revision st expected = (case expected of
      None \<Rightarrow> Inr ()
    | Some v \<Rightarrow> ensure (\<not> v \<noteq> revision st) (api_conflict (''revision mismatch: expected '' @
        show_nat v @ '', current '' @ show_nat (revision st))))"

section \<open>Mutations\<close>

definition provisioner_invite ::
  "Ext \<Rightarrow> Env \<Rightarrow> string \<Rightarrow> ProvisionerRequest \<Rightarrow> string \<Rightarrow> InviteKind \<Rightarrow> nat \<Rightarrow> string
    \<Rightarrow> ProvisionerResponse op" where
  "provisioner_invite X env provisioner_id request name kind ttl_secs secret =
     op_lock (\<lambda>store. let st = st_state store in
     op_check (map_err api_bad (validate_name name)) (\<lambda>_.
     op_check (map_err api_bad (validate_join_secret secret)) (\<lambda>_.
     let request_hash = action_hash X (pr_action request) in
     case List.find (\<lambda>item. i_managed_by item = Some provisioner_id \<and>
         i_request_id item = Some (pr_request_id request)) (invites st) of
       Some existing \<Rightarrow>
         op_check (ensure (\<not> i_request_hash existing \<noteq> Some request_hash)
           (api_conflict ''request id was already used for another action'')) (\<lambda>_.
         op_check (map_err api_internal (invite_result X (st_key store) (i_invite existing) secret))
           (\<lambda>result. op_ok (RInvite result)))
     | None \<Rightarrow>
         op_check (check_expected_revision st (pr_expected_revision request)) (\<lambda>_.
         op_check (validate_invite_name st (env_later env) name kind) (\<lambda>_.
         op_check (map_err api_bad (build_invite X (st_key store) st (env_later env)
           (env_token16 env) name kind ttl_secs secret)) (\<lambda>(result, record).
         op_then (commit_delta X env (topology [PutInvite (record\<lparr>
             i_request_id := Some (pr_request_id request), i_managed_by := Some provisioner_id,
             i_request_hash := Some request_hash\<rparr>)])) (\<lambda>_.
         op_ok (RInvite result))))))))"

definition provisioner_revoke_invite ::
  "Ext \<Rightarrow> Env \<Rightarrow> string \<Rightarrow> ProvisionerRequest \<Rightarrow> string \<Rightarrow> ProvisionerResponse op" where
  "provisioner_revoke_invite X env provisioner_id request invite_id =
     op_lock (\<lambda>store. let st = st_state store in
     op_check (ok_or (api_bad ''unknown managed invite'') (List.find (\<lambda>item.
         i_id item = invite_id \<and> i_managed_by item = Some provisioner_id) (invites st))) (\<lambda>record.
     case i_state record of
       Revoked \<Rightarrow> provisioner_ok
     | Claimed \<Rightarrow> op_fail (api_conflict ''claimed invites cannot be revoked'')
     | Pending \<Rightarrow>
         op_check (check_expected_revision st (pr_expected_revision request)) (\<lambda>_.
         op_then (commit_delta X env (topology [PutInvite (record\<lparr>i_state := Revoked,
             i_terminal_at := Some (env_later env)\<rparr>)])) (\<lambda>_.
         provisioner_ok))))"

definition provisioner_remove_client ::
  "Ext \<Rightarrow> Env \<Rightarrow> string \<Rightarrow> ProvisionerRequest \<Rightarrow> string \<Rightarrow> ProvisionerResponse op" where
  "provisioner_remove_client X env provisioner_id request name =
     op_lock (\<lambda>store. let st = st_state store in
     case List.find (\<lambda>item. c_name item = name \<and> c_managed_by item = Some provisioner_id)
         (clients st) of
       None \<Rightarrow>
         if list_ex (\<lambda>item. c_name item = name) (clients st)
         then op_fail (api_forbidden ''client is managed by another authority'')
         else provisioner_ok
     | Some client \<Rightarrow>
         op_check (ensure (\<not> list_ex (\<lambda>edge. e_owner_id edge = c_endpoint_id client) (edges st))
           (api_conflict ''client still owns edges'')) (\<lambda>_.
         op_check (ensure (\<not> list_ex (\<lambda>i. invite_is_active_pending (env_later env) i \<and>
             inv_kind (i_invite i) = IKEdge (c_endpoint_id client)) (invites st))
           (api_conflict ''client still has pending edge invites'')) (\<lambda>_.
         op_check (check_expected_revision st (pr_expected_revision request)) (\<lambda>_.
         op_then (commit_delta X env (revocation [DeleteClient (c_endpoint_id client),
             revocation_change st (c_endpoint_id client) (c_generation client)
               (c_expires_at client)])) (\<lambda>_.
         provisioner_ok)))))"

definition provisioner_remove_edge ::
  "Ext \<Rightarrow> Env \<Rightarrow> string \<Rightarrow> ProvisionerRequest \<Rightarrow> string \<Rightarrow> string \<Rightarrow> ProvisionerResponse op" where
  "provisioner_remove_edge X env provisioner_id request owner name =
     op_lock (\<lambda>store. let st = st_state store in
     op_check (managed_client_id st owner provisioner_id) (\<lambda>owner_id.
     case List.find (\<lambda>item. e_owner_id item = owner_id \<and> e_name item = name) (edges st) of
       None \<Rightarrow> provisioner_ok
     | Some edge \<Rightarrow>
         op_check (check_expected_revision st (pr_expected_revision request)) (\<lambda>_.
         op_then (commit_delta X env (revocation [DeleteEdge (e_endpoint_id edge),
             revocation_change st (e_endpoint_id edge) (e_generation edge) (e_expires_at edge)])) (\<lambda>_.
         provisioner_ok))))"

definition provisioner_transfer_edge ::
  "Ext \<Rightarrow> Env \<Rightarrow> string \<Rightarrow> ProvisionerRequest \<Rightarrow> string \<Rightarrow> string \<Rightarrow> string \<Rightarrow> string
    \<Rightarrow> ProvisionerResponse op" where
  "provisioner_transfer_edge X env provisioner_id request owner name endpoint_text new_owner =
     op_lock (\<lambda>store. let st = st_state store in
     op_check (map_err (\<lambda>e. api_bad (''invalid edge endpoint id: '' @ e))
       (id_parse X endpoint_text)) (\<lambda>parsed. let endpoint_id = id_to_string X parsed in
     op_check (managed_client_id st owner provisioner_id) (\<lambda>owner_id.
     op_check (managed_client_id st new_owner provisioner_id) (\<lambda>new_owner_id.
     case List.find (\<lambda>item. e_owner_id item = owner_id \<and> e_name item = name \<and>
         e_endpoint_id item = endpoint_id) (edges st) of
       None \<Rightarrow>
         if list_ex (\<lambda>item. e_owner_id item = new_owner_id \<and> e_name item = name \<and>
              e_endpoint_id item = endpoint_id) (edges st)
         then provisioner_ok
         else op_fail (api_bad ''unknown managed edge'')
     | Some edge \<Rightarrow>
         op_check (ensure (\<not> list_ex (\<lambda>item. e_owner_id item = new_owner_id \<and> e_name item = name)
             (edges st))
           (api_conflict ''target client already has an edge with this name'')) (\<lambda>_.
         op_check (check_expected_revision st (pr_expected_revision request)) (\<lambda>_.
         op_then (commit_delta X env (topology [PutEdge (edge\<lparr>e_owner_id := new_owner_id\<rparr>)])) (\<lambda>_.
         provisioner_ok)))))))"

text \<open>The \<open>unreachable!\<close> arm panics inside the spawned mutation task, which
  \<open>run_mutation\<close> reports as an internal error.\<close>

definition dispatch_provisioner_mutation ::
  "Ext \<Rightarrow> Env \<Rightarrow> string \<Rightarrow> ProvisionerRequest \<Rightarrow> ProvisionerResponse op" where
  "dispatch_provisioner_mutation X env provisioner_id request =
     (case pr_action request of
        GetTopology \<Rightarrow> op_fail (api_internal ''queries are handled before mutation dispatch'')
      | InviteClient name ttl_secs secret \<Rightarrow>
          provisioner_invite X env provisioner_id request name IKClient ttl_secs secret
      | InviteEdge owner name ttl_secs secret \<Rightarrow>
          op_lock (\<lambda>store.
          op_check (managed_client_id (st_state store) owner provisioner_id) (\<lambda>owner_id.
          provisioner_invite X env provisioner_id request name (IKEdge owner_id) ttl_secs secret))
      | RevokeInvite invite_id \<Rightarrow>
          provisioner_revoke_invite X env provisioner_id request invite_id
      | RemoveClient name \<Rightarrow> provisioner_remove_client X env provisioner_id request name
      | RemoveEdge owner name \<Rightarrow> provisioner_remove_edge X env provisioner_id request owner name
      | TransferEdge owner name endpoint_id new_owner \<Rightarrow>
          provisioner_transfer_edge X env provisioner_id request owner name endpoint_id new_owner)"

text \<open>\<open>header\<close> is the \<open>Authorization\<close> header: absent, not printable text, or its text.\<close>

definition authorization_header :: "(string + string) option \<Rightarrow> ApiError + string" where
  "authorization_header header =
     and_then (ok_or (api_unauthorized ''missing provisioner authorization'') header) (\<lambda>h.
     map_err api_unauthorized h)"

definition provisioner_request ::
  "Ext \<Rightarrow> Env \<Rightarrow> (string + string) option \<Rightarrow> byte list \<Rightarrow> ProvisionerResponse op" where
  "provisioner_request X env header body =
     op_check (verification_permit env) (\<lambda>_.
     op_check (authorization_header header) (\<lambda>authorization.
     op_check (map_err api_unauthorized (verify_provisioner_authorization X authorization body)) (\<lambda>who.
     let provisioner_id = id_to_string X who in
     op_check (map_err api_bad (and_then (json_from_slice X body) ProvisionerRequest_of_json)) (\<lambda>request.
     op_check (map_err api_bad (verify_protocol request)) (\<lambda>_.
     op_check (map_err api_unauthorized (check_time (pr_issued_at request) (env_now env))) (\<lambda>_.
     op_check (map_err api_bad (validate_request_id (pr_request_id request))) (\<lambda>_.
     if pr_action request = GetTopology then
       op_lock (\<lambda>store.
       op_check (authorize_provisioner (st_state store) (pr_audience request) provisioner_id) (\<lambda>_.
       op_ok (RTopology (provisioner_topology (env_later env) (st_state store) provisioner_id))))
     else
       run_mutation env (op_lock (\<lambda>store.
         op_check (authorize_provisioner (st_state store) (pr_audience request) provisioner_id) (\<lambda>_.
         dispatch_provisioner_mutation X env provisioner_id request)))))))))) "

section \<open>The contract of a mutating handler\<close>

lemma wp_provisioner_ok [wp_rules]: "P (Inr (ROk (revision (st_state s)))) s \<Longrightarrow> op_wp provisioner_ok P s"
  unfolding provisioner_ok_def by (intro wp_rules)

lemma managed_client_id_Inr:
  "managed_client_id st name pid = Inr k \<Longrightarrow>
   \<exists>c \<in> set (clients st). c_endpoint_id c = k \<and> c_name c = name \<and> c_managed_by c = Some pid"
  by (auto simp: managed_client_id_def dest!: find_member)

lemma provisioner_invite_refines:
  "op_wp (provisioner_invite X env pid q name kind ttl secret)
     (\<lambda>r s'. mutates X (env_time env) s s') s"
  unfolding provisioner_invite_def Let_def split_def
  by (intro wp_rules)
    (auto dest!: build_invite_pending elim!: commit_mutations(1) [OF _ _ _ _ env_time_ge(2)])

lemma provisioner_revoke_invite_refines:
  "op_wp (provisioner_revoke_invite X env pid q k) (\<lambda>r s'. mutates X (env_time env) s s') s"
  unfolding provisioner_revoke_invite_def Let_def
  by (intro wp_rules) (auto dest!: find_member elim!: commit_mutations(2) [OF _ _ _ env_time_ge(2)])

lemma provisioner_remove_client_refines:
  "op_wp (provisioner_remove_client X env pid q name) (\<lambda>r s'. mutates X (env_time env) s s') s"
  unfolding provisioner_remove_client_def Let_def
  by (intro wp_rules)
    (auto dest!: find_member simp: list_ex_iff elim!: commit_mutations(3) [OF _ _ _ env_time_ge(2)])

lemma provisioner_remove_edge_refines:
  "op_wp (provisioner_remove_edge X env pid q owner name)
     (\<lambda>r s'. mutates X (env_time env) s s') s"
  unfolding provisioner_remove_edge_def Let_def
  by (intro wp_rules) (auto dest!: find_member elim!: commit_mutations(4) [OF _ _ env_time_ge(2)])

lemma provisioner_transfer_edge_refines:
  "op_wp (provisioner_transfer_edge X env pid q owner name k new_owner)
     (\<lambda>r s'. mutates X (env_time env) s s') s"
  unfolding provisioner_transfer_edge_def Let_def
  by (intro wp_rules)
    (auto dest!: find_member managed_client_id_Inr simp: list_ex_iff edge_slot_def
      elim!: commit_mutations(5) [OF _ _ _ _ env_time_ge(2)])

lemmas provisioner_refines = provisioner_invite_refines provisioner_revoke_invite_refines
  provisioner_remove_client_refines provisioner_remove_edge_refines
  provisioner_transfer_edge_refines

lemma dispatch_provisioner_mutation_refines:
  "op_wp (dispatch_provisioner_mutation X env pid q) (\<lambda>r s'. mutates X (env_time env) s s') s"
  unfolding dispatch_provisioner_mutation_def
  by (cases "pr_action q") (auto intro!: wp_rules provisioner_refines)

lemma provisioner_request_refines:
  "op_wp (provisioner_request X env header body) (\<lambda>r s'. mutates X (env_time env) s s') s"
  unfolding provisioner_request_def Let_def
  by (intro wp_rules dispatch_provisioner_mutation_refines) simp_all

interpretation provisioner_handler: control_handler X "env_time env"
  "provisioner_request X env header body" for X env header body
  by unfold_locales (rule provisioner_request_refines)

section \<open>A provisioner acts only on what it manages\<close>

text \<open>What a state holds outside the authority of a provisioner.\<close>

definition managed_ids :: "string \<Rightarrow> ControlState \<Rightarrow> string set" where
  "managed_ids pid st = c_endpoint_id ` {c \<in> set (clients st). c_managed_by c = Some pid}"

definition managed_edges :: "string \<Rightarrow> ControlState \<Rightarrow> string set" where
  "managed_edges pid st = e_endpoint_id ` {e \<in> set (edges st). e_owner_id e \<in> managed_ids pid st}"

text \<open>The kind of node a provisioner may invite.\<close>

definition invitable :: "string \<Rightarrow> ControlState \<Rightarrow> InviteKind \<Rightarrow> bool" where
  "invitable pid st kind \<longleftrightarrow> (case kind of
      IKClient \<Rightarrow> True | IKEdge owner \<Rightarrow> owner \<in> managed_ids pid st | IKRelay _ \<Rightarrow> False)"

definition same_outside :: "string \<Rightarrow> ControlState \<Rightarrow> ControlState \<Rightarrow> bool" where
  "same_outside pid st st' \<longleftrightarrow>
     {c \<in> set (clients st'). c_managed_by c \<noteq> Some pid} =
       {c \<in> set (clients st). c_managed_by c \<noteq> Some pid} \<and>
     {e \<in> set (edges st'). e_owner_id e \<notin> managed_ids pid st} =
       {e \<in> set (edges st). e_owner_id e \<notin> managed_ids pid st} \<and>
     {i \<in> set (invites st'). i_managed_by i \<noteq> Some pid} =
       {i \<in> set (invites st). i_managed_by i \<noteq> Some pid} \<and>
     {r \<in> set (revocations st'). rv_endpoint_id r \<notin> managed_ids pid st \<union> managed_edges pid st} =
       {r \<in> set (revocations st). rv_endpoint_id r \<notin> managed_ids pid st \<union> managed_edges pid st} \<and>
     managed_ids pid st' \<subseteq> managed_ids pid st \<and> managed_edges pid st' \<subseteq> managed_edges pid st \<and>
     (\<forall>i \<in> set (invites st') - set (invites st). i_state i = Pending \<longrightarrow> invitable pid st (inv_kind (i_invite i))) \<and>
     relays st' = relays st \<and> provisioners st' = provisioners st \<and> cs_schema st' = cs_schema st \<and>
     cs_audience st' = cs_audience st \<and> cs_public_url st' = cs_public_url st \<and> cs_relay_ca_der st' = cs_relay_ca_der st"

lemma same_outside_refl [simp, intro]: "same_outside pid st st"
  by (simp add: same_outside_def)

lemma put_invite_outside:
  assumes "state_ok st" "commit_delta X env (topology [PutInvite i]) s = (Inr (), s')"
    and "st = st_state s" "i_managed_by i = Some pid"
    and "\<forall>j \<in> set (invites st). i_id j = i_id i \<longrightarrow> i_managed_by j = Some pid"
    and "i_state i = Pending \<Longrightarrow> invitable pid st (inv_kind (i_invite i))"
  shows "same_outside pid st (st_state s')"
  using assms tables_ok_distinct(4) [of _ _ st]
  by (auto simp: same_outside_def commit_state after_delta_changes invite_table.rows_put
      managed_ids_def managed_edges_def state_ok_def)

lemma put_edge_outside:
  assumes "state_ok st" "commit_delta X env (topology [PutEdge (e\<lparr>e_owner_id := k\<rparr>)]) s = (Inr (), s')"
    and "st = st_state s" "e \<in> set (edges st)" "e_owner_id e \<in> managed_ids pid st"
    and "k \<in> managed_ids pid st"
  shows "same_outside pid st (st_state s')"
proof -
  have d: "keys_distinct e_endpoint_id (edges st)"
    using assms(1) by (auto simp: state_ok_def dest: tables_ok_distinct)
  have "\<forall>x \<in> set (edges st). e_endpoint_id x = e_endpoint_id e \<longrightarrow> x = e"
    using edge_table.rows_key_unique [OF d] assms(4) by blast
  with d assms show ?thesis
    by (auto simp: same_outside_def commit_state after_delta_changes edge_table.rows_put managed_ids_def managed_edges_def)
qed

lemma revocation_record_id [simp]: "rv_endpoint_id (revocation_record st k g x) = k"
  by (simp add: revocation_record_def Let_def split: option.split)

lemma delete_edge_outside:
  assumes "state_ok st" "st = st_state s" "e \<in> set (edges st)" "e_owner_id e \<in> managed_ids pid st"
    and "commit_delta X env (revocation [DeleteEdge (e_endpoint_id e),
      revocation_change st (e_endpoint_id e) g x]) s = (Inr (), s')"
  shows "same_outside pid st (st_state s')"
proof -
  have d: "keys_distinct e_endpoint_id (edges st)" "keys_distinct rv_endpoint_id (revocations st)"
    using assms(1) by (auto simp: state_ok_def dest: tables_ok_distinct)
  have same: "clients (st_state s') = clients st" and gone: "set (edges (st_state s')) = set (edges st) - {e}"
    and revoked: "set (revocations (st_state s')) = insert (revocation_record st (e_endpoint_id e) g x)
      {r \<in> set (revocations st). rv_endpoint_id r \<noteq> e_endpoint_id e}"
    using commit_state [OF assms(5)] assms(2,3) d edge_table.rows_key_unique [OF d(1)]
    by (auto simp: after_delta_changes set_delete_by revocation_change_def revocation_table.rows_put)
  have rest: "invites (st_state s') = invites st" "relays (st_state s') = relays st" "provisioners (st_state s') = provisioners st"
    "cs_schema (st_state s') = cs_schema st" "cs_audience (st_state s') = cs_audience st"
    "cs_public_url (st_state s') = cs_public_url st" "cs_relay_ca_der (st_state s') = cs_relay_ca_der st"
    by (simp_all add: commit_state [OF assms(5)] assms(2) after_delta_changes revocation_change_def)
  have ids: "managed_ids pid (st_state s') = managed_ids pid st" by (simp add: managed_ids_def same)
  have "e_endpoint_id e \<in> managed_edges pid st" using assms(3,4) by (auto simp: managed_edges_def)
  moreover have "managed_edges pid (st_state s') \<subseteq> managed_edges pid st" by (auto simp: managed_edges_def ids gone)
  ultimately show ?thesis
    using assms(4) by (auto simp: same_outside_def same gone revoked ids rest)
qed

lemma delete_client_outside:
  assumes "state_ok st" "st = st_state s" "c \<in> set (clients st)" "c_managed_by c = Some pid"
    and "commit_delta X env (revocation [DeleteClient (c_endpoint_id c),
      revocation_change st (c_endpoint_id c) g x]) s = (Inr (), s')"
  shows "same_outside pid st (st_state s')"
proof -
  have d: "keys_distinct c_endpoint_id (clients st)" "keys_distinct rv_endpoint_id (revocations st)"
    using assms(1) by (auto simp: state_ok_def dest: tables_ok_distinct)
  have same: "edges (st_state s') = edges st" and gone: "set (clients (st_state s')) = set (clients st) - {c}"
    and revoked: "set (revocations (st_state s')) = insert (revocation_record st (c_endpoint_id c) g x)
      {r \<in> set (revocations st). rv_endpoint_id r \<noteq> c_endpoint_id c}"
    using commit_state [OF assms(5)] assms(2,3) d client_table.rows_key_unique [OF d(1)]
    by (auto simp: after_delta_changes set_delete_by revocation_change_def revocation_table.rows_put)
  have rest: "invites (st_state s') = invites st" "relays (st_state s') = relays st" "provisioners (st_state s') = provisioners st"
    "cs_schema (st_state s') = cs_schema st" "cs_audience (st_state s') = cs_audience st"
    "cs_public_url (st_state s') = cs_public_url st" "cs_relay_ca_der (st_state s') = cs_relay_ca_der st"
    by (simp_all add: commit_state [OF assms(5)] assms(2) after_delta_changes revocation_change_def)
  have ids: "managed_ids pid (st_state s') \<subseteq> managed_ids pid st" by (auto simp: managed_ids_def gone)
  have "c_endpoint_id c \<in> managed_ids pid st" using assms(3,4) by (auto simp: managed_ids_def)
  moreover have "managed_edges pid (st_state s') \<subseteq> managed_edges pid st" using ids by (auto simp: managed_edges_def same)
  ultimately show ?thesis
    using assms(4) ids by (auto simp: same_outside_def same gone revoked rest)
qed

lemma managed_client_id_managed: "managed_client_id st name pid = Inr k \<Longrightarrow> k \<in> managed_ids pid st"
  by (auto simp: managed_ids_def dest: managed_client_id_Inr)

lemma build_invite_kind:
  "build_invite X key st now tok name kind ttl secret = Inr (res, i) \<Longrightarrow> inv_kind (i_invite i) = kind"
  by (auto simp: build_invite_def Let_def)

lemma provisioner_invite_outside:
  assumes "state_ok (st_state s)" "token_fresh env (st_state s)" "invitable pid (st_state s) kind"
  shows "op_wp (provisioner_invite X env pid q name kind ttl secret)
     (\<lambda>r s'. same_outside pid (st_state s) (st_state s')) s"
  unfolding provisioner_invite_def Let_def split_def
  using assms by (intro wp_rules)
    (auto simp: token_fresh_def image_fresh build_invite_kind dest: build_invite_id elim!: put_invite_outside)

lemma provisioner_revoke_invite_outside:
  assumes "state_ok (st_state s)"
  shows "op_wp (provisioner_revoke_invite X env pid q k)
     (\<lambda>r s'. same_outside pid (st_state s) (st_state s')) s"
  unfolding provisioner_revoke_invite_def Let_def
proof (intro wp_rules, goal_cases)
  case (4 i u s')
  then have i: "i \<in> set (invites (st_state s))" "i_managed_by i = Some pid" by (auto dest!: find_member)
  have d: "keys_distinct i_id (invites (st_state s))"
    using assms by (auto simp: state_ok_def dest: tables_ok_distinct)
  have "\<forall>j \<in> set (invites (st_state s)). i_id j = i_id i \<longrightarrow> j = i"
    using invite_table.rows_key_unique [OF d] i(1) by blast
  with 4 i assms show ?case by (auto elim!: put_invite_outside)
qed simp_all

lemma provisioner_remove_client_outside:
  assumes "state_ok (st_state s)"
  shows "op_wp (provisioner_remove_client X env pid q name)
     (\<lambda>r s'. same_outside pid (st_state s) (st_state s')) s"
  unfolding provisioner_remove_client_def Let_def
  using assms by (intro wp_rules) (auto dest!: find_member intro: delete_client_outside)

lemma provisioner_remove_edge_outside:
  assumes "state_ok (st_state s)"
  shows "op_wp (provisioner_remove_edge X env pid q owner name)
     (\<lambda>r s'. same_outside pid (st_state s) (st_state s')) s"
  unfolding provisioner_remove_edge_def Let_def
  using assms by (intro wp_rules)
    (auto dest!: find_member managed_client_id_managed intro: delete_edge_outside)

lemma provisioner_transfer_edge_outside:
  assumes "state_ok (st_state s)"
  shows "op_wp (provisioner_transfer_edge X env pid q owner name k new_owner)
     (\<lambda>r s'. same_outside pid (st_state s) (st_state s')) s"
  unfolding provisioner_transfer_edge_def Let_def
  using assms by (intro wp_rules)
    (auto dest!: find_member managed_client_id_managed intro: put_edge_outside)

lemmas provisioner_outside = provisioner_invite_outside provisioner_revoke_invite_outside
  provisioner_remove_client_outside provisioner_remove_edge_outside
  provisioner_transfer_edge_outside

lemma dispatch_provisioner_mutation_outside:
  assumes "state_ok (st_state s)" "token_fresh env (st_state s)"
  shows "op_wp (dispatch_provisioner_mutation X env pid q)
     (\<lambda>r s'. same_outside pid (st_state s) (st_state s')) s"
  unfolding dispatch_provisioner_mutation_def
  using assms by (cases "pr_action q")
    (auto simp: invitable_def intro!: wp_rules provisioner_outside intro: managed_client_id_managed)

section \<open>Optimistic concurrency\<close>

text \<open>A request that expects another revision commits nothing.\<close>

lemma provisioner_expects:
  assumes "check_expected_revision (st_state s) (pr_expected_revision q) = Inl e"
  shows "op_wp (dispatch_provisioner_mutation X env pid q) (\<lambda>r s'. s' = s) s"
  using assms unfolding dispatch_provisioner_mutation_def provisioner_invite_def
    provisioner_revoke_invite_def provisioner_remove_client_def provisioner_remove_edge_def
    provisioner_transfer_edge_def Let_def split_def
  by (cases "pr_action q") (auto intro!: wp_rules)

section \<open>Retrying an invitation\<close>

lemma find_first_match_upsert:
  "List.find Q t = None \<Longrightarrow> Q r \<Longrightarrow> List.find Q (upsert_by key r t) = Some r"
  by (induction t) (auto split: if_splits)

lemma build_invite_result:
  "build_invite X key st now tok name kind ttl secret = Inr (res, i) \<Longrightarrow>
   invite_result X key (i_invite i) secret = Inr res"
  by (auto simp: build_invite_def invite_result_def Let_def ensure_def)

definition same_authority :: "ControlState \<Rightarrow> ControlState \<Rightarrow> bool" where
  "same_authority st st' \<longleftrightarrow> clients st' = clients st \<and> provisioners st' = provisioners st \<and>
     cs_audience st' = cs_audience st"

lemma provisioner_invite_retry:
  assumes "provisioner_invite X env pid q name kind ttl secret s = (Inr res, s')"
  shows "provisioner_invite X env' pid q name kind ttl secret s' = (Inr res, s') \<and>
    same_authority (st_state s) (st_state s')"
proof -
  let ?Q = "\<lambda>i. i_managed_by i = Some pid \<and> i_request_id i = Some (pr_request_id q)"
  have "op_wp (provisioner_invite X env pid q name kind ttl secret)
     (\<lambda>r s'. \<forall>res. r = Inr res \<longrightarrow> validate_name name = Inr () \<and> validate_join_secret secret = Inr () \<and>
       same_authority (st_state s) (st_state s') \<and>
       (\<exists>i ir. List.find ?Q (invites (st_state s')) = Some i \<and>
          i_request_hash i = Some (action_hash X (pr_action q)) \<and> res = RInvite ir \<and>
          invite_result X (st_key s') (i_invite i) secret = Inr ir)) s"
    unfolding provisioner_invite_def Let_def split_def
    by (intro wp_rules)
      (auto dest!: build_invite_result simp: commit_state commit_key after_delta_changes
        find_first_match_upsert same_authority_def)
  then show ?thesis
    using assms
    by (auto simp: op_wp_def provisioner_invite_def op_lock_def op_check_def op_ok_def ensure_def)
qed

lemma only_invites_answer_invites:
  "op_wp (provisioner_revoke_invite X env pid q k) (\<lambda>r s'. r \<noteq> Inr (RInvite res)) s"
  "op_wp (provisioner_remove_client X env pid q name) (\<lambda>r s'. r \<noteq> Inr (RInvite res)) s"
  "op_wp (provisioner_remove_edge X env pid q owner name) (\<lambda>r s'. r \<noteq> Inr (RInvite res)) s"
  "op_wp (provisioner_transfer_edge X env pid q owner name k new_owner)
     (\<lambda>r s'. r \<noteq> Inr (RInvite res)) s"
  unfolding provisioner_revoke_invite_def provisioner_remove_client_def
    provisioner_remove_edge_def provisioner_transfer_edge_def Let_def
  by (intro wp_rules; simp)+

lemmas not_invites = only_invites_answer_invites [THEN wp_result]

lemma dispatch_invite_retry:
  assumes "dispatch_provisioner_mutation X env pid q s = (Inr (RInvite res), s')"
  shows "dispatch_provisioner_mutation X env' pid q s' = (Inr (RInvite res), s') \<and>
    same_authority (st_state s) (st_state s')"
proof (cases "pr_action q")
  case (InviteEdge owner name ttl secret)
  with assms obtain k where "managed_client_id (st_state s) owner pid = Inr k"
    "provisioner_invite X env pid q name (IKEdge k) ttl secret s = (Inr (RInvite res), s')"
    by (auto simp: dispatch_provisioner_mutation_def op_lock_def op_check_def split: sum.splits)
  with InviteEdge show ?thesis
    using provisioner_invite_retry [of X env pid q name "IKEdge k" ttl secret s "RInvite res" s' env']
    by (auto simp: dispatch_provisioner_mutation_def op_lock_def op_check_def same_authority_def
        managed_client_id_def)
qed (use assms provisioner_invite_retry [of X env pid q] in
    \<open>auto simp: dispatch_provisioner_mutation_def op_fail_def dest: not_invites\<close>)

section \<open>Sample calls\<close>

definition sample_call :: "ProvisionerAction \<Rightarrow> ProvisionerRequest" where
  "sample_call a = \<lparr>pr_protocol_version = 5, pr_audience = ''prod'', pr_request_id = ''r1'',
     pr_issued_at = 1000, pr_expected_revision = Some 5, pr_action = a\<rparr>"

definition sample_body :: "ProvisionerAction \<Rightarrow> byte list" where
  "sample_body a = json_to_vec ref_ext (ProvisionerRequest_json (sample_call a))"

definition sample_header :: "ProvisionerAction \<Rightarrow> string" where
  "sample_header a = provisioner_authorization ref_ext provisioner_key (sample_body a)"

lemma sample_call_accepted:
  assumes "action_in_range a" "a \<noteq> GetTopology"
  shows "provisioner_request ref_ext sample_env (Some (Inr (sample_header a))) (sample_body a) sample_store =
    dispatch_provisioner_mutation ref_ext sample_env ''xah'' (sample_call a) sample_store"
proof -
  have "id_to_string ref_ext (ed_public ref_ext provisioner_key) = ''xah''"
    using key_ids(2) by (simp add: key_id_def)
  moreover have "json_from_slice ref_ext (sample_body a) = Inr (ProvisionerRequest_json (sample_call a))"
    using ref_ext_laws(4) by (simp add: sample_body_def json_laws_def)
  moreover have "request_in_range (sample_call a)"
    using assms by (simp add: request_in_range_def sample_call_def i64_min_def i64_max_def)
  ultimately show ?thesis
    using assms(2) by (simp add: provisioner_request_def Let_def op_check_def verification_permit_def admitted_def
        sample_env_def authorization_header_def sample_header_def provisioner_authorization_verifies
        ProvisionerRequest_round_trip verify_protocol_def ensure_protocol_version_def
        CONTROL_PROTOCOL_VERSION_def sample_call_def check_time_def validate_request_id_def
        name_char_def ascii_alphanumeric_def run_mutation_def op_lock_def authorize_provisioner_def
        sample_store_def sample_state_def ensure_def i64_abs_diff_def)
qed

lemma sample_remove_edge:
  "\<exists>s'. dispatch_provisioner_mutation ref_ext sample_env ''xah''
      (sample_call (RemoveEdge ''alice'' ''box'')) sample_store = (Inr (ROk 6), s') \<and>
    edges (st_state s') = []"
proof -
  let ?d = "revocation [DeleteEdge ''xac'', revocation_change sample_state ''xac'' 4 605700]"
  have "control_event 0 sample_state ?d"
    using remove_edge [of box sample_state 0] by (simp add: sample_state_def box_def)
  then obtain s' where "commit_delta ref_ext sample_env ?d sample_store = (Inr (), s')"
    "st_state s' = after_delta ?d sample_state"
    using commit_accepts [OF sample_store_ok, of sample_env 0 ?d]
    by (auto simp: sample_store_def sample_env_def sample_state_def i64_max_def ports_u16_def
        revocation_change_def)
  then show ?thesis
    by (simp add: dispatch_provisioner_mutation_def sample_call_def provisioner_remove_edge_def
        op_lock_def op_check_def op_then_def provisioner_ok_def op_ok_def managed_client_id_def
        sample_store_def sample_state_def alice_def box_def Let_def check_expected_revision_def
        after_delta_changes revocation_change_def delete_by_def ensure_def)
qed

abbreviation sample_secret :: string where
  "sample_secret \<equiv> ''0123456789abcdef0123456789abcdef''"

lemma sample_invite:
  "\<exists>res s'. dispatch_provisioner_mutation ref_ext sample_env ''xah''
      (sample_call (InviteClient ''carol'' 60 sample_secret)) sample_store = (Inr (RInvite res), s') \<and>
    ir_invite_id res = ''fresh'' \<and> length (invites (st_state s')) = 3"
proof -
  let ?q = "sample_call (InviteClient ''carol'' 60 sample_secret)"
  obtain res i where b: "build_invite ref_ext control_key sample_state 1000 ''fresh'' ''carol'' IKClient 60
      sample_secret = Inr (res, i)" "ir_invite_id res = ''fresh''" "i_id i = ''fresh''"
      "inv_kind (i_invite i) = IKClient"
    by (simp add: build_invite_def ensure_def i64_checked_add_def i64_max_def i64_min_def Let_def)
  let ?i = "i\<lparr>i_request_id := Some ''r1'', i_managed_by := Some ''xah'',
    i_request_hash := Some (action_hash ref_ext (pr_action ?q))\<rparr>"
  have "control_event 0 sample_state (topology [PutInvite ?i])"
    using build_invite_pending [OF b(1)] by (intro control_event.invite) simp_all
  then obtain s' where "commit_delta ref_ext sample_env (topology [PutInvite ?i]) sample_store = (Inr (), s')"
    "st_state s' = after_delta (topology [PutInvite ?i]) sample_state"
    using commit_accepts [OF sample_store_ok, of sample_env 0 "topology [PutInvite ?i]"]
    by (auto simp: sample_store_def sample_env_def sample_state_def i64_max_def ports_u16_def
        invite_storable_def b pending_def)
  then show ?thesis using b
    by (simp add: dispatch_provisioner_mutation_def sample_call_def provisioner_invite_def
        op_lock_def op_check_def op_then_def op_ok_def sample_env_def sample_store_def
        sample_state_def Let_def check_expected_revision_def after_delta_changes ensure_def
        validate_name_def validate_join_secret_def name_char_def ascii_alphanumeric_def
        validate_invite_name_def alice_def pending_def sample_invitation_def)
qed

section \<open>Properties\<close>

text \<open>C3: Provisioner scope.  Whatever bytes arrive at the Provisioner endpoint, the store
  changes only for a request whose \<open>Authorization\<close> header carries a valid signature of a
  registered provisioner over exactly those bytes, and then everything outside that
  provisioner's authority stays as it was: the clients it does not manage, the edges of
  those clients, the invitations it did not issue, the revocations of nodes it does not manage, all relays
  and all provisioners.  No node comes under its authority, and it invites only clients and edges of clients
  it manages.  The fresh invitation id must not be in use already.\<close>

theorem provisioner_scope:
  assumes "store_ok X s" "token_fresh env (st_state s)"
    and "provisioner_request X env header body s = (r, s')"
  shows "s' = s \<or> (\<exists>auth who. header = Some (Inr auth) \<and>
    verify_provisioner_authorization X auth body = Inr who \<and>
    id_to_string X who \<in> p_endpoint_id ` set (provisioners (st_state s)) \<and>
    same_outside (id_to_string X who) (st_state s) (st_state s'))"
proof -
  let ?P = "\<lambda>s'. s' = s \<or> (\<exists>auth who. header = Some (Inr auth) \<and>
    verify_provisioner_authorization X auth body = Inr who \<and>
    id_to_string X who \<in> p_endpoint_id ` set (provisioners (st_state s)) \<and>
    same_outside (id_to_string X who) (st_state s) (st_state s'))"
  have "op_wp (provisioner_request X env header body) (\<lambda>r. ?P) s"
    unfolding provisioner_request_def Let_def
  proof (intro wp_rules, goal_cases)
    case (12 u auth who q)
    then have "?P s'" if "same_outside (id_to_string X who) (st_state s) (st_state s')" for s'
      using that by (auto simp: authorization_header_def authorize_provisioner_def list_ex_iff image_fresh)
    then show ?case
      using assms(1,2) dispatch_provisioner_mutation_outside [of s env X "id_to_string X who" q]
      by (auto elim!: wp_mono simp: store_ok_def)
  qed simp_all
  with assms(3) show ?thesis by (simp add: op_wp_def)
qed

theorem provisioner_scope_witness:
  "\<exists>s'. provisioner_request ref_ext sample_env
      (Some (Inr (sample_header (RemoveEdge ''alice'' ''box''))))
      (sample_body (RemoveEdge ''alice'' ''box'')) sample_store = (Inr (ROk 6), s') \<and>
    s' \<noteq> sample_store \<and>
    same_outside ''xah'' sample_state (st_state s')"
proof -
  let ?a = "RemoveEdge ''alice'' ''box''"
  obtain s' where s': "provisioner_request ref_ext sample_env (Some (Inr (sample_header ?a)))
      (sample_body ?a) sample_store = (Inr (ROk 6), s')" "edges (st_state s') = []"
    using sample_remove_edge sample_call_accepted [of ?a] by auto
  then have "s' \<noteq> sample_store" by (auto simp: sample_store_def sample_state_def)
  moreover have "token_fresh sample_env (st_state sample_store)"
    by (simp add: token_fresh_def sample_env_def sample_store_def sample_state_def pending_def
        sample_invitation_def)
  ultimately show ?thesis
    using provisioner_scope [OF sample_store_ok _ s'(1)] s'(1) key_ids(2)
    by (auto simp: sample_header_def provisioner_authorization_verifies key_id_def sample_store_def)
qed

text \<open>Optimistic concurrency.  A Provisioner request that names a revision other than
  the current one commits nothing: the store is as before, whatever the action.\<close>

theorem provisioner_stale_revision:
  assumes "json_from_slice X body = Inr j" "ProvisionerRequest_of_json j = Inr q"
    and "pr_expected_revision q = Some v" "v \<noteq> revision (st_state s)"
  shows "snd (provisioner_request X env header body s) = s"
proof -
  have "\<exists>e. check_expected_revision (st_state s) (pr_expected_revision q) = Inl e"
    using assms(3,4) by (simp add: check_expected_revision_def)
  then have "op_wp (dispatch_provisioner_mutation X env pid q) (\<lambda>r s'. s' = s) s" for pid
    using provisioner_expects by blast
  then have "op_wp (provisioner_request X env header body) (\<lambda>r s'. s' = s) s"
    unfolding provisioner_request_def Let_def using assms(1,2) by (intro wp_rules) auto
  then show ?thesis by (simp add: op_wp_def)
qed

theorem provisioner_stale_revision_witness:
  "snd (provisioner_request ref_ext sample_env
      (Some (Inr (sample_header (RemoveEdge ''alice'' ''box''))))
      (sample_body (RemoveEdge ''alice'' ''box''))
      (sample_store\<lparr>st_state := sample_state\<lparr>revision := 6\<rparr>\<rparr>)) =
    sample_store\<lparr>st_state := sample_state\<lparr>revision := 6\<rparr>\<rparr>"
  using ref_ext_laws(4)
  by (intro provisioner_stale_revision [where v = 5
        and q = "sample_call (RemoveEdge ''alice'' ''box'')"
        and j = "ProvisionerRequest_json (sample_call (RemoveEdge ''alice'' ''box''))"]
      ProvisionerRequest_round_trip)
    (simp_all add: sample_body_def json_laws_def sample_call_def request_in_range_def i64_min_def
      i64_max_def)

text \<open>C18: Idempotent invitations.  When a Provisioner request has been answered with an
  invitation, sending the same bytes again, at any later moment at which the request is
  admitted and its timestamp is still in the window, returns the same invitation and join
  URL and leaves the store as it is.\<close>

theorem provisioner_invite_idempotent:
  assumes "provisioner_request X env header body s = (Inr (RInvite res), s')"
    and "verification_permit env' = Inr ()" "admitted (env_mutate env') ''mutation'' = Inr ()"
    and "json_from_slice X body = Inr j" "ProvisionerRequest_of_json j = Inr q"
    and "check_time (pr_issued_at q) (env_now env') = Inr ()"
  shows "provisioner_request X env' header body s' = (Inr (RInvite res), s')"
proof -
  obtain auth who where h: "authorization_header header = Inr auth"
    "verify_provisioner_authorization X auth body = Inr who" "verify_protocol q = Inr ()"
    "validate_request_id (pr_request_id q) = Inr ()" "pr_action q \<noteq> GetTopology"
    "authorize_provisioner (st_state s) (pr_audience q) (id_to_string X who) = Inr ()"
    and d: "dispatch_provisioner_mutation X env (id_to_string X who) q s = (Inr (RInvite res), s')"
    using assms(1,4,5)
    by (auto simp: provisioner_request_def op_check_def op_lock_def op_ok_def run_mutation_def Let_def
        split: sum.splits if_splits)
  from dispatch_invite_retry [OF d, of env'] h assms(2-6) show ?thesis
    by (auto simp: provisioner_request_def op_check_def op_lock_def run_mutation_def Let_def
        same_authority_def authorize_provisioner_def ensure_def)
qed

theorem provisioner_invite_idempotent_witness:
  "\<exists>res s'. provisioner_request ref_ext sample_env
      (Some (Inr (sample_header (InviteClient ''carol'' 60 sample_secret))))
      (sample_body (InviteClient ''carol'' 60 sample_secret)) sample_store = (Inr (RInvite res), s') \<and>
    s' \<noteq> sample_store \<and>
    provisioner_request ref_ext (sample_env\<lparr>env_now := 1200\<rparr>)
      (Some (Inr (sample_header (InviteClient ''carol'' 60 sample_secret))))
      (sample_body (InviteClient ''carol'' 60 sample_secret)) s' = (Inr (RInvite res), s')"
proof -
  let ?a = "InviteClient ''carol'' 60 sample_secret"
  obtain res s' where s': "provisioner_request ref_ext sample_env (Some (Inr (sample_header ?a)))
      (sample_body ?a) sample_store = (Inr (RInvite res), s')" "length (invites (st_state s')) = 3"
    using sample_invite sample_call_accepted [of ?a] by auto
  then have "s' \<noteq> sample_store" by (auto simp: sample_store_def sample_state_def)
  moreover have "json_from_slice ref_ext (sample_body ?a) = Inr (ProvisionerRequest_json (sample_call ?a))"
    using ref_ext_laws(4) by (simp add: sample_body_def json_laws_def)
  moreover have "ProvisionerRequest_of_json (ProvisionerRequest_json (sample_call ?a)) =
      Inr (sample_call ?a)"
    by (rule ProvisionerRequest_round_trip)
      (simp add: request_in_range_def sample_call_def i64_min_def i64_max_def)
  ultimately show ?thesis
    using provisioner_invite_idempotent [OF s'(1), of "sample_env\<lparr>env_now := 1200\<rparr>"] s'(1)
    by (auto simp: verification_permit_def admitted_def sample_env_def ensure_def check_time_def
        sample_call_def i64_abs_diff_def CLOCK_SKEW_SECS_def)
qed

end
