(* ===== verification/Control_Watch.thy ===== *)
theory Control_Watch
  imports Control_Handlers Control_Sample
begin

text \<open>
  The long-polling endpoints of Control (\<open>crates/as-control/src/main.rs\<close>): \<open>watch\<close> for
  clients and edges, \<open>relay_watch\<close> for relays, with the credential renewal and the port
  update they perform first, and the hourly cleanup.  While such a request waits, other
  requests change the store; each waiting point takes a \<open>gap\<close>, the function that says what
  they did to it meanwhile.
\<close>

type_synonym gap = "Store \<Rightarrow> Store"

definition op_gap :: "gap \<Rightarrow> unit op" where "op_gap g s = (Inr (), g s)"

section \<open>Holding a watch\<close>

definition with_watch :: "Ext \<Rightarrow> EndpointId \<Rightarrow> 'a op \<Rightarrow> 'a op" where
  "with_watch X n m s = (let k = id_to_string X n in
     case watch_acquire k (st_watches s) of
       (Inl e, counts) \<Rightarrow> (Inl e, s\<lparr>st_watches := counts\<rparr>)
     | (Inr _, counts) \<Rightarrow> (case m (s\<lparr>st_watches := counts\<rparr>) of
         (r, s') \<Rightarrow> (r, s'\<lparr>st_watches := watch_drop k (st_watches s')\<rparr>)))"

section \<open>Renewing a Relay credential\<close>

definition renew_at :: "int \<Rightarrow> int" where
  "renew_at now = i64_saturating_add now RELAY_CREDENTIAL_RENEW_BEFORE_SECS"

definition renew_mutation :: "Ext \<Rightarrow> Env \<Rightarrow> EndpointId \<Rightarrow> bool op" where
  "renew_mutation X env n =
     op_lock (\<lambda>store. let st = st_state store; endpoint = id_to_string X n; now = env_later env in
     case find_by c_endpoint_id endpoint (clients st) of
       Some record \<Rightarrow>
         if c_expires_at record > renew_at now then op_ok False
         else op_then (commit_delta X env (quiet [PutClient (record\<lparr>c_issued_at := now,
           c_expires_at := i64_saturating_add now RELAY_CREDENTIAL_LIFETIME_SECS\<rparr>)])) (\<lambda>_. op_ok True)
     | None \<Rightarrow> (case find_by e_endpoint_id endpoint (edges st) of
         Some record \<Rightarrow>
           if e_expires_at record > renew_at now then op_ok False
           else op_then (commit_delta X env (quiet [PutEdge (record\<lparr>e_issued_at := now,
             e_expires_at := i64_saturating_add now RELAY_CREDENTIAL_LIFETIME_SECS\<rparr>)])) (\<lambda>_. op_ok True)
       | None \<Rightarrow> op_check (anyhow_node_exists X st n) (\<lambda>_. op_ok False)))"

definition renew_relay_credential_if_needed :: "Ext \<Rightarrow> Env \<Rightarrow> gap \<Rightarrow> EndpointId \<Rightarrow> bool op" where
  "renew_relay_credential_if_needed X env g n =
     op_lock (\<lambda>store. let st = st_state store; endpoint = id_to_string X n; now = env_later env in
     case (case find_by c_endpoint_id endpoint (clients st) of
             Some record \<Rightarrow> Some (c_expires_at record)
           | None \<Rightarrow> map_option e_expires_at (find_by e_endpoint_id endpoint (edges st))) of
       None \<Rightarrow> op_check (anyhow_node_exists X st n) (\<lambda>_. op_ok False)
     | Some expires_at \<Rightarrow>
         if expires_at > renew_at now then op_ok False
         else op_then (op_gap g) (\<lambda>_. run_mutation env (renew_mutation X env n)))"

section \<open>Updating a relay's port\<close>

definition qad_port_mutation :: "Ext \<Rightarrow> Env \<Rightarrow> EndpointId \<Rightarrow> nat option \<Rightarrow> unit op" where
  "qad_port_mutation X env n qad_port =
     op_lock (\<lambda>store. let st = st_state store in
     op_check (ok_or (api_forbidden ''relay is not registered'')
       (find_by r_endpoint_id (id_to_string X n) (relays st))) (\<lambda>relay.
     if r_qad_port relay \<noteq> qad_port
     then op_then (commit_delta X env (topology [PutRelay (relay\<lparr>r_qad_port := qad_port\<rparr>)])) (\<lambda>_. op_ok ())
     else op_ok ()))"

definition update_relay_qad_port_if_needed ::
  "Ext \<Rightarrow> Env \<Rightarrow> gap \<Rightarrow> EndpointId \<Rightarrow> nat option \<Rightarrow> unit op" where
  "update_relay_qad_port_if_needed X env g n qad_port =
     op_lock (\<lambda>store. let st = st_state store in
     op_check (ok_or (api_forbidden ''relay is not registered'')
       (find_by r_endpoint_id (id_to_string X n) (relays st))) (\<lambda>relay.
     if r_qad_port relay = qad_port then op_ok ()
     else op_then (op_gap g) (\<lambda>_. run_mutation env (qad_port_mutation X env n qad_port))))"

section \<open>Waiting\<close>

text \<open>Each element of \<open>wakes\<close> is one notification that arrives within its thirty seconds,
  with what happened to the store before the waiter looks again; the end of the list is
  the timeout.\<close>

fun wait_for_revision :: "Ext \<Rightarrow> EndpointId \<Rightarrow> nat \<Rightarrow> gap list \<Rightarrow> bool op" where
  "wait_for_revision X n known wakes s =
     op_check (anyhow_node_exists X (st_state s) n) (\<lambda>_ s.
     if revision (st_state s) > known then (Inr True, s)
     else (case wakes of [] \<Rightarrow> (Inr False, s)
       | g # gs \<Rightarrow> wait_for_revision X n known gs (g s))) s"

fun wait_for_relay_revision :: "Ext \<Rightarrow> EndpointId \<Rightarrow> nat \<Rightarrow> gap list \<Rightarrow> bool op" where
  "wait_for_relay_revision X n known wakes s =
     op_check (anyhow_relay_exists X (st_state s) n) (\<lambda>_.
     op_check (ensure (\<not> known > relay_revision (st_state s))
       (api_bad ''Relay revision is ahead of Control'')) (\<lambda>_ s.
     if relay_revision (st_state s) > known then (Inr True, s)
     else (case wakes of [] \<Rightarrow> (Inr False, s)
       | g # gs \<Rightarrow> wait_for_relay_revision X n known gs (g s)))) s"

declare wait_for_revision.simps [simp del] wait_for_relay_revision.simps [simp del]

record Waits =
  w_admit :: gap
  w_wakes :: "gap list"
  w_reply :: gap

section \<open>The endpoints\<close>

text \<open>The answer \<open>None\<close> is the empty response \<open>204\<close>.\<close>

definition map_reply :: "Ext \<Rightarrow> Env \<Rightarrow> EndpointId \<Rightarrow> SignedNodeMap option op" where
  "map_reply X env n = op_lock (\<lambda>store.
     op_check (map_err api_internal (signed_map X (st_state store) (st_key store) (env_later env) n))
       (\<lambda>m. op_ok (Some m)))"

definition watch :: "Ext \<Rightarrow> Env \<Rightarrow> Waits \<Rightarrow> WatchRequest \<Rightarrow> SignedNodeMap option op" where
  "watch X env w request =
     op_check (verification_permit env) (\<lambda>_.
     op_check (map_err api_unauthorized (WatchRequest_verify X request)) (\<lambda>n.
     op_check (map_err api_unauthorized (check_time (wr_issued_at request) (env_now env))) (\<lambda>_.
     with_watch X n (
       op_then (renew_relay_credential_if_needed X env (w_admit w) n) (\<lambda>renewed.
       if renewed then op_then (op_gap (w_reply w)) (\<lambda>_. map_reply X env n)
       else op_then (wait_for_revision X n (wr_known_revision request) (w_wakes w)) (\<lambda>newer.
         if newer then op_then (op_gap (w_reply w)) (\<lambda>_. map_reply X env n)
         else op_ok None))))))"

definition revocation_update :: "ControlState \<Rightarrow> nat \<Rightarrow> int \<Rightarrow> RevocationUpdate" where
  "revocation_update st known now = \<lparr>ru_protocol_version = RELAY_PROTOCOL_VERSION,
     ru_audience = cs_audience st, ru_version = relay_revision st, ru_issued_at = now,
     ru_revocations = map (\<lambda>r. \<lparr>rvk_endpoint_id = rv_endpoint_id r,
         rvk_revoked_through_generation = rv_generation r, rvk_expires_at = rv_expires_at r,
         rvk_revision = rv_revision r\<rparr>)
       (filter (\<lambda>r. rv_revision r > known) (revocations st))\<rparr>"

definition revocation_reply :: "Ext \<Rightarrow> Env \<Rightarrow> EndpointId \<Rightarrow> nat \<Rightarrow> SignedRevocationUpdate option op" where
  "revocation_reply X env n known = op_lock (\<lambda>store.
     op_check (anyhow_relay_exists X (st_state store) n) (\<lambda>_.
     op_check (map_err api_internal (SignedRevocationUpdate_sign X
       (revocation_update (st_state store) known (env_later env)) (st_key store))) (\<lambda>u.
     op_ok (Some u))))"

definition relay_watch :: "Ext \<Rightarrow> Env \<Rightarrow> Waits \<Rightarrow> WatchRequest \<Rightarrow> SignedRevocationUpdate option op" where
  "relay_watch X env w request =
     op_check (verification_permit env) (\<lambda>_.
     op_check (map_err api_unauthorized (WatchRequest_verify X request)) (\<lambda>n.
     op_check (map_err api_unauthorized (check_time (wr_issued_at request) (env_now env))) (\<lambda>_.
     op_check (map_err api_bad (validate_qad_port (wr_relay_qad_port request))) (\<lambda>_.
     with_watch X n (
       op_then (update_relay_qad_port_if_needed X env (w_admit w) n (wr_relay_qad_port request)) (\<lambda>_.
       op_then (wait_for_relay_revision X n (wr_known_revision request) (w_wakes w)) (\<lambda>newer.
       if newer
       then op_then (op_gap (w_reply w)) (\<lambda>_. revocation_reply X env n (wr_known_revision request))
       else op_ok None)))))))"

text \<open>One tick of \<open>invitation_cleanup_loop\<close>; a failed commit is only logged.\<close>

definition cleanup_tick :: "Ext \<Rightarrow> Env \<Rightarrow> unit op" where
  "cleanup_tick X env = op_lock (\<lambda>store. let changes = cleanup_changes (env_now env) (st_state store) in
     if changes \<noteq> [] then op_then (commit_delta X env (quiet changes)) op_ok else op_ok ())"

section \<open>The mutations meet the contract\<close>

lemma renew_at_le_lifetime: "x \<le> renew_at now \<Longrightarrow> x \<le> lifetime_from now"
proof -
  have "renew_at now \<le> lifetime_from now"
    unfolding renew_at_def lifetime_from_def
    by (auto simp: i64_saturating_add_def RELAY_CREDENTIAL_RENEW_BEFORE_SECS_def
        RELAY_CREDENTIAL_LIFETIME_SECS_def i64_max_def i64_min_def)
  then show "x \<le> renew_at now \<Longrightarrow> x \<le> lifetime_from now" by simp
qed

lemma commit_renew_client:
  assumes "commit_delta X env (quiet [PutClient (c\<lparr>c_issued_at := now, c_expires_at := lifetime_from now\<rparr>)]) s
      = (Inr (), s')"
    and "c \<in> set (clients (st_state s))" "c_expires_at c \<le> renew_at now" "now \<le> t"
  shows "mutates X t s s'"
  using assms commit_put_client [OF assms(1)] renew_at_le_lifetime
  by (intro commit_mutates [OF assms(1) control_event.renew_client]) auto

lemma commit_renew_edge:
  assumes "commit_delta X env (quiet [PutEdge (e\<lparr>e_issued_at := now, e_expires_at := lifetime_from now\<rparr>)]) s
      = (Inr (), s')"
    and "e \<in> set (edges (st_state s))" "e_expires_at e \<le> renew_at now" "now \<le> t"
  shows "mutates X t s s'"
  using assms commit_put_edge [OF assms(1)] renew_at_le_lifetime
  by (intro commit_mutates [OF assms(1) control_event.renew_edge]) auto

lemma renew_mutation_refines:
  "op_wp (renew_mutation X env n) (\<lambda>r s'. mutates X (env_time env) s s') s"
  unfolding renew_mutation_def Let_def lifetime_from_def [symmetric]
  by (intro wp_rules)
    (auto dest!: find_by_key elim!: commit_renew_client commit_renew_edge)

lemma qad_port_mutation_refines:
  "port \<noteq> Some 0 \<Longrightarrow>
   op_wp (qad_port_mutation X env n port) (\<lambda>r s'. mutates X (env_time env) s s') s"
  unfolding qad_port_mutation_def Let_def
  by (intro wp_rules)
    (auto dest!: find_by_key elim!: commit_mutations(7) [OF _ _ _ env_time_ge(2)])

lemma cleanup_tick_refines: "op_wp (cleanup_tick X env) (\<lambda>r s'. mutates X (env_time env) s s') s"
  unfolding cleanup_tick_def Let_def
  by (intro wp_rules) (auto elim!: commit_mutates [OF _ control_event.cleanup])

interpretation renew_handler: control_handler X "env_time env" "renew_mutation X env n" for X env n
  by unfold_locales (rule renew_mutation_refines)

interpretation cleanup_handler: control_handler X "env_time env" "cleanup_tick X env" for X env
  by unfold_locales (rule cleanup_tick_refines)

section \<open>Waiting among other requests\<close>

text \<open>
  An invariant of the store that every mutation of Control keeps, and that does not depend
  on the watch registry.  A request that waits keeps it too, whatever the others do
  meanwhile, provided they keep it.
\<close>

lemma wp_gap [wp_rules]: "op_wp (f ()) P (g s) \<Longrightarrow> op_wp (op_then (op_gap g) f) P s"
  by (simp add: op_wp_def op_then_def op_gap_def)

lemma wp_with_watch:
  assumes "\<And>e counts. P (Inl e) (s\<lparr>st_watches := counts\<rparr>)"
    and "\<And>counts. op_wp m (\<lambda>r s'. \<forall>counts. P r (s'\<lparr>st_watches := counts\<rparr>)) (s\<lparr>st_watches := counts\<rparr>)"
  shows "op_wp (with_watch X n m) P s"
proof -
  obtain r counts where "watch_acquire (id_to_string X n) (st_watches s) = (r, counts)" by fastforce
  then show ?thesis
    using assms(1) assms(2) [of counts] by (cases r) (simp_all add: op_wp_def with_watch_def split_def)
qed

locale store_invariant =
  fixes X :: Ext
    and t :: int
    and I :: "Store \<Rightarrow> bool"
  assumes mutation: "I s \<Longrightarrow> mutates X t s s' \<Longrightarrow> I s'"
    and registry: "I (s\<lparr>st_watches := counts\<rparr>) \<longleftrightarrow> I s"
begin

definition calm :: "gap \<Rightarrow> bool" where "calm g \<longleftrightarrow> (\<forall>s. I s \<longrightarrow> I (g s))"

lemma wait_for_revision_keeps:
  "I s \<Longrightarrow> list_all calm wakes \<Longrightarrow> op_wp (wait_for_revision X n known wakes) (\<lambda>r s'. I s') s"
proof (induction wakes arbitrary: s)
  case Nil
  then show ?case
    by (simp add: op_wp_def wait_for_revision.simps [of X n known] op_check_def split: sum.split)
next
  case (Cons g gs)
  then show ?case
    by (simp add: op_wp_def wait_for_revision.simps [of X n known] op_check_def calm_def split: sum.split)
qed

lemma wait_for_relay_revision_keeps:
  "I s \<Longrightarrow> list_all calm wakes \<Longrightarrow> op_wp (wait_for_relay_revision X n known wakes) (\<lambda>r s'. I s') s"
proof (induction wakes arbitrary: s)
  case Nil
  then show ?case
    by (simp add: op_wp_def wait_for_relay_revision.simps [of X n known] op_check_def split: sum.split)
next
  case (Cons g gs)
  then show ?case
    by (simp add: op_wp_def wait_for_relay_revision.simps [of X n known] op_check_def calm_def
        split: sum.split)
qed

lemma mutation_wp: "I s \<Longrightarrow> env_time env \<le> t \<Longrightarrow>
   op_wp m (\<lambda>r s'. mutates X (env_time env) s s') s \<Longrightarrow> op_wp m (\<lambda>r s'. I s') s"
  using mutation mutates_mono by (auto simp: op_wp_def)

lemma renew_keeps:
  "I s \<Longrightarrow> env_time env \<le> t \<Longrightarrow> calm g \<Longrightarrow>
   op_wp (renew_relay_credential_if_needed X env g n) (\<lambda>r s'. I s') s"
  unfolding renew_relay_credential_if_needed_def Let_def
  by (intro wp_rules mutation_wp [where env = env])
    (simp_all add: calm_def renew_mutation_refines)

lemma port_update_keeps:
  "I s \<Longrightarrow> env_time env \<le> t \<Longrightarrow> calm g \<Longrightarrow> port \<noteq> Some 0 \<Longrightarrow>
   op_wp (update_relay_qad_port_if_needed X env g n port) (\<lambda>r s'. I s') s"
  unfolding update_relay_qad_port_if_needed_def Let_def
  by (intro wp_rules mutation_wp [where env = env])
    (simp_all add: calm_def qad_port_mutation_refines)

lemma wp_then_keeps:
  "op_wp m (\<lambda>r s'. I s') s \<Longrightarrow> (\<And>x s'. I s' \<Longrightarrow> op_wp (f x) (\<lambda>r s'. I s') s') \<Longrightarrow>
   op_wp (op_then m f) (\<lambda>r s'. I s') s"
  by (auto simp: op_wp_def op_then_def split: prod.splits sum.splits)

lemma wp_gap_keeps:
  "calm g \<Longrightarrow> I s \<Longrightarrow> (\<And>s'. I s' \<Longrightarrow> op_wp (f ()) (\<lambda>r s'. I s') s') \<Longrightarrow>
   op_wp (op_then (op_gap g) f) (\<lambda>r s'. I s') s"
  by (auto simp: calm_def intro: wp_gap)

lemma with_watch_keeps:
  "I s \<Longrightarrow> (\<And>s'. I s' \<Longrightarrow> op_wp m (\<lambda>r s'. I s') s') \<Longrightarrow> op_wp (with_watch X n m) (\<lambda>r s'. I s') s"
  by (intro wp_with_watch) (simp_all add: registry)

lemma map_reply_keeps: "I s \<Longrightarrow> op_wp (map_reply X env n) (\<lambda>r s'. I s') s"
  unfolding map_reply_def by (intro wp_rules)

lemma revocation_reply_keeps: "I s \<Longrightarrow> op_wp (revocation_reply X env n known) (\<lambda>r s'. I s') s"
  unfolding revocation_reply_def by (intro wp_rules)

lemma watch_keeps:
  assumes "I s" "env_time env \<le> t" "calm (w_admit w)" "list_all calm (w_wakes w)" "calm (w_reply w)"
  shows "I (snd (watch X env w request s))"
proof -
  have "op_wp (watch X env w request) (\<lambda>r s'. I s') s"
    unfolding watch_def
    using assms by (intro wp_check with_watch_keeps wp_gap_keeps wp_then_keeps wp_if wp_ok renew_keeps
        wait_for_revision_keeps map_reply_keeps) (simp_all add: registry validate_qad_port_def)
  then show ?thesis by (simp add: op_wp_def)
qed

lemma relay_watch_keeps:
  assumes "I s" "env_time env \<le> t" "calm (w_admit w)" "list_all calm (w_wakes w)" "calm (w_reply w)"
  shows "I (snd (relay_watch X env w request s))"
proof -
  have "op_wp (relay_watch X env w request) (\<lambda>r s'. I s') s"
    unfolding relay_watch_def
    using assms by (intro wp_check with_watch_keeps wp_gap_keeps wp_then_keeps wp_if wp_ok port_update_keeps
        wait_for_relay_revision_keeps revocation_reply_keeps)
      (simp_all add: registry validate_qad_port_def)
  then show ?thesis by (simp add: op_wp_def)
qed

end

interpretation watch_store: store_invariant X t "store_ok X" for X t
  by unfold_locales (rule mutates_store_ok, simp_all add: store_ok_def)

text \<open>A credential that is out of date, registered or revoked stays so.\<close>

definition keeps_cover :: "Ext \<Rightarrow> int \<Rightarrow> ControlState \<Rightarrow> Store \<Rightarrow> bool" where
  "keeps_cover X t st s \<longleftrightarrow> store_ok X s \<and> (\<forall>now \<ge> t. \<forall>k g x.
     covered now st k g x \<longrightarrow> covered now (st_state s) k g x)"

interpretation watch_covered: store_invariant X t "keeps_cover X t st" for X t st
proof
  show "keeps_cover X t st s' " if "keeps_cover X t st s" "mutates X t s s'" for s s'
    using that mutates_store_ok [of X s t s'] mutates_covered [of X s t s'] by (simp add: keeps_cover_def)
qed (simp add: keeps_cover_def store_ok_def)

section \<open>Properties\<close>

text \<open>C24: Watches are bounded.  However requests begin, are refused and end, the registry
  counts exactly the watches in progress, at most two for each endpoint, and it refuses a
  further one exactly when two are in progress; an endpoint without watches takes no room.\<close>

theorem watches_bounded:
  assumes "watch_run guards counts"
  shows "counts k = (if count guards k = 0 then None else Some (count guards k)) \<and>
    count guards k \<le> 2 \<and> (is_ok (fst (watch_acquire k counts)) \<longleftrightarrow> count guards k < 2)"
proof -
  have k: "counts k = (if count guards k = 0 then None else Some (count guards k)) \<and>
      count guards k \<le> WATCHES_PER_ENDPOINT"
    using watch_run_counts [OF assms] by blast
  then show ?thesis
    by (auto simp: watch_acquire_def WATCHES_PER_ENDPOINT_def is_ok_iff Let_def split: if_splits)
qed

theorem watches_bounded_witness:
  "count ({#''xab'', ''xab''#} :: string multiset) ''xab'' \<le> 2 \<and>
   \<not> is_ok (fst (watch_acquire ''xab'' [''xab'' \<mapsto> 2]))"
proof -
  have "watch_run {#''xab''#} [''xab'' \<mapsto> 1]"
    by (rule enter [OF idle]) (simp add: watch_acquire_def WATCHES_PER_ENDPOINT_def Let_def)
  then have "watch_run {#''xab'', ''xab''#} [''xab'' \<mapsto> 2]"
    by (rule enter) (simp add: watch_acquire_def WATCHES_PER_ENDPOINT_def Let_def numeral_2_eq_2)
  from watches_bounded [OF this, of "''xab''"] show ?thesis by simp
qed

text \<open>What a waiting request looks at: the store, and the store after each notification.\<close>

fun observed :: "gap list \<Rightarrow> Store \<Rightarrow> Store list" where
  "observed [] s = [s]"
| "observed (g # gs) s = s # observed gs (g s)"

definition watch_settled :: "Ext \<Rightarrow> EndpointId \<Rightarrow> nat \<Rightarrow> Store \<Rightarrow> bool" where
  "watch_settled X n known s \<longleftrightarrow>
     \<not> is_ok (anyhow_node_exists X (st_state s) n) \<or> revision (st_state s) > known"

text \<open>No update is missed.  A waiting node is answered at the first notification at
  which it is no longer registered, with an error, or at which the revision is newer than
  the one it knows, with success; and with \<open>204\<close> only when there was no such notification
  before the timeout.\<close>

theorem wait_answers_first_change:
  "wait_for_revision X n known wakes s =
     (case List.find (watch_settled X n known) (observed wakes s) of
        None \<Rightarrow> (Inr False, last (observed wakes s))
      | Some s' \<Rightarrow> (map_ok (\<lambda>_. True) (anyhow_node_exists X (st_state s') n), s'))"
proof (induction wakes arbitrary: s)
  case Nil
  then show ?case
    by (cases "anyhow_node_exists X (st_state s) n")
      (simp_all add: wait_for_revision.simps [of X n known] op_check_def watch_settled_def is_ok_iff)
next
  case (Cons g gs)
  have "observed gs (g s) \<noteq> []" by (cases gs) simp_all
  with Cons show ?case
    by (cases "anyhow_node_exists X (st_state s) n")
      (simp_all add: wait_for_revision.simps [of X n known "g # gs"] op_check_def watch_settled_def
        is_ok_iff split: option.split)
qed

text \<open>What identifies a client or an edge: everything but the dates of its credential.\<close>

definition client_identity :: "ClientRecord \<Rightarrow> ClientRecord" where
  "client_identity c = c\<lparr>c_issued_at := 0, c_expires_at := 0\<rparr>"
definition edge_identity :: "EdgeRecord \<Rightarrow> EdgeRecord" where
  "edge_identity e = e\<lparr>e_issued_at := 0, e_expires_at := 0\<rparr>"

lemma upsert_same_identity:
  assumes "keys_distinct key t" "x \<in> set t" "key y = key x" "f y = f x"
  shows "map f (upsert_by key y t) = map f t"
  using assms
proof (induction t)
  case (Cons a t)
  then show ?case by (cases "key a = key x") (auto simp: keys_distinct_def image_iff)
qed simp

text \<open>Renewal changes dates only.  When a renewal commits, both revisions and every
  table stay as they were up to the dates of credentials: no name, owner or generation
  changes, so no revocation is undone.  The renewed credential was within two days of its
  expiry, and its new expiry is seven days after the clock reading and not before the
  old one.\<close>

theorem renewal_changes_dates_only:
  assumes "store_ok X s" "renew_mutation X env n s = (Inr True, s')"
  shows "revision (st_state s') = revision (st_state s) \<and>
    relay_revision (st_state s') = relay_revision (st_state s) \<and>
    map client_identity (clients (st_state s')) = map client_identity (clients (st_state s)) \<and>
    map edge_identity (edges (st_state s')) = map edge_identity (edges (st_state s)) \<and>
    relays (st_state s') = relays (st_state s) \<and> invites (st_state s') = invites (st_state s) \<and>
    revocations (st_state s') = revocations (st_state s) \<and>
    (\<exists>x. x \<le> renew_at (env_later env) \<and> x \<le> lifetime_from (env_later env) \<and>
      (\<exists>g. registered (clients (st_state s)) (edges (st_state s)) (id_to_string X n) g x \<and>
        registered (clients (st_state s')) (edges (st_state s')) (id_to_string X n) g
          (lifetime_from (env_later env))))"
proof -
  have keys: "keys_distinct c_endpoint_id (clients (st_state s))" "keys_distinct e_endpoint_id (edges (st_state s))"
    using assms(1) by (auto simp: store_ok_def state_ok_def dest: tables_ok_distinct)
  let ?now = "env_later env" and ?id = "id_to_string X n"
  consider (client) c where "find_by c_endpoint_id ?id (clients (st_state s)) = Some c"
      "c_expires_at c \<le> renew_at ?now" "commit_delta X env (quiet [PutClient (c\<lparr>c_issued_at := ?now,
        c_expires_at := lifetime_from ?now\<rparr>)]) s = (Inr (), s')"
    | (edge) e where "find_by e_endpoint_id ?id (edges (st_state s)) = Some e"
      "e_expires_at e \<le> renew_at ?now" "commit_delta X env (quiet [PutEdge (e\<lparr>e_issued_at := ?now,
        e_expires_at := lifetime_from ?now\<rparr>)]) s = (Inr (), s')"
    using assms(2) by (auto simp: renew_mutation_def op_lock_def Let_def op_ok_def op_then_def op_check_def
        lifetime_from_def split: option.splits if_splits prod.splits sum.splits)
  then show ?thesis
  proof cases
    case client
    then have c: "c \<in> set (clients (st_state s))" "c_endpoint_id c = ?id" by (auto dest: find_by_key)
    have "map client_identity (clients (st_state s')) = map client_identity (clients (st_state s))"
      unfolding commit_state [OF client(3)]
      using upsert_same_identity [OF keys(1) c(1), of "c\<lparr>c_issued_at := ?now,
        c_expires_at := lifetime_from ?now\<rparr>" client_identity]
      by (simp add: after_delta_changes client_identity_def)
    with c client renew_at_le_lifetime [OF client(2)] keys show ?thesis
      by (auto simp: commit_state [OF client(3)] after_delta_changes registered_def client_table.rows_put)
  next
    case edge
    then have e: "e \<in> set (edges (st_state s))" "e_endpoint_id e = ?id" by (auto dest: find_by_key)
    have "map edge_identity (edges (st_state s')) = map edge_identity (edges (st_state s))"
      unfolding commit_state [OF edge(3)]
      using upsert_same_identity [OF keys(2) e(1), of "e\<lparr>e_issued_at := ?now,
        e_expires_at := lifetime_from ?now\<rparr>" edge_identity]
      by (simp add: after_delta_changes edge_identity_def)
    with e edge renew_at_le_lifetime [OF edge(2)] keys show ?thesis
      by (auto simp: commit_state [OF edge(3)] after_delta_changes registered_def edge_table.rows_put)
  qed
qed

theorem renewal_changes_dates_only_witness:
  "\<exists>s'. renew_mutation ref_ext (sample_env\<lparr>env_later := 600000\<rparr>) (ed_public ref_ext box_key) sample_store =
      (Inr True, s') \<and> map edge_identity (edges (st_state s')) = [edge_identity box] \<and>
    revision (st_state s') = 5"
proof -
  let ?env = "sample_env\<lparr>env_later := 600000\<rparr>"
  let ?d = "quiet [PutEdge (box\<lparr>e_issued_at := 600000, e_expires_at := 1204800\<rparr>)]"
  have id: "id_to_string ref_ext (ed_public ref_ext box_key) = ''xac''"
    using key_ids(4) by (simp add: key_id_def)
  have t: "lifetime_from 600000 = 1204800" "renew_at 600000 = 772800"
    by (simp_all add: lifetime_from_def renew_at_def i64_saturating_add_def i64_max_def i64_min_def
        RELAY_CREDENTIAL_LIFETIME_SECS_def RELAY_CREDENTIAL_RENEW_BEFORE_SECS_def)
  have "control_event 600000 sample_state ?d"
    using renew_edge [of box sample_state 600000] by (simp add: sample_state_def box_def t)
  then obtain s' where "commit_delta ref_ext ?env ?d sample_store = (Inr (), s')"
    using commit_accepts [OF sample_store_ok, of ?env 600000 ?d]
    by (auto simp: sample_store_def sample_env_def sample_state_def i64_max_def ports_u16_def)
  then have r: "renew_mutation ref_ext ?env (ed_public ref_ext box_key) sample_store = (Inr True, s')"
    by (simp add: renew_mutation_def op_lock_def op_then_def op_ok_def Let_def id t lifetime_from_def [symmetric]
        sample_store_def sample_state_def alice_def box_def sample_env_def)
  with renewal_changes_dates_only [OF sample_store_ok r] show ?thesis
    by (simp add: sample_store_def sample_state_def)
qed

text \<open>Relays are told exactly what is new.  An update Control answers a relay with
  verifies under Control's key, is stamped with the current Relay revision, and contains a
  revocation record exactly when Control holds it with a revision above the one the relay
  knows.  Whatever revisions up to \<open>known\<close> the relay had been sent before, nothing newer
  is left out.\<close>

theorem relay_update_is_complete:
  assumes "sig_laws X" "revocation_reply X env n known s = (Inr (Some u), s')"
  shows "s' = s \<and> SignedRevocationUpdate_verify X u (ed_public X (st_key s)) = Inr () \<and>
    RevocationUpdate_validate X (sru_update u) = Inr () \<and>
    ru_version (sru_update u) = relay_revision (st_state s) \<and>
    (\<forall>k g x. (\<exists>r \<in> set (ru_revocations (sru_update u)). rvk_endpoint_id r = k \<and>
        rvk_revoked_through_generation r = g \<and> rvk_expires_at r = x) \<longleftrightarrow>
      (\<exists>r \<in> set (revocations (st_state s)). rv_endpoint_id r = k \<and> rv_generation r = g \<and>
        rv_expires_at r = x \<and> known < rv_revision r))"
proof -
  have s: "s' = s" "SignedRevocationUpdate_sign X (revocation_update (st_state s) known (env_later env))
      (st_key s) = Inr u"
    using assms(2) by (auto simp: revocation_reply_def op_lock_def op_check_def op_ok_def split: sum.splits)
  with SignedRevocationUpdate_sign_verify [OF assms(1) s(2)] show ?thesis
    by (auto simp: revocation_update_def)
qed

definition revoked_box :: RevocationRecord where
  "revoked_box = \<lparr>rv_endpoint_id = ''xac'', rv_generation = 4, rv_expires_at = 605700, rv_revision = 2\<rparr>"

lemma sample_ids:
  "id_to_string ref_ext (ed_public ref_ext relay_key) = ''xad''" "id_parse ref_ext ''xac'' = Inr (ed_public ref_ext box_key)"
  using key_ids(4,5) id_parse_to_string [of ref_ext "ed_public ref_ext box_key"] by (simp_all add: key_id_def)

theorem relay_update_is_complete_witness:
  "\<exists>u. revocation_reply ref_ext sample_env (ed_public ref_ext relay_key) 1
      (sample_store\<lparr>st_state := sample_state\<lparr>revocations := [revoked_box]\<rparr>\<rparr>) =
      (Inr (Some u), sample_store\<lparr>st_state := sample_state\<lparr>revocations := [revoked_box]\<rparr>\<rparr>) \<and>
    ru_version (sru_update u) = 2 \<and>
    (\<exists>r \<in> set (ru_revocations (sru_update u)). rvk_endpoint_id r = ''xac'' \<and>
       rvk_revoked_through_generation r = 4)"
proof -
  let ?st = "sample_state\<lparr>revocations := [revoked_box]\<rparr>"
  let ?s = "sample_store\<lparr>st_state := ?st\<rparr>"
  have "RevocationUpdate_validate ref_ext (revocation_update ?st 1 1000) = Inr ()"
    by (simp add: RevocationUpdate_validate_def relay_ensure_protocol_version_def revocation_update_def
        revoked_box_def sample_state_def RevocationUpdate_entries_def collect_results_Inr sample_ids)
  then obtain u where u: "revocation_reply ref_ext sample_env (ed_public ref_ext relay_key) 1 ?s = (Inr (Some u), ?s)"
    by (simp add: revocation_reply_def op_lock_def op_check_def op_ok_def anyhow_relay_exists_def ensure_def
        sample_ids SignedRevocationUpdate_sign_def sample_env_def sample_state_def relay_one_def)
  have "ru_version (sru_update u) = 2"
    "\<exists>r \<in> set (ru_revocations (sru_update u)). rvk_endpoint_id r = ''xac'' \<and>
      rvk_revoked_through_generation r = 4 \<and> rvk_expires_at r = 605700"
    using relay_update_is_complete [OF _ u] by (simp_all add: revoked_box_def sample_state_def)
  with u show ?thesis by blast
qed

text \<open>Cleanup keeps exactly what retention says.  One tick of the cleanup loop that
  commits leaves the invitations and revocations that the cleanup at startup would keep:
  an invitation for seven days after it ended, a revocation until the credentials it
  revokes have expired.  It publishes nothing.\<close>

theorem cleanup_tick_is_retention:
  assumes "store_ok X s" "cleanup_tick X env s = (Inr (), s')"
  shows "st_state s' =
      snd (cleanup_revocations (env_now env) (snd (cleanup_invitations (env_now env) (st_state s))))"
proof -
  let ?ch = "cleanup_changes (env_now env) (st_state s)"
  have "keys_distinct i_id (invites (st_state s))" "keys_distinct rv_endpoint_id (revocations (st_state s))"
    using assms(1) by (auto simp: store_ok_def state_ok_def dest: tables_ok_distinct)
  note r = cleanup_is_retention [OF this, of "env_now env"]
  have "after_delta (quiet ?ch) (st_state s) = StateDelta_apply (quiet ?ch) (st_state s)"
    by (simp add: after_delta_def StateDelta_apply_def)
  moreover have "?ch = [] \<Longrightarrow> StateDelta_apply (quiet ?ch) (st_state s) = st_state s"
    by (simp add: StateDelta_apply_def)
  moreover have "?ch = [] \<and> s' = s \<or> commit_delta X env (quiet ?ch) s = (Inr (), s')"
    using assms(2) by (auto simp: cleanup_tick_def op_lock_def op_then_def op_ok_def Let_def
        split: if_splits prod.splits sum.splits)
  ultimately show ?thesis using r commit_state [of X env "quiet ?ch" s s'] by auto
qed

theorem cleanup_tick_is_retention_witness:
  "\<exists>s'. cleanup_tick ref_ext (sample_env\<lparr>env_now := 606800\<rparr>) sample_store = (Inr (), s') \<and>
    invites (st_state s') = [] \<and> clients (st_state s') = [alice]"
proof -
  let ?env = "sample_env\<lparr>env_now := 606800\<rparr>"
  let ?ch = "cleanup_changes 606800 sample_state"
  have ch: "?ch = [DeleteInvite ''i1'', DeleteInvite ''i2'']"
    by (simp add: cleanup_changes_def sample_state_def pending_def sample_invitation_def invite_terminal_def
        i64_saturating_add_def i64_max_def i64_min_def INVITATION_RETENTION_SECS_def)
  have "control_event 606800 sample_state (quiet ?ch)" by (rule cleanup)
  then obtain s' where "commit_delta ref_ext ?env (quiet ?ch) sample_store = (Inr (), s')"
    using commit_accepts [OF sample_store_ok, of ?env 606800 "quiet ?ch"]
    by (auto simp: ch sample_bounds ports_u16_def i64_max_def)
  then have r: "cleanup_tick ref_ext ?env sample_store = (Inr (), s')"
    by (simp add: cleanup_tick_def op_lock_def op_then_def op_ok_def Let_def ch sample_bounds)
  with cleanup_tick_is_retention [OF sample_store_ok r] show ?thesis
    by (simp add: sample_bounds sample_state_def cleanup_revocations_def
        cleanup_invitations_def pending_def sample_invitation_def invite_terminal_def Let_def
        i64_saturating_add_def i64_max_def i64_min_def INVITATION_RETENTION_SECS_def)
qed

text \<open>C23: Waiting requests are safe among others.  Whatever the other requests do to the
  store while a node or a relay waits, as long as they keep its invariant and its agreement
  with the database, the waiting request keeps them too, through its renewal or port
  update, its notifications and its answer, on every path.\<close>

theorem watch_among_others:
  assumes "store_ok X s"
    and "\<forall>g \<in> {w_admit w, w_reply w} \<union> set (w_wakes w). \<forall>s. store_ok X s \<longrightarrow> store_ok X (g s)"
  shows "store_ok X (snd (watch X env w request s)) \<and> store_ok X (snd (relay_watch X env w request s))"
  using assms watch_store.watch_keeps [of X s env "env_time env" w request]
    watch_store.relay_watch_keeps [of X s env "env_time env" w request]
  by (simp add: watch_store.calm_def list_all_iff)

theorem watch_among_others_witness:
  "store_ok ref_ext (snd (watch ref_ext sample_env
     \<lparr>w_admit = \<lambda>s. s, w_wakes = [\<lambda>s. snd (cleanup_tick ref_ext (sample_env\<lparr>env_now := 606800\<rparr>) s)],
      w_reply = \<lambda>s. s\<rparr> (WatchRequest_sign ref_ext alice_key 5 1000 ''n'') sample_store))"
proof -
  have "store_ok ref_ext (snd (cleanup_tick ref_ext env s))" if "store_ok ref_ext s" for env s
    using cleanup_handler.keeps_store_ok [OF that, of env] by (metis prod.collapse)
  with watch_among_others [OF sample_store_ok, of "\<lparr>w_admit = \<lambda>s. s,
      w_wakes = [\<lambda>s. snd (cleanup_tick ref_ext (sample_env\<lparr>env_now := 606800\<rparr>) s)], w_reply = \<lambda>s. s\<rparr>"]
  show ?thesis by simp
qed

end
