(* ===== verification/Control_Claims.thy ===== *)
theory Control_Claims
  imports Control_Handlers Control_Sample
begin

text \<open>
  What the maps signed by Control grant, and what a claim does: who may enrol, that an
  invitation enrols one node, that a claim either registers the node and answers or leaves
  everything as it was, and that it succeeds whenever it should.
\<close>

section \<open>Signed maps\<close>

definition node_registered :: "Ext \<Rightarrow> ControlState \<Rightarrow> EndpointId \<Rightarrow> bool" where
  "node_registered X st n \<longleftrightarrow> id_to_string X n \<in> c_endpoint_id ` set (clients st) \<union>
     e_endpoint_id ` set (edges st) \<union> r_endpoint_id ` set (relays st)"

lemma sign_relay_credential_ok:
  assumes "id_laws X" "cs_audience st \<noteq> []" "0 < g" "issued < expires"
  shows "\<exists>t. sign_relay_credential X st key n kind g issued expires = Inr t"
  using assms by (auto simp: sign_relay_credential_def SignedRelayCredential_sign_def
      RelayCredential_validate_iff id_parse_to_string is_ok_iff)

lemma state_ok_credentials:
  assumes "state_ok st"
  shows "c \<in> set (clients st) \<Longrightarrow> 0 < c_generation c \<and> c_generation c \<le> revision st \<and> c_issued_at c < c_expires_at c"
    and "e \<in> set (edges st) \<Longrightarrow> 0 < e_generation e \<and> e_generation e \<le> revision st \<and> e_issued_at e < e_expires_at e"
  using assms by (auto simp: state_ok_def tables_ok_def clients_ok_def edges_ok_def)

lemma signed_map_succeeds:
  assumes "id_laws X" "state_ok st" "cs_audience st \<noteq> []" "node_registered X st n"
  shows "\<exists>m. signed_map X st key now n = Inr m"
proof (cases "find_by e_endpoint_id (id_to_string X n) (edges st)")
  case (Some e)
  then have "e \<in> set (edges st)" by (auto dest: find_by_key)
  with assms(1-3) Some show ?thesis
    using sign_relay_credential_ok state_ok_credentials(2)
    by (fastforce simp: signed_map_def node_view_def Let_def)
next
  case None
  note edge = None
  show ?thesis
  proof (cases "find_by c_endpoint_id (id_to_string X n) (clients st)")
    case (Some c)
    then have "c \<in> set (clients st)" by (auto dest: find_by_key)
    with assms(1-3) Some edge show ?thesis
      using sign_relay_credential_ok state_ok_credentials(1)
      by (fastforce simp: signed_map_def node_view_def Let_def)
  next
    case None
    with edge assms(4) have "list_ex (\<lambda>r. r_endpoint_id r = id_to_string X n) (relays st)"
      by (auto simp: find_by_None node_registered_def list_ex_iff)
    with edge None show ?thesis by (simp add: signed_map_def node_view_def Let_def)
  qed
qed

text \<open>What a map may say to its recipient: the credential of the recipient's own
  registration, its owner when it is an edge, its own edges when it is a client.\<close>

definition credential_of :: "Ext \<Rightarrow> ControlState \<Rightarrow> SecretKey \<Rightarrow> EndpointId \<Rightarrow> string \<Rightarrow> bool" where
  "credential_of X st key n t \<longleftrightarrow> (\<exists>sc. t = SignedRelayCredential_encode X sc \<and>
     SignedRelayCredential_verify X sc (ed_public X key) = Inr () \<and>
     rc_audience (src_credential sc) = cs_audience st \<and>
     rc_endpoint_id (src_credential sc) = id_to_string X n \<and>
     ((\<exists>e \<in> set (edges st). e_endpoint_id e = id_to_string X n \<and>
         rc_kind (src_credential sc) = SubjectEdge \<and>
         rc_generation (src_credential sc) = e_generation e \<and>
         rc_expires_at (src_credential sc) = e_expires_at e) \<or>
      (\<exists>c \<in> set (clients st). c_endpoint_id c = id_to_string X n \<and>
         rc_kind (src_credential sc) = SubjectClient \<and>
         rc_generation (src_credential sc) = c_generation c \<and>
         rc_expires_at (src_credential sc) = c_expires_at c)))"

lemma sign_relay_credential_of:
  assumes "sig_laws X" "sign_relay_credential X st key n kind g i x = Inr t"
  shows "\<exists>sc. t = SignedRelayCredential_encode X sc \<and>
     SignedRelayCredential_verify X sc (ed_public X key) = Inr () \<and>
     rc_audience (src_credential sc) = cs_audience st \<and>
     rc_endpoint_id (src_credential sc) = id_to_string X n \<and> rc_kind (src_credential sc) = kind \<and>
     rc_generation (src_credential sc) = g \<and> rc_expires_at (src_credential sc) = x"
  using assms by (auto simp: sign_relay_credential_def dest!: SignedRelayCredential_sign_verify)

lemma node_view_edge:
  assumes "find_by e_endpoint_id (id_to_string X n) (edges st) = Some e"
    and "node_view X st key n = Inr (cred, allowed, infos)"
  shows "allowed = [e_owner_id e] \<and> infos = [] \<and> e \<in> set (edges st) \<and>
    e_endpoint_id e = id_to_string X n \<and> (\<exists>t. cred = Some t \<and> sign_relay_credential X st key n SubjectEdge
      (e_generation e) (e_issued_at e) (e_expires_at e) = Inr t)"
  using assms by (auto simp: node_view_def Let_def dest: find_by_key)

lemma node_view_client:
  assumes "find_by e_endpoint_id (id_to_string X n) (edges st) = None"
    and "find_by c_endpoint_id (id_to_string X n) (clients st) = Some c"
    and "node_view X st key n = Inr (cred, allowed, infos)"
  shows "allowed = [] \<and> c \<in> set (clients st) \<and> c_endpoint_id c = id_to_string X n \<and>
    (\<exists>t. cred = Some t \<and> sign_relay_credential X st key n SubjectClient
      (c_generation c) (c_issued_at c) (c_expires_at c) = Inr t) \<and>
    map ei_endpoint_id infos =
      map e_endpoint_id (filter (\<lambda>e. e_owner_id e = id_to_string X n) (edges st))"
  using assms find_by_key [OF assms(2)] by (auto simp: node_view_def Let_def comp_def)

lemma node_view_relay:
  assumes "find_by e_endpoint_id (id_to_string X n) (edges st) = None"
    and "find_by c_endpoint_id (id_to_string X n) (clients st) = None"
    and "node_view X st key n = Inr (cred, allowed, infos)"
  shows "cred = None \<and> allowed = [] \<and> infos = []"
  using assms by (simp add: node_view_def Let_def split: if_splits)

text \<open>C2: Least privilege of maps.  A map Control signs for a node verifies under
  Control's key for that node and carries the current revision.  The client it tells a node
  to accept is the owner of that node as an edge, and nobody else; the edges it lists are
  exactly those the recipient owns when the recipient is a client, and none for any other
  node; and the Relay credential in it is Control's signature over the recipient's own
  identity, generation and expiry.\<close>

theorem signed_map_grants:
  assumes "sig_laws X" "id_laws X" "signed_map X st key now n = Inr m" "state_ok st"
  shows "SignedNodeMap_verify X m (ed_public X key) n = Inr () \<and>
    nm_revision (snm_map m) = revision st \<and>
    (\<forall>k. k \<in> set (nm_allowed_clients (snm_map m)) \<longleftrightarrow>
       (\<exists>e \<in> set (edges st). e_endpoint_id e = id_to_string X n \<and> e_owner_id e = k)) \<and>
    map ei_endpoint_id (nm_edges (snm_map m)) =
      (if id_to_string X n \<in> c_endpoint_id ` set (clients st) - e_endpoint_id ` set (edges st)
       then map e_endpoint_id (filter (\<lambda>e. e_owner_id e = id_to_string X n) (edges st)) else []) \<and>
    (\<forall>t. nm_relay_credential (snm_map m) = Some t \<longrightarrow> credential_of X st key n t)"
proof -
  obtain cred allowed infos where v: "node_view X st key n = Inr (cred, allowed, infos)"
    using assms(3) by (auto simp: signed_map_def)
  have m: "nm_allowed_clients (snm_map m) = allowed" "nm_edges (snm_map m) = infos"
    "nm_relay_credential (snm_map m) = cred" "nm_revision (snm_map m) = revision st"
    "SignedNodeMap_verify X m (ed_public X key) n = Inr ()"
    using assms v by (auto simp: signed_map_def SignedNodeMap_sign_verify) (auto simp: SignedNodeMap_sign_def)
  show ?thesis
  proof (cases "find_by e_endpoint_id (id_to_string X n) (edges st)")
    case (Some e)
    note e = node_view_edge [OF Some v]
    have "\<forall>t. cred = Some t \<longrightarrow> credential_of X st key n t"
      using e sign_relay_credential_of [OF assms(1)] by (fastforce simp: credential_of_def)
    moreover have "x = e" if "x \<in> set (edges st)" "e_endpoint_id x = id_to_string X n" for x
      using that e edge_table.rows_key_unique [of "edges st" x e] assms(4)
      by (auto simp: state_ok_def dest: tables_ok_distinct)
    moreover have "id_to_string X n \<in> e_endpoint_id ` set (edges st)"
      using e by (metis imageI)
    ultimately show ?thesis using e m by auto
  next
    case None
    then have edge: "\<forall>e \<in> set (edges st). e_endpoint_id e \<noteq> id_to_string X n"
      by (simp add: find_by_None image_fresh)
    show ?thesis
    proof (cases "find_by c_endpoint_id (id_to_string X n) (clients st)")
      case (Some c)
      note c = node_view_client [OF None Some v]
      have "credential_of X st key n t" if "cred = Some t" for t
        using c that sign_relay_credential_of [OF assms(1)] by (fastforce simp: credential_of_def)
      moreover have "id_to_string X n \<in> c_endpoint_id ` set (clients st) - e_endpoint_id ` set (edges st)"
        using c edge by (metis DiffI image_fresh imageI)
      ultimately show ?thesis using c m edge by simp
    next
      case client: None
      then show ?thesis using node_view_relay [OF None client v] m edge by (simp add: find_by_None)
    qed
  qed
qed

theorem signed_map_grants_witness:
  "\<exists>m. signed_map ref_ext sample_state control_key 1000 (ed_public ref_ext alice_key) = Inr m \<and>
    map ei_endpoint_id (nm_edges (snm_map m)) = [''xac'']"
proof -
  have ids: "id_to_string ref_ext (ed_public ref_ext alice_key) = ''xab''"
    using key_ids(3) by (simp add: key_id_def)
  obtain m where m: "signed_map ref_ext sample_state control_key 1000 (ed_public ref_ext alice_key) = Inr m"
    using signed_map_succeeds [OF _ sample_state_ok, of ref_ext "ed_public ref_ext alice_key"]
    by (auto simp: node_registered_def ids sample_state_def alice_def)
  with signed_map_grants [OF _ _ m sample_state_ok] show ?thesis
    by (simp add: ids sample_state_def alice_def box_def)
qed

section \<open>What a claim does\<close>

text \<open>The row of a node enrolled by an invitation.\<close>

definition client_row :: "Ext \<Rightarrow> InviteRecord \<Rightarrow> EndpointId \<Rightarrow> nat \<Rightarrow> int \<Rightarrow> ClientRecord" where
  "client_row X i n g now = \<lparr>c_name = inv_name (i_invite i), c_endpoint_id = id_to_string X n,
     c_managed_by = i_managed_by i, c_generation = g, c_issued_at = now, c_expires_at = i64_saturating_add now 604800\<rparr>"

definition edge_row :: "Ext \<Rightarrow> InviteRecord \<Rightarrow> string \<Rightarrow> EndpointId \<Rightarrow> nat \<Rightarrow> int \<Rightarrow> EdgeRecord" where
  "edge_row X i owner n g now = \<lparr>e_name = inv_name (i_invite i), e_endpoint_id = id_to_string X n,
     e_owner_id = owner, e_generation = g, e_issued_at = now, e_expires_at = i64_saturating_add now 604800\<rparr>"

definition relay_row :: "Ext \<Rightarrow> InviteRecord \<Rightarrow> string \<Rightarrow> EndpointId \<Rightarrow> nat option \<Rightarrow> RelayRecord" where
  "relay_row X i url n port = \<lparr>r_name = inv_name (i_invite i), r_endpoint_id = id_to_string X n,
     r_url = url, r_qad_port = port\<rparr>"

text \<open>The name and the identity an invitation is for are free, and the owner of an edge is registered.\<close>

definition seat_free :: "Ext \<Rightarrow> ControlState \<Rightarrow> InviteRecord \<Rightarrow> EndpointId \<Rightarrow> bool" where
  "seat_free X st i n \<longleftrightarrow> (case inv_kind (i_invite i) of
      IKClient \<Rightarrow> \<forall>c \<in> set (clients st). c_name c \<noteq> inv_name (i_invite i) \<and> c_endpoint_id c \<noteq> id_to_string X n
    | IKEdge owner \<Rightarrow> owner \<in> c_endpoint_id ` set (clients st) \<and>
        (\<forall>e \<in> set (edges st). (e_owner_id e = owner \<longrightarrow> e_name e \<noteq> inv_name (i_invite i)) \<and> e_endpoint_id e \<noteq> id_to_string X n)
    | IKRelay url \<Rightarrow> \<forall>r \<in> set (relays st). r_name r \<noteq> inv_name (i_invite i) \<and> r_url r \<noteq> url \<and>
        r_endpoint_id r \<noteq> id_to_string X n)"

text \<open>All that an enrolment changes: the revision, the invitation and one new row.\<close>

definition registers ::
  "Ext \<Rightarrow> InviteRecord \<Rightarrow> EndpointId \<Rightarrow> nat option \<Rightarrow> int \<Rightarrow> ControlState \<Rightarrow> ControlState \<Rightarrow> bool" where
  "registers X i n port now st st' \<longleftrightarrow>
     revision st' = revision st + 1 \<and> relay_revision st' = relay_revision st \<and>
     cs_schema st' = cs_schema st \<and> cs_audience st' = cs_audience st \<and> cs_public_url st' = cs_public_url st \<and>
     cs_relay_ca_der st' = cs_relay_ca_der st \<and> provisioners st' = provisioners st \<and>
     revocations st' = revocations st \<and> seat_free X st i n \<and>
     find_by i_id (i_id i) (invites st') = Some (claimed i (id_to_string X n) now) \<and>
     set (invites st') = insert (claimed i (id_to_string X n) now) (set (invites st) - {i}) \<and>
     (case inv_kind (i_invite i) of
        IKClient \<Rightarrow> set (clients st') = insert (client_row X i n (revision st') now) (set (clients st)) \<and>
          edges st' = edges st \<and> relays st' = relays st
      | IKEdge owner \<Rightarrow> set (edges st') = insert (edge_row X i owner n (revision st') now) (set (edges st)) \<and>
          clients st' = clients st \<and> relays st' = relays st
      | IKRelay url \<Rightarrow> set (relays st') = insert (relay_row X i url n port) (set (relays st)) \<and>
          clients st' = clients st \<and> edges st' = edges st)"

lemma claimed_node_change_iff:
  "claimed_node_change X st (i_invite i) n (i_managed_by i) port g now = Inr ch \<longleftrightarrow> seat_free X st i n \<and>
     ch = (case inv_kind (i_invite i) of
        IKClient \<Rightarrow> PutClient (client_row X i n g now)
      | IKEdge owner \<Rightarrow> PutEdge (edge_row X i owner n g now)
      | IKRelay url \<Rightarrow> PutRelay (relay_row X i url n port))"
  by (cases "inv_kind (i_invite i)")
    (auto simp: claimed_node_change_def seat_free_def client_row_def edge_row_def relay_row_def list_ex_iff
      anyhow_client_exists_def RELAY_CREDENTIAL_LIFETIME_SECS_def image_iff)

lemma replaced_row:
  "keys_distinct i_id xs \<Longrightarrow> i \<in> set xs \<Longrightarrow> i_id j = i_id i \<Longrightarrow>
    insert j {x \<in> set xs. i_id x \<noteq> i_id j} = insert j (set xs - {i})"
  using invite_table.rows_key_unique [of xs] by auto

lemma commit_registers:
  assumes "state_ok (st_state s)" "i \<in> set (invites (st_state s))"
    and "claimed_node_change X (st_state s) (i_invite i) n (i_managed_by i) port
      (revision (st_state s) + 1) now = Inr ch"
    and "commit_delta X env (topology [ch, PutInvite (i\<lparr>i_state := Claimed,
      i_claimed_by := Some (id_to_string X n), i_terminal_at := Some now\<rparr>)]) s = (Inr (), s')"
  shows "registers X i n port now (st_state s) (st_state s')"
proof -
  let ?st = "st_state s"
  have keys: "keys_distinct i_id (invites ?st)" "keys_distinct c_endpoint_id (clients ?st)"
    "keys_distinct e_endpoint_id (edges ?st)" "keys_distinct r_endpoint_id (relays ?st)"
    using assms(1) by (auto simp: state_ok_def dest: tables_ok_distinct)
  have free: "seat_free X ?st i n" using assms(3) by (simp add: claimed_node_change_iff)
  have invites: "insert (claimed i (id_to_string X n) now) {x \<in> set (invites ?st). i_id x \<noteq> i_id i} =
      insert (claimed i (id_to_string X n) now) (set (invites ?st) - {i})"
    using replaced_row [OF keys(1) assms(2), of "claimed i (id_to_string X n) now"] by (simp add: claimed_def)
  show ?thesis
  proof (cases "inv_kind (i_invite i)")
    case IKClient
    with free have "{x \<in> set (clients ?st). c_endpoint_id x \<noteq> id_to_string X n} = set (clients ?st)"
      by (auto simp: seat_free_def)
    then show ?thesis using IKClient free invites assms(3) keys
      by (simp add: registers_def claimed_node_change_iff commit_state [OF assms(4)] after_delta_changes claimed_def [symmetric]
          invite_table.find_put invite_table.rows_put client_table.rows_put client_row_def)
        (simp add: claimed_def)
  next
    case (IKEdge owner)
    with free have "{x \<in> set (edges ?st). e_endpoint_id x \<noteq> id_to_string X n} = set (edges ?st)"
      by (auto simp: seat_free_def)
    then show ?thesis using IKEdge free invites assms(3) keys
      by (simp add: registers_def claimed_node_change_iff commit_state [OF assms(4)] after_delta_changes claimed_def [symmetric]
          invite_table.find_put invite_table.rows_put edge_table.rows_put edge_row_def)
        (simp add: claimed_def)
  next
    case (IKRelay url)
    with free have "{x \<in> set (relays ?st). r_endpoint_id x \<noteq> id_to_string X n} = set (relays ?st)"
      by (auto simp: seat_free_def)
    then show ?thesis using IKRelay free invites assms(3) keys
      by (simp add: registers_def claimed_node_change_iff commit_state [OF assms(4)] after_delta_changes claimed_def [symmetric]
          invite_table.find_put invite_table.rows_put relay_table.rows_put relay_row_def)
        (simp add: claimed_def)
  qed
qed

lemma registers_node: "registers X i n port now st st' \<Longrightarrow> node_registered X st' n"
  by (auto simp: registers_def node_registered_def client_row_def edge_row_def relay_row_def split: InviteKind.splits)

lemma registers_port: "registers X i n port now st st' \<Longrightarrow>
    validate_relay_claim (inv_kind (i_invite i)) p csr = Inr port \<Longrightarrow> registers X i n p now st st'"
  by (auto simp: registers_def validate_relay_claim_def split: InviteKind.splits)

lemma claim_pending_outcome:
  assumes "state_ok (st_state s)" "i \<in> set (invites (st_state s))"
  shows "op_wp (claim_pending X env n i port cert) (\<lambda>r s'. s' = s \<or>
    registers X i n port (env_now env) (st_state s) (st_state s')) s"
  unfolding claim_pending_def Let_def
  using assms by (intro wp_rules) (auto intro: commit_registers)

text \<open>The invitation a claim is allowed to use.\<close>

definition claim_allowed :: "Ext \<Rightarrow> SecretKey \<Rightarrow> int \<Rightarrow> ClaimRequest \<Rightarrow> EndpointId \<Rightarrow> ControlState \<Rightarrow>
    InviteRecord \<Rightarrow> bool" where
  "claim_allowed X key now request n st i \<longleftrightarrow>
     is_ok (JoinToken_verify X (cr_token request)) \<and> ClaimRequest_verify X request = Inr n \<and>
     i64_abs_diff (cl_issued_at (cr_claim request)) now \<le> 300 \<and>
     i \<in> set (invites st) \<and> i_state i = Pending \<and> i_invite i = jt_invite (cr_token request) \<and>
     inv_control_id (i_invite i) = id_to_string X (ed_public X key) \<and>
     inv_audience (i_invite i) = cs_audience st \<and> now \<le> inv_expires_at (i_invite i) \<and>
     hash_secret X (jt_secret (cr_token request)) = inv_secret_hash (i_invite i)"

lemma claim_record:
  assumes "validate_token_for_state X (cr_token request) st control now = Inr u"
    and "find_by i_id (cl_invite_id (cr_claim request)) (invites st) = Some i"
    and "ClaimRequest_verify X request = Inr n"
  shows "i \<in> set (invites st) \<and> i_invite i = jt_invite (cr_token request) \<and>
    inv_control_id (i_invite i) = id_to_string X control \<and>
    inv_audience (i_invite i) = cs_audience st \<and> now \<le> inv_expires_at (i_invite i)"
  using assms by (auto simp: validate_token_for_state_def ClaimRequest_verify_def dest: find_by_key)

lemma claim_outcome:
  assumes "state_ok (st_state s)"
  shows "op_wp (claim X env request) (\<lambda>r s'. s' = s \<or> (\<exists>n i.
    claim_allowed X (st_key s) (env_now env) request n (st_state s) i \<and>
    registers X i n (cl_relay_qad_port (cr_claim request)) (env_now env) (st_state s) (st_state s'))) s"
  unfolding claim_def claim_mutation_def Let_def
proof (intro wp_rules, goal_cases)
  case (10 u c n w v i port cert)
  then have i: "i \<in> set (invites (st_state s)) \<and> i_invite i = jt_invite (cr_token request) \<and>
    inv_control_id (i_invite i) = id_to_string X (ed_public X (st_key s)) \<and>
    inv_audience (i_invite i) = cs_audience (st_state s) \<and> env_now env \<le> inv_expires_at (i_invite i)"
    by (intro claim_record) simp_all
  with 10 have "claim_allowed X (st_key s) (env_now env) request n (st_state s) i"
    by (auto simp: claim_allowed_def is_ok_iff check_time_def CLOCK_SKEW_SECS_def JoinToken_verify_def)
  moreover have "registers X i n (cl_relay_qad_port (cr_claim request)) (env_now env) (st_state s) (st_state s')"
    if "registers X i n port (env_now env) (st_state s) (st_state s')" for s'
    using registers_port [OF that 10(7)] .
  ultimately show ?case
    using claim_pending_outcome [OF assms, of i X env n port cert] i by (auto elim!: wp_mono)
qed simp_all

section \<open>All or nothing\<close>

lemma claim_reply_answers:
  assumes "id_laws X" "state_ok (st_state s)" "cs_audience (st_state s) \<noteq> []"
    and "node_registered X (st_state s) n"
  shows "\<exists>m. claim_reply X env n i cert s = (Inr \<lparr>jr_name = inv_name i, jr_kind = inv_kind i,
    jr_map = m, jr_relay_tls_certificate_der = cert\<rparr>, s) \<and>
    signed_map X (st_state s) (st_key s) (env_later env) n = Inr m"
proof -
  obtain m where "signed_map X (st_state s) (st_key s) (env_later env) n = Inr m"
    using signed_map_succeeds [OF assms] by blast
  then show ?thesis by (simp add: claim_reply_def op_lock_def op_check_def op_ok_def)
qed

lemma claim_pending_answers:
  assumes "id_laws X" "store_ok X s" "cs_audience (st_state s) \<noteq> []"
    and "i \<in> set (invites (st_state s))" "i_state i = Pending" "port \<noteq> Some 0"
  shows "op_wp (claim_pending X env n i port cert) (\<lambda>r s'. s' = s \<or>
    (\<exists>m. r = Inr \<lparr>jr_name = inv_name (i_invite i), jr_kind = inv_kind (i_invite i),
      jr_map = m, jr_relay_tls_certificate_der = cert\<rparr>)) s"
  unfolding claim_pending_def Let_def
proof (intro wp_lock wp_check wp_commit_then, goal_cases)
  case (4 g ch s')
  have ev: "control_event (env_now env) (st_state s) (topology [ch, PutInvite (i\<lparr>i_state := Claimed,
      i_claimed_by := Some (id_to_string X n), i_terminal_at := Some (env_now env)\<rparr>)])"
    using 4 assms(4-6) by (intro claim_event) (auto dest: commit_put_client commit_put_edge)
  have "state_ok (st_state s')" using commit_delta_ok [OF assms(2) ev 4(3)] by (simp add: store_ok_def)
  moreover have "node_registered X (st_state s') n"
    using 4 assms(2,4) by (intro registers_node [OF commit_registers]) (auto simp: store_ok_def)
  moreover have "cs_audience (st_state s') = cs_audience (st_state s)"
    using commit_state [OF 4(3)] by (simp add: after_delta_changes)
  ultimately show ?case
    using claim_reply_answers [OF assms(1), of s' n env "i_invite i" cert] assms(3)
    by (auto simp: op_wp_def)
qed simp_all

lemma claim_answers:
  assumes "id_laws X" "store_ok X s" "cs_audience (st_state s) \<noteq> []"
  shows "op_wp (claim X env request) (\<lambda>r s'. s' = s \<or> is_ok r) s"
  unfolding claim_def claim_mutation_def Let_def
proof (intro wp_rules, goal_cases)
  case (10 u c n w v i port cert)
  then have "i \<in> set (invites (st_state s))" "port \<noteq> Some 0"
    by (auto dest: find_by_key validate_relay_claim_port)
  then show ?case
    using claim_pending_answers [OF assms, of i port env n cert] 10(9)
    by (auto elim!: wp_mono simp: is_ok_iff)
qed simp_all

section \<open>Claims that must succeed\<close>

text \<open>An invitation that is pending in the state, of this Control and network and not expired, whose name and
  identity are free.\<close>

definition claimable :: "Ext \<Rightarrow> SecretKey \<Rightarrow> int \<Rightarrow> ControlState \<Rightarrow> InviteRecord \<Rightarrow> string \<Rightarrow> EndpointId \<Rightarrow> bool" where
  "claimable X key now st i secret n \<longleftrightarrow>
     find_by i_id (i_id i) (invites st) = Some i \<and> i_state i = Pending \<and>
     inv_protocol_version (i_invite i) = CONTROL_PROTOCOL_VERSION \<and>
     inv_control_id (i_invite i) = id_to_string X (ed_public X key) \<and>
     inv_audience (i_invite i) = cs_audience st \<and> inv_control_url (i_invite i) = cs_public_url st \<and>
     inv_secret_hash (i_invite i) = hash_secret X secret \<and> now \<le> inv_expires_at (i_invite i) \<and>
     seat_free X st i n"

text \<open>What a claim may say about QAD and the certificate it then gets: nothing and none, or, for a relay, a
  port with a request for a certificate of the host of its URL, which the CA signs at time \<open>now\<close>.\<close>

definition qad_offer ::
  "Ext \<Rightarrow> Issuer \<Rightarrow> int \<Rightarrow> InviteKind \<Rightarrow> nat option \<Rightarrow> byte list option \<Rightarrow> byte list option \<Rightarrow> bool" where
  "qad_offer X ca now kind port csr cert \<longleftrightarrow>
     port = None \<and> csr = None \<and> cert = None \<or>
     (\<exists>url p request u host sans c. kind = IKRelay url \<and> port = Some p \<and> csr = Some request \<and> cert = Some c \<and>
        0 < p \<and> length request \<le> 16384 \<and> url_parse X url = Inr u \<and> u_host u = Some host \<and>
        csr_sans X request = Inr sans \<and> cert_sans X host = Inr sans \<and>
        csr_signed_by X ca request \<lparr>tc_is_ca = False, tc_key_usages = [''DigitalSignature''],
          tc_extended_key_usages = [''ServerAuth''], tc_authority_key_identifier = True, tc_common_name = host,
          tc_not_before = now - 86400, tc_not_after = now + 71280000\<rparr> = Inr c)"

lemma qad_offer_iff:
  "qad_offer X ca now kind port csr cert \<longleftrightarrow> validate_relay_claim kind port csr = Inr port \<and>
     issue_relay_tls_certificate X now csr kind port ca = Inr cert"
  unfolding qad_offer_def validate_relay_claim_def validate_qad_port_def issue_relay_tls_certificate_def relay_cert_params_def
  by (cases kind; cases port; cases csr) auto

lemma validate_relay_claim_same: "validate_relay_claim kind p csr = Inr port \<Longrightarrow> p = port"
  by (auto simp: validate_relay_claim_def split: InviteKind.splits)

definition env_admits :: "Env \<Rightarrow> bool" where
  "env_admits env \<longleftrightarrow> verification_permit env = Inr () \<and> admitted (env_mutate env) ''mutation'' = Inr ()"

lemma sign_claim_fields:
  "cr_token (ClaimRequest_sign_with_relay_qad X tok key t nonce port csr) = tok"
  "cl_invite_id (cr_claim (ClaimRequest_sign_with_relay_qad X tok key t nonce port csr)) = inv_invite_id (jt_invite tok)"
  "cl_endpoint_id (cr_claim (ClaimRequest_sign_with_relay_qad X tok key t nonce port csr)) = id_to_string X (ed_public X key)"
  "cl_issued_at (cr_claim (ClaimRequest_sign_with_relay_qad X tok key t nonce port csr)) = t"
  "cl_relay_qad_port (cr_claim (ClaimRequest_sign_with_relay_qad X tok key t nonce port csr)) = port"
  "cl_relay_tls_csr (cr_claim (ClaimRequest_sign_with_relay_qad X tok key t nonce port csr)) = csr"
  by (simp_all add: ClaimRequest_sign_with_relay_qad_def Let_def)

lemma claim_reaches_pending:
  assumes "sig_laws X" "id_laws X" "env_admits env"
    and "claimable X (st_key s) (env_now env) (st_state s) i secret (ed_public X key)"
    and "i64_abs_diff t (env_now env) \<le> 300"
    and "qad_offer X (st_relay_ca s) (env_later env) (inv_kind (i_invite i)) port csr cert"
  shows "claim X env (ClaimRequest_sign_with_relay_qad X (JoinToken_new X (i_invite i) secret (st_key s)) key t nonce port csr) s =
    claim_pending X env (ed_public X key) i port cert s"
proof -
  have "JoinToken_verify X (JoinToken_new X (i_invite i) secret (st_key s)) = Inr (ed_public X (st_key s))"
    using assms JoinToken_new_verify [OF assms(1,2)]
    by (auto simp: claimable_def id_parse_to_string)
  moreover have "jt_invite (JoinToken_new X (i_invite i) secret (st_key s)) = i_invite i"
    by (simp add: JoinToken_new_def)
  ultimately show ?thesis
    using assms(3-5) assms(6) [unfolded qad_offer_iff] ClaimRequest_sign_verify [OF assms(1,2)]
    by (simp add: claim_def claim_mutation_def sign_claim_fields op_check_def op_lock_def
        run_mutation_def env_admits_def check_time_def CLOCK_SKEW_SECS_def ensure_def Let_def
        validate_token_for_state_def claimable_def)
qed

lemma claim_pending_succeeds:
  assumes "id_laws X" "store_ok X s" "cs_audience (st_state s) \<noteq> []" "env_io env"
    and "claimable X (st_key s) (env_now env) (st_state s) i secret n"
    and "env_now env < lifetime_from (env_now env)" "int (revision (st_state s)) < i64_max"
    and "int (relay_revision (st_state s)) \<le> i64_max" "port \<noteq> Some 0" "\<forall>p. port = Some p \<longrightarrow> p \<le> 65535"
  shows "\<exists>m s'. claim_pending X env n i port cert s = (Inr \<lparr>jr_name = inv_name (i_invite i),
      jr_kind = inv_kind (i_invite i), jr_map = m, jr_relay_tls_certificate_der = cert\<rparr>, s') \<and>
    registers X i n port (env_now env) (st_state s) (st_state s')"
proof -
  let ?st = "st_state s" and ?now = "env_now env"
  obtain ch where ch: "claimed_node_change X ?st (i_invite i) n (i_managed_by i) port (revision ?st + 1) ?now
      = Inr ch"
    using assms(5) by (auto simp: claimable_def claimed_node_change_iff)
  have i: "i \<in> set (invites ?st)" "i_state i = Pending"
    using assms(5) by (auto simp: claimable_def dest: find_by_key)
  let ?d = "topology [ch, PutInvite (i\<lparr>i_state := Claimed,
      i_claimed_by := Some (id_to_string X n), i_terminal_at := Some ?now\<rparr>)]"
  have ev: "control_event ?now ?st ?d"
    using i ch assms(6,9) by (intro claim_event)
      (auto simp: claimed_node_change_def lifetime_from_def split: InviteKind.splits if_splits)
  have "ports_u16 (sd_changes ?d)"
    using ch assms(10) by (auto simp: claimed_node_change_iff ports_u16_def relay_row_def split: InviteKind.splits)
  then obtain s' where s': "commit_delta X env ?d s = (Inr (), s')"
    using commit_accepts [OF assms(2,4) ev] assms(7,8) by auto
  have "revision ?st + 1 \<le> u64_max" using assms(7) by (simp add: u64_max_def i64_max_def)
  with s' ch have run: "claim_pending X env n i port cert s = claim_reply X env n (i_invite i) cert s'"
    by (simp add: claim_pending_def op_lock_def op_check_def op_then_def u64_checked_add_def Let_def)
  have reg: "registers X i n port ?now ?st (st_state s')"
    using assms(2) i ch s' by (intro commit_registers) (auto simp: store_ok_def)
  then have "cs_audience (st_state s') = cs_audience ?st" by (simp add: registers_def)
  with assms(3) claim_reply_answers [OF assms(1), of s' n env "i_invite i" cert]
    commit_delta_ok [OF assms(2) ev s'] registers_node [OF reg]
  show ?thesis using run reg by (auto simp: store_ok_def)
qed

section \<open>Repeating a claim\<close>

text \<open>What a claim that was answered leaves behind for its own repetition.\<close>

definition claim_settled ::
  "Ext \<Rightarrow> int \<Rightarrow> ClaimRequest \<Rightarrow> EndpointId \<Rightarrow> JoinResult \<Rightarrow> Store \<Rightarrow> bool" where
  "claim_settled X t request n j s \<longleftrightarrow> (\<exists>i port.
     find_by i_id (cl_invite_id (cr_claim request)) (invites (st_state s)) = Some i \<and>
     i_invite i = jt_invite (cr_token request) \<and> i_state i = Claimed \<and>
     i_claimed_by i = Some (id_to_string X n) \<and>
     qad_offer X (st_relay_ca s) t (inv_kind (i_invite i)) port (cl_relay_tls_csr (cr_claim request))
       (jr_relay_tls_certificate_der j) \<and> cl_relay_qad_port (cr_claim request) = port \<and>
     jr_name j = inv_name (i_invite i) \<and> jr_kind j = inv_kind (i_invite i) \<and>
     (\<forall>r. find_by r_endpoint_id (id_to_string X n) (relays (st_state s)) = Some r \<longrightarrow> r_qad_port r = port) \<and>
     (\<exists>now m. signed_map X (st_state s) (st_key s) now n = Inr m))"

text \<open>What the CA signed at time \<open>t\<close> it also signs with the dates of time \<open>t'\<close>.\<close>

definition resigns :: "Ext \<Rightarrow> Issuer \<Rightarrow> int \<Rightarrow> int \<Rightarrow> bool" where
  "resigns X ca t t' \<longleftrightarrow> (\<forall>csr host. is_ok (csr_signed_by X ca csr (relay_cert_params host t)) \<longrightarrow>
     is_ok (csr_signed_by X ca csr (relay_cert_params host t')))"

lemma qad_offer_again:
  assumes "qad_offer X ca t kind port csr cert" "resigns X ca t t'"
  shows "\<exists>cert'. qad_offer X ca t' kind port csr cert'"
proof (cases csr)
  case (Some request)
  with assms(1) obtain url p u host sans c where o: "kind = IKRelay url" "port = Some p" "0 < p" "length request \<le> 16384"
    "url_parse X url = Inr u" "u_host u = Some host" "csr_sans X request = Inr sans" "cert_sans X host = Inr sans"
    "csr_signed_by X ca request (relay_cert_params host t) = Inr c"
    by (auto simp: qad_offer_def relay_cert_params_def)
  with assms(2) obtain c' where "csr_signed_by X ca request (relay_cert_params host t') = Inr c'"
    by (auto simp: resigns_def is_ok_iff)
  with o(1-8) Some show ?thesis by (auto simp: qad_offer_def relay_cert_params_def)
qed (use assms(1) in \<open>auto simp: qad_offer_def\<close>)

lemma claim_again:
  assumes "claim_settled X t request n j s" "is_ok (JoinToken_verify X (cr_token request))"
    and "ClaimRequest_verify X request = Inr n" "cl_endpoint_id (cr_claim request) = id_to_string X n"
    and "env_admits env" "check_time (cl_issued_at (cr_claim request)) (env_now env) = Inr ()"
    and "validate_token_for_state X (cr_token request) (st_state s) (ed_public X (st_key s)) (env_now env) = Inr ()"
    and "resigns X (st_relay_ca s) t (env_later env)"
  shows "\<exists>m cert. claim X env request s = (Inr (j\<lparr>jr_map := m, jr_relay_tls_certificate_der := cert\<rparr>), s) \<and>
    signed_map X (st_state s) (st_key s) (env_later env) n = Inr m \<and>
    qad_offer X (st_relay_ca s) (env_later env) (jr_kind j) (cl_relay_qad_port (cr_claim request))
      (cl_relay_tls_csr (cr_claim request)) cert"
proof -
  obtain i port now m where h: "find_by i_id (cl_invite_id (cr_claim request)) (invites (st_state s)) = Some i"
    "i_state i = Claimed" "i_claimed_by i = Some (id_to_string X n)"
    "qad_offer X (st_relay_ca s) t (inv_kind (i_invite i)) port (cl_relay_tls_csr (cr_claim request))
       (jr_relay_tls_certificate_der j)" "cl_relay_qad_port (cr_claim request) = port"
    "jr_name j = inv_name (i_invite i)" "jr_kind j = inv_kind (i_invite i)"
    "\<forall>r. find_by r_endpoint_id (id_to_string X n) (relays (st_state s)) = Some r \<longrightarrow> r_qad_port r = port"
    "signed_map X (st_state s) (st_key s) now n = Inr m"
    using assms(1) by (auto simp: claim_settled_def)
  obtain m' where m: "signed_map X (st_state s) (st_key s) (env_later env) n = Inr m'"
    using h(9) by (auto simp: signed_map_def)
  obtain cert where cert: "qad_offer X (st_relay_ca s) (env_later env) (inv_kind (i_invite i)) port
      (cl_relay_tls_csr (cr_claim request)) cert"
    using qad_offer_again [OF h(4) assms(8)] by blast
  have "claim X env request s = claim_reply X env n (i_invite i) cert s"
    using h(1-3,5,8) assms(2-7) cert [unfolded qad_offer_iff]
    by (auto simp: claim_def claim_mutation_def op_check_def op_lock_def Let_def
        run_mutation_def env_admits_def is_ok_iff split: option.splits)
  with m cert h(5,6,7) show ?thesis
    by (intro exI [of _ m'] exI [of _ cert]) (cases j; simp add: claim_reply_def op_check_def op_lock_def op_ok_def)
qed

lemma commit_relay_ca: "commit_delta X env d s = (Inr (), s') \<Longrightarrow> st_relay_ca s' = st_relay_ca s"
  by (auto simp: commit_delta_def Let_def split: sum.splits prod.splits)

lemma wp_claim_reply_map:
  "(\<And>e. P (Inl e) s) \<Longrightarrow> (\<And>m. signed_map X (st_state s) (st_key s) (env_later env) n = Inr m \<Longrightarrow>
     P (Inr \<lparr>jr_name = inv_name i, jr_kind = inv_kind i, jr_map = m,
       jr_relay_tls_certificate_der = cert\<rparr>) s) \<Longrightarrow>
   op_wp (claim_reply X env n i cert) P s"
  unfolding claim_reply_def by (intro wp_lock wp_check wp_ok) simp_all

lemma claim_pending_settles:
  assumes "state_ok (st_state s)" "i_invite i = jt_invite (cr_token request)"
    and "find_by i_id (cl_invite_id (cr_claim request)) (invites (st_state s)) = Some i"
    and "cl_relay_qad_port (cr_claim request) = port"
    and "qad_offer X (st_relay_ca s) t (inv_kind (i_invite i)) port (cl_relay_tls_csr (cr_claim request)) cert"
    and "(\<exists>u. inv_kind (i_invite i) = IKRelay u) \<or>
      id_to_string X n \<notin> r_endpoint_id ` set (relays (st_state s))"
  shows "op_wp (claim_pending X env n i port cert) (\<lambda>r s'. \<forall>j. r = Inr j \<longrightarrow>
    st_key s' = st_key s \<and> claim_settled X t request n j s') s"
  unfolding claim_pending_def Let_def
proof (intro wp_lock wp_check wp_commit_then, goal_cases)
  case (4 g ch s')
  have i: "i \<in> set (invites (st_state s))" "i_id i = cl_invite_id (cr_claim request)"
    using assms(3) by (auto dest: find_by_key)
  have reg: "registers X i n port (env_now env) (st_state s) (st_state s')"
    using 4 assms(1) i(1) by (intro commit_registers) auto
  have "\<forall>r. find_by r_endpoint_id (id_to_string X n) (relays (st_state s')) = Some r \<longrightarrow> r_qad_port r = port"
    using 4(2) assms(1,6) commit_state [OF 4(3)]
    by (auto simp: claimed_node_change_iff after_delta_changes relay_table.find_put state_ok_def tables_ok_distinct(3)
        find_by_None [symmetric] relay_row_def split: InviteKind.splits)
  then show ?case
    using reg i(2) assms(2,4,5) commit_key [OF 4(3)] commit_relay_ca [OF 4(3)]
    by (intro wp_claim_reply_map) (auto simp: claim_settled_def registers_def claimed_def)
qed simp_all

lemma claim_settles:
  assumes "state_ok (st_state s)" "ClaimRequest_verify X request = Inr n"
    and "cl_endpoint_id (cr_claim request) = id_to_string X n"
    and "(\<exists>u. inv_kind (jt_invite (cr_token request)) = IKRelay u) \<or>
      id_to_string X n \<notin> r_endpoint_id ` set (relays (st_state s))"
  shows "op_wp (claim X env request) (\<lambda>r s'. \<forall>j. r = Inr j \<longrightarrow> st_key s' = st_key s \<and>
    claim_settled X (env_later env) request n j s' \<and> is_ok (JoinToken_verify X (cr_token request)) \<and>
    validate_token_for_state X (cr_token request) (st_state s) (ed_public X (st_key s)) (env_now env) = Inr ()) s"
  unfolding claim_def claim_mutation_def Let_def
proof (intro wp_lock wp_check wp_run_mutation wp_invite_state wp_if wp_fail, goal_cases)
  case (10 u c n' w v i port cert)
  then have same: "i_invite i = jt_invite (cr_token request)" "n' = n" "cl_relay_qad_port (cr_claim request) = port"
    using claim_record [of X request "st_state s" _ _ _ i n] assms(2) by (auto dest: validate_relay_claim_same)
  moreover have "qad_offer X (st_relay_ca s) (env_later env) (inv_kind (i_invite i)) port (cl_relay_tls_csr (cr_claim request)) cert"
    using 10(7,8) same(3) by (simp add: qad_offer_iff)
  ultimately show ?case
    using 10 claim_pending_settles [OF assms(1), of i request port X "env_later env" cert n env] assms(4)
    by (auto elim!: wp_mono simp: is_ok_iff)
next
  case (12 u c n' w v i port cert)
  then have same: "i_invite i = jt_invite (cr_token request)" "n' = n" "cl_relay_qad_port (cr_claim request) = port"
    using claim_record [of X request "st_state s" _ _ _ i n] assms(2) by (auto dest: validate_relay_claim_same)
  moreover have "qad_offer X (st_relay_ca s) (env_later env) (inv_kind (i_invite i)) port (cl_relay_tls_csr (cr_claim request)) cert"
    using 12(7,8) same(3) by (simp add: qad_offer_iff)
  ultimately show ?case
    using 12 assms(3) by (intro wp_claim_reply_map) (auto simp: is_ok_iff claim_settled_def)
qed simp_all

section \<open>A sample claim\<close>

definition bob_invite :: InviteRecord where
  "bob_invite = pending (sample_invitation ''i1'' ''bob'' IKClient)"

definition bob_request :: ClaimRequest where
  "bob_request = ClaimRequest_sign ref_ext
     (JoinToken_new ref_ext (i_invite bob_invite) ''s'' control_key) bob_key 1000 ''n''"

lemma bob_request_qad: "bob_request = ClaimRequest_sign_with_relay_qad ref_ext
    (JoinToken_new ref_ext (i_invite bob_invite) ''s'' control_key) bob_key 1000 ''n'' None None"
  by (simp add: bob_request_def ClaimRequest_sign_def)

lemma bob_id: "id_to_string ref_ext (ed_public ref_ext bob_key) = ''xae''"
  "id_to_string ref_ext (ed_public ref_ext control_key) = ''xaj''"
  using key_ids by (simp_all add: key_id_def)

lemma bob_claimable: "claimable ref_ext control_key 1000 sample_state bob_invite ''s'' (ed_public ref_ext bob_key)"
  by (simp add: claimable_def bob_invite_def sample_state_def pending_def sample_invitation_def
      CONTROL_PROTOCOL_VERSION_def bob_id seat_free_def alice_def)

lemma no_offer: "qad_offer X ca now kind None None None"
  by (simp add: qad_offer_def)

lemma sample_env_admits: "env_admits (sample_env\<lparr>env_io := b, env_now := t\<rparr>)" "env_admits sample_env"
  by (simp_all add: env_admits_def verification_permit_def admitted_def sample_env_def ensure_def)

lemma bob_joins:
  "\<exists>m s'. claim ref_ext sample_env bob_request sample_store =
     (Inr \<lparr>jr_name = ''bob'', jr_kind = IKClient, jr_map = m, jr_relay_tls_certificate_der = None\<rparr>, s') \<and>
   s' \<noteq> sample_store"
proof -
  have "claim ref_ext sample_env bob_request sample_store =
      claim_pending ref_ext sample_env (ed_public ref_ext bob_key) bob_invite None None sample_store"
    using claim_reaches_pending [OF _ _ sample_env_admits(2) _ _ no_offer, of ref_ext sample_store bob_invite "''s''" bob_key 1000 "''n''"]
      bob_claimable
    by (simp add: sample_bounds bob_request_qad i64_abs_diff_def)
  moreover obtain m s' where "claim_pending ref_ext sample_env (ed_public ref_ext bob_key) bob_invite None None
      sample_store = (Inr \<lparr>jr_name = inv_name (i_invite bob_invite), jr_kind = inv_kind (i_invite bob_invite),
        jr_map = m, jr_relay_tls_certificate_der = None\<rparr>, s')"
    "registers ref_ext bob_invite (ed_public ref_ext bob_key) None (env_now sample_env)
       (st_state sample_store) (st_state s')"
    using claim_pending_succeeds [OF _ sample_store_ok, of sample_env bob_invite "''s''"
        "ed_public ref_ext bob_key" None None] bob_claimable
    by (auto simp: sample_bounds)
  ultimately show ?thesis
    by (auto simp: bob_invite_def pending_def sample_invitation_def registers_def)
qed

lemma claim_pending_needs_disk:
  "\<not> env_io env \<Longrightarrow> \<not> is_ok (fst (claim_pending X env n i port cert s))"
  by (auto simp: claim_pending_def op_lock_def op_check_def op_then_def Let_def is_ok_iff commit_delta_def
      apply_delta_sync_def split: sum.splits prod.splits)

text \<open>The same network with an invitation for a second relay, which offers QAD.\<close>

definition relay_invite :: InviteRecord where
  "relay_invite = pending (sample_invitation ''i3'' ''relay-2'' (IKRelay ''relay2''))"

definition relay_store :: Store where
  "relay_store = sample_store\<lparr>st_state := sample_state\<lparr>invites := invites sample_state @ [relay_invite]\<rparr>,
     st_db := sample_db\<lparr>db_invitations := db_invitations sample_db @ [invitation_row ref_ext None relay_invite]\<rparr>\<rparr>"

lemma relay_store_ok: "store_ok ref_ext relay_store"
proof -
  have "state_ok (sample_state\<lparr>invites := invites sample_state @ [relay_invite]\<rparr>)"
    by (simp add: state_ok_def tables_ok_def tables_ok_defs sample_state_def alice_def box_def relay_invite_def
        relay_one_def keys_distinct_def invite_ok_def pending_def sample_invitation_def edge_slot_def)
  moreover have "agrees ref_ext (st_db relay_store) (st_state relay_store)"
    by (simp add: relay_store_def relay_invite_def agrees_def coherent_def
        tables_coherent_def metadata_coherent_def request_ids_unique_def sample_db_def
        sample_state_def keys_distinct_def invitation_row_def erase_owner_def
        pending_def sample_invitation_def active_rows_def provisioner_of_def Collect_conv_if)
  ultimately show ?thesis by (simp add: store_ok_def relay_store_def)
qed

lemma relay_claimable:
  "claimable ref_ext control_key 1000 (st_state relay_store) relay_invite ''s'' (ed_public ref_ext bob_key)"
  by (simp add: claimable_def relay_invite_def relay_store_def sample_state_def pending_def sample_invitation_def
      CONTROL_PROTOCOL_VERSION_def bob_id seat_free_def relay_one_def)

lemma relay_offer:
  "qad_offer ref_ext ca 1000 (IKRelay ''relay2'') (Some 443) (Some (string_bytes ''relay2'')) (Some (string_bytes ''relay2'' @ [104]))"
proof -
  have "csr_sans ref_ext (string_bytes ''relay2'') = Inr [''relay2'']" "cert_sans ref_ext ''relay2'' = Inr [''relay2'']"
    "u_host (projr (url_parse ref_ext ''relay2'')) = Some ''relay2''"
    by (simp_all add: ref_ext_def)
  then show ?thesis by (auto simp: qad_offer_def ref_ext_def)
qed

lemma bob_verifies: "ClaimRequest_verify ref_ext bob_request = Inr (ed_public ref_ext bob_key)"
  by (simp add: bob_request_def ClaimRequest_sign_def ClaimRequest_sign_verify)

section \<open>Properties\<close>

text \<open>C1: Enrolment is authorized and exact.  A claim changes the store only when its token is
  Control's own invitation with the right secret, unexpired and still pending, and the
  claim is freshly signed by the joining identity.  The invitation is then marked as
  claimed by that identity, and one row is added to the table of the invitation's kind, whose name and
  identity were free: with the invitation's name, owner or URL, the claimed port, a generation equal to the
  new revision and a lifetime of seven days from now.  Every other row of every table, the other invitations,
  the provisioners and the revocations stay as they were.\<close>

theorem claim_enrols_invited:
  assumes "store_ok X s" "claim X env request s = (r, s')" "s' \<noteq> s"
  shows "\<exists>n i. claim_allowed X (st_key s) (env_now env) request n (st_state s) i \<and>
    registers X i n (cl_relay_qad_port (cr_claim request)) (env_now env) (st_state s) (st_state s')"
  using claim_outcome [of s X env request] assms by (auto simp: op_wp_def store_ok_def)

theorem claim_enrols_invited_witness:
  "\<exists>n i s'. snd (claim ref_ext sample_env bob_request sample_store) = s' \<and> s' \<noteq> sample_store \<and>
    claim_allowed ref_ext control_key 1000 bob_request n sample_state i \<and>
    registers ref_ext i n None 1000 sample_state (st_state s')"
proof -
  obtain j s' where s': "claim ref_ext sample_env bob_request sample_store = (Inr j, s')" "s' \<noteq> sample_store"
    using bob_joins by blast
  with claim_enrols_invited [OF sample_store_ok s'] show ?thesis
    by (auto simp: sample_bounds bob_request_qad sign_claim_fields)
qed

text \<open>C4: Claims are all or nothing.  A claim that is answered with an error, whatever the
  error, leaves the store exactly as it was: in particular no node is registered and no
  invitation used up by a claim whose answer cannot be signed.\<close>

theorem claim_error_changes_nothing:
  assumes "id_laws X" "store_ok X s" "cs_audience (st_state s) \<noteq> []"
    and "claim X env request s = (Inl e, s')"
  shows "s' = s"
  using claim_answers [OF assms(1-3), of env request] assms(4) by (simp add: op_wp_def is_ok_iff)

theorem claim_error_changes_nothing_witness:
  "\<exists>e. claim ref_ext (sample_env\<lparr>env_io := False, env_now := 1000\<rparr>) bob_request sample_store =
     (Inl e, sample_store)"
proof -
  let ?env = "sample_env\<lparr>env_io := False, env_now := 1000\<rparr>"
  obtain r s' where rs: "claim ref_ext ?env bob_request sample_store = (r, s')" by fastforce
  have "\<not> is_ok (fst (claim ref_ext ?env bob_request sample_store))"
    using claim_reaches_pending [OF _ _ sample_env_admits(1) [of 1000 False] _ _ no_offer, of ref_ext sample_store bob_invite "''s''" bob_key 1000 "''n''"]
      bob_claimable claim_pending_needs_disk [of ?env]
    by (simp add: sample_bounds bob_request_qad i64_abs_diff_def)
  then obtain e where "claim ref_ext ?env bob_request sample_store = (Inl e, s')"
    using rs by (cases r) (auto simp: is_ok_iff)
  moreover from this have "s' = sample_store"
    by (rule claim_error_changes_nothing [rotated 3]) (simp_all add: sample_store_ok sample_bounds)
  ultimately show ?thesis by blast
qed

text \<open>C16: An invited node can join.  For a pending, unexpired invitation of this Control,
  the claim a node signs with its join token succeeds: when the queues admit it, the disk
  accepts the write, the name and identity are free (for an edge, its owner registered) and the clocks are
  within five minutes of each other, the answer is the invitation's name and kind with a signed map, and the
  node is registered.  A claim may offer no QAD; a relay's claim may carry a port with a certificate request
  of at most 16 KiB for the host of its URL, and is then answered with the certificate the CA signs, valid
  from a day before to 825 days after.  The revision must still fit the 63 bits of the database.\<close>

theorem invited_node_joins:
  assumes "sig_laws X" "id_laws X" "store_ok X s" "cs_audience (st_state s) \<noteq> []"
    and "env_admits env" "env_io env"
    and "claimable X (st_key s) (env_now env) (st_state s) i secret (ed_public X key)"
    and "i64_abs_diff t (env_now env) \<le> 300"
    and "env_now env < lifetime_from (env_now env)" "int (revision (st_state s)) < i64_max"
    and "int (relay_revision (st_state s)) \<le> i64_max"
    and "qad_offer X (st_relay_ca s) (env_later env) (inv_kind (i_invite i)) port csr cert"
    and "\<forall>p. port = Some p \<longrightarrow> p \<le> 65535"
  shows "\<exists>m s'. claim X env (ClaimRequest_sign_with_relay_qad X
      (JoinToken_new X (i_invite i) secret (st_key s)) key t nonce port csr) s =
        (Inr \<lparr>jr_name = inv_name (i_invite i), jr_kind = inv_kind (i_invite i), jr_map = m,
           jr_relay_tls_certificate_der = cert\<rparr>, s') \<and>
    registers X i (ed_public X key) port (env_now env) (st_state s) (st_state s')"
proof -
  have "port \<noteq> Some 0" using assms(12) by (auto simp: qad_offer_def)
  from claim_reaches_pending [OF assms(1,2,5,7,8,12), of nonce]
    claim_pending_succeeds [OF assms(2,3,4,6,7,9-11) this assms(13)] show ?thesis by simp
qed

theorem invited_node_joins_witness:
  "(\<exists>m s'. claim ref_ext sample_env (ClaimRequest_sign_with_relay_qad ref_ext
      (JoinToken_new ref_ext (i_invite relay_invite) ''s'' control_key) bob_key 900 ''n'' (Some 443)
      (Some (string_bytes ''relay2''))) relay_store =
        (Inr \<lparr>jr_name = ''relay-2'', jr_kind = IKRelay ''relay2'', jr_map = m,
           jr_relay_tls_certificate_der = Some (string_bytes ''relay2'' @ [104])\<rparr>, s') \<and>
    registers ref_ext relay_invite (ed_public ref_ext bob_key) (Some 443) 1000 (st_state relay_store) (st_state s')) \<and>
   (\<exists>m s'. claim ref_ext sample_env (ClaimRequest_sign ref_ext
      (JoinToken_new ref_ext (i_invite bob_invite) ''s'' control_key) bob_key 900 ''n'') sample_store =
        (Inr \<lparr>jr_name = ''bob'', jr_kind = IKClient, jr_map = m, jr_relay_tls_certificate_der = None\<rparr>, s') \<and>
    registers ref_ext bob_invite (ed_public ref_ext bob_key) None 1000 sample_state (st_state s'))"
proof (rule conjI, goal_cases)
  case 1
  have store: "st_key relay_store = control_key" "cs_audience (st_state relay_store) = ''prod''"
    "revision (st_state relay_store) = 5" "relay_revision (st_state relay_store) = 2"
    "st_relay_ca relay_store = st_relay_ca sample_store"
    by (simp_all add: relay_store_def sample_bounds)
  from invited_node_joins [OF _ _ relay_store_ok _ sample_env_admits(2), of relay_invite "''s''" bob_key 900 "Some 443"
      "Some (string_bytes ''relay2'')" "Some (string_bytes ''relay2'' @ [104])" "''n''"] relay_claimable
    relay_offer [of "st_relay_ca sample_store"]
  show ?case
    by (simp add: sample_bounds store i64_abs_diff_def)
      (simp add: relay_invite_def pending_def sample_invitation_def)
next
  case 2
  from invited_node_joins [OF _ _ sample_store_ok _ sample_env_admits(2) _ _ _ _ _ _ no_offer, of bob_invite "''s''" bob_key 900 "''n''"]
    bob_claimable
  show ?case
    by (simp add: sample_bounds i64_abs_diff_def ClaimRequest_sign_def)
      (simp add: bob_invite_def pending_def sample_invitation_def)
qed

text \<open>C17: Repeating a claim is harmless.  When a claim has been answered, the same request
  sent again while its timestamp and its invitation are still valid is answered with the
  same name and kind and a map signed for the present state, and changes nothing.  A relay that asked for a
  certificate gets one for the same request and host, made anew: its validity counts from the repetition.
  (The identity must not also be registered as a relay when the invitation is for another kind of node, and
  the CA must sign again what it signed before.)\<close>

theorem claim_replay:
  assumes "store_ok X s" "claim X env request s = (Inr j, s')"
    and "ClaimRequest_verify X request = Inr n" "cl_endpoint_id (cr_claim request) = id_to_string X n"
    and "(\<exists>u. inv_kind (jt_invite (cr_token request)) = IKRelay u) \<or>
      id_to_string X n \<notin> r_endpoint_id ` set (relays (st_state s))"
    and "env_admits env'" "check_time (cl_issued_at (cr_claim request)) (env_now env') = Inr ()"
    and "env_now env' \<le> inv_expires_at (jt_invite (cr_token request))"
    and "resigns X (st_relay_ca s') (env_later env) (env_later env')"
  shows "\<exists>m cert. claim X env' request s' = (Inr (j\<lparr>jr_map := m, jr_relay_tls_certificate_der := cert\<rparr>), s') \<and>
    signed_map X (st_state s') (st_key s') (env_later env') n = Inr m \<and>
    qad_offer X (st_relay_ca s') (env_later env) (jr_kind j) (cl_relay_qad_port (cr_claim request))
      (cl_relay_tls_csr (cr_claim request)) (jr_relay_tls_certificate_der j) \<and>
    qad_offer X (st_relay_ca s') (env_later env') (jr_kind j) (cl_relay_qad_port (cr_claim request))
      (cl_relay_tls_csr (cr_claim request)) cert"
proof -
  have set: "st_key s' = st_key s" "claim_settled X (env_later env) request n j s'"
    "is_ok (JoinToken_verify X (cr_token request))"
    "validate_token_for_state X (cr_token request) (st_state s) (ed_public X (st_key s)) (env_now env) = Inr ()"
    using claim_settles [of s X request n env] assms(1-5) by (auto simp: op_wp_def store_ok_def)
  have "st_state s' = st_state s \<or> (\<exists>d. st_state s' = after_delta d (st_state s))"
    using claim_handler.result_cases [OF assms(1,2)] by metis
  then have "cs_audience (st_state s') = cs_audience (st_state s)"
    "cs_public_url (st_state s') = cs_public_url (st_state s)"
    by (auto simp: after_delta_changes)
  then have "validate_token_for_state X (cr_token request) (st_state s') (ed_public X (st_key s')) (env_now env') = Inr ()"
    using set assms(3,8)
    by (auto simp: validate_token_for_state_def claim_settled_def ClaimRequest_verify_def)
  moreover have "qad_offer X (st_relay_ca s') (env_later env) (jr_kind j) (cl_relay_qad_port (cr_claim request))
      (cl_relay_tls_csr (cr_claim request)) (jr_relay_tls_certificate_der j)"
    using set(2) by (auto simp: claim_settled_def)
  ultimately show ?thesis using claim_again [OF set(2,3) assms(3,4,6,7) _ assms(9)] by blast
qed

theorem claim_replay_witness:
  "\<exists>j s' m cert. claim ref_ext sample_env bob_request sample_store = (Inr j, s') \<and> s' \<noteq> sample_store \<and>
    claim ref_ext (sample_env\<lparr>env_io := True, env_now := 1200\<rparr>) bob_request s' =
      (Inr (j\<lparr>jr_map := m, jr_relay_tls_certificate_der := cert\<rparr>), s')"
proof -
  obtain j s' where s': "claim ref_ext sample_env bob_request sample_store = (Inr j, s')" "s' \<noteq> sample_store"
    using bob_joins by blast
  let ?env = "sample_env\<lparr>env_io := True, env_now := 1200\<rparr>"
  have "resigns ref_ext (st_relay_ca s') (env_later sample_env) (env_later ?env)"
    by (simp add: resigns_def)
  from claim_replay [OF sample_store_ok s'(1) bob_verifies _ _ sample_env_admits(1) _ _ this] s' show ?thesis
    by (simp add: sample_bounds bob_request_qad sign_claim_fields check_time_def
        ensure_def CLOCK_SKEW_SECS_def i64_abs_diff_def JoinToken_new_def bob_id sample_state_def
        relay_one_def bob_invite_def pending_def sample_invitation_def) blast
qed

end
