(* ===== verification/Control_Owner.thy ===== *)
theory Control_Owner
  imports Control_Claims
begin

text \<open>
  What a client may do to its own edges: invite them and remove them, and that a removal
  revokes the credential the edge holds.
\<close>

section \<open>Removing an edge\<close>

definition removes_edge :: "EdgeRecord \<Rightarrow> ControlState \<Rightarrow> ControlState \<Rightarrow> bool" where
  "removes_edge e st st' \<longleftrightarrow> set (edges st') = set (edges st) - {e} \<and>
     (\<exists>r \<in> set (revocations st'). rv_endpoint_id r = e_endpoint_id e \<and> e_generation e \<le> rv_generation r \<and>
        e_expires_at e \<le> rv_expires_at r \<and> rv_revision r = relay_revision st') \<and>
     clients st' = clients st \<and> relays st' = relays st \<and> invites st' = invites st \<and>
     provisioners st' = provisioners st \<and> revision st' = revision st + 1 \<and>
     relay_revision st' = relay_revision st + 1"

lemma commit_relay_revision:
  assumes "commit_delta X env (revocation cs) s = (Inr (), s')"
  shows "int (Suc (relay_revision (st_state s))) \<le> i64_max"
  using assms
proof (cases rule: commit_delta_cases)
  case committed
  then show ?thesis by (auto simp: durable_write_def apply_delta_sync_def Let_def)
qed simp

lemma revocation_record_next:
  "int (Suc (relay_revision st)) \<le> i64_max \<Longrightarrow> rv_revision (revocation_record st k g x) = relay_revision st + 1"
  by (simp add: revocation_record_def Let_def u64_saturating_add_def u64_max_def i64_max_def split: option.splits)

lemma commit_removes_edge:
  assumes "state_ok (st_state s)" "e \<in> set (edges (st_state s))"
    and "commit_delta X env (revocation [DeleteEdge (e_endpoint_id e),
      revocation_change (st_state s) (e_endpoint_id e) (e_generation e) (e_expires_at e)]) s = (Inr (), s')"
  shows "removes_edge e (st_state s) (st_state s')"
proof -
  have d: "keys_distinct e_endpoint_id (edges (st_state s))"
    "keys_distinct rv_endpoint_id (revocations (st_state s))"
    using assms(1) by (auto simp: state_ok_def dest: tables_ok_distinct)
  have "{x \<in> set (edges (st_state s)). e_endpoint_id x \<noteq> e_endpoint_id e} = set (edges (st_state s)) - {e}"
    using edge_table.rows_key_unique [OF d(1) _ assms(2)] by auto
  moreover have "revocation_record (st_state s) (e_endpoint_id e) (e_generation e) (e_expires_at e) \<in>
      set (upsert_by rv_endpoint_id (revocation_record (st_state s) (e_endpoint_id e) (e_generation e) (e_expires_at e))
        (revocations (st_state s)))"
    by (simp add: revocation_table.rows_put d(2))
  moreover have "rv_revision (revocation_record (st_state s) (e_endpoint_id e) (e_generation e) (e_expires_at e)) =
      relay_revision (st_state s) + 1"
    using commit_relay_revision [OF assms(3)] by (simp add: revocation_record_next)
  ultimately show ?thesis
    by (simp add: removes_edge_def commit_state [OF assms(3)] after_delta_changes revocation_change_def
        set_delete_by)
      (erule bexI [rotated], simp add: revocation_record_covers)
qed

lemma removed_edge_map:
  assumes "store_ok X s" "e \<in> set (edges (st_state s))"
    and "commit_delta X env (revocation [DeleteEdge (e_endpoint_id e),
      revocation_change (st_state s) (e_endpoint_id e) (e_generation e) (e_expires_at e)]) s = (Inr (), s')"
    and "c \<in> set (clients (st_state s))" "c_endpoint_id c = id_to_string X n"
    and "id_laws X" "cs_audience (st_state s) \<noteq> []"
  shows "\<exists>m. signed_map X (st_state s') (st_key s') now n = Inr m"
proof -
  have "store_ok X s'"
    using commit_delta_ok [OF assms(1) control_event.remove_edge [OF assms(2)] assms(3)] .
  moreover have "removes_edge e (st_state s) (st_state s')"
    using assms(1-3) by (intro commit_removes_edge) (auto simp: store_ok_def)
  moreover have "cs_audience (st_state s') = cs_audience (st_state s)"
    using commit_state [OF assms(3)] by (simp add: after_delta_changes)
  ultimately show ?thesis
    using assms(4-7) by (intro signed_map_succeeds)
      (auto simp: store_ok_def removes_edge_def node_registered_def intro: image_eqI [of _ _ c])
qed

lemma client_edge_remove_outcome:
  assumes "store_ok X s"
  shows "op_wp (client_edge_remove X env q) (\<lambda>r s'. s' = s \<or> (\<exists>n e. EdgeRemoveRequest_verify X q = Inr n \<and>
    id_to_string X n \<in> c_endpoint_id ` set (clients (st_state s)) \<and> e \<in> set (edges (st_state s)) \<and>
    e_owner_id e = id_to_string X n \<and> e_name e = err_name q \<and> e_endpoint_id e = err_endpoint_id q \<and>
    removes_edge e (st_state s) (st_state s') \<and>
    (id_laws X \<and> cs_audience (st_state s) \<noteq> [] \<longrightarrow> is_ok r))) s"
  (is "op_wp _ (\<lambda>r s'. s' = s \<or> ?P r s') s")
proof -
  have post: "?P r s'" if h: "EdgeRemoveRequest_verify X q = Inr n"
    "list_ex (\<lambda>c. c_endpoint_id c = id_to_string X n) (clients (st_state s))"
    "List.find (\<lambda>e. e_owner_id e = id_to_string X n \<and> e_name e = err_name q \<and>
         e_endpoint_id e = err_endpoint_id q) (edges (st_state s)) = Some e"
    "commit_delta X env (revocation [DeleteEdge (e_endpoint_id e),
      revocation_change (st_state s) (e_endpoint_id e) (e_generation e) (e_expires_at e)]) s = (Inr (), s')"
    "is_ok r \<or> (\<exists>x. signed_map X (st_state s') (st_key s') (env_later env) n = Inl x)" for n e s' r
  proof -
    have e: "e \<in> set (edges (st_state s))" "e_owner_id e = id_to_string X n" "e_name e = err_name q"
      "e_endpoint_id e = err_endpoint_id q"
      using h(3) by (auto dest!: find_member)
    obtain c where c: "c \<in> set (clients (st_state s))" "c_endpoint_id c = id_to_string X n"
      using h(2) by (auto simp: list_ex_iff)
    have "is_ok r" if "id_laws X" "cs_audience (st_state s) \<noteq> []"
      using removed_edge_map [OF assms e(1) h(4) c that, of "env_later env"] h(5) by auto
    moreover have "removes_edge e (st_state s) (st_state s')"
      using assms e(1) h(4) by (intro commit_removes_edge) (auto simp: store_ok_def)
    ultimately show ?thesis using e c h(1) by (metis imageI)
  qed
  show ?thesis
    unfolding client_edge_remove_def client_edge_remove_mutation_def Let_def
  proof (intro wp_lock wp_check wp_run_mutation wp_commit_then wp_ok, goal_cases)
    case (11 u n v w x a c e s' err)
    then show ?case using post [of n e s' "Inl err"] by (auto simp: map_err_Inl simp del: not_ex)
  next
    case (12 u n v w x a c e s' m)
    then show ?case using post [of n e s' "Inr m"] by (simp add: is_ok_iff)
  qed simp_all
qed

section \<open>Sample requests\<close>

lemma alice_id: "id_to_string ref_ext (ed_public ref_ext alice_key) = ''xab''"
  using key_ids(3) by (simp add: key_id_def)

lemma alice_removes_box:
  "\<exists>q s'. EdgeRemoveRequest_sign ref_ext alice_key ''prod'' ''n'' 1000 ''box'' ''xac'' = Inr q \<and>
    snd (client_edge_remove ref_ext sample_env q sample_store) = s' \<and> st_key s' = control_key \<and>
    st_state s' = sample_state\<lparr>edges := [], revocations := [\<lparr>rv_endpoint_id = ''xac'', rv_generation = 4,
      rv_expires_at = 605700, rv_revision = 3\<rparr>], revision := 6, relay_revision := 3\<rparr>"
proof -
  let ?d = "revocation [DeleteEdge ''xac'', revocation_change sample_state ''xac'' 4 605700]"
  have "id_parse ref_ext ''xac'' = Inr (ed_public ref_ext box_key)"
    using key_ids(4) id_parse_to_string [of ref_ext "ed_public ref_ext box_key"] by (simp add: key_id_def)
  then obtain q where q: "EdgeRemoveRequest_sign ref_ext alice_key ''prod'' ''n'' 1000 ''box'' ''xac'' = Inr q"
    "err_audience q = ''prod''" "err_nonce q = ''n''" "err_issued_at q = 1000" "err_name q = ''box''"
    "err_endpoint_id q = ''xac''"
    by (auto simp: EdgeRemoveRequest_sign_def Let_def)
  have v: "EdgeRemoveRequest_verify ref_ext q = Inr (ed_public ref_ext alice_key)"
    using EdgeRemoveRequest_sign_verify [OF _ _ q(1)] by simp
  have "control_event 0 sample_state ?d"
    using remove_edge [of box sample_state 0] by (simp add: sample_state_def box_def)
  then obtain s' where s': "commit_delta ref_ext sample_env ?d sample_store = (Inr (), s')"
    "st_state s' = after_delta ?d sample_state"
    using commit_accepts [OF sample_store_ok, of sample_env 0 ?d]
    by (auto simp: sample_bounds ports_u16_def revocation_change_def)
  have "snd (op_lock (\<lambda>st. op_check (map_err api_internal (f st)) op_ok) s') = s'" for f
    by (simp add: op_lock_def op_check_def op_ok_def split: sum.split)
  then have "snd (client_edge_remove ref_ext sample_env q sample_store) = s'"
    using s'(1) by (simp add: client_edge_remove_def client_edge_remove_mutation_def op_lock_def op_check_def
        op_then_def run_mutation_def v q verification_permit_def admitted_def ensure_def check_time_def
        i64_abs_diff_def validate_name_def name_char_def ascii_alphanumeric_def alice_id sample_env_def
        sample_store_def sample_state_def alice_def box_def Let_def op_ok_def split: sum.split)
  with q(1) s'(2) commit_key [OF s'(1)] show ?thesis
    by (simp add: after_delta_changes revocation_change_def delete_by_def sample_state_def box_def sample_bounds
        revocation_record_def u64_saturating_add_def u64_max_def)
qed

lemma alice_invites_desk:
  "\<exists>s'. snd (client_edge_invite ref_ext sample_env
      (EdgeInviteRequest_sign ref_ext alice_key ''prod'' ''r9'' 1000 ''desk'' 60) sample_store) = s' \<and>
    length (invites (st_state s')) = 3"
proof -
  let ?q = "EdgeInviteRequest_sign ref_ext alice_key ''prod'' ''r9'' 1000 ''desk'' 60"
  have q: "eir_audience ?q = ''prod''" "eir_request_id ?q = ''r9''" "eir_issued_at ?q = 1000"
    "eir_name ?q = ''desk''" "eir_ttl_secs ?q = 60"
    "EdgeInviteRequest_verify ref_ext ?q = Inr (ed_public ref_ext alice_key)"
    by (simp_all add: EdgeInviteRequest_sign_verify) (simp_all add: EdgeInviteRequest_sign_def Let_def)
  obtain res i where b: "build_invite ref_ext control_key sample_state 1000 ''fresh'' ''desk'' (IKEdge ''xab'') 60
      ''token'' = Inr (res, i)" "i_id i = ''fresh''" "inv_kind (i_invite i) = IKEdge ''xab''"
    by (simp add: build_invite_def ensure_def i64_checked_add_def i64_max_def i64_min_def Let_def)
  let ?i = "i\<lparr>i_request_id := Some ''r9'', i_managed_by := Some ''xah''\<rparr>"
  have "control_event 0 sample_state (topology [PutInvite ?i])"
    using build_invite_pending [OF b(1)] by (intro control_event.invite) simp_all
  then obtain s' where s': "commit_delta ref_ext sample_env (topology [PutInvite ?i]) sample_store = (Inr (), s')"
    "st_state s' = after_delta (topology [PutInvite ?i]) sample_state"
    using commit_accepts [OF sample_store_ok, of sample_env 0 "topology [PutInvite ?i]"]
    by (auto simp: sample_store_def sample_env_def sample_state_def i64_max_def ports_u16_def
        invite_storable_def b pending_def alice_def)
  then have "snd (client_edge_invite ref_ext sample_env ?q sample_store) = s'"
    using b by (simp add: client_edge_invite_def client_edge_invite_mutation_def op_lock_def op_check_def
        op_then_def run_mutation_def q verification_permit_def admitted_def ensure_def check_time_def
        i64_abs_diff_def validate_name_def name_char_def ascii_alphanumeric_def alice_id sample_env_def
        sample_store_def sample_state_def alice_def box_def Let_def op_ok_def validate_invite_name_def
        pending_def sample_invitation_def)
  with s'(2) b show ?thesis
    by (simp add: after_delta_changes sample_state_def pending_def sample_invitation_def)
qed

section \<open>Properties\<close>

text \<open>C25: A client removes only its own edges, and removal revokes.  A removal request
  changes the store only when it is signed by a registered client and names, by name and
  identity, an edge that this client owns.  Then exactly that edge is gone, a revocation
  record covers the generation and the expiry of the credential it holds, both revisions
  advance so that nodes and relays are told, and nothing else changes; and the request is
  answered with a map, not with an error.\<close>

theorem client_removes_own_edge:
  assumes "store_ok X s" "client_edge_remove X env q s = (r, s')" "s' \<noteq> s"
  shows "\<exists>n e. EdgeRemoveRequest_verify X q = Inr n \<and>
    id_to_string X n \<in> c_endpoint_id ` set (clients (st_state s)) \<and> e \<in> set (edges (st_state s)) \<and>
    e_owner_id e = id_to_string X n \<and> e_name e = err_name q \<and> e_endpoint_id e = err_endpoint_id q \<and>
    removes_edge e (st_state s) (st_state s') \<and>
    (id_laws X \<and> cs_audience (st_state s) \<noteq> [] \<longrightarrow> is_ok r)"
  using client_edge_remove_outcome [OF assms(1), of env q] assms(2,3) by (simp add: op_wp_def)

theorem client_removes_own_edge_witness:
  "\<exists>q s' e. EdgeRemoveRequest_sign ref_ext alice_key ''prod'' ''n'' 1000 ''box'' ''xac'' = Inr q \<and>
    snd (client_edge_remove ref_ext sample_env q sample_store) = s' \<and>
    e \<in> set (edges sample_state) \<and> removes_edge e sample_state (st_state s')"
proof -
  obtain q s' where q: "EdgeRemoveRequest_sign ref_ext alice_key ''prod'' ''n'' 1000 ''box'' ''xac'' = Inr q"
    "snd (client_edge_remove ref_ext sample_env q sample_store) = s'" "edges (st_state s') = []"
    using alice_removes_box by force
  then have "s' \<noteq> sample_store" by (auto simp: sample_store_def sample_state_def)
  with q client_removes_own_edge [OF sample_store_ok, of sample_env q "fst (client_edge_remove ref_ext sample_env q sample_store)" s']
  show ?thesis by (auto simp: sample_bounds)
qed

text \<open>A client invites edges for itself only.  An edge invitation request changes the
  store only when it is signed by a registered client and its request id is new.  Then one
  pending invitation is added: for an edge owned by that client, with the requested name,
  under the provisioner that manages the client; nothing else changes but the revision.\<close>

theorem client_invites_own_edge:
  assumes "client_edge_invite X env q s = (r, s')" "s' \<noteq> s" "token_fresh env (st_state s)"
  shows "\<exists>n c i. EdgeInviteRequest_verify X q = Inr n \<and> c \<in> set (clients (st_state s)) \<and>
    c_endpoint_id c = id_to_string X n \<and>
    Some (eir_request_id q) \<notin> i_request_id ` set (invites (st_state s)) \<and>
    i_state i = Pending \<and> inv_kind (i_invite i) = IKEdge (id_to_string X n) \<and>
    inv_name (i_invite i) = eir_name q \<and> i_managed_by i = c_managed_by c \<and>
    i_request_id i = Some (eir_request_id q) \<and>
    st_state s' = (st_state s)\<lparr>invites := invites (st_state s) @ [i], revision := revision (st_state s) + 1\<rparr>"
    (is "?P s'")
proof -
  have "op_wp (client_edge_invite X env q) (\<lambda>r s'. s' = s \<or> ?P s') s"
    unfolding client_edge_invite_def client_edge_invite_mutation_def Let_def split_def
  proof (intro wp_rules, goal_cases)
    case (13 u n v w x a m b y ri s')
    obtain res i where i: "ri = (res, i)" by fastforce
    then have f: "i_state i = Pending" "inv_kind (i_invite i) = IKEdge (id_to_string X n)"
      "inv_name (i_invite i) = eir_name q" "i_id i = env_token16 env"
      using 13(10) by (auto simp: build_invite_def Let_def)
    obtain c where c: "c \<in> set (clients (st_state s))" "c_endpoint_id c = id_to_string X n" "c_managed_by c = m"
      using 13(7) by (auto dest: find_by_key)
    let ?i = "i\<lparr>i_request_id := Some (eir_request_id q), i_managed_by := m\<rparr>"
    have "upsert_by i_id ?i (invites (st_state s)) = invites (st_state s) @ [?i]"
      using assms(3) f(4) by (intro upsert_by_absent) (simp add: token_fresh_def)
    then have "st_state s' = (st_state s)\<lparr>invites := invites (st_state s) @ [?i],
        revision := revision (st_state s) + 1\<rparr>"
      using 13(11) i by (auto simp: commit_state after_delta_changes)
    moreover have "Some (eir_request_id q) \<notin> i_request_id ` set (invites (st_state s))"
      using 13(8) by (auto simp: list_ex_iff)
    ultimately show ?case using f c 13(2) by (intro disjI2 exI [of _ n] exI [of _ c] exI [of _ ?i]) auto
  qed simp_all
  with assms(1,2) show ?thesis by (simp add: op_wp_def)
qed

theorem client_invites_own_edge_witness:
  "\<exists>s' i. snd (client_edge_invite ref_ext sample_env
      (EdgeInviteRequest_sign ref_ext alice_key ''prod'' ''r9'' 1000 ''desk'' 60) sample_store) = s' \<and>
    i_state i = Pending \<and> invites (st_state s') = invites sample_state @ [i]"
proof -
  let ?q = "EdgeInviteRequest_sign ref_ext alice_key ''prod'' ''r9'' 1000 ''desk'' 60"
  obtain s' where q: "snd (client_edge_invite ref_ext sample_env ?q sample_store) = s'"
    "length (invites (st_state s')) = 3"
    using alice_invites_desk by blast
  then have "s' \<noteq> sample_store" by (auto simp: sample_store_def sample_state_def)
  moreover have "token_fresh sample_env (st_state sample_store)"
    by (simp add: token_fresh_def sample_env_def sample_bounds sample_state_def pending_def sample_invitation_def)
  ultimately show ?thesis
    using q client_invites_own_edge [of ref_ext sample_env ?q sample_store
        "fst (client_edge_invite ref_ext sample_env ?q sample_store)" s']
    by (auto simp: sample_bounds)
qed

end
