(* ===== verification/Control_Admin.thy ===== *)
theory Control_Admin
  imports Control_Watch Control_Owner
begin

text \<open>
  Local administration of Control (\<open>crates/as-control/src/main.rs\<close>,
  \<open>dispatch_local_admin\<close>): the commands that arrive on the Unix socket.  They take the
  state's mutex directly, without the admission queues of the public endpoints.
\<close>

section \<open>Requests and responses\<close>

datatype LocalAdminRequest =
    LOverview
  | LListClients
  | LListEdges
  | LListRelays
  | LListInvites
  | LListProvisioners
  | LInviteClient string nat
  | LInviteEdge string string nat
  | LInviteRelay string string nat
  | LRevokeInvite string
  | LRemoveClient string
  | LTransferEdge string string
  | LRemoveEdge string
  | LRemoveRelay string
  | LAddProvisioner string string
  | LRemoveProvisioner string

record ProvisionerInfo =
  pi_name :: string
  pi_endpoint_id :: string
  pi_clients :: nat

datatype LocalAdminResponse =
    AOverview Overview
  | AClients "ClientInfo list"
  | AEdges "EdgeInfo list"
  | ARelays "RelayNodeInfo list"
  | AInvites "InviteInfo list"
  | AProvisioners "ProvisionerInfo list"
  | AInvite InviteResult
  | AOk
  | AError string

section \<open>Views\<close>

definition overview :: "int \<Rightarrow> ControlState \<Rightarrow> Overview" where
  "overview now st = \<lparr>ov_revision = revision st,
     ov_clients = map (\<lambda>client. \<lparr>ci_name = c_name client, ci_endpoint_id = c_endpoint_id client,
       ci_edges = length (filter (\<lambda>edge. e_owner_id edge = c_endpoint_id client) (edges st))\<rparr>) (clients st),
     ov_edges = map (\<lambda>edge. \<lparr>ei_name = e_name edge, ei_endpoint_id = e_endpoint_id edge,
       ei_owner_id = e_owner_id edge, ei_owner_name = (case client_name st (e_owner_id edge) of
         Some n \<Rightarrow> n | None \<Rightarrow> ''unknown'')\<rparr>) (edges st),
     ov_relays = map (\<lambda>relay. \<lparr>rni_name = r_name relay, rni_endpoint_id = r_endpoint_id relay,
       rni_url = r_url relay, rni_qad_port = r_qad_port relay\<rparr>) (relays st),
     ov_invites = map (invite_info now) (invites st)\<rparr>"

definition list_provisioners :: "ControlState \<Rightarrow> ProvisionerInfo list" where
  "list_provisioners st = map (\<lambda>item. \<lparr>pi_name = p_name item, pi_endpoint_id = p_endpoint_id item,
     pi_clients = length (filter (\<lambda>client. c_managed_by client = Some (p_endpoint_id item)) (clients st))\<rparr>)
     (provisioners st)"

definition parse_edge_ref :: "string \<Rightarrow> ApiError + string \<times> string" where
  "parse_edge_ref value =
     ok_or (api_bad ''edge must be written as <client>/<edge>'') (split_once (CHR ''/'') value)"

definition client_id_by_name :: "ControlState \<Rightarrow> string \<Rightarrow> ApiError + string" where
  "client_id_by_name st name = ok_or (api_bad (''unknown client '' @ quoted name))
     (map_option c_endpoint_id (List.find (\<lambda>client. c_name client = name) (clients st)))"

section \<open>Commands\<close>

definition local_create_invite ::
  "Ext \<Rightarrow> Env \<Rightarrow> string \<Rightarrow> InviteKind \<Rightarrow> nat \<Rightarrow> string option \<Rightarrow> LocalAdminResponse op" where
  "local_create_invite X env name kind ttl_secs managed_by =
     op_check (map_err api_bad (validate_name name)) (\<lambda>_.
     op_lock (\<lambda>store. let st = st_state store in
     op_check (validate_invite_name st (env_later env) name kind) (\<lambda>_.
     op_check (map_err api_bad (build_invite X (st_key store) st (env_later env) (env_token16 env) name
       kind ttl_secs (env_token32 env))) (\<lambda>(result, record).
     op_then (commit_delta X env (topology [PutInvite (record\<lparr>i_managed_by := managed_by\<rparr>)])) (\<lambda>_.
     op_ok (AInvite result))))))"

text \<open>The owner of an edge is looked up in a section of its own; \<open>g\<close> is what other requests
  do to the store before the invitation is created.\<close>

definition admin_invite_edge ::
  "Ext \<Rightarrow> Env \<Rightarrow> gap \<Rightarrow> string \<Rightarrow> string \<Rightarrow> nat \<Rightarrow> LocalAdminResponse op" where
  "admin_invite_edge X env g name owner ttl_secs =
     op_lock (\<lambda>store.
     op_check (ok_or (api_bad (''unknown client '' @ quoted owner))
       (List.find (\<lambda>client. c_name client = owner) (clients (st_state store)))) (\<lambda>client.
     op_then (op_gap g) (\<lambda>_.
     local_create_invite X env name (IKEdge (c_endpoint_id client)) ttl_secs (c_managed_by client))))"

definition admin_revoke_invite :: "Ext \<Rightarrow> Env \<Rightarrow> string \<Rightarrow> LocalAdminResponse op" where
  "admin_revoke_invite X env invite_id =
     op_lock (\<lambda>store.
     op_check (ok_or (api_bad ''unknown invite'')
       (find_by i_id invite_id (invites (st_state store)))) (\<lambda>record.
     case i_state record of
       Pending \<Rightarrow> op_then (commit_delta X env (topology [PutInvite (record\<lparr>i_state := Revoked,
           i_terminal_at := Some (env_later env)\<rparr>)])) (\<lambda>_. op_ok AOk)
     | Claimed \<Rightarrow> op_fail (api_conflict ''claimed invites cannot be revoked'')
     | Revoked \<Rightarrow> op_ok AOk))"

definition admin_remove_client :: "Ext \<Rightarrow> Env \<Rightarrow> string \<Rightarrow> LocalAdminResponse op" where
  "admin_remove_client X env name =
     op_lock (\<lambda>store. let st = st_state store in
     op_check (ok_or (api_bad (''unknown client '' @ quoted name))
       (List.find (\<lambda>client. c_name client = name) (clients st))) (\<lambda>client.
     op_check (ensure (\<not> list_ex (\<lambda>edge. e_owner_id edge = c_endpoint_id client) (edges st))
       (api_conflict ''client still owns edges'')) (\<lambda>_.
     op_check (ensure (\<not> list_ex (\<lambda>i. invite_is_active_pending (env_later env) i \<and>
         inv_kind (i_invite i) = IKEdge (c_endpoint_id client)) (invites st))
       (api_conflict ''client still has pending edge invites'')) (\<lambda>_.
     op_then (commit_delta X env (revocation [DeleteClient (c_endpoint_id client),
         revocation_change st (c_endpoint_id client) (c_generation client) (c_expires_at client)])) (\<lambda>_.
     op_ok AOk)))))"

definition admin_transfer_edge :: "Ext \<Rightarrow> Env \<Rightarrow> string \<Rightarrow> string \<Rightarrow> LocalAdminResponse op" where
  "admin_transfer_edge X env edge new_client =
     op_check (parse_edge_ref edge) (\<lambda>(owner_name, edge_name).
     op_lock (\<lambda>store. let st = st_state store in
     op_check (client_id_by_name st owner_name) (\<lambda>old_owner.
     op_check (client_id_by_name st new_client) (\<lambda>new_owner.
     op_check (ensure (\<not> list_ex (\<lambda>item. e_owner_id item = new_owner \<and> e_name item = edge_name) (edges st))
       (api_conflict ''target client already has an edge with this name'')) (\<lambda>_.
     op_check (ok_or (api_bad (''unknown edge '' @ quoted edge))
       (List.find (\<lambda>item. e_owner_id item = old_owner \<and> e_name item = edge_name) (edges st))) (\<lambda>record.
     op_then (commit_delta X env (topology [PutEdge (record\<lparr>e_owner_id := new_owner\<rparr>)])) (\<lambda>_.
     op_ok AOk)))))))"

definition admin_remove_edge :: "Ext \<Rightarrow> Env \<Rightarrow> string \<Rightarrow> LocalAdminResponse op" where
  "admin_remove_edge X env edge =
     op_check (parse_edge_ref edge) (\<lambda>(owner_name, edge_name).
     op_lock (\<lambda>store. let st = st_state store in
     op_check (client_id_by_name st owner_name) (\<lambda>owner_id.
     op_check (ok_or (api_bad (''unknown edge '' @ quoted edge))
       (List.find (\<lambda>item. e_owner_id item = owner_id \<and> e_name item = edge_name) (edges st))) (\<lambda>removed.
     op_then (commit_delta X env (revocation [DeleteEdge (e_endpoint_id removed),
         revocation_change st (e_endpoint_id removed) (e_generation removed) (e_expires_at removed)])) (\<lambda>_.
     op_ok AOk)))))"

definition admin_remove_relay :: "Ext \<Rightarrow> Env \<Rightarrow> string \<Rightarrow> LocalAdminResponse op" where
  "admin_remove_relay X env name =
     op_lock (\<lambda>store.
     op_check (ok_or (api_bad (''unknown relay '' @ quoted name))
       (List.find (\<lambda>relay. r_name relay = name) (relays (st_state store)))) (\<lambda>relay.
     op_then (commit_delta X env (revocation [DeleteRelay (r_endpoint_id relay)])) (\<lambda>_.
     op_ok AOk)))"

definition admin_add_provisioner :: "Ext \<Rightarrow> Env \<Rightarrow> string \<Rightarrow> string \<Rightarrow> LocalAdminResponse op" where
  "admin_add_provisioner X env name endpoint_text =
     op_check (map_err api_bad (validate_name name)) (\<lambda>_.
     op_check (map_err (\<lambda>e. api_bad (''invalid provisioner endpoint id: '' @ e))
       (id_parse X endpoint_text)) (\<lambda>parsed. let endpoint_id = id_to_string X parsed in
     op_lock (\<lambda>store.
     op_check (ensure (\<not> list_ex (\<lambda>item. p_name item = name \<or> p_endpoint_id item = endpoint_id)
         (provisioners (st_state store)))
       (api_conflict ''provisioner name or identity already exists'')) (\<lambda>_.
     op_then (commit_delta X env (topology [PutProvisioner \<lparr>p_name = name, p_endpoint_id = endpoint_id\<rparr>])) (\<lambda>_.
     op_ok AOk)))))"

definition admin_remove_provisioner :: "Ext \<Rightarrow> Env \<Rightarrow> string \<Rightarrow> LocalAdminResponse op" where
  "admin_remove_provisioner X env name =
     op_lock (\<lambda>store. let st = st_state store in
     op_check (ok_or (api_bad (''unknown provisioner '' @ quoted name))
       (List.find (\<lambda>item. p_name item = name) (provisioners st))) (\<lambda>provisioner.
     op_check (ensure (\<not> list_ex (\<lambda>client. c_managed_by client = Some (p_endpoint_id provisioner)) (clients st))
       (api_conflict ''provisioner still manages clients'')) (\<lambda>_.
     op_check (ensure (\<not> list_ex (\<lambda>i. invite_is_active_pending (env_later env) i \<and>
         i_managed_by i = Some (p_endpoint_id provisioner)) (invites st))
       (api_conflict ''provisioner still owns pending invites'')) (\<lambda>_.
     op_then (commit_delta X env (topology [DeleteProvisioner (p_endpoint_id provisioner)])) (\<lambda>_.
     op_ok AOk)))))"

definition admin_view :: "(ControlState \<Rightarrow> LocalAdminResponse) \<Rightarrow> LocalAdminResponse op" where
  "admin_view f = op_lock (\<lambda>store. op_ok (f (st_state store)))"

definition dispatch_local_admin ::
  "Ext \<Rightarrow> Env \<Rightarrow> gap \<Rightarrow> LocalAdminRequest \<Rightarrow> LocalAdminResponse op" where
  "dispatch_local_admin X env g request = (case request of
      LOverview \<Rightarrow> admin_view (\<lambda>st. AOverview (overview (env_later env) st))
    | LListClients \<Rightarrow> admin_view (\<lambda>st. AClients (ov_clients (overview (env_later env) st)))
    | LListEdges \<Rightarrow> admin_view (\<lambda>st. AEdges (ov_edges (overview (env_later env) st)))
    | LListRelays \<Rightarrow> admin_view (\<lambda>st. ARelays (ov_relays (overview (env_later env) st)))
    | LListInvites \<Rightarrow> admin_view (\<lambda>st. AInvites (ov_invites (overview (env_later env) st)))
    | LListProvisioners \<Rightarrow> admin_view (\<lambda>st. AProvisioners (list_provisioners st))
    | LInviteClient name ttl_secs \<Rightarrow> local_create_invite X env name IKClient ttl_secs None
    | LInviteEdge name owner ttl_secs \<Rightarrow> admin_invite_edge X env g name owner ttl_secs
    | LInviteRelay name url ttl_secs \<Rightarrow>
        op_check (map_err api_bad (normalize_relay_url X url)) (\<lambda>url.
        local_create_invite X env name (IKRelay url) ttl_secs None)
    | LRevokeInvite invite_id \<Rightarrow> admin_revoke_invite X env invite_id
    | LRemoveClient name \<Rightarrow> admin_remove_client X env name
    | LTransferEdge edge new_client \<Rightarrow> admin_transfer_edge X env edge new_client
    | LRemoveEdge edge \<Rightarrow> admin_remove_edge X env edge
    | LRemoveRelay name \<Rightarrow> admin_remove_relay X env name
    | LAddProvisioner name endpoint_id \<Rightarrow> admin_add_provisioner X env name endpoint_id
    | LRemoveProvisioner name \<Rightarrow> admin_remove_provisioner X env name)"

text \<open>\<open>handle_local_admin\<close>: an error becomes a response of its own.\<close>

definition admin_response :: "ApiError + LocalAdminResponse \<Rightarrow> LocalAdminResponse" where
  "admin_response r = (case r of Inr response \<Rightarrow> response | Inl e \<Rightarrow> AError (ae_message e))"

section \<open>Every command is one mutation or none\<close>

text \<open>\<open>admin_post X t s s' r\<close>: from \<open>s\<close> a command committed nothing, or one mutation with success.\<close>

definition admin_post :: "Ext \<Rightarrow> int \<Rightarrow> Store \<Rightarrow> ApiError + 'a \<Rightarrow> Store \<Rightarrow> bool" where
  "admin_post X t s r s' \<longleftrightarrow> mutates X t s s' \<and> (is_ok r \<or> s' = s)"

lemma admin_post_simps [simp]:
  "admin_post X t s (Inl e) s' \<longleftrightarrow> s' = s" "admin_post X t s (Inr x) s' \<longleftrightarrow> mutates X t s s'"
  by (auto simp: admin_post_def is_ok_iff)

lemma local_create_invite_post:
  "op_wp (local_create_invite X env name kind ttl m) (admin_post X (env_time env) s) s"
  unfolding local_create_invite_def Let_def split_def
  by (intro wp_rules)
    (auto dest!: build_invite_pending elim!: commit_mutations(1) [OF _ _ _ _ env_time_ge(2)])

lemma admin_revoke_invite_post: "op_wp (admin_revoke_invite X env k) (admin_post X (env_time env) s) s"
  unfolding admin_revoke_invite_def
  by (intro wp_rules) (auto dest!: find_by_key elim!: commit_mutations(2) [OF _ _ _ env_time_ge(2)])

lemma admin_remove_client_post: "op_wp (admin_remove_client X env name) (admin_post X (env_time env) s) s"
  unfolding admin_remove_client_def Let_def
  by (intro wp_rules)
    (auto dest!: find_member simp: list_ex_iff elim!: commit_mutations(3) [OF _ _ _ env_time_ge(2)])

lemma client_id_by_name_Inr:
  "client_id_by_name st name = Inr k \<Longrightarrow> k \<in> c_endpoint_id ` set (clients st)"
  by (auto simp: client_id_by_name_def dest!: find_member)

lemma admin_transfer_edge_post:
  "op_wp (admin_transfer_edge X env e k) (admin_post X (env_time env) s) s"
  unfolding admin_transfer_edge_def Let_def split_def
  by (intro wp_rules)
    (auto dest!: find_member client_id_by_name_Inr simp: list_ex_iff edge_slot_def
      elim!: commit_mutations(5) [OF _ _ _ _ env_time_ge(2)])

lemma admin_remove_edge_post: "op_wp (admin_remove_edge X env e) (admin_post X (env_time env) s) s"
  unfolding admin_remove_edge_def Let_def split_def
  by (intro wp_rules) (auto dest!: find_member elim!: commit_mutations(4) [OF _ _ env_time_ge(2)])

lemma admin_remove_relay_post: "op_wp (admin_remove_relay X env name) (admin_post X (env_time env) s) s"
  unfolding admin_remove_relay_def
  by (intro wp_rules) (auto dest!: find_member elim!: commit_mutations(6) [OF _ _ env_time_ge(2)])

lemma admin_add_provisioner_post:
  "op_wp (admin_add_provisioner X env name k) (admin_post X (env_time env) s) s"
  unfolding admin_add_provisioner_def Let_def
  by (intro wp_rules)
    (auto simp: list_ex_iff elim!: commit_mutations(8) [OF _ _ _ env_time_ge(2)])

lemma admin_remove_provisioner_post:
  "op_wp (admin_remove_provisioner X env name) (admin_post X (env_time env) s) s"
  unfolding admin_remove_provisioner_def Let_def
  by (intro wp_rules)
    (auto dest!: find_member simp: list_ex_iff elim!: commit_mutations(9) [OF _ _ _ env_time_ge(2)])

lemma admin_view_post: "op_wp (admin_view f) (admin_post X t s) s"
  unfolding admin_view_def by (intro wp_rules) simp

lemmas admin_posts = admin_view_post local_create_invite_post admin_revoke_invite_post
  admin_remove_client_post admin_transfer_edge_post admin_remove_edge_post admin_remove_relay_post
  admin_add_provisioner_post admin_remove_provisioner_post

text \<open>The one command with a gap starts its mutation from the store the others left.\<close>

lemma dispatch_local_admin_post:
  "op_wp (dispatch_local_admin X env g q)
     (\<lambda>r s'. s' = s \<or> admin_post X (env_time env) s r s' \<or> admin_post X (env_time env) (g s) r s') s"
proof (cases q)
  case (LInviteEdge name owner ttl)
  show ?thesis
    unfolding dispatch_local_admin_def LInviteEdge LocalAdminRequest.case admin_invite_edge_def
    by (intro wp_rules wp_mono [OF local_create_invite_post]) simp_all
next
  case (LInviteRelay name url ttl)
  show ?thesis
    unfolding dispatch_local_admin_def LInviteRelay LocalAdminRequest.case
    by (intro wp_check wp_mono [OF local_create_invite_post]) simp_all
qed (auto simp: dispatch_local_admin_def intro: admin_posts [THEN wp_mono])

interpretation admin_handler: control_handler X "env_time env"
  "dispatch_local_admin X env (\<lambda>s. s) q" for X env q
  by unfold_locales (rule wp_mono [OF dispatch_local_admin_post], auto simp: admin_post_def)

context store_invariant
begin

lemma admin_keeps:
  assumes "I s" "env_time env \<le> t" "calm g"
  shows "I (snd (dispatch_local_admin X env g q s))"
proof -
  have "I s'" if "admin_post X (env_time env) s0 r s'" "I s0" for s0 s' and r :: "ApiError + LocalAdminResponse"
    using that mutation mutates_mono [OF _ assms(2)] by (auto simp: admin_post_def)
  with dispatch_local_admin_post [of X env g q s] assms show ?thesis
    by (auto simp: op_wp_def calm_def)
qed

end

lemma commit_error_status: "commit_delta X env d s = (Inl e, s') \<Longrightarrow> ae_status e = 500"
  by (cases "u64_checked_add (revision (st_state s)) 1"; cases "u64_checked_add (relay_revision (st_state s)) 1")
    (auto simp: commit_delta_def Let_def delta_revisions_def api_internal_def api_error_def map_err_Inl and_then_Inl
      split: sum.splits Publish.splits)

lemma commit_orphan_fails:
  assumes "store_ok X s" "inv_kind (i_invite i) = IKEdge owner"
    and "owner \<notin> c_endpoint_id ` set (clients (st_state s))"
  shows "\<exists>e. commit_delta X env (topology [PutInvite i]) s = (Inl e, s) \<and> ae_status e = 500"
proof -
  obtain r s' where c: "commit_delta X env (topology [PutInvite i]) s = (r, s')" by fastforce
  then show ?thesis
  proof (cases rule: commit_delta_cases)
    case (failed e)
    with c show ?thesis by (auto intro: commit_error_status)
  next
    case committed
    from committed(2) have "owner \<in> c_endpoint_id ` set (db_clients (st_db s))"
      using assms(2) unfolding durable_write_def
      by (elim apply_delta_sync_Inr) (auto simp: db_put_invitation_Inr invitation_row_def)
    then show ?thesis
      using assms(1,3) by (simp add: store_ok_def agrees_def coherent_def tables_coherent_def)
  qed
qed

section \<open>Commands on the sample deployment\<close>

definition later_env :: Env where
  "later_env = sample_env\<lparr>env_later := 3000\<rparr>"

lemma alice_leaves:
  "\<exists>s1 s2. dispatch_local_admin ref_ext later_env (\<lambda>s. s) (LRemoveEdge ''alice/box'') sample_store = (Inr AOk, s1) \<and>
     dispatch_local_admin ref_ext later_env (\<lambda>s. s) (LRemoveClient ''alice'') s1 = (Inr AOk, s2) \<and>
     store_ok ref_ext s2 \<and> clients (st_state s2) = [] \<and> invites (st_state s2) = invites sample_state"
proof -
  let ?d1 = "revocation [DeleteEdge ''xac'', revocation_change sample_state ''xac'' 4 605700]"
  have ev1: "control_event 0 sample_state ?d1"
    using remove_edge [of box sample_state 0] by (simp add: sample_state_def box_def)
  then obtain s1 where s1: "commit_delta ref_ext later_env ?d1 sample_store = (Inr (), s1)"
    "st_state s1 = after_delta ?d1 sample_state"
    using commit_accepts [OF sample_store_ok, of later_env 0 ?d1]
    by (auto simp: sample_bounds ports_u16_def revocation_change_def later_env_def)
  have ok1: "store_ok ref_ext s1"
    using commit_delta_ok [OF sample_store_ok _ s1(1)] ev1 by (simp add: sample_bounds)
  have st1: "clients (st_state s1) = [alice]" "edges (st_state s1) = []"
    "invites (st_state s1) = invites sample_state" "revision (st_state s1) = 6" "relay_revision (st_state s1) = 3"
    by (simp_all add: s1(2) after_delta_changes revocation_change_def delete_by_def sample_state_def box_def
        next_revision_def next_relay_revision_def revocation_def)
  let ?d2 = "revocation [DeleteClient ''xab'', revocation_change (st_state s1) ''xab'' 3 605700]"
  have ev2: "control_event 3000 (st_state s1) ?d2"
    using remove_client [of alice "st_state s1" 3000]
    by (simp add: st1 alice_def sample_state_def pending_def sample_invitation_def invite_is_active_pending_def)
  then obtain s2 where s2: "commit_delta ref_ext later_env ?d2 s1 = (Inr (), s2)"
    "st_state s2 = after_delta ?d2 (st_state s1)"
    using commit_accepts [OF ok1, of later_env 3000 ?d2]
    by (auto simp: st1 ports_u16_def revocation_change_def later_env_def sample_bounds i64_max_def)
  have "dispatch_local_admin ref_ext later_env (\<lambda>s. s) (LRemoveEdge ''alice/box'') sample_store = (Inr AOk, s1)"
    using s1(1) by (simp add: dispatch_local_admin_def admin_remove_edge_def op_lock_def op_check_def op_then_def
        op_ok_def parse_edge_ref_def split_once_def client_id_by_name_def sample_bounds Let_def)
      (simp add: sample_state_def alice_def box_def op_check_def op_then_def op_ok_def)
  moreover have "dispatch_local_admin ref_ext later_env (\<lambda>s. s) (LRemoveClient ''alice'') s1 = (Inr AOk, s2)"
    using s2(1) by (simp add: dispatch_local_admin_def admin_remove_client_def op_lock_def op_check_def op_then_def
        op_ok_def st1 Let_def alice_def ensure_def later_env_def)
      (simp add: sample_state_def pending_def sample_invitation_def invite_is_active_pending_def)
  moreover have "clients (st_state s2) = []" "invites (st_state s2) = invites sample_state"
    by (simp_all add: s2(2) after_delta_changes revocation_change_def delete_by_def st1 alice_def)
  ultimately show ?thesis using commit_delta_ok [OF ok1 ev2 s2(1)] by blast
qed

section \<open>Properties\<close>

text \<open>C26: Administration is all or nothing.  A local command that is answered with an error
  has committed nothing: the store is as it was, or as the requests served between the two
  sections of an edge invitation left it.\<close>

theorem admin_error_changes_nothing:
  assumes "dispatch_local_admin X env g q s = (Inl e, s')"
  shows "s' = s \<or> s' = g s"
  using dispatch_local_admin_post [of X env g q s] assms by (auto simp: op_wp_def)

theorem admin_error_changes_nothing_witness:
  "snd (dispatch_local_admin ref_ext sample_env (\<lambda>s. s) (LRemoveClient ''alice'') sample_store) = sample_store"
proof -
  have "\<exists>e. fst (dispatch_local_admin ref_ext sample_env (\<lambda>s. s) (LRemoveClient ''alice'') sample_store) = Inl e"
    by (simp add: dispatch_local_admin_def admin_remove_client_def op_lock_def op_check_def sample_bounds
        sample_state_def alice_def box_def ensure_def)
  then show ?thesis
    using admin_error_changes_nothing [of ref_ext sample_env "\<lambda>s. s" "LRemoveClient ''alice''" sample_store]
    by (metis prod.collapse)
qed

text \<open>C27: An expired invitation can outlive the client it was made for.  A pending edge
  invitation whose owner is no longer a client cannot be revoked: the durable write names the missing
  owner, the database refuses it, and the command is answered with an internal error.\<close>

theorem orphan_invite_not_revocable:
  assumes "store_ok X s" "find_by i_id k (invites (st_state s)) = Some i" "i_state i = Pending"
    and "inv_kind (i_invite i) = IKEdge owner" "owner \<notin> c_endpoint_id ` set (clients (st_state s))"
  shows "\<exists>e. dispatch_local_admin X env g (LRevokeInvite k) s = (Inl e, s) \<and> ae_status e = 500"
  using commit_orphan_fails [OF assms(1), of "i\<lparr>i_state := Revoked, i_terminal_at := Some (env_later env)\<rparr>" owner env]
    assms(2-5)
  by (auto simp: dispatch_local_admin_def admin_revoke_invite_def op_lock_def op_check_def op_then_def)

theorem orphan_invite_not_revocable_witness:
  "\<exists>s1 s2 e. dispatch_local_admin ref_ext later_env (\<lambda>s. s) (LRemoveEdge ''alice/box'') sample_store = (Inr AOk, s1) \<and>
     dispatch_local_admin ref_ext later_env (\<lambda>s. s) (LRemoveClient ''alice'') s1 = (Inr AOk, s2) \<and>
     dispatch_local_admin ref_ext later_env (\<lambda>s. s) (LRevokeInvite ''i2'') s2 = (Inl e, s2) \<and> ae_status e = 500"
proof -
  obtain s1 s2 where s: "dispatch_local_admin ref_ext later_env (\<lambda>s. s) (LRemoveEdge ''alice/box'') sample_store = (Inr AOk, s1)"
    "dispatch_local_admin ref_ext later_env (\<lambda>s. s) (LRemoveClient ''alice'') s1 = (Inr AOk, s2)"
    "store_ok ref_ext s2" "clients (st_state s2) = []" "invites (st_state s2) = invites sample_state"
    using alice_leaves by blast
  then have "find_by i_id ''i2'' (invites (st_state s2)) = Some (pending (sample_invitation ''i2'' ''lab'' (IKEdge ''xab'')))"
    by (simp add: sample_state_def find_by_def pending_def sample_invitation_def)
  from orphan_invite_not_revocable [OF s(3) this, of "''xab''" later_env "\<lambda>s. s"] s show ?thesis
    by (auto simp: pending_def sample_invitation_def)
qed

end
