(* ===== verification/Core_Files.thy ===== *)
theory Core_Files
  imports External
begin

text \<open>
  The crate \<open>core\<close> (\<open>crates/core/src/lib.rs\<close>): private directories, file locks, identities
  and durable replacement of state files.  The file system is a record; every system call may
  fail, as \<open>fe_outcome\<close> decides, and other processes act on the files while a lock is awaited
  (\<open>fe_others\<close>).  A temporary file has a name no one else uses, so it is a value of the
  model and not one of the files; an error drops it.
\<close>

section \<open>File system\<close>

type_synonym path = "string list"

record File =
  f_bytes :: "byte list"
  f_mode :: nat

record Fs =
  fs_files :: "path \<rightharpoonup> File"
  fs_dirs :: "path \<rightharpoonup> nat"
  fs_calls :: nat

definition path_exists :: "path \<Rightarrow> Fs \<Rightarrow> bool" where
  "path_exists path fs \<longleftrightarrow> fs_files fs path \<noteq> None \<or> fs_dirs fs path \<noteq> None"

datatype FsError = NotFound string | Failed string

fun fs_error_text :: "FsError \<Rightarrow> string" where
  "fs_error_text (NotFound e) = e"
| "fs_error_text (Failed e) = e"

record FsEnv =
  fe_outcome :: "nat \<Rightarrow> string option"
  fe_others :: "Fs \<Rightarrow> Fs"
  fe_generated :: SecretKey
  fe_dir_mode :: nat
  fe_file_mode :: nat

type_synonym ('e, 'a) eio = "Fs \<Rightarrow> ('e + 'a) \<times> Fs"
type_synonym 'a io = "(FsError, 'a) eio"

definition PRIVATE_DIR_MODE :: nat where "PRIVATE_DIR_MODE = 448"
definition PRIVATE_FILE_MODE :: nat where "PRIVATE_FILE_MODE = 384"
definition SECRET_LENGTH :: nat where "SECRET_LENGTH = 32"

definition io_ok :: "'a \<Rightarrow> ('e, 'a) eio" where "io_ok x fs = (Inr x, fs)"
definition io_fail :: "'e \<Rightarrow> ('e, 'a) eio" where "io_fail e fs = (Inl e, fs)"

definition io_then :: "('e, 'a) eio \<Rightarrow> ('a \<Rightarrow> ('e, 'b) eio) \<Rightarrow> ('e, 'b) eio" where
  "io_then m f fs = (case m fs of (Inl e, fs') \<Rightarrow> (Inl e, fs') | (Inr x, fs') \<Rightarrow> f x fs')"

definition io_map_err :: "('e \<Rightarrow> 'f) \<Rightarrow> ('e, 'a) eio \<Rightarrow> ('f, 'a) eio" where
  "io_map_err g m fs = (case m fs of (r, fs') \<Rightarrow> (map_err g r, fs'))"

definition io_check :: "'e + 'a \<Rightarrow> ('e, 'a) eio" where
  "io_check r fs = (r, fs)"

fun error_context :: "string \<Rightarrow> FsError \<Rightarrow> FsError" where
  "error_context msg (NotFound e) = NotFound msg"
| "error_context msg (Failed e) = Failed msg"

definition io_context :: "string \<Rightarrow> 'a io \<Rightarrow> 'a io" where
  "io_context msg = io_map_err (error_context msg)"

definition io_call :: "FsEnv \<Rightarrow> 'a io \<Rightarrow> 'a io" where
  "io_call E effect fs =
     (let fs' = fs\<lparr>fs_calls := Suc (fs_calls fs)\<rparr> in
      case fe_outcome E (fs_calls fs) of Some e \<Rightarrow> (Inl (Failed e), fs') | None \<Rightarrow> effect fs')"

definition io_step :: "FsEnv \<Rightarrow> (Fs \<Rightarrow> Fs) \<Rightarrow> unit io" where
  "io_step E f = io_call E (\<lambda>fs. (Inr (), f fs))"

section \<open>Paths\<close>

definition path_parent :: "path \<Rightarrow> path option" where
  "path_parent p = (if p = [] then None else Some (butlast p))"

definition path_display :: "path \<Rightarrow> string" where
  "path_display p = concat (map (\<lambda>c. CHR ''/'' # c) p)"

definition lock_path :: "path \<Rightarrow> path" where
  "lock_path p = (if p = [] then [''.lock''] else butlast p @ [last p @ ''.lock''])"

definition create_dir_all :: "nat \<Rightarrow> path \<Rightarrow> Fs \<Rightarrow> Fs" where
  "create_dir_all mode path fs = fs\<lparr>fs_dirs := fold (\<lambda>n dirs. let p = take n path in
     if dirs p = None then dirs(p \<mapsto> mode) else dirs) [0..<Suc (length path)] (fs_dirs fs)\<rparr>"

definition file_stem :: "string \<Rightarrow> string" where
  "file_stem name = (let before = dropWhile (\<lambda>c. c \<noteq> CHR ''.'') (rev name) in
     if before = [] \<or> tl before = [] then name else rev (tl before))"

definition path_with_extension :: "string \<Rightarrow> path \<Rightarrow> path" where
  "path_with_extension ext p = (if p = [] then [] else butlast p @ [file_stem (last p) @ ''.'' @ ext])"

definition ensure_private_dir :: "FsEnv \<Rightarrow> path \<Rightarrow> unit io" where
  "ensure_private_dir E path =
     io_then (io_context (''create directory '' @ path_display path)
       (io_step E (create_dir_all (fe_dir_mode E) path))) (\<lambda>_.
     io_context (''secure directory '' @ path_display path)
       (io_step E (\<lambda>fs. fs\<lparr>fs_dirs := (fs_dirs fs)(path \<mapsto> PRIVATE_DIR_MODE)\<rparr>)))"

section \<open>Locks\<close>

definition create_if_absent :: "path \<Rightarrow> Fs \<Rightarrow> Fs" where
  "create_if_absent path fs = (if fs_files fs path = None
     then fs\<lparr>fs_files := (fs_files fs)(path \<mapsto> \<lparr>f_bytes = [], f_mode = PRIVATE_FILE_MODE\<rparr>)\<rparr> else fs)"

definition FileLock_open :: "FsEnv \<Rightarrow> path \<Rightarrow> bool \<Rightarrow> unit io" where
  "FileLock_open E path nonblocking =
     io_then (case path_parent path of Some parent \<Rightarrow> ensure_private_dir E parent
       | None \<Rightarrow> io_ok ()) (\<lambda>_.
     io_then (io_context (''open lock '' @ path_display path) (io_step E (create_if_absent path))) (\<lambda>_.
     io_context (''lock '' @ path_display path)
       (io_step E (if nonblocking then (\<lambda>fs. fs) else fe_others E))))"

definition FileLock_acquire :: "FsEnv \<Rightarrow> path \<Rightarrow> unit io" where
  "FileLock_acquire E path = FileLock_open E path False"

definition FileLock_try_acquire :: "FsEnv \<Rightarrow> path \<Rightarrow> unit io" where
  "FileLock_try_acquire E path = FileLock_open E path True"

section \<open>Reading and replacing files\<close>

definition open_file :: "FsEnv \<Rightarrow> path \<Rightarrow> File io" where
  "open_file E path = io_call E (\<lambda>fs. case fs_files fs path of
      None \<Rightarrow> (Inl (NotFound ''entity not found''), fs)
    | Some f \<Rightarrow> (Inr f, fs))"

definition read_open :: "FsEnv \<Rightarrow> File \<Rightarrow> (byte list) io" where
  "read_open E f = io_call E (\<lambda>fs. (Inr (f_bytes f), fs))"

definition fs_read :: "FsEnv \<Rightarrow> path \<Rightarrow> (byte list) io" where
  "fs_read E path = io_then (open_file E path) (read_open E)"

definition private_temp :: "FsEnv \<Rightarrow> path \<Rightarrow> File io" where
  "private_temp E parent =
     io_then (io_context (''create temporary file in '' @ path_display parent) (io_step E (\<lambda>fs. fs))) (\<lambda>_.
     io_then (io_context (''secure temporary file in '' @ path_display parent) (io_step E (\<lambda>fs. fs))) (\<lambda>_.
     io_ok \<lparr>f_bytes = [], f_mode = PRIVATE_FILE_MODE\<rparr>))"

definition temp_write_all :: "FsEnv \<Rightarrow> byte list \<Rightarrow> File \<Rightarrow> File io" where
  "temp_write_all E bytes temp = io_call E (\<lambda>fs. (Inr (temp\<lparr>f_bytes := f_bytes temp @ bytes\<rparr>), fs))"

definition temp_sync_all :: "FsEnv \<Rightarrow> unit io" where
  "temp_sync_all E = io_step E (\<lambda>fs. fs)"

definition temp_persist :: "FsEnv \<Rightarrow> File \<Rightarrow> path \<Rightarrow> unit io" where
  "temp_persist E temp path = io_step E (\<lambda>fs. fs\<lparr>fs_files := (fs_files fs)(path \<mapsto> temp)\<rparr>)"

definition temp_persist_noclobber :: "FsEnv \<Rightarrow> File \<Rightarrow> path \<Rightarrow> unit io" where
  "temp_persist_noclobber E temp path = io_call E (\<lambda>fs. if fs_files fs path = None
     then (Inr (), fs\<lparr>fs_files := (fs_files fs)(path \<mapsto> temp)\<rparr>)
     else (Inl (Failed ''file exists''), fs))"

definition sync_parent :: "FsEnv \<Rightarrow> path \<Rightarrow> unit io" where
  "sync_parent E parent =
     io_then (io_context (''open directory '' @ path_display parent @ '' for sync'') (io_step E (\<lambda>fs. fs))) (\<lambda>_.
     io_context (''sync directory '' @ path_display parent) (io_step E (\<lambda>fs. fs)))"

definition atomic_write_unlocked :: "FsEnv \<Rightarrow> path \<Rightarrow> byte list \<Rightarrow> unit io" where
  "atomic_write_unlocked E path bytes = (case path_parent path of
      None \<Rightarrow> io_fail (Failed ''state path has no parent'')
    | Some parent \<Rightarrow>
        io_then (private_temp E parent) (\<lambda>temp.
        io_then (io_context (''write temporary state for '' @ path_display path)
          (temp_write_all E bytes temp)) (\<lambda>temp.
        io_then (io_context (''sync temporary state for '' @ path_display path) (temp_sync_all E)) (\<lambda>_.
        io_then (io_context (''replace '' @ path_display path) (temp_persist E temp path)) (\<lambda>_.
        sync_parent E parent)))))"

definition atomic_write :: "FsEnv \<Rightarrow> path \<Rightarrow> byte list \<Rightarrow> unit io" where
  "atomic_write E path bytes = (case path_parent path of
      None \<Rightarrow> io_fail (Failed ''state path has no parent'')
    | Some parent \<Rightarrow>
        io_then (ensure_private_dir E parent) (\<lambda>_.
        io_then (FileLock_acquire E (lock_path path)) (\<lambda>_.
        atomic_write_unlocked E path bytes)))"

definition write_json :: "Ext \<Rightarrow> FsEnv \<Rightarrow> path \<Rightarrow> json \<Rightarrow> unit io" where
  "write_json X E path value = atomic_write E path (json_to_vec_pretty X value @ [10])"

definition io_result :: "string + 'a \<Rightarrow> 'a io" where
  "io_result r = io_check (map_err Failed r)"

definition read_json :: "Ext \<Rightarrow> FsEnv \<Rightarrow> (json \<Rightarrow> string + 'a) \<Rightarrow> path \<Rightarrow> 'a io" where
  "read_json X E of_json path =
     io_then (io_context (''read '' @ path_display path) (fs_read E path)) (\<lambda>data.
     io_result (with_context (''parse '' @ path_display path)
       (and_then (json_from_slice X data) of_json)))"

section \<open>Identities\<close>

definition read_secret :: "FsEnv \<Rightarrow> path \<Rightarrow> SecretKey io" where
  "read_secret E path =
     io_then (io_context (''read identity '' @ path_display path) (open_file E path)) (\<lambda>file.
     io_then (io_context (''read identity '' @ path_display path) (read_open E file)) (\<lambda>bytes.
     if length bytes = SECRET_LENGTH then io_ok (SecretKey bytes)
     else io_fail (Failed (''invalid identity '' @ path_display path @ '': expected 32 bytes, got '' @
       show_nat (length bytes)))))"

definition create_secret :: "FsEnv \<Rightarrow> path \<Rightarrow> path \<Rightarrow> SecretKey io" where
  "create_secret E parent path = (let key = fe_generated E in
     io_then (private_temp E parent) (\<lambda>temp.
     io_then (io_context (''write new identity for '' @ path_display path)
       (temp_write_all E (key_bytes key) temp)) (\<lambda>temp.
     io_then (io_context (''sync new identity for '' @ path_display path) (temp_sync_all E)) (\<lambda>_.
     io_then (io_context (''install new identity '' @ path_display path)
       (temp_persist_noclobber E temp path)) (\<lambda>_.
     io_then (sync_parent E parent) (\<lambda>_.
     io_ok key))))))"

definition load_or_create_secret :: "FsEnv \<Rightarrow> path \<Rightarrow> SecretKey io" where
  "load_or_create_secret E path = (case path_parent path of
      None \<Rightarrow> io_fail (Failed ''identity path has no parent'')
    | Some parent \<Rightarrow>
        io_then (ensure_private_dir E parent) (\<lambda>_.
        io_then (FileLock_acquire E (lock_path path)) (\<lambda>_.
        (\<lambda>fs. case read_secret E path fs of
           (Inr key, fs') \<Rightarrow> (Inr key, fs')
         | (Inl (NotFound e), fs') \<Rightarrow> create_secret E parent path fs'
         | (Inl (Failed e), fs') \<Rightarrow> (Inl (Failed e), fs')))))"

section \<open>Weakest preconditions\<close>

definition io_wp :: "('e, 'a) eio \<Rightarrow> ('e + 'a \<Rightarrow> Fs \<Rightarrow> bool) \<Rightarrow> Fs \<Rightarrow> bool" where
  "io_wp m Q fs \<longleftrightarrow> (case m fs of (r, fs') \<Rightarrow> Q r fs')"

lemma io_wp_result: "io_wp m Q fs \<Longrightarrow> m fs = (r, fs') \<Longrightarrow> Q r fs'"
  by (simp add: io_wp_def)

lemma io_wp_simps [simp]:
  "io_wp (io_ok x) Q fs \<longleftrightarrow> Q (Inr x) fs"
  "io_wp (io_fail e) Q fs \<longleftrightarrow> Q (Inl e) fs"
  "io_wp (io_check r) Q fs \<longleftrightarrow> Q r fs"
  by (simp_all add: io_wp_def io_ok_def io_fail_def io_check_def)

lemma io_wp_map_err [simp]: "io_wp (io_map_err g m) Q fs \<longleftrightarrow> io_wp m (\<lambda>r. Q (map_err g r)) fs"
  by (simp add: io_wp_def io_map_err_def split: prod.splits)

lemma io_wp_context [simp]:
  "io_wp (io_result res) Q fs \<longleftrightarrow> Q (map_err Failed res) fs"
  "io_wp (io_context msg m) Q' fs \<longleftrightarrow> io_wp m (\<lambda>r. Q' (map_err (error_context msg) r)) fs"
  by (simp_all add: io_result_def io_context_def)

lemma io_wp_then [simp]:
  "io_wp (io_then m f) Q fs \<longleftrightarrow>
     io_wp m (\<lambda>r fs'. case r of Inl e \<Rightarrow> Q (Inl e) fs' | Inr x \<Rightarrow> io_wp (f x) Q fs') fs"
  by (auto simp: io_wp_def io_then_def split: prod.splits sum.splits)

lemma io_wp_call [simp]:
  "io_wp (io_call E eff) Q fs \<longleftrightarrow> (let fs' = fs\<lparr>fs_calls := Suc (fs_calls fs)\<rparr> in
     case fe_outcome E (fs_calls fs) of Some e \<Rightarrow> Q (Inl (Failed e)) fs'
       | None \<Rightarrow> (case eff fs' of (r, fs'') \<Rightarrow> Q r fs''))"
  by (simp add: io_wp_def io_call_def Let_def split: option.splits)

lemma io_wp_step [simp]:
  "io_wp (io_step E f) Q fs \<longleftrightarrow> (let fs' = fs\<lparr>fs_calls := Suc (fs_calls fs)\<rparr> in
     case fe_outcome E (fs_calls fs) of Some e \<Rightarrow> Q (Inl (Failed e)) fs' | None \<Rightarrow> Q (Inr ()) (f fs'))"
  by (simp add: io_step_def Let_def split: option.split)

lemma io_wp_mono: "io_wp m P fs \<Longrightarrow> (\<And>r fs'. P r fs' \<Longrightarrow> Q r fs') \<Longrightarrow> io_wp m Q fs"
  by (auto simp: io_wp_def)

lemma io_wp_state:
  "io_wp (\<lambda>fs. (f fs, g fs)) Q fs \<longleftrightarrow> Q (f fs) (g fs)"
  "io_wp (\<lambda>fs. io_result (h fs) fs) Q' fs \<longleftrightarrow> Q' (map_err Failed (h fs)) fs"
  by (simp_all add: io_wp_def io_result_def io_check_def)

text \<open>What a run changes among the files.\<close>

definition same_except :: "path set \<Rightarrow> Fs \<Rightarrow> Fs \<Rightarrow> bool" where
  "same_except S fs fs' \<longleftrightarrow> (\<forall>q. q \<notin> S \<longrightarrow> fs_files fs' q = fs_files fs q)"

definition others_idle :: "FsEnv \<Rightarrow> bool" where
  "others_idle E \<longleftrightarrow> (\<forall>fs. fs_files (fe_others E fs) = fs_files fs)"

definition no_faults :: "FsEnv \<Rightarrow> bool" where
  "no_faults E \<longleftrightarrow> (\<forall>n. fe_outcome E n = None)"

lemma same_except_refl [simp]: "same_except S fs fs"
  by (simp add: same_except_def)

lemma same_except_trans: "same_except S fs fs' \<Longrightarrow> same_except T fs' fs'' \<Longrightarrow> same_except (S \<union> T) fs fs''"
  by (simp add: same_except_def)

lemma lock_path_neq [simp]: "lock_path p \<noteq> p" "p \<noteq> lock_path p"
  by (cases p rule: rev_cases; simp add: lock_path_def)+

lemma fs_dirs_update_files [simp]: "fs_files (create_dir_all m p fs) = fs_files fs"
  by (simp add: create_dir_all_def)

text \<open>Rules with a case for failure and one for success.  \<open>quiet E m x\<close>: \<open>m\<close> touches no
  file and fails only by a fault.\<close>

definition quiet_io :: "FsEnv \<Rightarrow> 'a io \<Rightarrow> 'a \<Rightarrow> bool" where
  "quiet_io E m x \<longleftrightarrow> (\<forall>fs r fs'. m fs = (r, fs') \<longrightarrow> fs_files fs' = fs_files fs \<and>
     (r = Inr x \<or> (\<exists>e. r = Inl (Failed e)) \<and> \<not> no_faults E))"

lemma quiet_wp:
  assumes "quiet_io E m x"
    and "\<And>e fs'. fs_files fs' = fs_files fs \<Longrightarrow> \<not> no_faults E \<Longrightarrow> Q (Inl (Failed e)) fs'"
    and "\<And>fs'. fs_files fs' = fs_files fs \<Longrightarrow> Q (Inr x) fs'"
  shows "io_wp m Q fs"
  using assms unfolding quiet_io_def io_wp_def by (cases "m fs") blast

lemma quiet_step: "(\<And>fs. fs_files (f fs) = fs_files fs) \<Longrightarrow> quiet_io E (io_step E f) ()"
  by (auto simp: quiet_io_def io_step_def io_call_def Let_def no_faults_def split: option.splits)

lemma quiet_call: "(\<And>fs. eff fs = (Inr x, fs)) \<Longrightarrow> quiet_io E (io_call E eff) x"
  by (auto simp: quiet_io_def io_call_def Let_def no_faults_def split: option.splits)

lemma quiet_context: "quiet_io E m x \<Longrightarrow> quiet_io E (io_context msg m) x"
  by (fastforce simp: quiet_io_def io_context_def io_map_err_def map_err_Inl split: prod.splits)

lemma quiet_then: "quiet_io E m x \<Longrightarrow> quiet_io E (f x) y \<Longrightarrow> quiet_io E (io_then m f) y"
  unfolding quiet_io_def io_then_def by (fastforce split: prod.splits sum.splits)

lemma quiet_ok: "quiet_io E (io_ok x) x"
  by (simp add: quiet_io_def io_ok_def)

lemma quiet_parts:
  "quiet_io E (ensure_private_dir E p) ()" "quiet_io E (sync_parent E p) ()"
  "quiet_io E (temp_sync_all E) ()"
  "quiet_io E (private_temp E p) \<lparr>f_bytes = [], f_mode = PRIVATE_FILE_MODE\<rparr>"
  "quiet_io E (temp_write_all E bytes temp) (temp\<lparr>f_bytes := f_bytes temp @ bytes\<rparr>)"
  "quiet_io E (read_open E f) (f_bytes f)"
  unfolding ensure_private_dir_def sync_parent_def temp_sync_all_def private_temp_def temp_write_all_def read_open_def
  by (auto intro!: quiet_then quiet_context quiet_step quiet_call quiet_ok)

lemmas quiet_rules = quiet_parts [THEN quiet_wp] quiet_parts [THEN quiet_context, THEN quiet_wp]

lemma FileLock_open_wp:
  assumes "others_idle E"
    and "\<And>e fs'. same_except {p} fs fs' \<Longrightarrow> \<not> no_faults E \<Longrightarrow> Q (Inl (Failed e)) fs'"
    and "\<And>fs'. same_except {p} fs fs' \<Longrightarrow> Q (Inr ()) fs'"
  shows "io_wp (FileLock_open E p nb) Q fs"
  using assms(1) unfolding FileLock_open_def path_parent_def
  by (auto simp: Let_def no_faults_def others_idle_def same_except_def create_if_absent_def
      intro!: assms(2,3) quiet_rules split: option.splits)

lemma temp_persist_wp:
  assumes "\<And>e fs'. fs_files fs' = fs_files fs \<Longrightarrow> \<not> no_faults E \<Longrightarrow> Q (Inl (Failed e)) fs'"
    and "\<And>fs'. fs_files fs' = (fs_files fs)(p \<mapsto> temp) \<Longrightarrow> Q (Inr ()) fs'"
  shows "io_wp (temp_persist E temp p) Q fs"
  unfolding temp_persist_def by (auto simp: Let_def no_faults_def intro!: assms split: option.splits)

lemma persist_noclobber_wp:
  assumes "\<And>e fs'. fs_files fs' = fs_files fs \<Longrightarrow> \<not> no_faults E \<or> fs_files fs p \<noteq> None \<Longrightarrow> Q (Inl (Failed e)) fs'"
    and "\<And>fs'. fs_files fs p = None \<Longrightarrow> fs_files fs' = (fs_files fs)(p \<mapsto> temp) \<Longrightarrow> Q (Inr ()) fs'"
  shows "io_wp (temp_persist_noclobber E temp p) Q fs"
  unfolding temp_persist_noclobber_def by (auto simp: Let_def no_faults_def intro!: assms split: option.splits)

lemma open_file_wp:
  assumes "\<And>e fs'. fs_files fs' = fs_files fs \<Longrightarrow> \<not> no_faults E \<Longrightarrow> Q (Inl (Failed e)) fs'"
    and "\<And>e fs'. fs_files fs' = fs_files fs \<Longrightarrow> fs_files fs p = None \<Longrightarrow> Q (Inl (NotFound e)) fs'"
    and "\<And>f fs'. fs_files fs' = fs_files fs \<Longrightarrow> fs_files fs p = Some f \<Longrightarrow> Q (Inr f) fs'"
  shows "io_wp (open_file E p) Q fs"
  unfolding open_file_def by (auto simp: Let_def no_faults_def intro!: assms split: option.splits)

lemma fs_read_wp:
  assumes "\<And>e fs'. fs_files fs' = fs_files fs \<Longrightarrow> \<not> no_faults E \<Longrightarrow> Q (Inl (Failed e)) fs'"
    and "\<And>e fs'. fs_files fs' = fs_files fs \<Longrightarrow> fs_files fs p = None \<Longrightarrow> Q (Inl (NotFound e)) fs'"
    and "\<And>f fs'. fs_files fs' = fs_files fs \<Longrightarrow> fs_files fs p = Some f \<Longrightarrow> Q (Inr (f_bytes f)) fs'"
  shows "io_wp (fs_read E p) Q fs"
  unfolding fs_read_def by (auto intro!: open_file_wp quiet_rules assms)

section \<open>Durable replacement\<close>

definition stored :: "path \<Rightarrow> byte list \<Rightarrow> Fs \<Rightarrow> Fs \<Rightarrow> bool" where
  "stored p bytes fs fs' \<longleftrightarrow> fs_files fs' p = Some \<lparr>f_bytes = bytes, f_mode = PRIVATE_FILE_MODE\<rparr>"

lemma atomic_write_unlocked_wp:
  assumes "\<And>e fs'. fs_files fs' = fs_files fs \<or> fs_files fs' = (fs_files fs)(p \<mapsto> \<lparr>f_bytes = bytes, f_mode = PRIVATE_FILE_MODE\<rparr>) \<Longrightarrow>
      \<not> (no_faults E \<and> p \<noteq> []) \<Longrightarrow> Q (Inl (Failed e)) fs'"
    and "\<And>fs'. fs_files fs' = (fs_files fs)(p \<mapsto> \<lparr>f_bytes = bytes, f_mode = PRIVATE_FILE_MODE\<rparr>) \<Longrightarrow> Q (Inr ()) fs'"
  shows "io_wp (atomic_write_unlocked E p bytes) Q fs"
  unfolding atomic_write_unlocked_def path_parent_def
  by (auto intro!: quiet_rules temp_persist_wp assms)

lemma atomic_write_wp:
  assumes "others_idle E"
    and "\<And>e fs'. same_except {p, lock_path p} fs fs' \<Longrightarrow> fs_files fs' p = fs_files fs p \<or> stored p bytes fs fs' \<Longrightarrow>
      \<not> (no_faults E \<and> p \<noteq> []) \<Longrightarrow> Q (Inl (Failed e)) fs'"
    and "\<And>fs'. same_except {p, lock_path p} fs fs' \<Longrightarrow> stored p bytes fs fs' \<Longrightarrow> Q (Inr ()) fs'"
  shows "io_wp (atomic_write E p bytes) Q fs"
  unfolding atomic_write_def FileLock_acquire_def path_parent_def
  by (auto simp: same_except_def stored_def assms(1) intro!: quiet_rules FileLock_open_wp atomic_write_unlocked_wp assms(2,3))

section \<open>Stable identities\<close>

lemma read_secret_wp:
  assumes "\<And>e fs'. fs_files fs' = fs_files fs \<Longrightarrow> \<not> no_faults E \<or> (\<exists>f. fs_files fs p = Some f \<and> length (f_bytes f) \<noteq> SECRET_LENGTH) \<Longrightarrow>
      Q (Inl (Failed e)) fs'"
    and "\<And>e fs'. fs_files fs' = fs_files fs \<Longrightarrow> fs_files fs p = None \<Longrightarrow> Q (Inl (NotFound e)) fs'"
    and "\<And>f fs'. fs_files fs' = fs_files fs \<Longrightarrow> fs_files fs p = Some f \<Longrightarrow> length (f_bytes f) = SECRET_LENGTH \<Longrightarrow>
      Q (Inr (SecretKey (f_bytes f))) fs'"
  shows "io_wp (read_secret E p) Q fs"
  unfolding read_secret_def by (auto intro!: open_file_wp quiet_rules assms)

lemma create_secret_wp:
  assumes "\<And>e fs'. same_except {p} fs fs' \<Longrightarrow> fs_files fs p \<noteq> None \<longrightarrow> fs_files fs' = fs_files fs \<Longrightarrow>
      \<not> (no_faults E \<and> fs_files fs p = None) \<Longrightarrow> Q (Inl (Failed e)) fs'"
    and "\<And>fs'. fs_files fs p = None \<Longrightarrow> fs_files fs' = (fs_files fs)(p \<mapsto>
      \<lparr>f_bytes = key_bytes (fe_generated E), f_mode = PRIVATE_FILE_MODE\<rparr>) \<Longrightarrow> Q (Inr (fe_generated E)) fs'"
  shows "io_wp (create_secret E parent p) Q fs"
  unfolding create_secret_def Let_def
  by (auto simp: same_except_def intro!: quiet_rules persist_noclobber_wp assms)

lemma io_wp_secret_cases [simp]:
  "io_wp (\<lambda>fs. case m fs of (Inr key, fs') \<Rightarrow> (Inr key, fs')
      | (Inl (NotFound e), fs') \<Rightarrow> c fs' | (Inl (Failed e), fs') \<Rightarrow> (Inl (Failed e), fs')) Q fs \<longleftrightarrow>
   io_wp m (\<lambda>r fs'. case r of Inr key \<Rightarrow> Q (Inr key) fs' | Inl (NotFound e) \<Rightarrow> io_wp c Q fs'
      | Inl (Failed e) \<Rightarrow> Q (Inl (Failed e)) fs') fs"
  by (auto simp: io_wp_def split: prod.splits sum.splits FsError.splits)

lemma lock_any: "(\<And>r fs'. Q r fs') \<Longrightarrow> io_wp (FileLock_acquire E p) Q fs"
  by (auto simp: io_wp_def split: prod.splits)

text \<open>Whatever other processes do before the lock is granted, the identity that is returned is
  the one in the file.\<close>

lemma load_or_create_secret_written:
  assumes "length (key_bytes (fe_generated E)) = SECRET_LENGTH"
  shows "io_wp (load_or_create_secret E p) (\<lambda>r fs'. \<forall>k. r = Inr k \<longrightarrow>
     (\<exists>f. fs_files fs' p = Some f \<and> f_bytes f = key_bytes k \<and> length (f_bytes f) = SECRET_LENGTH)) fs"
  unfolding load_or_create_secret_def path_parent_def
  by (auto simp: assms intro!: quiet_rules lock_any read_secret_wp create_secret_wp split: sum.split)

lemma load_or_create_secret_keeps:
  assumes "others_idle E" "fs_files fs p = Some f" "length (f_bytes f) = SECRET_LENGTH"
  shows "io_wp (load_or_create_secret E p) (\<lambda>r fs'. fs_files fs' p = Some f \<and>
     (\<forall>k. r = Inr k \<longrightarrow> key_bytes k = f_bytes f) \<and> (no_faults E \<and> p \<noteq> [] \<longrightarrow> is_ok r)) fs"
  using assms unfolding load_or_create_secret_def FileLock_acquire_def path_parent_def
  by (auto simp: same_except_def intro!: quiet_rules FileLock_open_wp read_secret_wp create_secret_wp)

lemma load_or_create_secret_creates:
  assumes "others_idle E" "no_faults E" "fs_files fs p = None" "p \<noteq> []"
  shows "io_wp (load_or_create_secret E p) (\<lambda>r fs'. r = Inr (fe_generated E)) fs"
  using assms unfolding load_or_create_secret_def FileLock_acquire_def path_parent_def
  by (auto simp: same_except_def intro!: quiet_rules FileLock_open_wp read_secret_wp create_secret_wp)

section \<open>State files\<close>

text \<open>A value with a JSON form that reads back is a state file that survives a restart.\<close>

locale json_state =
  fixes to_json :: "'v \<Rightarrow> json" and of_json :: "json \<Rightarrow> string + 'v" and storable :: "'v \<Rightarrow> bool"
  assumes of_to_json: "storable v \<Longrightarrow> of_json (to_json v) = Inr v"
begin

lemma parse_stored:
  assumes "pretty_laws X" "storable v"
  shows "and_then (json_from_slice X (json_to_vec_pretty X (to_json v) @ [10])) of_json = Inr v"
    "and_then (json_from_slice X (json_to_vec_pretty X (to_json v))) of_json = Inr v"
  using assms of_to_json by (simp_all add: pretty_laws_def)

lemma read_stored:
  assumes "pretty_laws X" "storable v" "no_faults E"
    and "stored p (json_to_vec_pretty X (to_json v) @ [10]) fs fs'"
  shows "io_wp (read_json X E of_json p) (\<lambda>r fs''. r = Inr v \<and> fs_files fs'' = fs_files fs') fs'"
  using assms of_to_json [OF assms(2)]
  by (simp add: read_json_def fs_read_def open_file_def read_open_def no_faults_def Let_def pretty_laws_def
      stored_def)

lemma write_read:
  assumes "pretty_laws X" "storable v" "no_faults E2" "others_idle E"
    and "write_json X E p (to_json v) fs = (Inr (), fs')"
  shows "fst (read_json X E2 of_json p fs') = Inr v"
proof -
  have "io_wp (write_json X E p (to_json v)) (\<lambda>r fs'. r = Inr () \<longrightarrow>
      stored p (json_to_vec_pretty X (to_json v) @ [10]) fs fs') fs"
    unfolding write_json_def by (rule atomic_write_wp [OF assms(4)]) simp_all
  from io_wp_result [OF this assms(5)]
  have "stored p (json_to_vec_pretty X (to_json v) @ [10]) fs fs'" by simp
  from read_stored [OF assms(1-3) this] show ?thesis by (simp add: io_wp_def split: prod.splits)
qed

end

section \<open>A small file system\<close>

definition state_path :: path where "state_path = [''home'', ''state.json'']"

definition sample_fs :: Fs where
  "sample_fs = \<lparr>fs_files = [state_path \<mapsto> \<lparr>f_bytes = [1, 2], f_mode = 420\<rparr>], fs_dirs = Map.empty, fs_calls = 0\<rparr>"

definition calm_disk :: FsEnv where
  "calm_disk = \<lparr>fe_outcome = (\<lambda>_. None), fe_others = (\<lambda>fs. fs),
     fe_generated = SecretKey (replicate 32 5), fe_dir_mode = 493,
     fe_file_mode = 420\<rparr>"

definition full_disk :: FsEnv where
  "full_disk = calm_disk\<lparr>fe_outcome := (\<lambda>n. if n = 9 then Some ''no space left'' else None)\<rparr>"

lemma sample_disks [simp]:
  "others_idle calm_disk" "others_idle full_disk" "no_faults calm_disk"
  "length (key_bytes (fe_generated calm_disk)) = SECRET_LENGTH"
  by (simp_all add: others_idle_def no_faults_def calm_disk_def full_disk_def SECRET_LENGTH_def)

section \<open>Properties\<close>

text \<open>C13: Replacing a state file is all or nothing.  Whichever system call fails, the file holds
  its old content or the complete new one, private to the user; success means the new one; and no
  file but it and its lock is touched.\<close>

theorem atomic_write_all_or_nothing:
  assumes "others_idle E" "atomic_write E p bytes fs = (r, fs')"
  shows "(fs_files fs' p = fs_files fs p \<or>
      fs_files fs' p = Some \<lparr>f_bytes = bytes, f_mode = PRIVATE_FILE_MODE\<rparr>) \<and>
    (r = Inr () \<longrightarrow> fs_files fs' p = Some \<lparr>f_bytes = bytes, f_mode = PRIVATE_FILE_MODE\<rparr>) \<and>
    (no_faults E \<and> p \<noteq> [] \<longrightarrow> r = Inr ()) \<and>
    (\<forall>q. q \<noteq> p \<and> q \<noteq> lock_path p \<longrightarrow> fs_files fs' q = fs_files fs q)"
proof -
  have "io_wp (atomic_write E p bytes) (\<lambda>r fs'. same_except {p, lock_path p} fs fs' \<and>
      (fs_files fs' p = fs_files fs p \<or> fs_files fs' p = Some \<lparr>f_bytes = bytes, f_mode = PRIVATE_FILE_MODE\<rparr>) \<and>
      (r = Inr () \<longrightarrow> fs_files fs' p = Some \<lparr>f_bytes = bytes, f_mode = PRIVATE_FILE_MODE\<rparr>) \<and>
      (no_faults E \<and> p \<noteq> [] \<longrightarrow> r = Inr ())) fs"
    by (rule atomic_write_wp [OF assms(1)]) (auto simp: stored_def)
  from io_wp_result [OF this assms(2)] show ?thesis by (simp add: same_except_def)
qed

theorem atomic_write_all_or_nothing_witness:
  "fst (atomic_write calm_disk state_path [7] sample_fs) = Inr () \<and>
   fs_files (snd (atomic_write calm_disk state_path [7] sample_fs)) state_path =
     Some \<lparr>f_bytes = [7], f_mode = PRIVATE_FILE_MODE\<rparr> \<and>
   fs_files (snd (atomic_write full_disk state_path [7] sample_fs)) state_path \<in>
     {Some \<lparr>f_bytes = [1, 2], f_mode = 420\<rparr>, Some \<lparr>f_bytes = [7], f_mode = PRIVATE_FILE_MODE\<rparr>}"
  using atomic_write_all_or_nothing [of calm_disk state_path "[7]" sample_fs, OF _ surjective_pairing]
    atomic_write_all_or_nothing [of full_disk state_path "[7]" sample_fs, OF _ surjective_pairing]
  by (auto simp: sample_fs_def state_path_def)

text \<open>C14: An identity is created once.  The key \<open>load_or_create_secret\<close> returns is the one in
  its file, whatever other processes did before the lock was granted; every later call leaves the file
  as it is and returns that key or fails.\<close>

theorem identity_is_stable:
  assumes "load_or_create_secret E p fs = (Inr k, fs')"
    and "length (key_bytes (fe_generated E)) = SECRET_LENGTH"
    and "others_idle E2" "load_or_create_secret E2 p fs' = (r, fs'')"
  shows "(\<exists>f. fs_files fs' p = Some f \<and> f_bytes f = key_bytes k) \<and> fs_files fs'' p = fs_files fs' p \<and>
    (\<forall>k'. r = Inr k' \<longrightarrow> k' = k) \<and> (no_faults E2 \<longrightarrow> r = Inr k)"
proof -
  have "load_or_create_secret E [] fs = (Inl (Failed ''identity path has no parent''), fs)"
    by (simp add: load_or_create_secret_def path_parent_def io_fail_def)
  with assms(1) have "p \<noteq> []" by auto
  obtain f where f: "fs_files fs' p = Some f" "f_bytes f = key_bytes k" "length (f_bytes f) = SECRET_LENGTH"
    using io_wp_result [OF load_or_create_secret_written [OF assms(2)] assms(1)] by blast
  note kept = io_wp_result [OF load_or_create_secret_keeps [OF assms(3) f(1,3)] assms(4)]
  have "k' = k" if "r = Inr k'" for k'
    using kept that f(2) by (intro SecretKey.expand) simp
  with kept f \<open>p \<noteq> []\<close> show ?thesis by (auto simp: is_ok_iff)
qed

theorem identity_is_stable_witness:
  "\<exists>fs' fs''. load_or_create_secret calm_disk [''home'', ''agent.key''] sample_fs =
     (Inr (fe_generated calm_disk), fs') \<and>
   load_or_create_secret (calm_disk\<lparr>fe_generated := SecretKey [6]\<rparr>) [''home'', ''agent.key''] fs' =
     (Inr (fe_generated calm_disk), fs'')"
proof -
  let ?p = "[''home'', ''agent.key'']" and ?E2 = "calm_disk\<lparr>fe_generated := SecretKey [6]\<rparr>"
  have "io_wp (load_or_create_secret calm_disk ?p) (\<lambda>r fs'. r = Inr (fe_generated calm_disk)) sample_fs"
    by (rule load_or_create_secret_creates) (simp_all add: sample_fs_def state_path_def)
  then obtain fs' where one: "load_or_create_secret calm_disk ?p sample_fs = (Inr (fe_generated calm_disk), fs')"
    by (cases "load_or_create_secret calm_disk ?p sample_fs") (simp add: io_wp_def)
  obtain r fs'' where two: "load_or_create_secret ?E2 ?p fs' = (r, fs'')" by (rule prod.exhaust)
  have e2: "others_idle ?E2" "no_faults ?E2" by (simp_all add: others_idle_def no_faults_def calm_disk_def)
  from identity_is_stable [OF one sample_disks(4) e2(1) two] e2(2) have "r = Inr (fe_generated calm_disk)" by blast
  with one two show ?thesis by blast
qed

end
