(* ===== verification/Node_Docs.thy ===== *)
theory Node_Docs
  imports Relay_Api
begin

text \<open>
  Reading the documents Control sends to nodes, as their derived \<open>Deserialize\<close> does: node maps,
  join results (\<open>crates/control-api/src/lib.rs\<close>) and revocation updates
  (\<open>crates/relay-api/src/lib.rs\<close>).  Every document in range reads back from its JSON form.
\<close>

section \<open>Fields\<close>

text \<open>An \<open>Option\<close> field may be missing; a field with \<open>serde(default)\<close> may be missing too.\<close>

definition field_option :: "string \<Rightarrow> (json \<Rightarrow> string + 'a) \<Rightarrow> json \<Rightarrow> string + 'a option" where
  "field_option name f v = and_then (obj_field_opt name v) (as_option f)"

definition field_default :: "string \<Rightarrow> 'a \<Rightarrow> (json \<Rightarrow> string + 'a) \<Rightarrow> json \<Rightarrow> string + 'a" where
  "field_default name d f v = (case v of
      JObj kvs \<Rightarrow> (case filter (\<lambda>kv. fst kv = name) kvs of
          [] \<Rightarrow> Inr d
        | [kv] \<Rightarrow> f (snd kv)
        | _ \<Rightarrow> Inl (''duplicate field '' @ name))
    | _ \<Rightarrow> Inl ''invalid type: expected an object'')"

definition bytes_of_json :: "json \<Rightarrow> string + byte list" where
  "bytes_of_json = as_list (\<lambda>v. map_ok word_of_nat (as_unsigned 8 v))"

section \<open>Node maps\<close>

definition RelayInfo_of_json :: "json \<Rightarrow> string + RelayInfo" where
  "RelayInfo_of_json v =
     and_then (field ''name'' as_string v) (\<lambda>name.
     and_then (field ''url'' as_string v) (\<lambda>url.
     and_then (field_option ''qad_port'' (as_unsigned 16) v) (\<lambda>qad_port.
     Inr \<lparr>ri_name = name, ri_url = url, ri_qad_port = qad_port\<rparr>)))"

definition EdgeInfo_of_json :: "json \<Rightarrow> string + EdgeInfo" where
  "EdgeInfo_of_json v =
     and_then (field ''name'' as_string v) (\<lambda>name.
     and_then (field ''endpoint_id'' as_string v) (\<lambda>endpoint_id.
     and_then (field ''owner_id'' as_string v) (\<lambda>owner_id.
     and_then (field ''owner_name'' as_string v) (\<lambda>owner_name.
     Inr \<lparr>ei_name = name, ei_endpoint_id = endpoint_id, ei_owner_id = owner_id,
       ei_owner_name = owner_name\<rparr>))))"

definition NodeMap_of_json :: "json \<Rightarrow> string + NodeMap" where
  "NodeMap_of_json v =
     and_then (field ''protocol_version'' (as_unsigned 32) v) (\<lambda>protocol_version.
     and_then (field ''audience'' as_string v) (\<lambda>audience.
     and_then (field ''control_url'' as_string v) (\<lambda>control_url.
     and_then (field ''control_id'' as_string v) (\<lambda>control_id.
     and_then (field ''revision'' (as_unsigned 64) v) (\<lambda>revision.
     and_then (field ''issued_at'' as_i64 v) (\<lambda>issued_at.
     and_then (field ''recipient_id'' as_string v) (\<lambda>recipient_id.
     and_then (field ''relays'' (as_list RelayInfo_of_json) v) (\<lambda>relays.
     and_then (field_option ''relay_credential'' as_string v) (\<lambda>relay_credential.
     and_then (field ''relay_ca_der'' bytes_of_json v) (\<lambda>relay_ca_der.
     and_then (field_default ''allowed_clients'' [] (as_list as_string) v) (\<lambda>allowed_clients.
     and_then (field_default ''edges'' [] (as_list EdgeInfo_of_json) v) (\<lambda>edges.
     Inr \<lparr>nm_protocol_version = protocol_version, nm_audience = audience,
       nm_control_url = control_url, nm_control_id = control_id, nm_revision = revision,
       nm_issued_at = issued_at, nm_recipient_id = recipient_id, nm_relays = relays,
       nm_relay_credential = relay_credential, nm_relay_ca_der = relay_ca_der,
       nm_allowed_clients = allowed_clients, nm_edges = edges\<rparr>))))))))))))"

definition SignedNodeMap_json :: "Ext \<Rightarrow> SignedNodeMap \<Rightarrow> json" where
  "SignedNodeMap_json X s = JObj [
     (''map'', NodeMap_json (snm_map s)),
     (''signature'', sig_to_json X (snm_signature s))]"

definition SignedNodeMap_of_json :: "Ext \<Rightarrow> json \<Rightarrow> string + SignedNodeMap" where
  "SignedNodeMap_of_json X v =
     and_then (field ''map'' NodeMap_of_json v) (\<lambda>map.
     and_then (field ''signature'' (sig_of_json X) v) (\<lambda>signature.
     Inr \<lparr>snm_map = map, snm_signature = signature\<rparr>))"

definition JoinResult_json :: "Ext \<Rightarrow> JoinResult \<Rightarrow> json" where
  "JoinResult_json X j = JObj ([
     (''name'', JStr (jr_name j)),
     (''kind'', InviteKind_json (jr_kind j)),
     (''map'', SignedNodeMap_json X (jr_map j))] @
     skip_none ''relay_tls_certificate_der'' bytes_json (jr_relay_tls_certificate_der j))"

definition JoinResult_of_json :: "Ext \<Rightarrow> json \<Rightarrow> string + JoinResult" where
  "JoinResult_of_json X v =
     and_then (field ''name'' as_string v) (\<lambda>name.
     and_then (field ''kind'' InviteKind_of_json v) (\<lambda>kind.
     and_then (field ''map'' (SignedNodeMap_of_json X) v) (\<lambda>map.
     and_then (field_option ''relay_tls_certificate_der'' bytes_of_json v) (\<lambda>certificate.
     Inr \<lparr>jr_name = name, jr_kind = kind, jr_map = map,
       jr_relay_tls_certificate_der = certificate\<rparr>))))"

section \<open>Revocation updates\<close>

definition Revocation_of_json :: "json \<Rightarrow> string + Revocation" where
  "Revocation_of_json v =
     and_then (field ''endpoint_id'' as_string v) (\<lambda>endpoint_id.
     and_then (field ''revoked_through_generation'' (as_unsigned 64) v) (\<lambda>generation.
     and_then (field ''expires_at'' as_i64 v) (\<lambda>expires_at.
     and_then (field ''revision'' (as_unsigned 64) v) (\<lambda>revision.
     Inr \<lparr>rvk_endpoint_id = endpoint_id, rvk_revoked_through_generation = generation,
       rvk_expires_at = expires_at, rvk_revision = revision\<rparr>))))"

definition RevocationUpdate_of_json :: "json \<Rightarrow> string + RevocationUpdate" where
  "RevocationUpdate_of_json v =
     and_then (field ''protocol_version'' (as_unsigned 32) v) (\<lambda>protocol_version.
     and_then (field ''audience'' as_string v) (\<lambda>audience.
     and_then (field ''version'' (as_unsigned 64) v) (\<lambda>version.
     and_then (field ''issued_at'' as_i64 v) (\<lambda>issued_at.
     and_then (field ''revocations'' (as_list Revocation_of_json) v) (\<lambda>revocations.
     Inr \<lparr>ru_protocol_version = protocol_version, ru_audience = audience, ru_version = version,
       ru_issued_at = issued_at, ru_revocations = revocations\<rparr>)))))"

definition SignedRevocationUpdate_json :: "Ext \<Rightarrow> SignedRevocationUpdate \<Rightarrow> json" where
  "SignedRevocationUpdate_json X s = JObj [
     (''update'', RevocationUpdate_json (sru_update s)),
     (''signature'', sig_to_json X (sru_signature s))]"

definition SignedRevocationUpdate_of_json :: "Ext \<Rightarrow> json \<Rightarrow> string + SignedRevocationUpdate" where
  "SignedRevocationUpdate_of_json X v =
     and_then (field ''update'' RevocationUpdate_of_json v) (\<lambda>update.
     and_then (field ''signature'' (sig_of_json X) v) (\<lambda>signature.
     Inr \<lparr>sru_update = update, sru_signature = signature\<rparr>))"

section \<open>Round trips\<close>

definition i64_range :: "int \<Rightarrow> bool" where
  "i64_range n \<longleftrightarrow> i64_min \<le> n \<and> n \<le> i64_max"

definition relay_info_in_range :: "RelayInfo \<Rightarrow> bool" where
  "relay_info_in_range r \<longleftrightarrow> (case ri_qad_port r of None \<Rightarrow> True | Some p \<Rightarrow> p < 2 ^ 16)"

definition node_map_in_range :: "NodeMap \<Rightarrow> bool" where
  "node_map_in_range m \<longleftrightarrow> nm_protocol_version m < 2 ^ 32 \<and> nm_revision m < 2 ^ 64 \<and>
     i64_range (nm_issued_at m) \<and> list_all relay_info_in_range (nm_relays m)"

definition revocation_in_range :: "Revocation \<Rightarrow> bool" where
  "revocation_in_range r \<longleftrightarrow> rvk_revoked_through_generation r < 2 ^ 64 \<and> rvk_revision r < 2 ^ 64 \<and>
     i64_range (rvk_expires_at r)"

definition update_in_range :: "RevocationUpdate \<Rightarrow> bool" where
  "update_in_range u \<longleftrightarrow> ru_protocol_version u < 2 ^ 32 \<and> ru_version u < 2 ^ 64 \<and>
     i64_range (ru_issued_at u) \<and> list_all revocation_in_range (ru_revocations u)"

lemmas read_field_simps = field_def obj_field_def field_option_def obj_field_opt_def field_default_def

lemma bytes_round_trip [simp]: "bytes_of_json (bytes_json bs) = Inr bs"
proof -
  have "uint b < 256" for b :: byte using unsigned_less [of b, where 'a = int] by simp
  then show ?thesis by (simp add: bytes_of_json_def bytes_json_def collect_results_Inr)
qed

lemma as_option_number [simp]:
  "as_option (as_unsigned b) (option_json unsigned_json p) = Inr q \<longleftrightarrow>
     q = p \<and> (case p of None \<Rightarrow> True | Some n \<Rightarrow> n < 2 ^ b)"
  by (cases p) (auto simp: unsigned_json_def)

lemma RelayInfo_round_trip [simp]:
  "relay_info_in_range r \<Longrightarrow> RelayInfo_of_json (RelayInfo_json r) = Inr r"
  by (simp add: RelayInfo_of_json_def RelayInfo_json_def read_field_simps relay_info_in_range_def)

lemma EdgeInfo_round_trip [simp]: "EdgeInfo_of_json (EdgeInfo_json e) = Inr e"
  by (simp add: EdgeInfo_of_json_def EdgeInfo_json_def read_field_simps)

lemma read_list_simps:
  "list_all relay_info_in_range rs \<Longrightarrow> as_list RelayInfo_of_json (JArr (map RelayInfo_json rs)) = Inr rs"
  "as_list EdgeInfo_of_json (JArr (map EdgeInfo_json es)) = Inr es"
  "as_list as_string (JArr (map JStr ss)) = Inr ss"
  by (rule as_list_map, simp add: list_all_iff)+

lemma NodeMap_round_trip: "node_map_in_range m \<Longrightarrow> NodeMap_of_json (NodeMap_json m) = Inr m"
  by (cases "nm_relay_credential m")
    (simp_all add: NodeMap_of_json_def NodeMap_json_def read_field_simps node_map_in_range_def i64_range_def
      read_list_simps del: as_list.simps)

lemma SignedNodeMap_round_trip:
  "json_laws X \<Longrightarrow> node_map_in_range (snm_map s) \<Longrightarrow> SignedNodeMap_of_json X (SignedNodeMap_json X s) = Inr s"
  by (simp add: SignedNodeMap_of_json_def SignedNodeMap_json_def read_field_simps NodeMap_round_trip ext_round_trips)

lemma Revocation_round_trip [simp]:
  "revocation_in_range r \<Longrightarrow> Revocation_of_json (Revocation_json r) = Inr r"
  by (simp add: Revocation_of_json_def Revocation_json_def read_field_simps revocation_in_range_def i64_range_def)

lemma read_revocations:
  "list_all revocation_in_range rs \<Longrightarrow> as_list Revocation_of_json (JArr (map Revocation_json rs)) = Inr rs"
  by (rule as_list_map) (simp add: list_all_iff)

lemma RevocationUpdate_round_trip:
  "update_in_range u \<Longrightarrow> RevocationUpdate_of_json (RevocationUpdate_json u) = Inr u"
  by (simp add: RevocationUpdate_of_json_def RevocationUpdate_json_def read_field_simps update_in_range_def
      i64_range_def read_revocations del: as_list.simps)

lemma SignedRevocationUpdate_round_trip:
  "json_laws X \<Longrightarrow> update_in_range (sru_update s) \<Longrightarrow>
   SignedRevocationUpdate_of_json X (SignedRevocationUpdate_json X s) = Inr s"
  by (simp add: SignedRevocationUpdate_of_json_def SignedRevocationUpdate_json_def read_field_simps
      RevocationUpdate_round_trip ext_round_trips)

section \<open>What is read is in range\<close>

lemma field_reads:
  "field n f v = Inr x \<Longrightarrow> \<exists>w. f w = Inr x"
  by (auto simp: field_def)

lemma as_unsigned_range: "as_unsigned b v = Inr n \<Longrightarrow> n < 2 ^ b"
  by (cases v) (auto split: if_splits simp: nat_less_iff)

lemma as_i64_range: "as_i64 v = Inr n \<Longrightarrow> i64_range n"
  by (cases v) (auto split: if_splits simp: i64_range_def)

lemma as_list_range:
  assumes "as_list f v = Inr xs" "\<And>w x. f w = Inr x \<Longrightarrow> P x"
  shows "list_all P xs"
proof -
  obtain vs where "map f vs = map Inr xs" using assms(1) by (cases v) (auto simp: collect_results_Inr)
  then have "\<exists>w. f w = Inr x" if "x \<in> set xs" for x
    using that by (metis image_eqI image_iff image_set)
  with assms(2) show ?thesis unfolding list_all_iff by blast
qed

lemma Revocation_in_range: "Revocation_of_json v = Inr r \<Longrightarrow> revocation_in_range r"
  unfolding Revocation_of_json_def revocation_in_range_def
  by (auto dest!: field_reads as_unsigned_range as_i64_range)

lemma RevocationUpdate_in_range: "RevocationUpdate_of_json v = Inr u \<Longrightarrow> update_in_range u"
  unfolding RevocationUpdate_of_json_def update_in_range_def
  by (auto dest!: field_reads as_unsigned_range as_i64_range as_list_range [OF _ Revocation_in_range])

lemma SignedRevocationUpdate_in_range: "SignedRevocationUpdate_of_json X v = Inr m \<Longrightarrow> update_in_range (sru_update m)"
  unfolding SignedRevocationUpdate_of_json_def by (auto dest!: field_reads intro: RevocationUpdate_in_range)

lemma as_option_range:
  "as_option f v = Inr x \<Longrightarrow> (\<And>w y. f w = Inr y \<Longrightarrow> P y) \<Longrightarrow> (case x of None \<Rightarrow> True | Some y \<Rightarrow> P y)"
  by (cases v; cases "f v") auto

end
