(* ===== verification/Hash_Maps.thy ===== *)
theory Hash_Maps
  imports AS_Prelude
begin

text \<open>
  \<open>HashMap\<close> and \<open>BTreeMap\<close> as lists of pairs with one entry per key.  The order of the list
  stands for the unspecified order of iteration; no property depends on it.
\<close>

type_synonym ('k, 'v) hash_map = "('k \<times> 'v) list"

definition hash_get :: "'k \<Rightarrow> ('k, 'v) hash_map \<Rightarrow> 'v option" where
  "hash_get k m = map_option snd (find_by fst k m)"

definition hash_insert :: "'k \<Rightarrow> 'v \<Rightarrow> ('k, 'v) hash_map \<Rightarrow> ('k, 'v) hash_map" where
  "hash_insert k v m = upsert_by fst (k, v) m"

definition hash_remove :: "'k \<Rightarrow> ('k, 'v) hash_map \<Rightarrow> ('k, 'v) hash_map" where
  "hash_remove k m = delete_by fst k m"

definition hash_collect :: "('k \<times> 'v) list \<Rightarrow> ('k, 'v) hash_map" where
  "hash_collect kvs = fold (\<lambda>(k, v). hash_insert k v) kvs []"

abbreviation hash_ok :: "('k, 'v) hash_map \<Rightarrow> bool" where
  "hash_ok \<equiv> keys_distinct fst"

interpretation hash_rows: keyed_table "find_by fst" "upsert_by fst" "delete_by fst" fst hash_ok set
  by (rule keyed_list)

lemma hash_get_Nil [simp]: "hash_get k [] = None"
  by (simp add: hash_get_def)

lemma hash_get_insert [simp]: "hash_get k (hash_insert k' v m) = (if k = k' then Some v else hash_get k m)"
  by (simp add: hash_get_def hash_insert_def find_by_upsert)

lemma hash_get_remove [simp]: "hash_get k (hash_remove k' m) = (if k = k' then None else hash_get k m)"
  by (simp add: hash_get_def hash_remove_def find_by_delete)

lemma hash_ok_updates [simp]:
  "hash_ok m \<Longrightarrow> hash_ok (hash_insert k v m)" "hash_ok m \<Longrightarrow> hash_ok (hash_remove k m)"
  by (simp_all add: hash_insert_def hash_remove_def hash_rows.put_invar hash_rows.del_invar)

lemma hash_get_member: "hash_ok m \<Longrightarrow> (k, v) \<in> set m \<longleftrightarrow> hash_get k m = Some v"
  by (auto simp: hash_get_def hash_rows.rows_iff dest: find_by_key)

lemma hash_get_None: "hash_get k m = None \<longleftrightarrow> k \<notin> fst ` set m"
  by (simp add: hash_get_def find_by_None)

lemma hash_fold_get:
  "hash_get k (fold (\<lambda>(k, v). hash_insert k v) kvs m) =
     (case map_of (rev kvs) k of Some v \<Rightarrow> Some v | None \<Rightarrow> hash_get k m)"
  by (induction kvs arbitrary: m) (auto simp: map_add_def split: option.splits)

lemma hash_get_collect: "hash_get k (hash_collect kvs) = map_of (rev kvs) k"
  by (simp add: hash_collect_def hash_fold_get split: option.split)

lemma hash_ok_fold: "hash_ok m \<Longrightarrow> hash_ok (fold (\<lambda>(k, v). hash_insert k v) kvs m)"
  by (induction kvs arbitrary: m) auto

lemma hash_ok_collect [simp]: "hash_ok (hash_collect kvs)"
  by (simp add: hash_collect_def hash_ok_fold)

lemma hash_keys_fold:
  "fst ` set (fold (\<lambda>(k, v). hash_insert k v) kvs m) = fst ` set kvs \<union> fst ` set m"
proof (induction kvs arbitrary: m)
  case (Cons kv kvs)
  then show ?case by (simp add: hash_insert_def map_key_upsert split_def)
qed simp

lemma hash_keys_collect: "fst ` set (hash_collect kvs) = fst ` set kvs"
  by (simp add: hash_collect_def hash_keys_fold)

text \<open>\<open>ids.len() == items.len()\<close>: no key was collected twice.\<close>

lemma length_hash_collect: "length (hash_collect kvs) = length kvs \<longleftrightarrow> distinct (map fst kvs)"
proof -
  have "length (hash_collect kvs) = card (fst ` set (hash_collect kvs))"
    using hash_ok_collect [of kvs] by (metis distinct_card keys_distinct_def length_map list.set_map)
  also have "\<dots> = card (set (map fst kvs))" by (simp add: hash_keys_collect)
  finally show ?thesis by (metis card_distinct distinct_card length_map)
qed

lemma hash_get_collect_distinct:
  "distinct (map fst kvs) \<Longrightarrow> hash_get k (hash_collect kvs) = map_of kvs k"
proof -
  assume d: "distinct (map fst kvs)"
  then have "distinct (map fst (rev kvs))" by (metis distinct_rev rev_map)
  with d show ?thesis
    unfolding hash_get_collect by (metis map_of_inject_set set_rev)
qed

end
