(* ===== verification/Relay_Server.thy ===== *)
theory Relay_Server
  imports Core_Files Node_Docs Hash_Maps "HOL-Library.List_Lexorder" "HOL-Library.Char_ord" "HOL-Library.Multiset"
begin

text \<open>
  The admission side of a relay (\<open>crates/as-relay/src/main.rs\<close>): which connections it accepts,
  how it applies the revocation updates Control signs, and how it keeps them on disk.  The table of
  connected clients belongs to \<open>iroh_relay\<close>; the model records the calls the relay makes on it.
\<close>

definition RELAY_CLOCK_SKEW_SECS :: int where "RELAY_CLOCK_SKEW_SECS = 300"

type_synonym RevocationIndex = "(EndpointId, nat \<times> int) hash_map"

datatype Access = Allow | Deny "string option"

datatype ClientsCall = Disconnect EndpointId | Shutdown

record AdminState =
  ra_audience :: string
  ra_authority_id :: EndpointId
  ra_state_path :: path
  ra_current :: RevocationUpdate
  ra_revoked :: RevocationIndex
  ra_clients :: "ClientsCall list"
  ra_enrollment_revoked :: bool
  ra_enrollment_revoked_path :: path
  ra_fs :: Fs

record RelayEnv =
  re_now :: int
  re_later :: int
  re_io :: FsEnv

section \<open>Admission\<close>

definition revoked_through :: "EndpointId \<Rightarrow> int \<Rightarrow> RevocationIndex \<Rightarrow> nat" where
  "revoked_through endpoint_id now revoked = (case hash_get endpoint_id revoked of
      Some (generation, expires_at) \<Rightarrow> if expires_at > now then generation else 0
    | None \<Rightarrow> 0)"

definition validate_credential ::
  "Ext \<Rightarrow> string option \<Rightarrow> EndpointId \<Rightarrow> EndpointId \<Rightarrow> string \<Rightarrow> RevocationIndex \<Rightarrow> int \<Rightarrow> string + unit" where
  "validate_credential X token endpoint_id authority_id audience revoked now =
     and_then (ok_or ''missing Relay credential'' token) (\<lambda>token.
     and_then (SignedRelayCredential_decode X token) (\<lambda>signed.
     let credential = src_credential signed in
     and_then (SignedRelayCredential_verify X signed authority_id) (\<lambda>_.
     and_then (RelayCredential_validate X credential) (\<lambda>_.
     and_then (ensure (rc_audience credential = audience) ''credential audience mismatch'') (\<lambda>_.
     and_then (and_then (credential_endpoint_id X credential) (\<lambda>id.
       ensure (id = endpoint_id) ''credential endpoint mismatch'')) (\<lambda>_.
     and_then (ensure (rc_issued_at credential \<le> i64_saturating_add now RELAY_CLOCK_SKEW_SECS)
       ''credential is not valid yet'') (\<lambda>_.
     and_then (ensure (rc_expires_at credential > now) ''credential expired'') (\<lambda>_.
     ensure (rc_generation credential > revoked_through endpoint_id now revoked)
       ''credential was revoked''))))))))"

definition on_connect :: "Ext \<Rightarrow> AdminState \<Rightarrow> EndpointId \<Rightarrow> string option \<Rightarrow> int \<Rightarrow> Access" where
  "on_connect X st endpoint_id token now =
     (if ra_enrollment_revoked st then Deny (Some ''Relay enrollment is revoked'')
      else case validate_credential X token endpoint_id (ra_authority_id st) (ra_audience st)
          (ra_revoked st) now of
        Inr _ \<Rightarrow> Allow
      | Inl _ \<Rightarrow> Deny (Some ''endpoint is not authorized''))"

section \<open>Revocation state\<close>

definition validate_revocations :: "Ext \<Rightarrow> RevocationUpdate \<Rightarrow> string \<Rightarrow> string + RevocationIndex" where
  "validate_revocations X update audience =
     and_then (RevocationUpdate_validate X update) (\<lambda>_.
     and_then (ensure (ru_audience update = audience) ''revocation audience mismatch'') (\<lambda>_.
     and_then (RevocationUpdate_entries X update) (\<lambda>entries.
     let ids = hash_collect (map2 (\<lambda>revocation (endpoint_id, generation).
       (endpoint_id, (generation, rvk_expires_at revocation))) (ru_revocations update) entries) in
     and_then (ensure (length ids = length (ru_revocations update))
       ''revocation update contains duplicate endpoint ids'') (\<lambda>_.
     Inr ids))))"

definition create_file :: "nat \<Rightarrow> path \<Rightarrow> Fs \<Rightarrow> Fs" where
  "create_file mode p fs = fs\<lparr>fs_files := (fs_files fs)(p \<mapsto> (case fs_files fs p of
      Some f \<Rightarrow> f\<lparr>f_bytes := []\<rparr> | None \<Rightarrow> \<lparr>f_bytes = [], f_mode = mode\<rparr>))\<rparr>"

definition write_file :: "path \<Rightarrow> byte list \<Rightarrow> Fs \<Rightarrow> Fs" where
  "write_file p data fs = fs\<lparr>fs_files := (fs_files fs)(p := map_option (f_bytes_update (\<lambda>bs. bs @ data))
     (fs_files fs p))\<rparr>"

definition rename_file :: "FsEnv \<Rightarrow> path \<Rightarrow> path \<Rightarrow> unit io" where
  "rename_file E p q = io_call E (\<lambda>fs. case fs_files fs p of
      None \<Rightarrow> (Inl (NotFound ''entity not found''), fs)
    | Some f \<Rightarrow> (Inr (), fs\<lparr>fs_files := (fs_files fs)(p := None, q \<mapsto> f)\<rparr>))"

definition persist_revocation_state :: "Ext \<Rightarrow> FsEnv \<Rightarrow> path \<Rightarrow> RevocationUpdate \<Rightarrow> unit io" where
  "persist_revocation_state X E path state =
     (let data = json_to_vec_pretty X (RevocationUpdate_json state);
          tmp = path_with_extension ''json.tmp'' path in
      io_then (io_context (''create '' @ path_display tmp)
        (io_step E (create_file (fe_file_mode E) tmp))) (\<lambda>_.
      io_then (io_step E (write_file tmp data)) (\<lambda>_.
      io_then (io_step E (\<lambda>fs. fs)) (\<lambda>_.
      io_context (''replace '' @ path_display path) (rename_file E tmp path)))))"

definition initial_revocations :: "string \<Rightarrow> int \<Rightarrow> RevocationUpdate" where
  "initial_revocations audience now = \<lparr>ru_protocol_version = RELAY_PROTOCOL_VERSION, ru_audience = audience,
     ru_version = 0, ru_issued_at = now, ru_revocations = []\<rparr>"

definition load_or_initialize :: "Ext \<Rightarrow> FsEnv \<Rightarrow> int \<Rightarrow> path \<Rightarrow> string \<Rightarrow> RevocationUpdate io" where
  "load_or_initialize X E now path audience fs = (case fs_read E path fs of
      (Inr data, fs') \<Rightarrow> io_result (with_context (''parse '' @ path_display path)
         (and_then (json_from_slice X data) RevocationUpdate_of_json)) fs'
    | (Inl (NotFound e), fs') \<Rightarrow>
         io_then (persist_revocation_state X E path (initial_revocations audience now)) (\<lambda>_.
         io_ok (initial_revocations audience now)) fs'
    | (Inl (Failed e), fs') \<Rightarrow> (Inl (Failed (''read '' @ path_display path)), fs'))"

section \<open>Applying an update\<close>

record RelayError =
  rse_status :: nat
  rse_message :: string

definition relay_bad_request :: "string \<Rightarrow> RelayError" where
  "relay_bad_request msg = \<lparr>rse_status = 400, rse_message = msg\<rparr>"
definition relay_conflict :: "string \<Rightarrow> RelayError" where
  "relay_conflict msg = \<lparr>rse_status = 409, rse_message = msg\<rparr>"
definition relay_unauthorized :: "string \<Rightarrow> RelayError" where
  "relay_unauthorized msg = \<lparr>rse_status = 401, rse_message = msg\<rparr>"
definition relay_internal :: "string \<Rightarrow> RelayError" where
  "relay_internal msg = \<lparr>rse_status = 500, rse_message = msg\<rparr>"

definition relay_status :: "Ext \<Rightarrow> AdminState \<Rightarrow> RelayStatus" where
  "relay_status X st = \<lparr>rs_audience = ra_audience st, rs_control_id = id_to_string X (ra_authority_id st),
     rs_version = ru_version (ra_current st), rs_revocations = length (ru_revocations (ra_current st))\<rparr>"

text \<open>The end of both ways to change the state: validate, write, then publish.\<close>

definition install_revocations ::
  "Ext \<Rightarrow> FsEnv \<Rightarrow> RevocationUpdate \<Rightarrow> (RevocationIndex \<Rightarrow> ClientsCall list) \<Rightarrow> AdminState
    \<Rightarrow> (RelayError + RelayStatus) \<times> AdminState" where
  "install_revocations X E update calls st =
     (case map_err relay_bad_request (validate_revocations X update (ra_audience st)) of
        Inl e \<Rightarrow> (Inl e, st)
      | Inr revoked \<Rightarrow>
          (case persist_revocation_state X E (ra_state_path st) update (ra_fs st) of
             (Inl e, fs) \<Rightarrow> (Inl (relay_internal (fs_error_text e)), st\<lparr>ra_fs := fs\<rparr>)
           | (Inr _, fs) \<Rightarrow>
               (let st' = st\<lparr>ra_fs := fs, ra_revoked := revoked,
                  ra_clients := ra_clients st @ calls (ra_revoked st), ra_current := update\<rparr> in
                (Inr (relay_status X st'), st'))))"

definition reapply_revocations ::
  "Ext \<Rightarrow> RelayEnv \<Rightarrow> RevocationUpdate \<Rightarrow> AdminState \<Rightarrow> (RelayError + RelayStatus) \<times> AdminState" where
  "reapply_revocations X env update st = (let current = ra_current st; now = re_now env in
     if list_all (\<lambda>revocation. list_ex (\<lambda>existing. existing = revocation) (ru_revocations current))
       (ru_revocations update)
     then (if list_ex (\<lambda>revocation. rvk_expires_at revocation \<le> now) (ru_revocations current)
       then install_revocations X (re_io env) (current\<lparr>ru_revocations :=
         filter (\<lambda>revocation. rvk_expires_at revocation > now) (ru_revocations current)\<rparr>) (\<lambda>_. []) st
       else (Inr (relay_status X st), st))
     else (Inl (relay_conflict ''revocation version already has different content''), st))"

definition live_revocations :: "Ext \<Rightarrow> int \<Rightarrow> Revocation list \<Rightarrow> (EndpointId, Revocation) hash_map" where
  "live_revocations X now revocations = hash_collect (List.map_filter (\<lambda>revocation.
     if rvk_expires_at revocation > now
     then (case id_parse X (rvk_endpoint_id revocation) of
        Inr endpoint_id \<Rightarrow> Some (endpoint_id, revocation) | Inl _ \<Rightarrow> None)
     else None) revocations)"

definition merge_revocation ::
  "Ext \<Rightarrow> Revocation \<Rightarrow> (EndpointId, Revocation) hash_map \<Rightarrow> RelayError + (EndpointId, Revocation) hash_map" where
  "merge_revocation X revocation merged =
     and_then (map_err relay_bad_request (id_parse X (rvk_endpoint_id revocation))) (\<lambda>endpoint_id.
     and_then (ensure (case hash_get endpoint_id merged of
         Some existing \<Rightarrow> \<not> rvk_revoked_through_generation revocation < rvk_revoked_through_generation existing
       | None \<Rightarrow> True) (relay_conflict ''revocation generation moved backwards'')) (\<lambda>_.
     Inr (hash_insert endpoint_id revocation merged)))"

definition disconnects :: "int \<Rightarrow> RevocationIndex \<Rightarrow> RevocationIndex \<Rightarrow> ClientsCall list" where
  "disconnects now delta old = map (\<lambda>(endpoint_id, _). Disconnect endpoint_id)
     (filter (\<lambda>(endpoint_id, (generation, expires_at)). expires_at > now \<and>
        revoked_through endpoint_id now old < generation) delta)"

definition i64_saturating_sub :: "int \<Rightarrow> int \<Rightarrow> int" where
  "i64_saturating_sub a b = max i64_min (min i64_max (a - b))"

definition accumulated_revocations :: "RevocationUpdate \<Rightarrow> (EndpointId, Revocation) hash_map \<Rightarrow> RevocationUpdate" where
  "accumulated_revocations update merged = \<lparr>ru_protocol_version = RELAY_PROTOCOL_VERSION,
     ru_audience = ru_audience update, ru_version = ru_version update,
     ru_issued_at = ru_issued_at update, ru_revocations = sort_key rvk_endpoint_id (map snd merged)\<rparr>"

lemma accumulated_sel [simp]:
  "ru_protocol_version (accumulated_revocations u m) = RELAY_PROTOCOL_VERSION"
  "ru_audience (accumulated_revocations u m) = ru_audience u"
  "ru_version (accumulated_revocations u m) = ru_version u"
  "ru_issued_at (accumulated_revocations u m) = ru_issued_at u"
  "ru_revocations (accumulated_revocations u m) = sort_key rvk_endpoint_id (map snd m)"
  by (simp_all add: accumulated_revocations_def)

definition extend_revocations ::
  "Ext \<Rightarrow> RelayEnv \<Rightarrow> RevocationUpdate \<Rightarrow> RevocationIndex \<Rightarrow> AdminState
    \<Rightarrow> (RelayError + RelayStatus) \<times> AdminState" where
  "extend_revocations X env update delta st = (let current = ra_current st; now = re_later env in
     if \<bar>i64_saturating_sub (re_now env) (ru_issued_at update)\<bar> > RELAY_CLOCK_SKEW_SECS
     then (Inl (relay_unauthorized ''revocation timestamp is outside the 5 minute window''), st)
     else if list_ex (\<lambda>revocation. rvk_revision revocation \<le> ru_version current) (ru_revocations update)
     then (Inl (relay_conflict ''revocation update overlaps the applied revision''), st)
     else (case fold_ok (merge_revocation X) (ru_revocations update)
         (live_revocations X now (ru_revocations current)) of
        Inl e \<Rightarrow> (Inl e, st)
      | Inr merged \<Rightarrow> install_revocations X (re_io env) (accumulated_revocations update merged) (disconnects now delta) st))"

definition apply_revocation_update ::
  "Ext \<Rightarrow> RelayEnv \<Rightarrow> SignedRevocationUpdate \<Rightarrow> AdminState \<Rightarrow> (RelayError + RelayStatus) \<times> AdminState" where
  "apply_revocation_update X env message st = (let update = sru_update message in
     case and_then (map_err relay_unauthorized (SignedRevocationUpdate_verify X message (ra_authority_id st))) (\<lambda>_.
       map_err relay_bad_request (validate_revocations X update (ra_audience st))) of
       Inl e \<Rightarrow> (Inl e, st)
     | Inr delta \<Rightarrow>
         if ru_version update < ru_version (ra_current st)
         then (Inl (relay_conflict (''revocation version '' @ show_nat (ru_version update) @
           '' is older than current version '' @ show_nat (ru_version (ra_current st)))), st)
         else if ru_version update = ru_version (ra_current st)
         then reapply_revocations X env update st
         else extend_revocations X env update delta st)"

definition revoke_all :: "FsEnv \<Rightarrow> AdminState \<Rightarrow> AdminState" where
  "revoke_all E st = (case atomic_write E (ra_enrollment_revoked_path st) (string_bytes (''revoked'' @ [CHR 0x0A]))
       (ra_fs st) of
     (_, fs) \<Rightarrow> st\<lparr>ra_enrollment_revoked := True, ra_fs := fs, ra_clients := ra_clients st @ [Shutdown]\<rparr>)"

section \<open>The index of an update\<close>

text \<open>\<open>revokes X r i\<close>: the record \<open>r\<close> is about the endpoint \<open>i\<close>.\<close>

definition revokes :: "Ext \<Rightarrow> Revocation \<Rightarrow> EndpointId \<Rightarrow> bool" where
  "revokes X r i \<longleftrightarrow> id_parse X (rvk_endpoint_id r) = Inr i"

definition revocation_entry :: "Revocation \<Rightarrow> nat \<times> int" where
  "revocation_entry r = (rvk_revoked_through_generation r, rvk_expires_at r)"

lemma entries_Inr:
  "RevocationUpdate_entries X u = Inr es \<longleftrightarrow>
     list_all2 (\<lambda>r (i, g). revokes X r i \<and> g = rvk_revoked_through_generation r) (ru_revocations u) es"
  unfolding RevocationUpdate_entries_def collect_results_Inr list_all2_conv_all_nth
  by (auto simp: list_eq_iff_nth_eq revokes_def split: prod.splits) (metis prod.collapse)+

definition one_per_endpoint :: "Ext \<Rightarrow> Revocation list \<Rightarrow> bool" where
  "one_per_endpoint X rs \<longleftrightarrow>
     (\<forall>r \<in> set rs. \<forall>r' \<in> set rs. \<forall>i. revokes X r i \<and> revokes X r' i \<longrightarrow> r = r')"

lemma index_of_entries:
  assumes "list_all2 (\<lambda>r (i, g). revokes X r i \<and> g = rvk_revoked_through_generation r) rs es"
    and "kvs = map2 (\<lambda>r (i, g). (i, (g, rvk_expires_at r))) rs es" "distinct (map fst kvs)"
  shows "(i, e) \<in> set kvs \<longleftrightarrow> (\<exists>r \<in> set rs. revokes X r i \<and> e = revocation_entry r)" "one_per_endpoint X rs"
proof -
  have len: "length rs = length es" using assms(1) by (rule list_all2_lengthD)
  have kv: "kvs ! n = (fst (es ! n), revocation_entry (rs ! n))" "revokes X (rs ! n) j \<longleftrightarrow> j = fst (es ! n)"
    if "n < length rs" for n j
    using list_all2_nthD [OF assms(1) that] that len
    by (auto simp: assms(2) revocation_entry_def revokes_def split: prod.splits)
  have lenk: "length kvs = length rs" by (simp add: assms(2) len)
  show "(i, e) \<in> set kvs \<longleftrightarrow> (\<exists>r \<in> set rs. revokes X r i \<and> e = revocation_entry r)"
  proof -
    have "(i, e) \<in> set kvs \<longleftrightarrow> (\<exists>n < length rs. (i, e) = (fst (es ! n), revocation_entry (rs ! n)))"
      by (metis in_set_conv_nth kv(1) lenk)
    moreover have "(\<exists>r \<in> set rs. revokes X r i \<and> e = revocation_entry r) \<longleftrightarrow>
        (\<exists>n < length rs. (i, e) = (fst (es ! n), revocation_entry (rs ! n)))"
      by (metis in_set_conv_nth kv(2) prod.inject)
    ultimately show ?thesis by simp
  qed
  have "n = m" if "n < length rs" "m < length rs" "fst (es ! n) = fst (es ! m)" for n m
    using assms(3) that kv(1) [OF that(1)] kv(1) [OF that(2)]
    by (simp add: distinct_conv_nth lenk) (metis fst_conv)
  then have "rs ! n = rs ! m"
    if "n < length rs" "m < length rs" "revokes X (rs ! n) i" "revokes X (rs ! m) i" for n m i
    using that kv(2) by metis
  then show "one_per_endpoint X rs"
    unfolding one_per_endpoint_def by (metis in_set_conv_nth)
qed

lemma validate_revocations_index:
  assumes "validate_revocations X u aud = Inr idx"
  shows "hash_ok idx" "hash_get i idx = Some e \<longleftrightarrow> (\<exists>r \<in> set (ru_revocations u). revokes X r i \<and> e = revocation_entry r)"
    "one_per_endpoint X (ru_revocations u)"
proof -
  obtain es where es: "RevocationUpdate_entries X u = Inr es"
    and idx: "idx = hash_collect (map2 (\<lambda>r (i, g). (i, (g, rvk_expires_at r))) (ru_revocations u) es)"
    and len: "length idx = length (ru_revocations u)"
    using assms by (auto simp: validate_revocations_def Let_def)
  let ?kvs = "map2 (\<lambda>r (i, g). (i, (g, rvk_expires_at r))) (ru_revocations u) es"
  have all2: "list_all2 (\<lambda>r (i, g). revokes X r i \<and> g = rvk_revoked_through_generation r) (ru_revocations u) es"
    using es by (simp add: entries_Inr)
  then have "length idx = length ?kvs" by (simp add: len list_all2_lengthD)
  then have d: "distinct (map fst ?kvs)" unfolding idx by (simp only: length_hash_collect)
  show "hash_ok idx" by (simp add: idx)
  show "hash_get i idx = Some e \<longleftrightarrow> (\<exists>r \<in> set (ru_revocations u). revokes X r i \<and> e = revocation_entry r)"
    unfolding index_of_entries(1) [OF all2 refl d, symmetric] idx hash_get_collect_distinct [OF d]
    using d by (simp only: map_of_eq_Some_iff)
  show "one_per_endpoint X (ru_revocations u)" by (rule index_of_entries(2) [OF all2 refl d])
qed

lemma validate_records_iff:
  "validate_revocation_records v rs = Inr u \<longleftrightarrow>
     (\<forall>r \<in> set rs. 0 < rvk_revoked_through_generation r \<and> 0 < rvk_revision r \<and> rvk_revision r \<le> v)"
  by (induction rs) auto

lemma validate_revocations_Inr:
  "validate_revocations X u aud = Inr idx \<Longrightarrow>
     ru_protocol_version u = RELAY_PROTOCOL_VERSION \<and> ru_audience u = aud \<and> aud \<noteq> [] \<and>
     (\<forall>r \<in> set (ru_revocations u). 0 < rvk_revoked_through_generation r \<and> 0 < rvk_revision r \<and>
       rvk_revision r \<le> ru_version u \<and> (\<exists>i. revokes X r i))"
  by (auto simp: validate_revocations_def RevocationUpdate_validate_def relay_ensure_protocol_version_def
      validate_records_iff entries_Inr list_all2_conv_all_nth in_set_conv_nth Let_def split: prod.splits)
    (metis prod.collapse)

section \<open>Merging\<close>

text \<open>A map of records by endpoint, every record under the endpoint it is about.\<close>

definition keyed_records :: "Ext \<Rightarrow> (EndpointId, Revocation) hash_map \<Rightarrow> bool" where
  "keyed_records X m \<longleftrightarrow> hash_ok m \<and> (\<forall>i r. hash_get i m = Some r \<longrightarrow> revokes X r i)"

lemma map_of_functional:
  assumes "\<And>k v v'. (k, v) \<in> set kvs \<Longrightarrow> (k, v') \<in> set kvs \<Longrightarrow> v = v'"
  shows "map_of kvs k = Some v \<longleftrightarrow> (k, v) \<in> set kvs"
proof
  assume "(k, v) \<in> set kvs"
  then obtain v' where "map_of kvs k = Some v'" by (metis weak_map_of_SomeI)
  with assms \<open>(k, v) \<in> set kvs\<close> show "map_of kvs k = Some v" by (metis map_of_SomeD)
qed (rule map_of_SomeD)

lemma live_revocations_get:
  assumes "one_per_endpoint X rs"
  shows "hash_get i (live_revocations X now rs) = Some r \<longleftrightarrow> r \<in> set rs \<and> revokes X r i \<and> rvk_expires_at r > now"
proof -
  let ?kvs = "List.map_filter (\<lambda>r. if rvk_expires_at r > now then (case id_parse X (rvk_endpoint_id r) of
      Inr endpoint_id \<Rightarrow> Some (endpoint_id, r) | Inl _ \<Rightarrow> None) else None) rs"
  have mem: "(i, r) \<in> set ?kvs \<longleftrightarrow> r \<in> set rs \<and> revokes X r i \<and> rvk_expires_at r > now" for i r
    by (auto simp: List.map_filter_def revokes_def split: sum.splits if_splits) force
  have "map_of (rev ?kvs) i = Some r \<longleftrightarrow> (i, r) \<in> set ?kvs"
    using assms by (subst map_of_functional) (auto simp: mem one_per_endpoint_def)
  then show ?thesis unfolding live_revocations_def hash_get_collect mem .
qed

lemma live_revocations_keyed: "one_per_endpoint X rs \<Longrightarrow> keyed_records X (live_revocations X now rs)"
  by (simp add: keyed_records_def live_revocations_get) (simp add: live_revocations_def)

lemma merge_revocation_Inr:
  "merge_revocation X r m = Inr m' \<Longrightarrow> \<exists>i. revokes X r i \<and> m' = hash_insert i r m"
  by (auto simp: merge_revocation_def revokes_def)

lemma merge_fold:
  assumes "fold_ok (merge_revocation X) rs m = Inr m'" "keyed_records X m" "one_per_endpoint X rs"
  shows "keyed_records X m' \<and> (\<forall>i r. hash_get i m' = Some r \<longleftrightarrow>
     r \<in> set rs \<and> revokes X r i \<or> hash_get i m = Some r \<and> \<not> (\<exists>r' \<in> set rs. revokes X r' i))"
  using assms
proof (induction rs arbitrary: m)
  case (Cons r rs)
  then obtain i where i: "revokes X r i" "fold_ok (merge_revocation X) rs (hash_insert i r m) = Inr m'"
    by (auto dest!: merge_revocation_Inr)
  have "keyed_records X (hash_insert i r m)" using Cons.prems(2) i(1) by (simp add: keyed_records_def)
  moreover have "one_per_endpoint X rs" using Cons.prems(3) by (simp add: one_per_endpoint_def)
  ultimately have IH: "keyed_records X m'" "\<And>j x. hash_get j m' = Some x \<longleftrightarrow> x \<in> set rs \<and> revokes X x j \<or>
      hash_get j (hash_insert i r m) = Some x \<and> \<not> (\<exists>r' \<in> set rs. revokes X r' j)"
    using Cons.IH [OF i(2)] by blast+
  have same: "revokes X r j \<longleftrightarrow> j = i" for j using i(1) by (auto simp: revokes_def)
  have once: "x = r" if "x \<in> set rs" "revokes X x i" for x
    using Cons.prems(3) that i(1) by (auto simp: one_per_endpoint_def)
  show ?case
    using IH(1) by (auto simp: IH(2) same dest: once)
qed simp

section \<open>Memory, disk and the invariant\<close>

definition wrote_update :: "Ext \<Rightarrow> RevocationUpdate \<Rightarrow> path \<Rightarrow> Fs \<Rightarrow> bool" where
  "wrote_update X u p fs \<longleftrightarrow>
     (\<exists>f. fs_files fs p = Some f \<and> f_bytes f = json_to_vec_pretty X (RevocationUpdate_json u))"

definition holds_update :: "Ext \<Rightarrow> RevocationUpdate \<Rightarrow> path \<Rightarrow> Fs \<Rightarrow> bool" where
  "holds_update X u p fs \<longleftrightarrow> (\<exists>f. fs_files fs p = Some f \<and>
     and_then (json_from_slice X (f_bytes f)) RevocationUpdate_of_json = Inr u)"

interpretation revocation_file: json_state RevocationUpdate_json RevocationUpdate_of_json update_in_range
  by unfold_locales (rule RevocationUpdate_round_trip)

lemma wrote_holds: "pretty_laws X \<Longrightarrow> update_in_range u \<Longrightarrow> wrote_update X u p fs \<Longrightarrow> holds_update X u p fs"
  using revocation_file.parse_stored(2) by (auto simp: wrote_update_def holds_update_def)

definition relay_paths :: "AdminState \<Rightarrow> bool" where
  "relay_paths st \<longleftrightarrow> (\<exists>dir. ra_state_path st = dir @ [''revocations.json''] \<and>
     ra_enrollment_revoked_path st = dir @ [''enrollment-revoked''])"

text \<open>The index in memory is the one of the current update, and the file holds that update.\<close>

definition relay_ok :: "Ext \<Rightarrow> AdminState \<Rightarrow> bool" where
  "relay_ok X st \<longleftrightarrow> relay_paths st \<and> update_in_range (ra_current st) \<and>
     validate_revocations X (ra_current st) (ra_audience st) = Inr (ra_revoked st) \<and>
     holds_update X (ra_current st) (ra_state_path st) (ra_fs st)"

lemma revocations_tmp [simp]:
  "path_with_extension ''json.tmp'' (dir @ [''revocations.json'']) = dir @ [''revocations.json.tmp'']"
  by (simp add: path_with_extension_def file_stem_def)

lemma persist_wp:
  assumes "p = dir @ [''revocations.json'']"
    and "\<And>e fs'. same_except {dir @ [''revocations.json.tmp'']} fs fs' \<Longrightarrow> fs_dirs fs' = fs_dirs fs \<Longrightarrow>
      \<not> no_faults E \<Longrightarrow> Q (Inl e) fs'"
    and "\<And>fs'. same_except {dir @ [''revocations.json.tmp''], p} fs fs' \<Longrightarrow> fs_dirs fs' = fs_dirs fs \<Longrightarrow>
      wrote_update X u p fs' \<Longrightarrow> Q (Inr ()) fs'"
  shows "io_wp (persist_revocation_state X E p u) Q fs"
  unfolding persist_revocation_state_def Let_def assms(1) revocations_tmp
  by (auto simp: rename_file_def create_file_def write_file_def Let_def no_faults_def same_except_def wrote_update_def
      assms(1) intro!: assms(2,3) split: option.splits)

lemma install_cases:
  assumes "install_revocations X E u calls st = (r, st')" "relay_paths st"
  obtains (refused) e fs where "r = Inl e" "st' = st\<lparr>ra_fs := fs\<rparr>"
      "fs_files fs (ra_state_path st) = fs_files (ra_fs st) (ra_state_path st)"
  | (installed) idx fs where "r = Inr (relay_status X st')" "validate_revocations X u (ra_audience st) = Inr idx"
      "st' = st\<lparr>ra_fs := fs, ra_revoked := idx, ra_clients := ra_clients st @ calls (ra_revoked st), ra_current := u\<rparr>"
      "wrote_update X u (ra_state_path st) fs"
proof (cases "validate_revocations X u (ra_audience st)")
  case (Inl e)
  with assms(1) show thesis by (intro refused [of _ "ra_fs st"]) (auto simp: install_revocations_def)
next
  case (Inr idx)
  obtain dir where dir: "ra_state_path st = dir @ [''revocations.json'']"
    using assms(2) by (auto simp: relay_paths_def)
  obtain pr fs where run: "persist_revocation_state X E (ra_state_path st) u (ra_fs st) = (pr, fs)" by fastforce
  have "io_wp (persist_revocation_state X E (ra_state_path st) u) (\<lambda>r fs'.
      (r = Inr () \<longrightarrow> wrote_update X u (ra_state_path st) fs') \<and>
      (\<not> is_ok r \<longrightarrow> fs_files fs' (ra_state_path st) = fs_files (ra_fs st) (ra_state_path st))) (ra_fs st)"
    by (rule persist_wp [OF dir]) (auto simp: same_except_def dir)
  note post = io_wp_result [OF this run]
  show thesis
  proof (cases pr)
    case (Inl e)
    with assms(1) Inr run post show thesis by (intro refused [of _ fs]) (auto simp: install_revocations_def)
  next
    case (Inr u)
    with assms(1) \<open>validate_revocations X _ _ = Inr idx\<close> run post show thesis
      by (intro installed [of idx fs]) (auto simp: install_revocations_def Let_def)
  qed
qed

section \<open>What an update does\<close>

definition index_of :: "AdminState \<Rightarrow> EndpointId \<rightharpoonup> nat \<times> int" where
  "index_of st i = hash_get i (ra_revoked st)"

definition live :: "int \<Rightarrow> (EndpointId \<rightharpoonup> nat \<times> int) \<Rightarrow> EndpointId \<rightharpoonup> nat \<times> int" where
  "live now f i = (case f i of Some (g, x) \<Rightarrow> if x > now then Some (g, x) else None | None \<Rightarrow> None)"

lemma live_Some: "live now f i = Some e \<longleftrightarrow> f i = Some e \<and> snd e > now"
  by (cases e) (auto simp: live_def split: option.splits if_splits)

lemma option_ext: "(\<And>e. a = Some e \<longleftrightarrow> b = Some e) \<Longrightarrow> a = b"
  by (cases a; cases b) auto

text \<open>The specification of an accepted update: new records take over, old ones stay while live.\<close>

lemma merged_index:
  assumes "validate_revocations X cur aud = Inr old" "validate_revocations X upd aud = Inr delta"
    and "fold_ok (merge_revocation X) (ru_revocations upd) (live_revocations X now (ru_revocations cur)) = Inr merged"
    and "validate_revocations X acc aud = Inr idx" "set (ru_revocations acc) = snd ` set merged"
  shows "(\<lambda>i. hash_get i idx) = live now (\<lambda>i. hash_get i old) ++ (\<lambda>i. hash_get i delta)"
proof (rule ext, rule option_ext)
  fix i e
  note old = validate_revocations_index [OF assms(1)] and new = validate_revocations_index [OF assms(2)]
  note m = merge_fold [OF assms(3) live_revocations_keyed [OF old(3)] new(3)]
  note keyed = conjunct1 [OF m, unfolded keyed_records_def] and get = conjunct2 [OF m, rule_format]
  have mem: "(j, r) \<in> set merged \<longleftrightarrow> hash_get j merged = Some r" for j r
    by (rule hash_get_member [OF conjunct1 [OF keyed]])
  have key: "revokes X r j" if "hash_get j merged = Some r" for j r
    using conjunct2 [OF keyed] that by blast
  have "(\<exists>r \<in> snd ` set merged. revokes X r i \<and> e = revocation_entry r) \<longleftrightarrow>
      (\<exists>r. hash_get i merged = Some r \<and> e = revocation_entry r)"
  proof
    assume "\<exists>r \<in> snd ` set merged. revokes X r i \<and> e = revocation_entry r"
    then obtain j r where r: "(j, r) \<in> set merged" "revokes X r i" "e = revocation_entry r" by auto
    then have "revokes X r j" using key mem by blast
    with r(2) have "j = i" by (simp add: revokes_def)
    with r mem show "\<exists>r. hash_get i merged = Some r \<and> e = revocation_entry r" by blast
  next
    assume "\<exists>r. hash_get i merged = Some r \<and> e = revocation_entry r"
    then show "\<exists>r \<in> snd ` set merged. revokes X r i \<and> e = revocation_entry r"
      using key mem by (metis image_eqI snd_conv)
  qed
  then have idx: "hash_get i idx = Some e \<longleftrightarrow> (\<exists>r. hash_get i merged = Some r \<and> e = revocation_entry r)"
    unfolding validate_revocations_index(2) [OF assms(4)] assms(5) .
  show "hash_get i idx = Some e \<longleftrightarrow>
      (live now (\<lambda>i. hash_get i old) ++ (\<lambda>i. hash_get i delta)) i = Some e"
  proof (cases "hash_get i delta")
    case None
    then have "\<not> (\<exists>r \<in> set (ru_revocations upd). revokes X r i)" using new(2) by (metis option.distinct(1))
    then have "hash_get i merged = Some r \<longleftrightarrow>
        r \<in> set (ru_revocations cur) \<and> revokes X r i \<and> rvk_expires_at r > now" for r
      by (auto simp: get live_revocations_get [OF old(3)])
    then show ?thesis
      unfolding idx by (auto simp: map_add_def None live_Some old(2) revocation_entry_def)
  next
    case (Some d)
    then obtain r0 where r0: "r0 \<in> set (ru_revocations upd)" "revokes X r0 i" "d = revocation_entry r0"
      using new(2) by blast
    then have "r \<in> set (ru_revocations upd) \<and> revokes X r i \<longleftrightarrow> r = r0" for r
      using new(3) unfolding one_per_endpoint_def by blast
    with r0 have "hash_get i merged = Some r \<longleftrightarrow> r = r0" for r by (auto simp: get)
    with r0 show ?thesis unfolding idx by (auto simp: map_add_def Some)
  qed
qed

lemma ok_after_refusal:
  "relay_ok X st \<Longrightarrow> fs_files fs (ra_state_path st) = fs_files (ra_fs st) (ra_state_path st) \<Longrightarrow>
   relay_ok X (st\<lparr>ra_fs := fs\<rparr>)"
  by (simp add: relay_ok_def relay_paths_def holds_update_def)

lemma ok_after_install:
  "relay_ok X st \<Longrightarrow> validate_revocations X u (ra_audience st) = Inr idx \<Longrightarrow>
   wrote_update X u (ra_state_path st) fs \<Longrightarrow> update_in_range u \<Longrightarrow> pretty_laws X \<Longrightarrow>
   relay_ok X (st\<lparr>ra_fs := fs, ra_revoked := idx, ra_clients := c, ra_current := u\<rparr>)"
  using wrote_holds by (simp add: relay_ok_def relay_paths_def)

lemma reapply_cases:
  assumes "relay_ok X st" "pretty_laws X" "reapply_revocations X env u st = (r, st')"
  obtains (refused) e fs where "r = Inl e" "st' = st\<lparr>ra_fs := fs\<rparr>" "relay_ok X st'"
  | (known) "r = Inr (relay_status X st')" "st' = st"
  | (pruned) fs idx where "r = Inr (relay_status X st')"
      "st' = st\<lparr>ra_fs := fs, ra_revoked := idx, ra_current := (ra_current st)\<lparr>ru_revocations :=
         filter (\<lambda>r. rvk_expires_at r > re_now env) (ru_revocations (ra_current st))\<rparr>\<rparr>" "relay_ok X st'"
proof (cases "list_all (\<lambda>a. list_ex (\<lambda>b. b = a) (ru_revocations (ra_current st))) (ru_revocations u) \<and>
    list_ex (\<lambda>a. rvk_expires_at a \<le> re_now env) (ru_revocations (ra_current st))")
  case False
  with assms(1,3) show thesis
    by (auto simp: reapply_revocations_def Let_def split: if_splits intro: known refused [of _ "ra_fs st"])
next
  case True
  let ?u = "(ra_current st)\<lparr>ru_revocations := filter (\<lambda>r. rvk_expires_at r > re_now env) (ru_revocations (ra_current st))\<rparr>"
  have run: "install_revocations X (re_io env) ?u (\<lambda>_. []) st = (r, st')"
    using assms(3) True by (simp add: reapply_revocations_def Let_def)
  have range: "update_in_range ?u" and paths: "relay_paths st"
    using assms(1) by (auto simp: relay_ok_def update_in_range_def list_all_iff)
  from run paths show thesis
  proof (cases rule: install_cases)
    case (refused e fs)
    with that(1) [of e fs] ok_after_refusal [OF assms(1)] show thesis by simp
  next
    case (installed idx fs)
    from ok_after_install [OF assms(1) installed(2,4) range assms(2), of "ra_clients st"] installed(1,3) show thesis
      by (intro pruned [where fs = fs and idx = idx]) simp_all
  qed
qed

lemma merged_in_range:
  assumes "validate_revocations X cur aud = Inr old" "validate_revocations X u aud = Inr delta"
    and "fold_ok (merge_revocation X) (ru_revocations u) (live_revocations X now (ru_revocations cur)) = Inr merged"
    and "update_in_range cur" "update_in_range u"
  shows "list_all revocation_in_range (map snd merged)"
proof -
  note one = validate_revocations_index(3) [OF assms(1)]
  note m = merge_fold [OF assms(3) live_revocations_keyed [OF one] validate_revocations_index(3) [OF assms(2)]]
  note get = conjunct2 [OF m, rule_format] and ok = conjunct1 [OF conjunct1 [OF m, unfolded keyed_records_def]]
  have "a \<in> set (ru_revocations u) \<or> a \<in> set (ru_revocations cur)" if "(i, a) \<in> set merged" for i a
    using that by (auto simp: hash_get_member [OF ok] get live_revocations_get [OF one])
  then have "revocation_in_range a" if "(i, a) \<in> set merged" for i a
    using that assms(4,5) unfolding update_in_range_def list_all_iff by blast
  then show ?thesis by (auto simp: list_all_iff)
qed

lemma extend_cases:
  assumes "relay_ok X st" "extend_revocations X env u delta st = (r, st')" "update_in_range u"
    and "validate_revocations X u (ra_audience st) = Inr delta" "pretty_laws X"
  obtains (refused) e fs where "r = Inl e" "st' = st\<lparr>ra_fs := fs\<rparr>" "relay_ok X st'"
  | (extended) fs idx merged where "r = Inr (relay_status X st')" "relay_ok X st'"
      "fold_ok (merge_revocation X) (ru_revocations u)
         (live_revocations X (re_later env) (ru_revocations (ra_current st))) = Inr merged"
      "st' = st\<lparr>ra_fs := fs, ra_revoked := idx, ra_clients := ra_clients st @ disconnects (re_later env) delta (ra_revoked st),
         ra_current := (accumulated_revocations u merged)\<rparr>"
proof -
  let ?skewed = "\<bar>i64_saturating_sub (re_now env) (ru_issued_at u)\<bar> > RELAY_CLOCK_SKEW_SECS"
  let ?overlaps = "list_ex (\<lambda>a. rvk_revision a \<le> ru_version (ra_current st)) (ru_revocations u)"
  let ?m = "fold_ok (merge_revocation X) (ru_revocations u)
      (live_revocations X (re_later env) (ru_revocations (ra_current st)))"
  let ?u = "\<lambda>merged. (accumulated_revocations u merged)"
  consider (early) e where "r = Inl e" "st' = st"
    | (late) merged where "?m = Inr merged"
        "install_revocations X (re_io env) (?u merged) (disconnects (re_later env) delta) st = (r, st')"
  proof (cases "?skewed \<or> ?overlaps")
    case True
    with assms(2) that(1) show thesis by (auto simp: extend_revocations_def Let_def split: if_splits)
  next
    case False
    with assms(2) that show thesis by (cases ?m) (auto simp: extend_revocations_def Let_def)
  qed
  then show thesis
  proof cases
    case early
    with assms(1) show thesis by (intro refused [of e "ra_fs st"]) simp_all
  next
    case (late merged)
    have cur: "relay_paths st" "validate_revocations X (ra_current st) (ra_audience st) = Inr (ra_revoked st)"
      "update_in_range (ra_current st)" using assms(1) by (simp_all add: relay_ok_def)
    have range: "update_in_range (?u merged)"
      using merged_in_range [OF cur(2) assms(4) late(1) cur(3) assms(3)] assms(3)
      by (simp add: update_in_range_def list_all_iff RELAY_PROTOCOL_VERSION_def)
    from late(2) cur(1) show thesis
    proof (cases rule: install_cases)
      case (refused e fs)
      with that(1) [of e fs] ok_after_refusal [OF assms(1)] show thesis by simp
    next
      case (installed idx fs)
      from ok_after_install [OF assms(1) installed(2,4) range assms(5)] have "relay_ok X st'" by (simp add: installed(3))
      with installed(1) show thesis using late(1) installed(3) by (rule extended)
    qed
  qed
qed

text \<open>Every outcome of \<open>apply_revocation_update\<close>.\<close>

lemma apply_update_cases:
  assumes "relay_ok X st" "apply_revocation_update X env m st = (r, st')" "update_in_range (sru_update m)"
    and "pretty_laws X"
  obtains (refused) e fs where "r = Inl e" "st' = st\<lparr>ra_fs := fs\<rparr>" "relay_ok X st'"
  | (known) "r = Inr (relay_status X st')" "st' = st" "ru_version (sru_update m) = ru_version (ra_current st)"
  | (pruned) fs idx where "r = Inr (relay_status X st')" "ru_version (sru_update m) = ru_version (ra_current st)"
      "st' = st\<lparr>ra_fs := fs, ra_revoked := idx, ra_current := (ra_current st)\<lparr>ru_revocations :=
         filter (\<lambda>r. rvk_expires_at r > re_now env) (ru_revocations (ra_current st))\<rparr>\<rparr>" "relay_ok X st'"
  | (extended) fs idx delta merged where "r = Inr (relay_status X st')"
      "ru_version (sru_update m) > ru_version (ra_current st)" "relay_ok X st'"
      "SignedRevocationUpdate_verify X m (ra_authority_id st) = Inr ()"
      "validate_revocations X (sru_update m) (ra_audience st) = Inr delta"
      "fold_ok (merge_revocation X) (ru_revocations (sru_update m))
         (live_revocations X (re_later env) (ru_revocations (ra_current st))) = Inr merged"
      "st' = st\<lparr>ra_fs := fs, ra_revoked := idx, ra_clients := ra_clients st @ disconnects (re_later env) delta (ra_revoked st),
         ra_current := (accumulated_revocations (sru_update m) merged)\<rparr>"
proof (cases "and_then (map_err relay_unauthorized (SignedRevocationUpdate_verify X m (ra_authority_id st))) (\<lambda>_.
    map_err relay_bad_request (validate_revocations X (sru_update m) (ra_audience st)))")
  case (Inl e)
  with assms(1,2) show thesis by (auto simp: apply_revocation_update_def intro: refused [of _ "ra_fs st"])
next
  case (Inr delta)
  then have ok: "SignedRevocationUpdate_verify X m (ra_authority_id st) = Inr ()"
    "validate_revocations X (sru_update m) (ra_audience st) = Inr delta" by simp_all
  consider "ru_version (sru_update m) < ru_version (ra_current st)"
    | "ru_version (sru_update m) = ru_version (ra_current st)" | "ru_version (sru_update m) > ru_version (ra_current st)"
    by linarith
  then show thesis
  proof cases
    case 1
    with assms(1,2) Inr show thesis by (auto simp: apply_revocation_update_def intro: refused [of _ "ra_fs st"])
  next
    case 2
    with assms(2) Inr have "reapply_revocations X env (sru_update m) st = (r, st')"
      by (simp add: apply_revocation_update_def Let_def)
    from assms(1,4) this show thesis
    proof (cases rule: reapply_cases)
      case (refused e fs)
      then show thesis by (rule that(1))
    next
      case known
      from this 2 show thesis by (rule that(2))
    next
      case (pruned fs idx)
      from pruned(1) 2 pruned(2,3) show thesis by (rule that(3))
    qed
  next
    case 3
    with assms(2) Inr have "extend_revocations X env (sru_update m) delta st = (r, st')"
      by (simp add: apply_revocation_update_def Let_def)
    from assms(1) this assms(3) ok(2) assms(4) show thesis
    proof (cases rule: extend_cases)
      case (refused e fs)
      then show thesis by (rule that(1))
    next
      case (extended fs idx merged)
      from extended(1) 3 extended(2) ok extended(3,4) show thesis by (rule that(4))
    qed
  qed
qed

section \<open>Updates that are accepted\<close>

lemma validate_revocations_intro:
  assumes "ru_protocol_version u = RELAY_PROTOCOL_VERSION" "ru_audience u = aud" "aud \<noteq> []"
    and "\<And>r. r \<in> set (ru_revocations u) \<Longrightarrow> 0 < rvk_revoked_through_generation r \<and>
      0 < rvk_revision r \<and> rvk_revision r \<le> ru_version u \<and> (\<exists>i. revokes X r i)"
    and "distinct (map (\<lambda>r. id_parse X (rvk_endpoint_id r)) (ru_revocations u))"
  shows "\<exists>idx. validate_revocations X u aud = Inr idx"
proof -
  let ?rs = "ru_revocations u"
  obtain es where es: "RevocationUpdate_entries X u = Inr es"
  proof -
    have "\<forall>r \<in> set ?rs. \<exists>e. revokes X r (fst e) \<and> snd e = rvk_revoked_through_generation r"
      using assms(4) by fastforce
    then obtain f where f: "\<forall>r \<in> set ?rs. revokes X r (fst (f r)) \<and> snd (f r) = rvk_revoked_through_generation r"
      by metis
    then have "RevocationUpdate_entries X u = Inr (map f ?rs)"
      unfolding entries_Inr by (auto simp: list_all2_conv_all_nth split_def)
    then show thesis by (rule that)
  qed
  then have all2: "list_all2 (\<lambda>r (i, g). revokes X r i \<and> g = rvk_revoked_through_generation r) ?rs es"
    by (simp add: entries_Inr)
  let ?kvs = "map2 (\<lambda>r (i, g). (i, (g, rvk_expires_at r))) ?rs es"
  have len: "length ?rs = length es" using all2 by (rule list_all2_lengthD)
  have "map Inr (map fst ?kvs) = map (\<lambda>r. id_parse X (rvk_endpoint_id r)) ?rs"
    using all2 by (auto simp: list_eq_iff_nth_eq list_all2_conv_all_nth revokes_def split_def)
  then have "distinct (map fst ?kvs)" using assms(5) by (metis distinct_map)
  then have "length (hash_collect ?kvs) = length ?kvs" by (simp only: length_hash_collect)
  then have "length (hash_collect ?kvs) = length ?rs" by (simp add: len)
  then show ?thesis
    using assms(1-3) es assms(4)
    by (auto simp: validate_revocations_def RevocationUpdate_validate_def relay_ensure_protocol_version_def
        validate_records_iff Let_def)
qed

lemma merge_fold_accepts:
  assumes "\<And>r. r \<in> set rs \<Longrightarrow> \<exists>i. revokes X r i"
    and "one_per_endpoint X rs" "distinct rs"
    and "\<And>r i old. r \<in> set rs \<Longrightarrow> revokes X r i \<Longrightarrow> hash_get i m = Some old \<Longrightarrow>
      rvk_revoked_through_generation old \<le> rvk_revoked_through_generation r"
  shows "\<exists>m'. fold_ok (merge_revocation X) rs m = Inr m'"
  using assms
proof (induction rs arbitrary: m)
  case (Cons r rs)
  obtain i where i: "revokes X r i" using Cons.prems(1) by auto
  then have step: "merge_revocation X r m = Inr (hash_insert i r m)"
    using Cons.prems(4) [of r i] by (auto simp: merge_revocation_def revokes_def split: option.splits)
  have "\<exists>m'. fold_ok (merge_revocation X) rs (hash_insert i r m) = Inr m'"
  proof (rule Cons.IH)
    show "one_per_endpoint X rs" using Cons.prems(2) by (simp add: one_per_endpoint_def)
    show "distinct rs" using Cons.prems(3) by simp
    show "\<And>a. a \<in> set rs \<Longrightarrow> \<exists>i. revokes X a i" using Cons.prems(1) by simp
    fix a j old
    assume a: "a \<in> set rs" "revokes X a j" "hash_get j (hash_insert i r m) = Some old"
    have "j \<noteq> i"
      using Cons.prems(2,3) a(1,2) i by (auto simp: one_per_endpoint_def)
    with a Cons.prems(4) show "rvk_revoked_through_generation old \<le> rvk_revoked_through_generation a" by simp
  qed
  with step show ?case by simp
qed simp

lemma persist_succeeds:
  assumes "relay_paths st" "no_faults E"
  shows "\<exists>fs. persist_revocation_state X E (ra_state_path st) u (ra_fs st) = (Inr (), fs)"
proof -
  obtain dir where dir: "ra_state_path st = dir @ [''revocations.json'']" using assms(1) by (auto simp: relay_paths_def)
  have "io_wp (persist_revocation_state X E (ra_state_path st) u) (\<lambda>r fs'. r = Inr ()) (ra_fs st)"
    by (rule persist_wp [OF dir]) (use assms(2) in simp_all)
  then show ?thesis by (auto simp: io_wp_def split: prod.splits)
qed

lemma validated_distinct:
  assumes "validate_revocations X u aud = Inr idx"
  shows "distinct (map (\<lambda>r. id_parse X (rvk_endpoint_id r)) (ru_revocations u))" "distinct (ru_revocations u)"
proof -
  obtain es where es: "RevocationUpdate_entries X u = Inr es"
    and len: "length (hash_collect (map2 (\<lambda>r (i, g). (i, (g, rvk_expires_at r))) (ru_revocations u) es)) =
      length (ru_revocations u)"
    using assms by (auto simp: validate_revocations_def Let_def)
  let ?kvs = "map2 (\<lambda>r (i, g). (i, (g, rvk_expires_at r))) (ru_revocations u) es"
  have all2: "list_all2 (\<lambda>r (i, g). revokes X r i \<and> g = rvk_revoked_through_generation r) (ru_revocations u) es"
    using es by (simp add: entries_Inr)
  then have "length (hash_collect ?kvs) = length ?kvs" by (simp add: len list_all2_lengthD)
  then have "distinct (map fst ?kvs)" by (simp only: length_hash_collect)
  moreover have "map Inr (map fst ?kvs) = map (\<lambda>r. id_parse X (rvk_endpoint_id r)) (ru_revocations u)"
    using all2 by (auto simp: list_eq_iff_nth_eq list_all2_conv_all_nth revokes_def split_def)
  ultimately show "distinct (map (\<lambda>r. id_parse X (rvk_endpoint_id r)) (ru_revocations u))"
    by (metis distinct_map inj_Inr inj_on_subset subset_UNIV)
  then show "distinct (ru_revocations u)" by (simp add: distinct_map)
qed

lemma merged_validates:
  assumes "validate_revocations X cur aud = Inr old" "validate_revocations X u aud = Inr delta"
    and "fold_ok (merge_revocation X) (ru_revocations u) (live_revocations X now (ru_revocations cur)) = Inr merged"
    and "ru_version cur < ru_version u"
  shows "\<exists>idx. validate_revocations X (accumulated_revocations u merged) aud = Inr idx"
proof (rule validate_revocations_intro)
  note one = validate_revocations_index(3) [OF assms(1)]
  note m = merge_fold [OF assms(3) live_revocations_keyed [OF one] validate_revocations_index(3) [OF assms(2)]]
  note keyed = conjunct1 [OF m, unfolded keyed_records_def] and get = conjunct2 [OF m, rule_format]
  note mem = hash_get_member [OF conjunct1 [OF keyed]]
  note cur = validate_revocations_Inr [OF assms(1)] and upd = validate_revocations_Inr [OF assms(2)]
  have key: "revokes X r j" if "(j, r) \<in> set merged" for j r
    using conjunct2 [OF keyed] that mem by blast
  show "ru_audience (accumulated_revocations u merged) = aud" "aud \<noteq> []"
    using upd by simp_all
  have src: "a \<in> set (ru_revocations u) \<or> a \<in> set (ru_revocations cur)" if "(i, a) \<in> set merged" for i a
    using that by (auto simp: mem get live_revocations_get [OF one])
  show "0 < rvk_revoked_through_generation r \<and> 0 < rvk_revision r \<and> rvk_revision r \<le> ru_version
      (accumulated_revocations u merged) \<and> (\<exists>i. revokes X r i)"
    if r: "r \<in> set (ru_revocations (accumulated_revocations u merged))" for r
  proof -
    from r obtain i where i: "(i, r) \<in> set merged" by auto
    from src [OF i] key [OF i] cur upd assms(4) show ?thesis by fastforce
  qed
  have "map (\<lambda>r. id_parse X (rvk_endpoint_id r)) (map snd merged) = map Inr (map fst merged)"
    using key by (auto simp: revokes_def)
  moreover have "distinct (map Inr (map fst merged))"
    using conjunct1 [OF keyed] by (simp add: keys_distinct_def distinct_map del: map_map)
  ultimately have "distinct (map (\<lambda>r. id_parse X (rvk_endpoint_id r)) (map snd merged))" by metis
  moreover have "mset (map f (sort_key g xs)) = mset (map f xs)" for f :: "Revocation \<Rightarrow> string + EndpointId" and g :: "Revocation \<Rightarrow> string" and xs
    by simp
  ultimately show "distinct (map (\<lambda>r. id_parse X (rvk_endpoint_id r)) (ru_revocations
      (accumulated_revocations u merged)))"
    unfolding accumulated_sel by (metis mset_eq_imp_distinct_iff)
qed simp

lemma apply_update_accepts:
  assumes "relay_ok X st" "no_faults (re_io env)"
    and "SignedRevocationUpdate_verify X m (ra_authority_id st) = Inr ()"
    and "validate_revocations X (sru_update m) (ra_audience st) = Inr delta"
    and "ru_version (ra_current st) < ru_version (sru_update m)"
    and "\<bar>i64_saturating_sub (re_now env) (ru_issued_at (sru_update m))\<bar> \<le> RELAY_CLOCK_SKEW_SECS"
    and "\<forall>r \<in> set (ru_revocations (sru_update m)). ru_version (ra_current st) < rvk_revision r"
    and "\<And>i g x g' x'. index_of st i = Some (g, x) \<Longrightarrow> re_later env < x \<Longrightarrow> hash_get i delta = Some (g', x') \<Longrightarrow> g \<le> g'"
  shows "\<exists>st'. apply_revocation_update X env m st = (Inr (relay_status X st'), st')"
proof -
  let ?u = "sru_update m" and ?rs = "ru_revocations (sru_update m)"
  let ?live = "live_revocations X (re_later env) (ru_revocations (ra_current st))"
  have cur: "relay_paths st" "validate_revocations X (ra_current st) (ra_audience st) = Inr (ra_revoked st)"
    using assms(1) by (simp_all add: relay_ok_def)
  note old = validate_revocations_index [OF cur(2)] and new = validate_revocations_index [OF assms(4)]
  have "\<exists>m'. fold_ok (merge_revocation X) ?rs ?live = Inr m'"
  proof (rule merge_fold_accepts [OF _ new(3) validated_distinct(2) [OF assms(4)]])
    show "\<exists>i. revokes X r i" if "r \<in> set ?rs" for r
      using validate_revocations_Inr [OF assms(4)] that by blast
    fix r i a
    assume r: "r \<in> set ?rs" "revokes X r i" and "hash_get i ?live = Some a"
    then have a: "a \<in> set (ru_revocations (ra_current st))" "revokes X a i" "re_later env < rvk_expires_at a"
      by (simp_all add: live_revocations_get [OF old(3)])
    have "hash_get i delta = Some (revocation_entry r)" "index_of st i = Some (revocation_entry a)"
      using new(2) r old(2) a by (auto simp: index_of_def)
    with assms(8) a(3) show "rvk_revoked_through_generation a \<le> rvk_revoked_through_generation r"
      by (auto simp: revocation_entry_def)
  qed
  then obtain merged where merged: "fold_ok (merge_revocation X) ?rs ?live = Inr merged" by blast
  obtain idx where "validate_revocations X (accumulated_revocations ?u merged) (ra_audience st) = Inr idx"
    using merged_validates [OF cur(2) assms(4) merged assms(5)] by blast
  moreover obtain fs where "persist_revocation_state X (re_io env) (ra_state_path st)
      (accumulated_revocations ?u merged) (ra_fs st) = (Inr (), fs)"
    using persist_succeeds [OF cur(1) assms(2)] by blast
  moreover have "\<not> list_ex (\<lambda>r. rvk_revision r \<le> ru_version (ra_current st)) ?rs"
    using assms(7) by (auto simp: list_ex_iff)
  ultimately show ?thesis
    using assms(3-6) merged
    by (auto simp: apply_revocation_update_def extend_revocations_def install_revocations_def Let_def)
qed

lemma extended_index:
  assumes "relay_ok X st" "relay_ok X st'" "validate_revocations X u (ra_audience st) = Inr delta"
    and "fold_ok (merge_revocation X) (ru_revocations u) (live_revocations X now (ru_revocations (ra_current st))) = Inr merged"
    and "ra_current st' = accumulated_revocations u merged" "ra_audience st' = ra_audience st"
  shows "index_of st' = live now (index_of st) ++ (\<lambda>i. hash_get i delta)"
proof -
  have "validate_revocations X (ra_current st) (ra_audience st) = Inr (ra_revoked st)"
    "validate_revocations X (accumulated_revocations u merged) (ra_audience st) = Inr (ra_revoked st')"
    using assms(1,2,5,6) by (simp_all add: relay_ok_def)
  from merged_index [OF this(1) assms(3,4) this(2)] show ?thesis by (simp add: index_of_def [abs_def])
qed

lemma pruned_index:
  assumes "relay_ok X st" "relay_ok X st'" "ra_audience st' = ra_audience st"
    and "ra_current st' = (ra_current st)\<lparr>ru_revocations :=
      filter (\<lambda>r. rvk_expires_at r > now) (ru_revocations (ra_current st))\<rparr>"
  shows "index_of st' = live now (index_of st)"
proof (rule ext, rule option_ext)
  fix i e
  have v: "validate_revocations X (ra_current st) (ra_audience st) = Inr (ra_revoked st)"
    "validate_revocations X (ra_current st') (ra_audience st') = Inr (ra_revoked st')"
    using assms(1,2) by (simp_all add: relay_ok_def)
  show "index_of st' i = Some e \<longleftrightarrow> live now (index_of st) i = Some e"
    unfolding index_of_def live_Some validate_revocations_index(2) [OF v(1)] validate_revocations_index(2) [OF v(2)]
    by (auto simp: assms(4) revocation_entry_def)
qed

section \<open>A small relay\<close>

definition authority_key :: SecretKey where "authority_key = SecretKey [9]"
definition node_key :: SecretKey where "node_key = SecretKey [2]"

definition sample_update :: RevocationUpdate where
  "sample_update = \<lparr>ru_protocol_version = RELAY_PROTOCOL_VERSION, ru_audience = ''prod'', ru_version = 3,
     ru_issued_at = 1000, ru_revocations = [\<lparr>rvk_endpoint_id = id_to_string ref_ext (ed_public ref_ext node_key),
       rvk_revoked_through_generation = 4, rvk_expires_at = 5000, rvk_revision = 3\<rparr>]\<rparr>"

definition sample_credential :: RelayCredential where
  "sample_credential = \<lparr>rc_protocol_version = RELAY_PROTOCOL_VERSION, rc_audience = ''prod'',
     rc_control_id = id_to_string ref_ext (ed_public ref_ext authority_key),
     rc_endpoint_id = id_to_string ref_ext (ed_public ref_ext node_key), rc_kind = SubjectEdge,
     rc_generation = 4, rc_issued_at = 900, rc_expires_at = 5000\<rparr>"

definition sample_message :: SignedRevocationUpdate where
  "sample_message = \<lparr>sru_update = sample_update, sru_signature =
     ed_sign ref_ext authority_key (RevocationUpdate_canonical_bytes ref_ext sample_update)\<rparr>"

definition sample_relay :: AdminState where
  "sample_relay = \<lparr>ra_audience = ''prod'', ra_authority_id = ed_public ref_ext authority_key,
     ra_state_path = [''revocations.json''], ra_current = initial_revocations ''prod'' 900, ra_revoked = [],
     ra_clients = [], ra_enrollment_revoked = False, ra_enrollment_revoked_path = [''enrollment-revoked''],
     ra_fs = \<lparr>fs_files = [[''revocations.json''] \<mapsto> \<lparr>f_bytes = json_to_vec_pretty ref_ext
       (RevocationUpdate_json (initial_revocations ''prod'' 900)), f_mode = 420\<rparr>], fs_dirs = Map.empty, fs_calls = 0\<rparr>\<rparr>"

definition relay_env :: RelayEnv where
  "relay_env = \<lparr>re_now = 1000, re_later = 1000, re_io = calm_disk\<rparr>"

lemma sample_relay_ok: "relay_ok ref_ext sample_relay"
proof -
  have "update_in_range (initial_revocations ''prod'' 900)"
    by (simp add: update_in_range_def initial_revocations_def i64_range_def RELAY_PROTOCOL_VERSION_def i64_min_def i64_max_def)
  moreover from this have "holds_update ref_ext (ra_current sample_relay) (ra_state_path sample_relay) (ra_fs sample_relay)"
    by (intro wrote_holds) (simp_all add: wrote_update_def sample_relay_def)
  ultimately show ?thesis
    by (simp add: relay_ok_def relay_paths_def sample_relay_def initial_revocations_def validate_revocations_def
        RevocationUpdate_validate_def relay_ensure_protocol_version_def RevocationUpdate_entries_def hash_collect_def)
qed

lemma sample_message_ok:
  "update_in_range (sru_update sample_message)"
  "SignedRevocationUpdate_verify ref_ext sample_message (ra_authority_id sample_relay) = Inr ()"
  "validate_revocations ref_ext (sru_update sample_message) (ra_audience sample_relay) =
     Inr [(ed_public ref_ext node_key, (4, 5000))]"
  by (simp_all add: sample_message_def sample_update_def sample_relay_def update_in_range_def i64_range_def
      RELAY_PROTOCOL_VERSION_def i64_min_def i64_max_def revocation_in_range_def SignedRevocationUpdate_verify_def
      ext_round_trips validate_revocations_def RevocationUpdate_validate_def relay_ensure_protocol_version_def
      RevocationUpdate_entries_def hash_collect_def hash_insert_def)

lemma sample_update_accepted:
  "\<exists>st'. apply_revocation_update ref_ext relay_env sample_message sample_relay = (Inr (relay_status ref_ext st'), st')"
  by (rule apply_update_accepts [OF sample_relay_ok _ sample_message_ok(2,3)])
    (simp_all add: relay_env_def sample_message_def sample_update_def sample_relay_def initial_revocations_def
      i64_saturating_sub_def i64_min_def i64_max_def RELAY_CLOCK_SKEW_SECS_def index_of_def)

section \<open>Properties\<close>

lemma merge_fold_grows:
  "fold_ok (merge_revocation X) rs m = Inr m' \<Longrightarrow> hash_get i m = Some a \<Longrightarrow>
   \<exists>b. hash_get i m' = Some b \<and> rvk_revoked_through_generation a \<le> rvk_revoked_through_generation b"
proof (induction rs arbitrary: m a)
  case (Cons r rs)
  then obtain m1 where m1: "merge_revocation X r m = Inr m1" "fold_ok (merge_revocation X) rs m1 = Inr m'" by auto
  then have "\<exists>b. hash_get i m1 = Some b \<and> rvk_revoked_through_generation a \<le> rvk_revoked_through_generation b"
    using Cons.prems(2) by (auto simp: merge_revocation_def)
  with Cons.IH [OF m1(2)] show ?case by (meson order_trans)
qed simp

lemma extended_replaces:
  assumes "relay_ok X st" "relay_ok X st'"
    and "fold_ok (merge_revocation X) (ru_revocations u) (live_revocations X now (ru_revocations (ra_current st))) = Inr merged"
    and "ra_current st' = accumulated_revocations u merged" "ra_audience st' = ra_audience st"
    and "validate_revocations X u (ra_audience st) = Inr delta" "index_of st i = Some (g, x)" "now < x"
    and "index_of st' = live now (index_of st) ++ (\<lambda>i. hash_get i delta)"
  shows "index_of st' i = Some (g, x) \<or> (\<exists>v \<in> set (ru_revocations u). id_parse X (rvk_endpoint_id v) = Inr i \<and>
    g \<le> rvk_revoked_through_generation v \<and> index_of st' i = Some (rvk_revoked_through_generation v, rvk_expires_at v))"
proof -
  have cur: "validate_revocations X (ra_current st) (ra_audience st) = Inr (ra_revoked st)"
    "validate_revocations X (accumulated_revocations u merged) (ra_audience st) = Inr (ra_revoked st')"
    using assms(1,2,4,5) by (simp_all add: relay_ok_def)
  note old = validate_revocations_index [OF cur(1)]
  obtain a where a: "a \<in> set (ru_revocations (ra_current st))" "revokes X a i" "(g, x) = revocation_entry a"
    using assms(7) by (auto simp: index_of_def old(2))
  then have "hash_get i (live_revocations X now (ru_revocations (ra_current st))) = Some a"
    using assms(8) by (simp add: live_revocations_get [OF old(3)] revocation_entry_def)
  from merge_fold_grows [OF assms(3) this] obtain b where b: "hash_get i merged = Some b"
    "rvk_revoked_through_generation a \<le> rvk_revoked_through_generation b" by blast
  note m = merge_fold [OF assms(3) live_revocations_keyed [OF old(3)] validate_revocations_index(3) [OF assms(6)]]
  note keyed = conjunct1 [OF m, unfolded keyed_records_def]
  have "(i, b) \<in> set merged" using b(1) by (simp add: hash_get_member [OF conjunct1 [OF keyed]])
  then have "b \<in> set (ru_revocations (accumulated_revocations u merged))" by (simp add: image_iff) (metis snd_conv)
  moreover have "revokes X b i" using conjunct2 [OF keyed] b(1) by blast
  ultimately have "index_of st' i = Some (revocation_entry b)"
    unfolding index_of_def validate_revocations_index(2) [OF cur(2)] by blast
  with b(2) a(3) have grown: "index_of st' i = Some (rvk_revoked_through_generation b, rvk_expires_at b)"
    "g \<le> rvk_revoked_through_generation b" by (simp_all add: revocation_entry_def)
  show ?thesis
  proof (cases "hash_get i delta")
    case None
    then show ?thesis using assms(7-9) by (simp add: map_add_def live_def)
  next
    case (Some e)
    then obtain v where "v \<in> set (ru_revocations u)" "revokes X v i" "e = revocation_entry v"
      by (auto simp: validate_revocations_index(2) [OF assms(6)])
    moreover have "index_of st' i = Some e" using Some by (simp add: assms(9))
    ultimately show ?thesis using grown by (auto simp: revocation_entry_def revokes_def)
  qed
qed

text \<open>No revocation record the relay holds for an endpoint, live at \<open>now\<close>, reaches a generation.\<close>

definition unrevoked :: "Ext \<Rightarrow> AdminState \<Rightarrow> EndpointId \<Rightarrow> int \<Rightarrow> nat \<Rightarrow> bool" where
  "unrevoked X st i now g \<longleftrightarrow> (\<forall>r \<in> set (ru_revocations (ra_current st)).
     id_parse X (rvk_endpoint_id r) = Inr i \<and> now < rvk_expires_at r \<longrightarrow> rvk_revoked_through_generation r < g)"

lemma unrevoked_index:
  assumes "relay_ok X st" "0 < g"
  shows "revoked_through i now (ra_revoked st) < g \<longleftrightarrow> unrevoked X st i now g"
proof -
  have "validate_revocations X (ra_current st) (ra_audience st) = Inr (ra_revoked st)"
    using assms(1) by (simp add: relay_ok_def)
  note index = validate_revocations_index(2) [OF this, of i] validate_revocations_index(3) [OF this]
  show ?thesis
  proof (cases "hash_get i (ra_revoked st)")
    case None
    have "\<not> revokes X r i" if "r \<in> set (ru_revocations (ra_current st))" for r
    proof
      assume "revokes X r i"
      then have "hash_get i (ra_revoked st) = Some (revocation_entry r)"
        using that by (intro index(1) [THEN iffD2]) blast
      with None show False by simp
    qed
    then have "unrevoked X st i now g" by (simp add: unrevoked_def revokes_def)
    with None assms(2) show ?thesis by (simp add: revoked_through_def)
  next
    case (Some e)
    obtain r where r: "r \<in> set (ru_revocations (ra_current st))" "revokes X r i" "e = revocation_entry r"
      using index(1) [THEN iffD1, OF Some] by blast
    then have only: "r' = r" if "r' \<in> set (ru_revocations (ra_current st))" "revokes X r' i" for r'
      using that index(2) unfolding one_per_endpoint_def by blast
    have "unrevoked X st i now g \<longleftrightarrow> (now < rvk_expires_at r \<longrightarrow> rvk_revoked_through_generation r < g)"
      using r(1,2) only unfolding unrevoked_def revokes_def by blast
    then show ?thesis using Some r(3) assms(2) by (simp add: revoked_through_def revocation_entry_def)
  qed
qed

text \<open>C5: A relay admits what Control issued, and nothing else.  A credential signed by the
  authority is admitted for exactly its own endpoint and audience, while it is live and no live revocation
  record the relay holds for that endpoint reaches its generation; every admitted connection presents a
  token whose signature verifies under the authority's key.\<close>

theorem relay_admission:
  assumes "sig_laws X" "id_laws X" "text_laws X" "json_laws X" "credential_in_range c"
    and "SignedRelayCredential_sign X c key = Inr s" "ra_authority_id st = ed_public X key"
    and "rc_control_id c = id_to_string X (ed_public X key)" "rc_endpoint_id c = id_to_string X i" "relay_ok X st"
  shows "(on_connect X st j (Some (SignedRelayCredential_encode X s)) now = Allow \<longleftrightarrow>
      \<not> ra_enrollment_revoked st \<and> j = i \<and> rc_audience c = ra_audience st \<and>
      rc_issued_at c \<le> i64_saturating_add now 300 \<and> now < rc_expires_at c \<and> unrevoked X st i now (rc_generation c)) \<and>
    (on_connect X st j token now = Allow \<longrightarrow> (\<exists>t s'. token = Some t \<and>
      SignedRelayCredential_decode X t = Inr s' \<and>
      ed_verify X (ra_authority_id st) (RelayCredential_canonical_bytes X (src_credential s')) (src_signature s') \<and>
      id_parse X (rc_endpoint_id (src_credential s')) = Inr j \<and> now < rc_expires_at (src_credential s') \<and>
      unrevoked X st j now (rc_generation (src_credential s'))))"
proof -
  have s: "src_credential s = c" "RelayCredential_validate X c = Inr ()"
    "src_signature s = ed_sign X key (RelayCredential_canonical_bytes X c)"
    using assms(6) by (auto simp: SignedRelayCredential_sign_def)
  have pos: "RelayCredential_validate X c' = Inr () \<Longrightarrow> 0 < rc_generation c'" for c'
    by (simp add: RelayCredential_validate_iff)
  have "SignedRelayCredential_decode X (SignedRelayCredential_encode X s) = Inr s"
    using SignedRelayCredential_decode_encode [OF assms(3,4)] assms(5) s(1) by simp
  then have "on_connect X st j (Some (SignedRelayCredential_encode X s)) now = Allow \<longleftrightarrow>
      \<not> ra_enrollment_revoked st \<and> j = i \<and> rc_audience c = ra_audience st \<and>
      rc_issued_at c \<le> i64_saturating_add now 300 \<and> now < rc_expires_at c \<and> unrevoked X st i now (rc_generation c)"
    using s assms(1,2,7-9) unrevoked_index [OF assms(10) pos [OF s(2)]]
    by (auto simp: on_connect_def validate_credential_def Let_def SignedRelayCredential_verify_def
        credential_endpoint_id_def ext_round_trips ensure_def with_context_def RELAY_CLOCK_SKEW_SECS_def)
  then show ?thesis
    by (auto simp: on_connect_def validate_credential_def Let_def SignedRelayCredential_verify_def
        credential_endpoint_id_def unrevoked_index [OF assms(10) pos, symmetric] split: sum.splits if_splits)
qed

theorem relay_admission_witness:
  "on_connect ref_ext sample_relay (ed_public ref_ext node_key)
     (Some (SignedRelayCredential_encode ref_ext \<lparr>src_credential = sample_credential, src_signature =
       ed_sign ref_ext authority_key (RelayCredential_canonical_bytes ref_ext sample_credential)\<rparr>)) 1000 = Allow"
proof -
  let ?s = "\<lparr>src_credential = sample_credential, src_signature =
      ed_sign ref_ext authority_key (RelayCredential_canonical_bytes ref_ext sample_credential)\<rparr>"
  have "SignedRelayCredential_sign ref_ext sample_credential authority_key = Inr ?s"
    by (simp add: SignedRelayCredential_sign_def RelayCredential_validate_iff sample_credential_def ext_round_trips)
  moreover have "credential_in_range sample_credential"
    by (simp add: credential_in_range_def sample_credential_def RELAY_PROTOCOL_VERSION_def i64_min_def i64_max_def)
  ultimately show ?thesis
    using relay_admission [of ref_ext sample_credential authority_key ?s sample_relay "ed_public ref_ext node_key"
        "ed_public ref_ext node_key" 1000 None] sample_relay_ok
    by (simp add: sample_credential_def sample_relay_def unrevoked_def initial_revocations_def i64_saturating_add_def
        i64_max_def i64_min_def)
qed

text \<open>C6: An accepted update acts as it should on the revocation index: the records it brings
  replace those of their endpoints, every other record stays until it expires, and exactly the endpoints
  whose revoked generation rises are disconnected.\<close>

theorem relay_update_refines:
  assumes "relay_ok X st" "update_in_range (sru_update m)"
    and "apply_revocation_update X env m st = (Inr status, st')"
    and "ru_version (ra_current st) < ru_version (sru_update m)" "pretty_laws X"
  shows "\<exists>delta. validate_revocations X (sru_update m) (ra_audience st) = Inr delta \<and>
    SignedRevocationUpdate_verify X m (ra_authority_id st) = Inr () \<and>
    index_of st' = live (re_later env) (index_of st) ++ (\<lambda>i. hash_get i delta) \<and>
    ru_version (ra_current st') = ru_version (sru_update m) \<and> status = relay_status X st' \<and>
    (\<exists>calls. ra_clients st' = ra_clients st @ calls \<and> (\<forall>i. Disconnect i \<in> set calls \<longleftrightarrow>
       (\<exists>g x. hash_get i delta = Some (g, x) \<and> re_later env < x \<and>
          revoked_through i (re_later env) (ra_revoked st) < g)))"
  using assms(1,3,2,5)
proof (cases rule: apply_update_cases)
  case (extended fs idx delta merged)
  have "index_of st' = live (re_later env) (index_of st) ++ (\<lambda>i. hash_get i delta)"
    by (rule extended_index [OF assms(1) extended(3,5,6)]) (simp_all add: extended(7))
  moreover have "Disconnect i \<in> set (disconnects (re_later env) delta (ra_revoked st)) \<longleftrightarrow>
      (\<exists>g x. hash_get i delta = Some (g, x) \<and> re_later env < x \<and>
         revoked_through i (re_later env) (ra_revoked st) < g)" for i
    unfolding hash_get_member [OF validate_revocations_index(1) [OF extended(5)], symmetric]
    by (force simp: disconnects_def)
  ultimately show ?thesis using extended by auto
qed (use assms(4) in simp_all)

theorem relay_update_refines_witness:
  "\<exists>status st'. apply_revocation_update ref_ext relay_env sample_message sample_relay = (Inr status, st') \<and>
     index_of st' (ed_public ref_ext node_key) = Some (4, 5000) \<and>
     ra_clients st' = [Disconnect (ed_public ref_ext node_key)]"
proof -
  obtain st' where run: "apply_revocation_update ref_ext relay_env sample_message sample_relay =
      (Inr (relay_status ref_ext st'), st')" using sample_update_accepted by blast
  have newer: "ru_version (ra_current sample_relay) < ru_version (sru_update sample_message)"
    by (simp add: sample_relay_def initial_revocations_def sample_message_def sample_update_def)
  from relay_update_refines [OF sample_relay_ok sample_message_ok(1) run newer ref_ext_laws(5)] sample_message_ok(3)
  have "index_of st' (ed_public ref_ext node_key) = Some (4, 5000)" by (auto simp: map_add_def hash_get_def)
  moreover have "ra_clients st' = [Disconnect (ed_public ref_ext node_key)]"
    using sample_relay_ok run sample_message_ok(1) ref_ext_laws(5)
    by (cases rule: apply_update_cases)
      (use newer sample_message_ok(3) in \<open>auto simp: disconnects_def revoked_through_def sample_relay_def relay_env_def\<close>)
  ultimately show ?thesis using run by blast
qed

text \<open>C29: Whatever arrives, the relay's memory, its index and its file stay one: every update
  keeps the invariant, never lowers the version, and changes neither index nor update when it is refused.
  A live revocation stays as it is, unless an accepted update, signed by the authority, carries a record for
  its endpoint; that record then takes its place, and never with a lower generation.\<close>

theorem relay_update_invariant:
  assumes "relay_ok X st" "update_in_range (sru_update m)" "apply_revocation_update X env m st = (r, st')"
    and "pretty_laws X"
  shows "relay_ok X st' \<and> ru_version (ra_current st) \<le> ru_version (ra_current st') \<and>
    (\<not> is_ok r \<longrightarrow> ra_current st' = ra_current st \<and> ra_revoked st' = ra_revoked st) \<and>
    (\<forall>i g x. index_of st i = Some (g, x) \<and> re_now env < x \<and> re_later env < x \<longrightarrow>
       index_of st' i = Some (g, x) \<or>
       is_ok r \<and> SignedRevocationUpdate_verify X m (ra_authority_id st) = Inr () \<and>
       (\<exists>v \<in> set (ru_revocations (sru_update m)). id_parse X (rvk_endpoint_id v) = Inr i \<and>
          g \<le> rvk_revoked_through_generation v \<and>
          index_of st' i = Some (rvk_revoked_through_generation v, rvk_expires_at v)))"
  using assms(1,3,2,4)
proof (cases rule: apply_update_cases)
  case (pruned fs idx)
  have "index_of st' = live (re_now env) (index_of st)"
    by (rule pruned_index [OF assms(1) pruned(4)]) (simp_all add: pruned(3))
  then show ?thesis using pruned by (auto simp: live_def)
next
  case (extended fs idx delta merged)
  have index: "index_of st' = live (re_later env) (index_of st) ++ (\<lambda>i. hash_get i delta)"
    by (rule extended_index [OF assms(1) extended(3,5,6)]) (simp_all add: extended(7))
  have "index_of st' i = Some (g, x) \<or> (\<exists>v \<in> set (ru_revocations (sru_update m)). id_parse X (rvk_endpoint_id v) = Inr i \<and>
      g \<le> rvk_revoked_through_generation v \<and> index_of st' i = Some (rvk_revoked_through_generation v, rvk_expires_at v))"
    if "index_of st i = Some (g, x)" "re_later env < x" for i g x
    by (rule extended_replaces [OF assms(1) extended(3,6) _ _ extended(5) that index]) (simp_all add: extended(7))
  then show ?thesis using extended(1-4) by (auto simp: is_ok_iff extended(7))
qed (auto simp: assms(1) index_of_def)

theorem relay_update_invariant_witness:
  "\<exists>st'. apply_revocation_update ref_ext relay_env sample_message sample_relay = (Inr (relay_status ref_ext st'), st') \<and>
     relay_ok ref_ext st'"
  using sample_update_accepted relay_update_invariant [OF sample_relay_ok sample_message_ok(1) _ ref_ext_laws(5)] by blast

end
