(* ===== verification/Control_Link.thy ===== *)
theory Control_Link
  imports Control_Api
begin

text \<open>
  How a node talks to Control: the retry loop around one HTTP request, as it is written in
  \<open>crates/as-relay/src/main.rs\<close> (\<open>send_control\<close>) and again in the edge and the client, the
  URL of an endpoint and the token in a join URL.  Time is counted in milliseconds.  What the network does is a list of
  attempts: how long each took, what came of it and the random number drawn after it.
\<close>

section \<open>Exchanges\<close>

record HttpResponse =
  h_status :: nat
  h_retry_after :: "string option"
  h_body :: "byte list"

datatype SendOutcome = SendFailed string | Answered HttpResponse

record Attempt =
  at_elapsed :: nat
  at_outcome :: SendOutcome
  at_random :: nat

datatype LinkError = TimedOut | Transport string | ControlBusy

definition is_success :: "nat \<Rightarrow> bool" where
  "is_success status \<longleftrightarrow> 200 \<le> status \<and> status < 300"

text \<open>\<open>str::parse::<u64>\<close>: decimal digits after an optional plus sign.\<close>

fun digits_value :: "nat \<Rightarrow> string \<Rightarrow> nat option" where
  "digits_value acc [] = Some acc"
| "digits_value acc (c # cs) = (let d = (of_char c :: nat) in
     if 48 \<le> d \<and> d \<le> 57 \<and> acc * 10 + (d - 48) \<le> u64_max then digits_value (acc * 10 + (d - 48)) cs
     else None)"

definition parse_u64 :: "string \<Rightarrow> nat option" where
  "parse_u64 s = (case s of
      [] \<Rightarrow> None
    | c # cs \<Rightarrow> if c = CHR ''+'' \<and> cs \<noteq> [] then digits_value 0 cs else digits_value 0 s)"

section \<open>One request\<close>

text \<open>\<open>None\<close>: the attempts listed so far do not settle the request.\<close>

fun send_control :: "nat \<Rightarrow> nat \<Rightarrow> Attempt list \<Rightarrow> ((LinkError + HttpResponse) \<times> nat) option" where
  "send_control deadline now attempts =
     (if deadline - now = 0 then Some (Inl TimedOut, now)
      else case attempts of
        [] \<Rightarrow> None
      | a # rest \<Rightarrow>
          if at_elapsed a \<ge> deadline - now then Some (Inl TimedOut, deadline)
          else (let now = now + at_elapsed a in
            case at_outcome a of
              SendFailed e \<Rightarrow> Some (Inl (Transport e), now)
            | Answered response \<Rightarrow>
                if \<not> (h_status response = 429 \<or> h_status response = 503) then Some (Inr response, now)
                else (case Option.bind (h_retry_after response) parse_u64 of
                    None \<Rightarrow> Some (Inr response, now)
                  | Some seconds \<Rightarrow>
                      (let delay = seconds * 1000 + at_random a mod 1001 in
                       if delay < deadline - now then send_control deadline (now + delay) rest
                       else Some (Inl ControlBusy, now)))))"

declare send_control.simps [simp del]

definition api_url :: "Ext \<Rightarrow> string \<Rightarrow> string \<Rightarrow> string + Url" where
  "api_url X base path =
     and_then (url_parse X (trim_end_matches (CHR ''/'') base @ ''/'')) (\<lambda>url.
     with_context ''build control API URL'' (url_join X url path))"

definition join_token :: "Ext \<Rightarrow> string \<Rightarrow> string + JoinToken \<times> EndpointId" where
  "join_token X link =
     and_then (with_context ''invalid join URL'' (url_parse X link)) (\<lambda>parsed.
     and_then (ok_or ''join URL is missing its token fragment'' (u_fragment parsed)) (\<lambda>fragment.
     and_then (JoinToken_decode X fragment) (\<lambda>token.
     and_then (JoinToken_verify X token) (\<lambda>control_id.
     Inr (token, control_id)))))"

definition next_backoff :: "nat \<Rightarrow> nat \<Rightarrow> nat" where
  "next_backoff cap backoff = min (backoff * 2) cap"

section \<open>The deadline\<close>

lemma send_control_deadline:
  "send_control deadline now as = Some (r, t) \<Longrightarrow> now \<le> deadline \<Longrightarrow> now \<le> t \<and> t \<le> deadline"
proof (induction as arbitrary: now)
  case Nil
  then show ?case by (simp add: send_control.simps split: if_splits)
next
  case (Cons a rest)
  have "now \<le> t \<and> t \<le> deadline"
    if "send_control deadline (now + at_elapsed a + d) rest = Some (r, t)"
      "d < deadline - (now + at_elapsed a)" for d
    using Cons.IH [OF that(1)] that(2) by linarith
  with Cons.prems show ?case
    by (subst (asm) send_control.simps)
      (auto simp: Let_def split: if_splits SendOutcome.splits option.splits)
qed

lemma send_control_settles:
  "(\<forall>a \<in> set as. 1 \<le> at_elapsed a) \<Longrightarrow> deadline - now \<le> length as \<Longrightarrow> \<exists>r t. send_control deadline now as = Some (r, t)"
proof (induction as arbitrary: now)
  case Nil
  then show ?case by (simp add: send_control.simps)
next
  case (Cons a rest)
  have "\<exists>r t. send_control deadline (now + at_elapsed a + d) rest = Some (r, t)" for d
    using Cons.prems by (intro Cons.IH) auto
  then show ?case
    by (subst send_control.simps) (auto simp: Let_def split: SendOutcome.split option.split)
qed

section \<open>Properties\<close>

text \<open>C28: A request to Control ends.  When every attempt takes time, the loop settles after at
  most as many attempts as there are milliseconds to the deadline, with an answer or an error, and
  never after the deadline, however often the server asks for a retry.\<close>

theorem send_control_ends:
  assumes "now \<le> deadline" "\<forall>a \<in> set as. 1 \<le> at_elapsed a" "deadline - now \<le> length as"
  shows "\<exists>r t. send_control deadline now as = Some (r, t) \<and> now \<le> t \<and> t \<le> deadline"
  using send_control_settles [OF assms(2,3)] send_control_deadline [OF _ assms(1)] by blast

theorem send_control_ends_witness:
  "\<exists>r t. send_control 3 0 [\<lparr>at_elapsed = 1, at_outcome = Answered \<lparr>h_status = 503, h_retry_after = Some ''0'',
     h_body = []\<rparr>, at_random = 0\<rparr>, \<lparr>at_elapsed = 1, at_outcome = Answered \<lparr>h_status = 200,
     h_retry_after = None, h_body = [1]\<rparr>, at_random = 0\<rparr>, \<lparr>at_elapsed = 1, at_outcome = SendFailed ''lost'',
     at_random = 0\<rparr>] = Some (r, t) \<and> t \<le> 3"
  using send_control_ends [of 0 3 "[\<lparr>at_elapsed = 1, at_outcome = Answered \<lparr>h_status = 503, h_retry_after = Some ''0'',
     h_body = []\<rparr>, at_random = 0\<rparr>, \<lparr>at_elapsed = 1, at_outcome = Answered \<lparr>h_status = 200,
     h_retry_after = None, h_body = [1]\<rparr>, at_random = 0\<rparr>, \<lparr>at_elapsed = 1, at_outcome = SendFailed ''lost'',
     at_random = 0\<rparr>]"] by auto

end
