(* ===== verification/Utf8.thy ===== *)
theory Utf8
  imports AS_Prelude "HOL-Library.Sublist"
begin

text \<open>
  What the crates use of Rust's \<open>str\<close>: when a byte sequence is UTF-8 (\<open>str::from_utf8\<close>) and
  \<open>str::trim\<close>, which drops the characters with the Unicode property \<open>White_Space\<close> at both ends.
\<close>

definition cont :: "byte \<Rightarrow> bool" where "cont b \<longleftrightarrow> 128 \<le> unat b \<and> unat b \<le> 191"

text \<open>The length of the well-formed sequence at the front, as in the standard's table of byte
  ranges: no overlong forms, no surrogates, nothing above U+10FFFF.\<close>

definition utf8_step :: "byte list \<Rightarrow> nat option" where
  "utf8_step bs = (case bs of
      [] \<Rightarrow> None
    | b # rest \<Rightarrow>
        let n = unat b in
        if n < 128 then Some 1
        else if 194 \<le> n \<and> n \<le> 223 then
          (case rest of c # _ \<Rightarrow> if cont c then Some 2 else None | _ \<Rightarrow> None)
        else if 224 \<le> n \<and> n \<le> 239 then
          (case rest of c # d # _ \<Rightarrow>
             if (if n = 224 then 160 \<le> unat c \<and> unat c \<le> 191
                 else if n = 237 then 128 \<le> unat c \<and> unat c \<le> 159 else cont c) \<and> cont d
             then Some 3 else None
           | _ \<Rightarrow> None)
        else if 240 \<le> n \<and> n \<le> 244 then
          (case rest of c # d # e # _ \<Rightarrow>
             if (if n = 240 then 144 \<le> unat c \<and> unat c \<le> 191
                 else if n = 244 then 128 \<le> unat c \<and> unat c \<le> 143 else cont c) \<and> cont d \<and> cont e
             then Some 4 else None
           | _ \<Rightarrow> None)
        else None)"

lemma utf8_step_append: "utf8_step bs = Some n \<Longrightarrow> utf8_step (bs @ cs) = Some n \<and> 0 < n \<and> n \<le> length bs"
  by (auto simp: utf8_step_def Let_def split: list.splits if_splits)

function utf8_valid :: "byte list \<Rightarrow> bool" where
  "utf8_valid bs \<longleftrightarrow> bs = [] \<or>
     (case utf8_step bs of None \<Rightarrow> False | Some n \<Rightarrow> utf8_valid (drop n bs))"
  by auto
termination
  by (relation "measure length") (auto dest: utf8_step_append)

declare utf8_valid.simps [simp del]

definition from_utf8 :: "byte list \<Rightarrow> string + string" where
  "from_utf8 bs = (if utf8_valid bs then Inr (bytes_string bs) else Inl ''invalid utf-8 sequence'')"

lemma utf8_valid_Nil [simp]: "utf8_valid []"
  by (simp add: utf8_valid.simps)

lemma utf8_valid_append [intro]: "utf8_valid bs \<Longrightarrow> utf8_valid cs \<Longrightarrow> utf8_valid (bs @ cs)"
proof (induction bs rule: utf8_valid.induct)
  case (1 bs)
  show ?case
  proof (cases "bs = []")
    case False
    with "1.prems"(1) obtain n where n: "utf8_step bs = Some n" "utf8_valid (drop n bs)"
      by (subst (asm) utf8_valid.simps) (auto split: option.splits)
    have "utf8_valid (drop n bs @ cs)"
      using n "1.prems"(2) by (intro "1.IH" [OF n(1)])
    then show ?thesis
      using utf8_step_append [OF n(1), of cs] by (subst utf8_valid.simps) auto
  qed (use 1 in simp)
qed

lemma utf8_valid_ascii: "\<forall>b \<in> set bs. unat b < 128 \<Longrightarrow> utf8_valid bs"
proof (induction bs)
  case (Cons b bs)
  then show ?case by (subst utf8_valid.simps) (auto simp: utf8_step_def)
qed simp

text \<open>The encodings of the white space characters.\<close>

definition white_space :: "string list" where
  "white_space = map (map (char_of :: nat \<Rightarrow> char))
     ([[9], [10], [11], [12], [13], [32], [194, 133], [194, 160], [225, 154, 128]]
      @ map (\<lambda>n. [226, 128, n]) ([128..<139] @ [168, 169, 175])
      @ [[226, 129, 159], [227, 128, 128]])"

function strip_any :: "string list \<Rightarrow> string \<Rightarrow> string" where
  "strip_any ws s = (case find (\<lambda>w. w \<noteq> [] \<and> prefix w s) ws of
      None \<Rightarrow> s
    | Some w \<Rightarrow> strip_any ws (drop (length w) s))"
  by auto
termination
  by (relation "measure (\<lambda>(ws, s). length s)") (auto simp: find_Some_iff prefix_def)

declare strip_any.simps [simp del]

definition trim_start :: "string \<Rightarrow> string" where "trim_start s = strip_any white_space s"
definition trim_end :: "string \<Rightarrow> string" where "trim_end s = rev (strip_any (map rev white_space) (rev s))"
definition trim :: "string \<Rightarrow> string" where "trim s = trim_end (trim_start s)"

lemma strip_any_suffix: "suffix (strip_any ws s) s"
proof (induction ws s rule: strip_any.induct)
  case (1 ws s)
  show ?case
    using 1 by (subst strip_any.simps) (auto split: option.splits intro: suffix_order.trans suffix_drop)
qed

lemma trim_sublist: "sublist (trim s) s"
proof -
  have "prefix (trim_end t) t" for t
    using strip_any_suffix [of "map rev white_space" "rev t"] by (simp add: trim_end_def suffix_to_prefix)
  then show ?thesis
    unfolding trim_def trim_start_def
    by (meson prefix_imp_sublist strip_any_suffix sublist_order.order_trans suffix_imp_sublist)
qed

text \<open>A string that begins and ends with visible ASCII has nothing to trim.\<close>

lemma white_space_ends:
  "list_all (\<lambda>w. w \<noteq> [] \<and> \<not> (of_char (hd w) \<in> {33..<128 :: nat}) \<and> \<not> (of_char (last w) \<in> {33..<128 :: nat})) white_space"
  by (simp add: white_space_def upt_rec)

lemma strip_any_other:
  assumes "\<forall>w \<in> set ws. w \<noteq> [] \<longrightarrow> hd w \<noteq> hd t"
  shows "strip_any ws t = t"
proof -
  have "\<not> (w \<noteq> [] \<and> prefix w t)" if "w \<in> set ws" for w using that assms by (auto simp: prefix_def)
  then have "find (\<lambda>w. w \<noteq> [] \<and> prefix w t) ws = None" by (auto simp: find_None_iff)
  then show ?thesis by (simp add: strip_any.simps [of ws t])
qed

lemma trim_visible:
  assumes "s \<noteq> []" "of_char (hd s) \<in> {33..<128 :: nat}" "of_char (last s) \<in> {33..<128 :: nat}"
  shows "trim s = s"
proof -
  have "strip_any white_space s = s" "strip_any (map rev white_space) (rev s) = rev s"
    by (rule strip_any_other; use white_space_ends assms in \<open>auto simp: list_all_iff hd_rev\<close>)+
  then show ?thesis by (simp add: trim_def trim_start_def trim_end_def)
qed

end
