(* ===== verification/Relay_Process.thy ===== *)
theory Relay_Process
  imports Relay_Server Control_Link Utf8
begin

text \<open>
  The relay as a process (\<open>crates/as-relay/src/main.rs\<close>): its enrollment profile, joining with an
  invitation, starting from the files in its state directory, and the loop that polls Control for
  revocations.  Network exchanges, certificate requests and TLS configurations are arguments.
\<close>

definition DEFAULT_QAD_PORT :: nat where "DEFAULT_QAD_PORT = 7842"
definition CONTROL_REQUEST_TIMEOUT :: nat where "CONTROL_REQUEST_TIMEOUT = 60000"
definition CONTROL_WATCH_TIMEOUT :: nat where "CONTROL_WATCH_TIMEOUT = 90000"

section \<open>Profile\<close>

record RelayProfile =
  rp_schema_version :: nat
  rp_name :: string
  rp_control_url :: string
  rp_control_id :: string
  rp_audience :: string
  rp_endpoint_id :: string
  rp_relay_url :: string
  rp_qad_port :: "nat option"
  rp_relay_ca_der :: "byte list"
  rp_qad_certificate_der :: "byte list"

definition RelayProfile_json :: "RelayProfile \<Rightarrow> json" where
  "RelayProfile_json p = JObj [
     (''schema_version'', unsigned_json (rp_schema_version p)),
     (''name'', JStr (rp_name p)),
     (''control_url'', JStr (rp_control_url p)),
     (''control_id'', JStr (rp_control_id p)),
     (''audience'', JStr (rp_audience p)),
     (''endpoint_id'', JStr (rp_endpoint_id p)),
     (''relay_url'', JStr (rp_relay_url p)),
     (''qad_port'', option_json unsigned_json (rp_qad_port p)),
     (''relay_ca_der'', bytes_json (rp_relay_ca_der p)),
     (''qad_certificate_der'', bytes_json (rp_qad_certificate_der p))]"

definition RelayProfile_of_json :: "json \<Rightarrow> string + RelayProfile" where
  "RelayProfile_of_json v =
     and_then (field ''schema_version'' (as_unsigned 32) v) (\<lambda>schema_version.
     and_then (field ''name'' as_string v) (\<lambda>name.
     and_then (field ''control_url'' as_string v) (\<lambda>control_url.
     and_then (field ''control_id'' as_string v) (\<lambda>control_id.
     and_then (field ''audience'' as_string v) (\<lambda>audience.
     and_then (field ''endpoint_id'' as_string v) (\<lambda>endpoint_id.
     and_then (field ''relay_url'' as_string v) (\<lambda>relay_url.
     and_then (field_option ''qad_port'' (as_unsigned 16) v) (\<lambda>qad_port.
     and_then (field ''relay_ca_der'' bytes_of_json v) (\<lambda>relay_ca_der.
     and_then (field ''qad_certificate_der'' bytes_of_json v) (\<lambda>qad_certificate_der.
     Inr \<lparr>rp_schema_version = schema_version, rp_name = name, rp_control_url = control_url,
       rp_control_id = control_id, rp_audience = audience, rp_endpoint_id = endpoint_id,
       rp_relay_url = relay_url, rp_qad_port = qad_port, rp_relay_ca_der = relay_ca_der,
       rp_qad_certificate_der = qad_certificate_der\<rparr>))))))))))"

definition profile_path :: "path \<Rightarrow> path" where "profile_path dir = dir @ [''control.json'']"
definition qad_key_path :: "path \<Rightarrow> path" where "qad_key_path dir = dir @ [''qad.key'']"

definition persist_profile :: "Ext \<Rightarrow> FsEnv \<Rightarrow> path \<Rightarrow> RelayProfile \<Rightarrow> unit io" where
  "persist_profile X E path profile =
     atomic_write E path (json_to_vec_pretty X (RelayProfile_json profile) @ [10])"

definition load_profile :: "Ext \<Rightarrow> FsEnv \<Rightarrow> path \<Rightarrow> RelayProfile io" where
  "load_profile X E state_dir = (let path = profile_path state_dir in
     io_then (io_context (''read '' @ path_display path @ '' (run `as-relay join` first)'') (fs_read E path)) (\<lambda>data.
     io_then (io_result (with_context (''parse '' @ path_display path)
       (and_then (json_from_slice X data) RelayProfile_of_json))) (\<lambda>profile.
     io_then (io_result (ensure (rp_schema_version profile = 2) ''unsupported relay profile schema'')) (\<lambda>_.
     io_ok profile))))"

definition load_or_create_relay_key :: "FsEnv \<Rightarrow> path \<Rightarrow> SecretKey io" where
  "load_or_create_relay_key E state_dir = load_or_create_secret E (state_dir @ [''relay.key''])"

definition requested_qad_port :: "nat option \<Rightarrow> bool \<Rightarrow> nat \<Rightarrow> string + nat option" where
  "requested_qad_port port disabled default_port =
     and_then (ensure (\<not> (disabled \<and> port \<noteq> None)) ''--no-qad cannot be combined with --qad-port'') (\<lambda>_.
     if disabled then Inr None
     else (let port = (case port of Some p \<Rightarrow> p | None \<Rightarrow> default_port) in
       and_then (ensure (port \<noteq> 0) ''--qad-port must be between 1 and 65535'') (\<lambda>_.
       Inr (Some port))))"

text \<open>\<open>tls\<close> stands for building the \<open>rustls\<close> server configuration from a chain and a key.\<close>

definition managed_qad_config ::
  "FsEnv \<Rightarrow> (byte list list \<Rightarrow> byte list \<Rightarrow> string + 'q) \<Rightarrow> RelayProfile \<Rightarrow> path \<Rightarrow> 'q option io" where
  "managed_qad_config E tls profile state_dir = (case rp_qad_port profile of
      None \<Rightarrow> io_ok None
    | Some _ \<Rightarrow>
        io_then (io_result (ensure (rp_qad_certificate_der profile \<noteq> [])
          ''managed QAD TLS certificate is empty'')) (\<lambda>_.
        io_then (io_result (ensure (rp_relay_ca_der profile \<noteq> [])
          ''managed Relay CA certificate is empty'')) (\<lambda>_.
        io_then (io_context ''read managed QAD TLS key'' (fs_read E (qad_key_path state_dir))) (\<lambda>key_der.
        io_then (io_result (with_context ''configure managed QAD TLS certificate''
          (tls [rp_qad_certificate_der profile, rp_relay_ca_der profile] key_der))) (\<lambda>quic.
        io_ok (Some quic))))))"

section \<open>Joining\<close>

record JoinEnv =
  je_now :: int
  je_nonce :: string
  je_qad_key :: "string + byte list"
  je_csr :: "string \<Rightarrow> byte list \<Rightarrow> string + byte list"
  je_exchange :: "Url \<Rightarrow> ClaimRequest \<Rightarrow> LinkError + HttpResponse"

datatype JoinError = JoinFiles FsError | JoinLink LinkError | JoinRefused string

abbreviation join_check :: "string + 'a \<Rightarrow> (JoinError, 'a) eio" where
  "join_check r \<equiv> io_check (map_err JoinRefused r)"

definition relay_invitation :: "JoinToken \<Rightarrow> string + string" where
  "relay_invitation token = (case inv_kind (jt_invite token) of
      IKRelay url \<Rightarrow> Inr url
    | _ \<Rightarrow> Inl ''this invitation is not for a relay'')"

definition qad_request :: "Ext \<Rightarrow> JoinEnv \<Rightarrow> string \<Rightarrow> nat option \<Rightarrow> string + (byte list \<times> byte list) option" where
  "qad_request X J relay_url qad_port = (case qad_port of
      None \<Rightarrow> Inr None
    | Some _ \<Rightarrow>
        and_then (url_parse X relay_url) (\<lambda>url.
        and_then (ok_or ''Relay URL has no host'' (u_host url)) (\<lambda>host.
        and_then (with_context ''generate QAD TLS key'' (je_qad_key J)) (\<lambda>qad_key.
        and_then (je_csr J host qad_key) (\<lambda>csr.
        Inr (Some (qad_key, csr)))))))"

definition decode_join :: "Ext \<Rightarrow> EndpointId \<Rightarrow> EndpointId \<Rightarrow> nat option \<Rightarrow> HttpResponse \<Rightarrow> string + NodeMap \<times> byte list" where
  "decode_join X control_id node qad_port response =
     and_then (ensure (is_success (h_status response)) (''control rejected relay claim ('' @
       show_nat (h_status response) @ ''): '' @ bytes_string (h_body response))) (\<lambda>_.
     and_then (with_context ''decode join response''
       (and_then (json_from_slice X (h_body response)) (JoinResult_of_json X))) (\<lambda>joined.
     and_then (SignedNodeMap_verify X (jr_map joined) control_id node) (\<lambda>_.
     and_then (case qad_port of
         Some _ \<Rightarrow> ok_or ''Control omitted the managed QAD TLS certificate'' (jr_relay_tls_certificate_der joined)
       | None \<Rightarrow> Inr []) (\<lambda>certificate.
     Inr (snm_map (jr_map joined), certificate)))))"

definition join_control ::
  "Ext \<Rightarrow> FsEnv \<Rightarrow> JoinEnv \<Rightarrow> string \<Rightarrow> string option \<Rightarrow> path \<Rightarrow> nat option \<Rightarrow> (JoinError, RelayProfile) eio" where
  "join_control X E J link control_url state_dir qad_port =
     io_then (io_map_err JoinFiles (io_step E (create_dir_all (fe_dir_mode E) state_dir))) (\<lambda>_.
     io_then (\<lambda>fs. io_check (ensure (\<not> path_exists (profile_path state_dir) fs)
       (JoinRefused ''relay is already enrolled in control'')) fs) (\<lambda>_.
     io_then (join_check (join_token X link)) (\<lambda>(token, control_id).
     io_then (join_check (relay_invitation token)) (\<lambda>relay_url.
     let invite = jt_invite token;
         control_url = (case control_url of Some url \<Rightarrow> url | None \<Rightarrow> inv_control_url invite) in
     io_then (join_check (with_context ''invalid Control connection URL'' (url_parse X control_url))) (\<lambda>_.
     io_then (io_map_err JoinFiles (load_or_create_relay_key E state_dir)) (\<lambda>key.
     io_then (join_check (qad_request X J relay_url qad_port)) (\<lambda>qad.
     let request = ClaimRequest_sign_with_relay_qad X token key (je_now J) (je_nonce J) qad_port
           (map_option snd qad) in
     io_then (join_check (api_url X control_url ''v1/claim'')) (\<lambda>url.
     io_then (io_check (map_err JoinLink (je_exchange J url request))) (\<lambda>response.
     io_then (join_check (decode_join X control_id (ed_public X key) qad_port response)) (\<lambda>(map, certificate).
     io_then (case qad of
         Some (qad_key, _) \<Rightarrow> io_map_err JoinFiles (atomic_write E (qad_key_path state_dir) qad_key)
       | None \<Rightarrow> io_ok ()) (\<lambda>_.
     let profile = \<lparr>rp_schema_version = 2, rp_name = inv_name invite, rp_control_url = control_url,
           rp_control_id = id_to_string X control_id, rp_audience = inv_audience invite,
           rp_endpoint_id = id_to_string X (ed_public X key), rp_relay_url = relay_url,
           rp_qad_port = qad_port, rp_relay_ca_der = nm_relay_ca_der map,
           rp_qad_certificate_der = certificate\<rparr> in
     io_then (io_map_err JoinFiles (persist_profile X E (profile_path state_dir) profile)) (\<lambda>_.
     io_ok profile))))))))))))"

text \<open>\<open>join_from_file\<close>: only a failure of the connection is retried, after a pause that doubles up
  to thirty seconds.  Each try has its own environment; the result also counts the seconds slept.\<close>

fun join_loop ::
  "Ext \<Rightarrow> string \<Rightarrow> string option \<Rightarrow> path \<Rightarrow> nat option \<Rightarrow> nat \<Rightarrow> (FsEnv \<times> JoinEnv) list \<Rightarrow> nat \<Rightarrow> Fs
    \<Rightarrow> ((JoinError + RelayProfile) \<times> Fs \<times> nat) option" where
  "join_loop X link control_url state_dir qad_port backoff [] slept fs = None"
| "join_loop X link control_url state_dir qad_port backoff ((E, J) # tries) slept fs =
     (case join_control X E J link control_url state_dir qad_port fs of
        (Inr profile, fs') \<Rightarrow> Some (Inr profile, fs', slept)
      | (Inl (JoinLink (Transport e)), fs') \<Rightarrow>
          join_loop X link control_url state_dir qad_port (next_backoff 30 backoff) tries (slept + backoff) fs'
      | (Inl e, fs') \<Rightarrow> Some (Inl e, fs', slept))"

section \<open>Starting\<close>

record RunOptions =
  ro_qad_bind_port :: nat
  ro_qad_port :: "nat option"
  ro_no_qad :: bool
  ro_join_if_needed :: "path option"
  ro_control_url :: "string option"

definition update_qad_port :: "Ext \<Rightarrow> FsEnv \<Rightarrow> RunOptions \<Rightarrow> path \<Rightarrow> RelayProfile \<Rightarrow> RelayProfile io" where
  "update_qad_port X E options state_dir profile =
     io_then (io_result (ensure (ro_no_qad options \<longrightarrow> rp_qad_port profile = None)
       ''--no-qad cannot disable QAD after enrollment'')) (\<lambda>_.
     case ro_qad_port options of
       None \<Rightarrow> io_ok profile
     | Some qad_port \<Rightarrow>
         io_then (io_result (requested_qad_port (Some qad_port) False (ro_qad_bind_port options))) (\<lambda>requested.
         io_then (io_result (ensure (rp_qad_port profile \<noteq> None)
           ''--qad-port cannot enable QAD after a QAD-disabled enrollment'')) (\<lambda>_.
         if rp_qad_port profile \<noteq> requested
         then (let profile = profile\<lparr>rp_qad_port := requested\<rparr> in
           io_then (persist_profile X E (profile_path state_dir) profile) (\<lambda>_.
           io_ok profile))
         else io_ok profile)))"

text \<open>\<open>se_tls\<close> and \<open>se_spawn\<close> stand for \<open>rustls\<close> and the relay server it configures, \<open>se_bind\<close> for
  binding the status listener.\<close>

record 'q StartEnv =
  se_now :: int
  se_tls :: "byte list list \<Rightarrow> byte list \<Rightarrow> string + 'q"
  se_spawn :: "'q option \<Rightarrow> string + unit"
  se_bind :: "string + unit"

definition start_relay ::
  "Ext \<Rightarrow> FsEnv \<Rightarrow> 'q StartEnv \<Rightarrow> RunOptions \<Rightarrow> path \<Rightarrow> (RelayProfile \<times> AdminState) io" where
  "start_relay X E S options state_dir =
     io_then (load_profile X E state_dir) (\<lambda>profile.
     io_then (update_qad_port X E options state_dir profile) (\<lambda>profile.
     io_then (io_result (with_context ''invalid profile control id'' (id_parse X (rp_control_id profile)))) (\<lambda>authority_id.
     let audience = rp_audience profile in
     io_then (io_result (ensure (trim audience \<noteq> []) ''audience must not be empty'')) (\<lambda>_.
     let state_path = state_dir @ [''revocations.json''];
         enrollment_revoked_path = state_dir @ [''enrollment-revoked''] in
     io_then (\<lambda>fs. io_result (ensure (\<not> path_exists enrollment_revoked_path fs) (''Relay enrollment was revoked; '' @
       ''remove this state directory and enroll a new Relay identity'')) fs) (\<lambda>_.
     io_then (load_or_initialize X E (se_now S) state_path audience) (\<lambda>revocation_state.
     io_then (io_result (validate_revocations X revocation_state audience)) (\<lambda>revocations.
     io_then (managed_qad_config E (se_tls S) profile state_dir) (\<lambda>quic.
     io_then (io_result (with_context ''start relay'' (se_spawn S quic))) (\<lambda>_.
     io_then (io_result (with_context ''bind admin API'' (se_bind S))) (\<lambda>_.
     (\<lambda>fs. (Inr (profile, \<lparr>ra_audience = audience, ra_authority_id = authority_id, ra_state_path = state_path,
       ra_current = revocation_state, ra_revoked = revocations, ra_clients = [], ra_enrollment_revoked = False,
       ra_enrollment_revoked_path = enrollment_revoked_path, ra_fs = fs\<rparr>), fs))))))))))))"

text \<open>\<open>run\<close> up to the point where it serves: it enrolls first when there is no profile and a file
  with an invitation is given.  \<open>None\<close>: the tries listed so far do not settle the enrollment.\<close>

definition read_invitation :: "FsEnv \<Rightarrow> path \<Rightarrow> string io" where
  "read_invitation E join_file =
     io_then (io_context (''read '' @ path_display join_file @ '' (restore relay state or provide a fresh Relay invitation)'')
       (io_then (fs_read E join_file) (\<lambda>bytes. io_result (from_utf8 bytes)))) (\<lambda>text.
     io_then (io_result (ensure (trim text \<noteq> []) ''Relay invitation file is empty'')) (\<lambda>_.
     io_ok (trim text)))"

definition join_from_file ::
  "Ext \<Rightarrow> FsEnv \<Rightarrow> path \<Rightarrow> string option \<Rightarrow> path \<Rightarrow> nat option \<Rightarrow> (FsEnv \<times> JoinEnv) list \<Rightarrow> Fs
    \<Rightarrow> ((JoinError + RelayProfile) \<times> Fs \<times> nat) option" where
  "join_from_file X E join_file control_url state_dir qad_port tries fs =
     (case read_invitation E join_file fs of
        (Inl e, fs') \<Rightarrow> Some (Inl (JoinFiles e), fs', 0)
      | (Inr link, fs') \<Rightarrow> join_loop X link control_url state_dir qad_port 1 tries 0 fs')"

definition run_relay ::
  "Ext \<Rightarrow> FsEnv \<Rightarrow> 'q StartEnv \<Rightarrow> RunOptions \<Rightarrow> path \<Rightarrow> (FsEnv \<times> JoinEnv) list \<Rightarrow> Fs
    \<Rightarrow> ((JoinError + RelayProfile \<times> AdminState) \<times> Fs) option" where
  "run_relay X E S options state_dir tries fs =
     (case io_context (''create '' @ path_display state_dir) (io_step E (create_dir_all (fe_dir_mode E) state_dir)) fs of
        (Inl e, fs) \<Rightarrow> Some (Inl (JoinFiles e), fs)
      | (Inr _, fs) \<Rightarrow>
          (let start = (\<lambda>fs. Some (io_map_err JoinFiles (start_relay X E S options state_dir) fs)) in
           if path_exists (profile_path state_dir) fs then start fs
           else case ro_join_if_needed options of
             None \<Rightarrow> start fs
           | Some join_file \<Rightarrow>
               (case requested_qad_port (ro_qad_port options) (ro_no_qad options) (ro_qad_bind_port options) of
                  Inl e \<Rightarrow> Some (Inl (JoinRefused e), fs)
                | Inr qad_port \<Rightarrow>
                    (case join_from_file X E join_file (ro_control_url options) state_dir qad_port tries fs of
                       None \<Rightarrow> None
                     | Some (Inl e, fs, _) \<Rightarrow> Some (Inl e, fs)
                     | Some (Inr _, fs, _) \<Rightarrow> start fs))))"

section \<open>Polling\<close>

record PollEnv = RelayEnv +
  pe_issued_at :: int
  pe_nonce :: string
  pe_answer :: "WatchRequest \<Rightarrow> LinkError + HttpResponse"

datatype PollNext = PollAgain | PollWait | PollStop

definition poll_answer ::
  "Ext \<Rightarrow> RelayEnv \<Rightarrow> string \<Rightarrow> EndpointId \<Rightarrow> LinkError + HttpResponse \<Rightarrow> AdminState \<Rightarrow> PollNext \<times> AdminState" where
  "poll_answer X env audience control_id answer st = (case answer of
      Inl e \<Rightarrow> (PollWait, st)
    | Inr response \<Rightarrow>
        if h_status response = 204 then (PollAgain, st)
        else if is_success (h_status response) then
          (case and_then (json_from_slice X (h_body response)) (SignedRevocationUpdate_of_json X) of
             Inl e \<Rightarrow> (PollWait, st)
           | Inr message \<Rightarrow>
               (case and_then (SignedRevocationUpdate_verify X message control_id) (\<lambda>_.
                   map_ok (\<lambda>_. ()) (validate_revocations X (sru_update message) audience)) of
                  Inl e \<Rightarrow> (PollWait, st)
                | Inr _ \<Rightarrow> (case apply_revocation_update X env message st of
                    (Inl e, st') \<Rightarrow> (PollWait, st')
                  | (Inr _, st') \<Rightarrow> (PollAgain, st'))))
        else if h_status response = 403 \<or> h_status response = 410
        then (PollStop, revoke_all (re_io env) st)
        else (PollWait, st))"

definition poll_step ::
  "Ext \<Rightarrow> RelayProfile \<Rightarrow> SecretKey \<Rightarrow> EndpointId \<Rightarrow> PollEnv \<Rightarrow> AdminState \<Rightarrow> PollNext \<times> AdminState" where
  "poll_step X profile key control_id env st =
     (let known_revision = ru_version (ra_current st);
          request = WatchRequest_sign_relay X key known_revision (pe_issued_at env) (pe_nonce env)
            (rp_qad_port profile) in
      poll_answer X (RelayEnv.truncate env) (rp_audience profile) control_id (pe_answer env request) st)"

text \<open>The loop over the exchanges that have happened: the state it has reached and whether it goes on.\<close>

fun poll_loop ::
  "Ext \<Rightarrow> RelayProfile \<Rightarrow> SecretKey \<Rightarrow> EndpointId \<Rightarrow> nat \<Rightarrow> PollEnv list \<Rightarrow> AdminState \<Rightarrow> bool \<times> nat \<times> AdminState" where
  "poll_loop X profile key control_id backoff [] st = (True, backoff, st)"
| "poll_loop X profile key control_id backoff (env # envs) st =
     (case poll_step X profile key control_id env st of
        (PollAgain, st') \<Rightarrow> poll_loop X profile key control_id 1 envs st'
      | (PollWait, st') \<Rightarrow> poll_loop X profile key control_id (next_backoff 60 backoff) envs st'
      | (PollStop, st') \<Rightarrow> (False, backoff, st'))"

definition poll_control ::
  "Ext \<Rightarrow> FsEnv \<Rightarrow> RelayProfile \<Rightarrow> path \<Rightarrow> PollEnv list \<Rightarrow> AdminState \<Rightarrow> bool \<times> nat \<times> AdminState" where
  "poll_control X E profile state_dir envs st =
     (case load_or_create_relay_key E state_dir (ra_fs st) of
        (Inl e, fs) \<Rightarrow> (False, 1, st\<lparr>ra_fs := fs\<rparr>)
      | (Inr key, fs) \<Rightarrow>
          (let st = st\<lparr>ra_fs := fs\<rparr> in
           if id_to_string X (ed_public X key) \<noteq> rp_endpoint_id profile then (False, 1, st)
           else case id_parse X (rp_control_id profile) of
             Inl e \<Rightarrow> (False, 1, st)
           | Inr control_id \<Rightarrow>
               (case api_url X (rp_control_url profile) ''v1/relay/watch'' of
                  Inl e \<Rightarrow> (False, 1, st)
                | Inr url \<Rightarrow> poll_loop X profile key control_id 1 envs st)))"

section \<open>Profiles survive\<close>

definition profile_in_range :: "RelayProfile \<Rightarrow> bool" where
  "profile_in_range p \<longleftrightarrow> rp_schema_version p < 2 ^ 32 \<and>
     (case rp_qad_port p of None \<Rightarrow> True | Some n \<Rightarrow> n < 2 ^ 16)"

interpretation relay_profile: json_state RelayProfile_json RelayProfile_of_json profile_in_range
  by unfold_locales (simp add: RelayProfile_json_def RelayProfile_of_json_def profile_in_range_def read_field_simps)

definition holds_profile :: "Ext \<Rightarrow> RelayProfile \<Rightarrow> path \<Rightarrow> Fs \<Rightarrow> bool" where
  "holds_profile X p dir fs \<longleftrightarrow> (\<exists>f. fs_files fs (profile_path dir) = Some f \<and>
     and_then (json_from_slice X (f_bytes f)) RelayProfile_of_json = Inr p)"

lemma field_option_unsigned:
  "field_option n (as_unsigned b) v = Inr x \<Longrightarrow> (case x of None \<Rightarrow> True | Some y \<Rightarrow> y < 2 ^ b)"
  by (auto simp: field_option_def dest: as_option_range [OF _ as_unsigned_range])

lemma RelayProfile_in_range: "RelayProfile_of_json v = Inr p \<Longrightarrow> profile_in_range p"
  unfolding RelayProfile_of_json_def profile_in_range_def
  by (auto dest!: field_reads as_unsigned_range field_option_unsigned)

lemma load_profile_wp:
  assumes "\<And>e fs'. \<not> (no_faults E \<and> (\<exists>p. holds_profile X p dir fs \<and> rp_schema_version p = 2)) \<Longrightarrow> Q (Inl e) fs'"
    and "\<And>p fs'. fs_files fs' = fs_files fs \<Longrightarrow> fs_dirs fs' = fs_dirs fs \<Longrightarrow> holds_profile X p dir fs \<Longrightarrow>
      rp_schema_version p = 2 \<Longrightarrow> Q (Inr p) fs'"
  shows "io_wp (load_profile X E dir) Q fs"
  unfolding load_profile_def Let_def
  by (auto simp: fs_read_def open_file_def read_open_def Let_def holds_profile_def no_faults_def with_context_def
      ensure_def map_err_Inl split: option.splits sum.splits intro!: assms)

lemma load_or_initialize_wp:
  assumes "p = dir @ [''revocations.json'']"
    and "\<And>e fs'. \<not> (no_faults E \<and> (\<exists>u. fs_files fs p = None \<or> holds_update X u p fs)) \<Longrightarrow> Q (Inl e) fs'"
    and "\<And>u fs'. fs_files fs' = fs_files fs \<Longrightarrow> fs_dirs fs' = fs_dirs fs \<Longrightarrow> holds_update X u p fs \<Longrightarrow> Q (Inr u) fs'"
    and "\<And>fs'. fs_files fs p = None \<Longrightarrow> same_except {dir @ [''revocations.json.tmp''], p} fs fs' \<Longrightarrow>
      fs_dirs fs' = fs_dirs fs \<Longrightarrow> wrote_update X (initial_revocations audience now) p fs' \<Longrightarrow>
      Q (Inr (initial_revocations audience now)) fs'"
  shows "io_wp (load_or_initialize X E now p audience) Q fs"
proof (cases "fs_read E p fs")
  case (Pair r fs1)
  have "io_wp (fs_read E p) (\<lambda>r fs1. fs_files fs1 = fs_files fs \<and> fs_dirs fs1 = fs_dirs fs \<and>
      (case r of Inl (Failed e) \<Rightarrow> \<not> no_faults E | Inl (NotFound e) \<Rightarrow> fs_files fs p = None
        | Inr data \<Rightarrow> \<exists>f. fs_files fs p = Some f \<and> data = f_bytes f)) fs"
    by (auto simp: fs_read_def open_file_def read_open_def Let_def no_faults_def split: option.splits)
  note read = io_wp_result [OF this Pair]
  show ?thesis
  proof (cases r)
    case (Inr data)
    with read obtain f where f: "fs_files fs p = Some f" "data = f_bytes f" by auto
    show ?thesis
    proof (cases "and_then (json_from_slice X (f_bytes f)) RevocationUpdate_of_json")
      case (Inl e)
      then have "\<not> holds_update X u p fs" for u using f(1) unfolding holds_update_def by force
      with Inl Pair Inr f assms(2) show ?thesis
        by (simp add: io_wp_def load_or_initialize_def io_result_def io_check_def with_context_def)
    next
      case (Inr u)
      with Pair \<open>r = Inr data\<close> f read assms(3) show ?thesis
        by (auto simp: io_wp_def load_or_initialize_def io_result_def io_check_def with_context_def holds_update_def)
    qed
  next
    case (Inl e)
    show ?thesis
    proof (cases e)
      case (NotFound m)
      have "io_wp (io_then (persist_revocation_state X E p (initial_revocations audience now)) (\<lambda>_.
          io_ok (initial_revocations audience now))) Q fs1"
        unfolding io_wp_then
        by (rule persist_wp [OF assms(1)]) (use read Inl NotFound in \<open>auto simp: same_except_def intro!: assms(2,4)\<close>)
      then show ?thesis using Pair Inl NotFound by (simp add: io_wp_def load_or_initialize_def)
    next
      case (Failed m)
      then show ?thesis using Pair Inl read assms(2) by (auto simp: io_wp_def load_or_initialize_def)
    qed
  qed
qed

definition qad_ready :: "(byte list list \<Rightarrow> byte list \<Rightarrow> string + 'q) \<Rightarrow> RelayProfile \<Rightarrow> path \<Rightarrow> Fs \<Rightarrow> bool" where
  "qad_ready tls p dir fs \<longleftrightarrow> (rp_qad_port p \<noteq> None \<longrightarrow>
     rp_qad_certificate_der p \<noteq> [] \<and> rp_relay_ca_der p \<noteq> [] \<and>
     (\<exists>f q. fs_files fs (qad_key_path dir) = Some f \<and> tls [rp_qad_certificate_der p, rp_relay_ca_der p] (f_bytes f) = Inr q))"

lemma managed_qad_config_wp:
  assumes "\<And>e fs'. \<not> (no_faults E \<and> qad_ready tls p dir fs) \<Longrightarrow> Q (Inl e) fs'"
    and "\<And>q fs'. fs_files fs' = fs_files fs \<Longrightarrow> fs_dirs fs' = fs_dirs fs \<Longrightarrow> qad_ready tls p dir fs \<Longrightarrow>
      (q = None \<longleftrightarrow> rp_qad_port p = None) \<Longrightarrow> Q (Inr q) fs'"
  shows "io_wp (managed_qad_config E tls p dir) Q fs"
  unfolding managed_qad_config_def
  by (auto simp: fs_read_def open_file_def read_open_def Let_def qad_ready_def no_faults_def with_context_def
      ensure_def map_err_Inl split: option.splits sum.splits intro!: assms)

lemma update_qad_port_wp:
  assumes "pretty_laws X" "others_idle E" "holds_profile X p dir fs" "\<forall>n. ro_qad_port options = Some n \<longrightarrow> n < 2 ^ 16"
    and "\<And>e fs'. \<not> (no_faults E \<and> ro_qad_port options = None \<and> \<not> ro_no_qad options) \<Longrightarrow> Q (Inl e) fs'"
    and "\<And>p' fs'. holds_profile X p' dir fs' \<Longrightarrow> rp_schema_version p' = rp_schema_version p \<Longrightarrow>
      (ro_qad_port options = None \<Longrightarrow> p' = p \<and> fs' = fs) \<Longrightarrow> Q (Inr p') fs'"
  shows "io_wp (update_qad_port X E options dir p) Q fs"
proof -
  have range: "profile_in_range p" using assms(3) by (auto simp: holds_profile_def intro: RelayProfile_in_range)
  have stored: "holds_profile X (p\<lparr>rp_qad_port := Some n\<rparr>) dir fs'"
    if "stored (profile_path dir) (json_to_vec_pretty X (RelayProfile_json (p\<lparr>rp_qad_port := Some n\<rparr>)) @ [10]) fs fs'"
      "ro_qad_port options = Some n" for n fs'
  proof -
    have "profile_in_range (p\<lparr>rp_qad_port := Some n\<rparr>)" using range assms(4) that(2) by (simp add: profile_in_range_def)
    from relay_profile.parse_stored(1) [OF assms(1) this] that(1) show ?thesis by (simp add: holds_profile_def stored_def)
  qed
  show ?thesis
    unfolding update_qad_port_def persist_profile_def requested_qad_port_def
    by (auto simp: Let_def ensure_def assms(3) stored split: option.split intro!: atomic_write_wp [OF assms(2)] assms(5,6))
qed

section \<open>A serving relay\<close>

text \<open>What holds of a relay that has started: memory and files agree, and the files are those a
  restart accepts.\<close>

definition relay_serving ::
  "Ext \<Rightarrow> (byte list list \<Rightarrow> byte list \<Rightarrow> string + 'q) \<Rightarrow> path \<Rightarrow> RelayProfile \<Rightarrow> AdminState \<Rightarrow> bool" where
  "relay_serving X tls dir p st \<longleftrightarrow> relay_ok X st \<and> \<not> ra_enrollment_revoked st \<and>
     ra_state_path st = dir @ [''revocations.json''] \<and>
     ra_enrollment_revoked_path st = dir @ [''enrollment-revoked''] \<and>
     \<not> path_exists (ra_enrollment_revoked_path st) (ra_fs st) \<and>
     holds_profile X p dir (ra_fs st) \<and> rp_schema_version p = 2 \<and> qad_ready tls p dir (ra_fs st) \<and>
     rp_audience p = ra_audience st \<and> trim (ra_audience st) \<noteq> [] \<and>
     id_parse X (rp_control_id p) = Inr (ra_authority_id st)"

declare io_wp_state [simp]

lemma relay_paths_distinct [simp]:
  "profile_path dir \<noteq> dir @ [''revocations.json'']" "profile_path dir \<noteq> dir @ [''revocations.json.tmp'']"
  "qad_key_path dir \<noteq> dir @ [''revocations.json'']" "qad_key_path dir \<noteq> dir @ [''revocations.json.tmp'']"
  by (simp_all add: profile_path_def qad_key_path_def)

lemma initial_in_range: "i64_range now \<Longrightarrow> update_in_range (initial_revocations audience now)"
  by (simp add: update_in_range_def initial_revocations_def RELAY_PROTOCOL_VERSION_def)

lemma holds_in_range: "holds_update X u p fs \<Longrightarrow> update_in_range u"
  by (auto simp: holds_update_def intro: RevocationUpdate_in_range)

lemma start_relay_serving:
  assumes "pretty_laws X" "others_idle E" "\<forall>n. ro_qad_port options = Some n \<longrightarrow> n < 2 ^ 16" "i64_range (se_now S)"
  shows "io_wp (start_relay X E S options dir) (\<lambda>r fs'. \<forall>p st. r = Inr (p, st) \<longrightarrow>
    relay_serving X (se_tls S) dir p st \<and> ra_fs st = fs') fs"
proof -
  have fresh: "\<exists>f. fs_files fs1 q = Some f \<and> (\<exists>v. json_from_slice X (f_bytes f) = Inr v \<and>
      RevocationUpdate_of_json v = Inr (initial_revocations audience (se_now S)))"
    if "wrote_update X (initial_revocations audience (se_now S)) q fs1" for audience q fs1
    using wrote_holds [OF assms(1) initial_in_range [OF assms(4)]] that by (fastforce simp: holds_update_def)
  show ?thesis
    unfolding start_relay_def Let_def
    by (auto simp: ensure_def relay_serving_def relay_ok_def relay_paths_def path_exists_def
        with_context_def holds_profile_def same_except_def holds_update_def qad_ready_def
        initial_in_range [OF assms(4)] fresh
        intro!: load_profile_wp update_qad_port_wp [OF assms(1,2) _ assms(3)] load_or_initialize_wp managed_qad_config_wp
        intro: RevocationUpdate_in_range split: sum.split)
qed

lemma start_steps:
  assumes "no_faults E"
  shows "holds_profile X p dir fs \<Longrightarrow> rp_schema_version p = 2 \<Longrightarrow> io_wp (load_profile X E dir)
      (\<lambda>r fs'. r = Inr p \<and> fs_files fs' = fs_files fs \<and> fs_dirs fs' = fs_dirs fs) fs"
    and "holds_update X u (dir @ [''revocations.json'']) fs \<Longrightarrow>
      io_wp (load_or_initialize X E now (dir @ [''revocations.json'']) audience)
      (\<lambda>r fs'. r = Inr u \<and> fs_files fs' = fs_files fs \<and> fs_dirs fs' = fs_dirs fs) fs"
    and "qad_ready tls p dir fs \<Longrightarrow> io_wp (managed_qad_config E tls p dir) (\<lambda>r fs'. is_ok r) fs"
proof -
  show "io_wp (load_profile X E dir) (\<lambda>r fs'. r = Inr p \<and> fs_files fs' = fs_files fs \<and> fs_dirs fs' = fs_dirs fs) fs"
    if "holds_profile X p dir fs" "rp_schema_version p = 2"
    by (rule load_profile_wp) (use assms that in \<open>auto simp: holds_profile_def\<close>)
  show "io_wp (load_or_initialize X E now (dir @ [''revocations.json'']) audience)
      (\<lambda>r fs'. r = Inr u \<and> fs_files fs' = fs_files fs \<and> fs_dirs fs' = fs_dirs fs) fs"
    if "holds_update X u (dir @ [''revocations.json'']) fs"
    by (rule load_or_initialize_wp [OF refl]) (use assms that in \<open>auto simp: holds_update_def\<close>)
  show "io_wp (managed_qad_config E tls p dir) (\<lambda>r fs'. is_ok r) fs" if "qad_ready tls p dir fs"
    by (rule managed_qad_config_wp) (use assms that in simp_all)
qed

lemma start_relay_again:
  assumes "relay_serving X (se_tls S) dir p st" "no_faults E"
    and "ro_qad_port options = None" "\<not> ro_no_qad options" "\<And>q. se_spawn S q = Inr ()" "se_bind S = Inr ()"
  shows "io_wp (start_relay X E S options dir) (\<lambda>r fs'. \<exists>st'. r = Inr (p, st') \<and> ra_current st' = ra_current st \<and>
    ra_revoked st' = ra_revoked st \<and> ra_authority_id st' = ra_authority_id st \<and> ra_audience st' = ra_audience st \<and>
    \<not> ra_enrollment_revoked st') (ra_fs st)"
proof -
  note serving = assms(1) [unfolded relay_serving_def relay_ok_def path_exists_def]
  have same: "update_qad_port X E options dir p = io_ok p"
    using assms(3,4) by (simp add: update_qad_port_def io_then_def io_result_def io_check_def ensure_def io_ok_def fun_eq_iff)
  have rest: "io_wp (managed_qad_config E (se_tls S) p dir) (\<lambda>r fs'. is_ok r) fs" if "fs_files fs = fs_files (ra_fs st)" for fs
    using serving that by (intro start_steps(3) [OF assms(2)]) (simp add: qad_ready_def)
  have revs: "io_wp (load_or_initialize X E (se_now S) (dir @ [''revocations.json'']) (ra_audience st))
      (\<lambda>r fs'. r = Inr (ra_current st) \<and> fs_files fs' = fs_files fs \<and> fs_dirs fs' = fs_dirs fs) fs"
    if "fs_files fs = fs_files (ra_fs st)" for fs
    using serving that by (intro start_steps(2) [OF assms(2)]) (auto simp: holds_update_def)
  show ?thesis
    unfolding start_relay_def Let_def io_wp_then
    by (rule io_wp_mono [OF start_steps(1) [OF assms(2)]])
      (use serving assms(5,6) in \<open>auto simp: same ensure_def path_exists_def with_context_def is_ok_iff
        intro!: io_wp_mono [OF revs] io_wp_mono [OF rest]\<close>)
qed

section \<open>Polling keeps a relay serving\<close>

lemma apply_update_frame:
  assumes "ra_state_path st = dir @ [''revocations.json'']" "apply_revocation_update X env m st = (r, st')"
  shows "same_except {dir @ [''revocations.json.tmp''], dir @ [''revocations.json'']} (ra_fs st) (ra_fs st') \<and>
    fs_dirs (ra_fs st') = fs_dirs (ra_fs st) \<and> ra_enrollment_revoked st' = ra_enrollment_revoked st \<and>
    ra_enrollment_revoked_path st' = ra_enrollment_revoked_path st \<and> ra_state_path st' = ra_state_path st \<and>
    ra_audience st' = ra_audience st \<and> ra_authority_id st' = ra_authority_id st"
proof -
  have persisted: "same_except {dir @ [''revocations.json.tmp''], dir @ [''revocations.json'']} (ra_fs st) fs' \<and>
      fs_dirs fs' = fs_dirs (ra_fs st)"
    if "persist_revocation_state X (re_io env) (dir @ [''revocations.json'']) u (ra_fs st) = (pr, fs')" for u pr fs'
  proof -
    have "io_wp (persist_revocation_state X (re_io env) (dir @ [''revocations.json'']) u) (\<lambda>r fs'.
        same_except {dir @ [''revocations.json.tmp''], dir @ [''revocations.json'']} (ra_fs st) fs' \<and>
        fs_dirs fs' = fs_dirs (ra_fs st)) (ra_fs st)"
      by (rule persist_wp [OF refl]) (auto simp: same_except_def)
    from io_wp_result [OF this that] show ?thesis .
  qed
  from assms show ?thesis
    by (auto simp: apply_revocation_update_def reapply_revocations_def extend_revocations_def install_revocations_def
        Let_def dest: persisted split: sum.splits if_splits prod.splits)
qed

lemma poll_answer_cases:
  assumes "poll_answer X env audience control_id answer st = (next, st')"
  obtains (idle) "next \<noteq> PollStop" "st' = st"
  | (applied) m r v where "next \<noteq> PollStop" "SignedRevocationUpdate_of_json X v = Inr m"
      "apply_revocation_update X env m st = (r, st')" "next = (if is_ok r then PollAgain else PollWait)"
  | (stopped) "next = PollStop" "st' = revoke_all (re_io env) st"
  using assms unfolding poll_answer_def
  by (auto split: sum.splits if_splits prod.splits)

lemma serving_kept:
  assumes "relay_serving X tls dir p st" "pretty_laws X"
    and "poll_answer X env audience control_id answer st = (next, st')" "next \<noteq> PollStop"
  shows "relay_serving X tls dir p st' \<and> ru_version (ra_current st) \<le> ru_version (ra_current st')"
  using assms(3)
proof (cases rule: poll_answer_cases)
  case idle
  with assms(1) show ?thesis by simp
next
  case (applied m r v)
  have st: "relay_ok X st" "ra_state_path st = dir @ [''revocations.json'']" using assms(1) by (simp_all add: relay_serving_def)
  from st(1) applied(3) SignedRevocationUpdate_in_range [OF applied(2)] assms(2)
  have "relay_ok X st' \<and> ru_version (ra_current st) \<le> ru_version (ra_current st')"
    by (cases rule: apply_update_cases) (use st(1) in auto)
  with apply_update_frame [OF st(2) applied(3)] assms(1) show ?thesis
    by (auto simp: relay_serving_def same_except_def path_exists_def holds_profile_def qad_ready_def)
next
  case stopped
  with assms(4) show ?thesis by simp
qed

lemma revoke_all_stops:
  assumes "others_idle E" "ra_enrollment_revoked_path st = dir @ [''enrollment-revoked'']"
  shows "ra_enrollment_revoked (revoke_all E st)"
    and "no_faults E \<Longrightarrow> path_exists (dir @ [''enrollment-revoked'']) (ra_fs (revoke_all E st))"
proof -
  let ?p = "dir @ [''enrollment-revoked'']" and ?b = "string_bytes (''revoked'' @ [CHR 0x0A])"
  obtain r fs where run: "atomic_write E ?p ?b (ra_fs st) = (r, fs)" by fastforce
  have "io_wp (atomic_write E ?p ?b) (\<lambda>r fs'. no_faults E \<longrightarrow> stored ?p ?b (ra_fs st) fs') (ra_fs st)"
    by (rule atomic_write_wp [OF assms(1)]) simp_all
  from io_wp_result [OF this run] show "no_faults E \<Longrightarrow> path_exists ?p (ra_fs (revoke_all E st))"
    using run assms(2) by (simp add: revoke_all_def path_exists_def stored_def)
  show "ra_enrollment_revoked (revoke_all E st)"
    by (simp add: revoke_all_def split: prod.split)
qed

lemma marker_blocks_start:
  assumes "path_exists (dir @ [''enrollment-revoked'']) fs" "ro_qad_port options = None" "start_relay X E S options dir fs = (r, fs')"
  shows "\<not> is_ok r"
proof -
  have "io_wp (start_relay X E S options dir) (\<lambda>r fs'. \<not> is_ok r) fs"
    unfolding start_relay_def Let_def update_qad_port_def using assms(1,2)
    by (auto simp: ensure_def path_exists_def intro!: load_profile_wp split: sum.split)
  from io_wp_result [OF this assms(3)] show ?thesis .
qed

lemma poll_loop_run:
  assumes "poll_loop X profile key control_id b envs st = (going, b', st')"
    and "relay_serving X tls dir p st" "pretty_laws X" "\<forall>env \<in> set envs. others_idle (re_io env)"
  shows "(going \<longrightarrow> relay_serving X tls dir p st' \<and> ru_version (ra_current st) \<le> ru_version (ra_current st')) \<and>
    (\<not> going \<longrightarrow> ra_enrollment_revoked st' \<and> ((\<forall>env \<in> set envs. no_faults (re_io env)) \<longrightarrow>
       path_exists (dir @ [''enrollment-revoked'']) (ra_fs st')))"
  using assms
proof (induction envs arbitrary: b st)
  case (Cons env envs)
  obtain nxt st1 where step: "poll_step X profile key control_id env st = (nxt, st1)" by fastforce
  then have answer: "poll_answer X (RelayEnv.truncate env) (rp_audience profile) control_id
      (pe_answer env (WatchRequest_sign_relay X key (ru_version (ra_current st)) (pe_issued_at env) (pe_nonce env)
        (rp_qad_port profile))) st = (nxt, st1)" by (simp add: poll_step_def)
  have idle: "others_idle (re_io env)" using Cons.prems(4) by simp
  show ?case
  proof (cases "nxt = PollStop")
    case True
    from answer have "st1 = revoke_all (re_io env) st"
      by (cases rule: poll_answer_cases) (use True in \<open>auto simp: RelayEnv.truncate_def\<close>)
    moreover have "ra_enrollment_revoked_path st = dir @ [''enrollment-revoked'']"
      using Cons.prems(2) by (simp add: relay_serving_def)
    ultimately show ?thesis using Cons.prems(1) step True revoke_all_stops [OF idle] by auto
  next
    case False
    note kept = serving_kept [OF Cons.prems(2,3) answer False]
    obtain b1 where "poll_loop X profile key control_id b1 envs st1 = (going, b', st')"
      using Cons.prems(1) step False by (cases nxt) auto
    from Cons.IH [OF this] kept Cons.prems(3,4) show ?thesis by auto
  qed
qed simp

section \<open>A small relay process\<close>

definition sample_profile :: RelayProfile where
  "sample_profile = \<lparr>rp_schema_version = 2, rp_name = ''relay'', rp_control_url = ''http://control'',
     rp_control_id = id_to_string ref_ext (ed_public ref_ext authority_key), rp_audience = ''prod'',
     rp_endpoint_id = id_to_string ref_ext (ed_public ref_ext node_key), rp_relay_url = ''http://relay'',
     rp_qad_port = None, rp_relay_ca_der = [], rp_qad_certificate_der = []\<rparr>"

definition sample_relay_fs :: Fs where
  "sample_relay_fs = (ra_fs sample_relay)\<lparr>fs_files := (fs_files (ra_fs sample_relay))(profile_path [] \<mapsto>
     \<lparr>f_bytes = json_to_vec_pretty ref_ext (RelayProfile_json sample_profile) @ [10], f_mode = PRIVATE_FILE_MODE\<rparr>)\<rparr>"

definition sample_start :: "unit StartEnv" where
  "sample_start = \<lparr>se_now = 900, se_tls = (\<lambda>_ _. Inr ()), se_spawn = (\<lambda>_. Inr ()), se_bind = Inr ()\<rparr>"

definition sample_options :: RunOptions where
  "sample_options = \<lparr>ro_qad_bind_port = DEFAULT_QAD_PORT, ro_qad_port = None, ro_no_qad = False,
     ro_join_if_needed = None, ro_control_url = None\<rparr>"

definition answered :: "nat \<Rightarrow> PollEnv" where
  "answered status = \<lparr>re_now = 1000, re_later = 1000, re_io = calm_disk, pe_issued_at = 1000, pe_nonce = ''n'',
     pe_answer = (\<lambda>_. Inr \<lparr>h_status = status, h_retry_after = None, h_body = []\<rparr>)\<rparr>"

lemma sample_serving: "relay_serving ref_ext (se_tls sample_start) [] sample_profile (sample_relay\<lparr>ra_fs := sample_relay_fs\<rparr>)"
proof -
  have "relay_ok ref_ext (sample_relay\<lparr>ra_fs := sample_relay_fs\<rparr>)"
    by (rule ok_after_refusal [OF sample_relay_ok]) (simp add: sample_relay_fs_def sample_relay_def profile_path_def)
  moreover have "holds_profile ref_ext sample_profile [] sample_relay_fs"
    using relay_profile.parse_stored(1) [OF ref_ext_laws(5), of sample_profile]
    by (simp add: holds_profile_def sample_relay_fs_def profile_in_range_def sample_profile_def)
  moreover have "trim ''prod'' \<noteq> []" by code_simp
  ultimately show ?thesis
    by (simp add: relay_serving_def path_exists_def sample_relay_fs_def sample_relay_def profile_path_def qad_ready_def
        sample_profile_def ext_round_trips)
qed

lemma sample_starts:
  "\<exists>st fs. start_relay ref_ext calm_disk sample_start sample_options [] sample_relay_fs = (Inr (sample_profile, st), fs) \<and>
     ra_current st = ra_current sample_relay"
proof -
  obtain r fs where run: "start_relay ref_ext calm_disk sample_start sample_options [] sample_relay_fs = (r, fs)" by fastforce
  have "io_wp (start_relay ref_ext calm_disk sample_start sample_options []) (\<lambda>r fs'. \<exists>st'. r = Inr (sample_profile, st') \<and>
      ra_current st' = ra_current sample_relay) sample_relay_fs"
    using start_relay_again [OF sample_serving, of calm_disk sample_options]
    by (auto simp: sample_options_def sample_start_def elim!: io_wp_mono)
  from io_wp_result [OF this run] run show ?thesis by blast
qed

section \<open>Properties\<close>

text \<open>C7: Revocations survive a restart, and so does the end of an enrollment.  A relay that
  started, polled Control through any exchanges and is started again on the files it left admits exactly
  the connections it admitted before; once Control answered that the enrollment is gone it admits
  none, and the next start is refused.\<close>

theorem relay_restart:
  assumes "pretty_laws X" "others_idle E0" "i64_range (se_now S)" "\<forall>n. ro_qad_port opt0 = Some n \<longrightarrow> n < 2 ^ 16"
    and "start_relay X E0 S opt0 dir fs0 = (Inr (p, st), fs1)"
    and "poll_loop X p key (ra_authority_id st) 1 envs st = (going, b, st')" "\<forall>env \<in> set envs. others_idle (re_io env)"
    and "start_relay X E S opt dir (ra_fs st') = (r, fs2)" "no_faults E" "ro_qad_port opt = None" "\<not> ro_no_qad opt"
    and "\<forall>q. se_spawn S q = Inr ()" "se_bind S = Inr ()"
  shows "(going \<longrightarrow> ru_version (ra_current st) \<le> ru_version (ra_current st') \<and> (\<exists>st''. r = Inr (p, st'') \<and>
      ra_current st'' = ra_current st' \<and> (\<forall>i t now. on_connect X st'' i t now = on_connect X st' i t now))) \<and>
    (\<not> going \<longrightarrow> (\<forall>i t now. on_connect X st' i t now \<noteq> Allow) \<and>
      ((\<forall>env \<in> set envs. no_faults (re_io env)) \<longrightarrow> \<not> is_ok r))"
proof -
  have serving: "relay_serving X (se_tls S) dir p st"
    using io_wp_result [OF start_relay_serving [OF assms(1,2,4,3)] assms(5)] by simp
  note polled = poll_loop_run [OF assms(6) serving assms(1,7)]
  show ?thesis
  proof (cases going)
    case True
    with polled have st': "relay_serving X (se_tls S) dir p st'" "ru_version (ra_current st) \<le> ru_version (ra_current st')"
      by simp_all
    from io_wp_result [OF start_relay_again [OF st'(1) assms(9-11)] assms(8)] assms(12,13)
    obtain st'' where "r = Inr (p, st'')" "ra_current st'' = ra_current st'" "ra_revoked st'' = ra_revoked st'"
      "ra_authority_id st'' = ra_authority_id st'" "ra_audience st'' = ra_audience st'" "\<not> ra_enrollment_revoked st''" by blast
    with st' True show ?thesis by (simp add: on_connect_def relay_serving_def)
  next
    case False
    with polled marker_blocks_start [OF _ assms(10,8)] show ?thesis by (auto simp: on_connect_def)
  qed
qed

theorem relay_restart_witness:
  "\<exists>st fs. start_relay ref_ext calm_disk sample_start sample_options [] sample_relay_fs = (Inr (sample_profile, st), fs) \<and>
     (\<exists>st2 fs2. start_relay ref_ext calm_disk sample_start sample_options []
        (ra_fs (snd (snd (poll_loop ref_ext sample_profile node_key (ra_authority_id st) 1 [answered 204] st)))) =
        (Inr (sample_profile, st2), fs2) \<and> ra_current st2 = ra_current sample_relay) \<and>
     \<not> is_ok (fst (start_relay ref_ext calm_disk sample_start sample_options []
        (ra_fs (snd (snd (poll_loop ref_ext sample_profile node_key (ra_authority_id st) 1 [answered 410] st))))))"
proof -
  obtain st fs where run: "start_relay ref_ext calm_disk sample_start sample_options [] sample_relay_fs =
      (Inr (sample_profile, st), fs)" and cur: "ra_current st = ra_current sample_relay" using sample_starts by blast
  let ?poll = "\<lambda>n. poll_loop ref_ext sample_profile node_key (ra_authority_id st) 1 [answered n] st"
  have polls: "?poll 204 = (True, 1, st)" "?poll 410 = (False, 1, revoke_all calm_disk st)"
    by (simp_all add: poll_step_def poll_answer_def answered_def is_success_def RelayEnv.truncate_def)
  have ok: "i64_range (se_now sample_start)" "\<forall>n. ro_qad_port sample_options = Some n \<longrightarrow> n < 2 ^ 16"
    "ro_qad_port sample_options = None" "\<not> ro_no_qad sample_options" "\<forall>q. se_spawn sample_start q = Inr ()"
    "se_bind sample_start = Inr ()" "\<forall>env \<in> set [answered n]. others_idle (re_io env) \<and> no_faults (re_io env)" for n
    by (simp_all add: sample_start_def sample_options_def answered_def i64_range_def i64_min_def i64_max_def)
  obtain r2 fs2 where two: "start_relay ref_ext calm_disk sample_start sample_options [] (ra_fs st) = (r2, fs2)" by fastforce
  obtain r3 fs3 where three: "start_relay ref_ext calm_disk sample_start sample_options []
      (ra_fs (revoke_all calm_disk st)) = (r3, fs3)" by fastforce
  note again = relay_restart [OF ref_ext_laws(5) sample_disks(1) ok(1,2) run _ _ _ sample_disks(3) ok(3-6)]
  from again [OF polls(1) _ two] again [OF polls(2) _ three] ok(7) cur two three
  have "\<exists>st2 fs2. start_relay ref_ext calm_disk sample_start sample_options [] (ra_fs st) = (Inr (sample_profile, st2), fs2) \<and>
      ra_current st2 = ra_current sample_relay"
    "\<not> is_ok (fst (start_relay ref_ext calm_disk sample_start sample_options [] (ra_fs (revoke_all calm_disk st))))" by auto
  with run show ?thesis by (intro exI [of _ st] exI [of _ fs]) (simp only: polls snd_conv simp_thms)
qed

end
