(* ===== verification/BTree_Maps.thy ===== *)
theory BTree_Maps
  imports AS_Prelude "HOL-Library.List_Lexorder" "HOL-Library.Char_ord"
begin

text \<open>
  \<open>BTreeMap\<close> as the list of its entries in key order.  Strings compare by their bytes, as in Rust.
\<close>

type_synonym ('k, 'v) btree_map = "('k \<times> 'v) list"

definition btree_get :: "'k \<Rightarrow> ('k, 'v) btree_map \<Rightarrow> 'v option" where
  "btree_get k m = map_option snd (find_by fst k m)"

fun btree_put :: "'k::linorder \<times> 'v \<Rightarrow> ('k, 'v) btree_map \<Rightarrow> ('k, 'v) btree_map" where
  "btree_put e [] = [e]"
| "btree_put e (x # xs) = (if fst e < fst x then e # x # xs
     else if fst e = fst x then e # xs else x # btree_put e xs)"

definition btree_insert :: "'k::linorder \<Rightarrow> 'v \<Rightarrow> ('k, 'v) btree_map \<Rightarrow> ('k, 'v) btree_map" where
  "btree_insert k v m = btree_put (k, v) m"

definition btree_remove :: "'k \<Rightarrow> ('k, 'v) btree_map \<Rightarrow> ('k, 'v) btree_map" where
  "btree_remove k m = delete_by fst k m"

definition btree_collect :: "('k::linorder \<times> 'v) list \<Rightarrow> ('k, 'v) btree_map" where
  "btree_collect kvs = fold btree_put kvs []"

definition btree_ok :: "('k::linorder, 'v) btree_map \<Rightarrow> bool" where
  "btree_ok m \<longleftrightarrow> sorted_wrt (\<lambda>x y. fst x < fst y) m"

lemma btree_ok_Cons: "btree_ok (x # xs) \<longleftrightarrow> (\<forall>y \<in> set xs. fst x < fst y) \<and> btree_ok xs"
  by (simp add: btree_ok_def)

lemma btree_ok_Nil [simp]: "btree_ok []"
  by (simp add: btree_ok_def)

lemma set_btree_put: "set (btree_put e m) \<subseteq> insert e (set m)"
  by (induction m) auto

lemma btree_ok_put: "btree_ok m \<Longrightarrow> btree_ok (btree_put e m)"
proof (induction m)
  case (Cons x xs)
  then show ?case using set_btree_put [of e xs] by (auto simp: btree_ok_Cons)
qed (simp add: btree_ok_def)

lemma find_btree_put:
  "btree_ok m \<Longrightarrow> find_by fst k (btree_put e m) = (if k = fst e then Some e else find_by fst k m)"
proof (induction m)
  case (Cons x xs)
  then show ?case by (auto simp: btree_ok_Cons)
qed simp

lemma btree_ok_distinct: "btree_ok m \<Longrightarrow> keys_distinct fst m"
  by (induction m) (auto simp: btree_ok_Cons keys_distinct_def)

lemma btree_find_member: "keys_distinct fst m \<Longrightarrow> r \<in> set m \<longleftrightarrow> find_by fst (fst r) m = Some r"
  by (simp add: find_by_Some_iff)

interpretation btree_rows: keyed_table "find_by fst" btree_put "delete_by fst" fst btree_ok set
proof
  fix t :: "('k::linorder \<times> 'v) list" and r k k'
  show "btree_ok t \<Longrightarrow> btree_ok (btree_put r t)" by (rule btree_ok_put)
  show "btree_ok t \<Longrightarrow> btree_ok (delete_by fst k t)"
    by (simp add: btree_ok_def delete_by_def sorted_wrt_filter)
  show "btree_ok t \<Longrightarrow> find_by fst k (btree_put r t) = (if k = fst r then Some r else find_by fst k t)"
    by (rule find_btree_put)
  show "find_by fst k (delete_by fst k' t) = (if k = k' then None else find_by fst k t)"
    by (rule find_by_delete)
  show "btree_ok t \<Longrightarrow> r \<in> set t \<longleftrightarrow> find_by fst (fst r) t = Some r"
    by (rule btree_find_member [OF btree_ok_distinct])
  show "find_by fst k t = Some r \<Longrightarrow> fst r = k" by (auto dest: find_by_key)
qed

lemma btree_get_insert [simp]: "btree_ok m \<Longrightarrow> btree_get k (btree_insert k' v m) = (if k = k' then Some v else btree_get k m)"
  by (simp add: btree_get_def btree_insert_def find_btree_put)

lemma btree_get_remove [simp]: "btree_get k (btree_remove k' m) = (if k = k' then None else btree_get k m)"
  by (simp add: btree_get_def btree_remove_def find_by_delete)

lemma btree_get_Nil [simp]: "btree_get k [] = None"
  by (simp add: btree_get_def)

lemma btree_ok_updates [simp]:
  "btree_ok m \<Longrightarrow> btree_ok (btree_insert k v m)" "btree_ok m \<Longrightarrow> btree_ok (btree_remove k m)"
  by (simp_all add: btree_insert_def btree_remove_def btree_rows.put_invar btree_rows.del_invar)

lemma btree_get_member: "btree_ok m \<Longrightarrow> (k, v) \<in> set m \<longleftrightarrow> btree_get k m = Some v"
  by (auto simp: btree_get_def btree_rows.rows_iff dest: find_by_key)

text \<open>A map is determined by its lookups.\<close>

lemma btree_ext:
  assumes "btree_ok m" "btree_ok n" "\<And>k. btree_get k m = btree_get k n"
  shows "m = n"
proof -
  have "set m = set n"
    using assms by (auto simp: btree_get_member)
  moreover have sorted: "sorted (map fst t)" "distinct (map fst t)" if "btree_ok t" for t :: "('a \<times> 'b) list"
    using that btree_ok_distinct [OF that] by (induction t) (auto simp: btree_ok_Cons keys_distinct_def)
  ultimately have "map fst m = map fst n"
    using assms(1,2) by (intro sorted_distinct_set_unique) auto
  with sorted(2) [OF assms(1)] \<open>set m = set n\<close> show ?thesis
    by (intro map_inj_on [of fst m n]) (auto simp: inj_on_def distinct_map)
qed

lemma btree_ok_collect [simp]: "btree_ok (btree_collect kvs)"
proof -
  have "btree_ok m \<Longrightarrow> btree_ok (fold btree_put kvs m)" for m
    by (induction kvs arbitrary: m) (simp_all add: btree_ok_put)
  then show ?thesis by (simp add: btree_collect_def)
qed

lemma btree_get_fold:
  "btree_ok m \<Longrightarrow> btree_get k (fold btree_put kvs m) =
     (case map_of (rev kvs) k of Some v \<Rightarrow> Some v | None \<Rightarrow> btree_get k m)"
proof (induction kvs arbitrary: m)
  case (Cons kv kvs)
  have "btree_get k (btree_put kv m) = (if k = fst kv then Some (snd kv) else btree_get k m)"
    using btree_get_insert [OF Cons.prems, of k "fst kv" "snd kv"] by (simp add: btree_insert_def)
  with Cons.IH [OF btree_ok_put [OF Cons.prems, of kv]] show ?case
    by (cases kv) (auto simp: map_add_def split: option.splits)
qed simp

lemma btree_get_collect: "btree_get k (btree_collect kvs) = map_of (rev kvs) k"
  by (simp add: btree_collect_def btree_get_fold split: option.split)

lemma btree_get_map_of: "btree_get k m = map_of m k"
  by (induction m) (auto simp: btree_get_def)

lemma btree_collect_id [simp]: "btree_ok m \<Longrightarrow> btree_collect m = m"
proof (rule btree_ext)
  assume ok: "btree_ok m"
  then have "map_of (rev m) k = map_of m k" for k
    using btree_ok_distinct [OF ok] map_of_inject_set [of "rev m" m] by (simp add: keys_distinct_def rev_map [symmetric])
  then show "btree_get k (btree_collect m) = btree_get k m" for k
    by (metis btree_get_collect btree_get_map_of)
qed simp_all

end
