(* ===== verification/Protocol.thy ===== *)
theory Protocol
  imports Node_Docs BTree_Maps
begin

text \<open>
  The messages of the agent protocol (\<open>crates/protocol/src/lib.rs\<close>) with the JSON forms their
  derived \<open>Serialize\<close> and \<open>Deserialize\<close> give them: enums tagged from outside, by a field, or by a
  tag and a content field.  What one side writes, the other side reads back.
\<close>

section \<open>Messages\<close>

record ProxyTarget =
  pt_host :: string
  pt_port :: nat

record ProxyDatagram =
  pd_target :: ProxyTarget
  pd_payload :: "byte list"

datatype McpTransport =
    Stdio (mt_command: string) (mt_args: "string list") (mt_cwd: "string option")
  | Http (mt_http_url: string)
  | Sse (mt_sse_url: string)

record McpCatalog =
  mc_revision :: nat
  mc_servers :: "(string, McpTransport) btree_map"

record ExecParams =
  xp_command :: string
  xp_args :: "string list"
  xp_cwd :: "string option"

datatype EdgeReq =
    Exec ExecParams
  | PrepareDownload string
  | ReceiveUpload string string string string
  | McpList
  | McpUpsert string McpTransport
  | McpRemove string
  | McpConnect string
  | ProxyTcpConnect ProxyTarget nat
  | ProxyUdpAssociate nat

record RemoteError =
  rme_code :: string
  rme_message :: string

definition RemoteError_internal :: "string \<Rightarrow> RemoteError" where
  "RemoteError_internal message = \<lparr>rme_code = ''internal'', rme_message = message\<rparr>"

datatype 'a RpcResult = RpcOk 'a | RpcError RemoteError

datatype TransferResult = DownloadReady string | StoredBytes nat

section \<open>JSON\<close>

definition strings_json :: "string list \<Rightarrow> json" where "strings_json ss = JArr (map JStr ss)"

definition ProxyTarget_json :: "ProxyTarget \<Rightarrow> json" where
  "ProxyTarget_json t = JObj [(''host'', JStr (pt_host t)), (''port'', unsigned_json (pt_port t))]"

definition ProxyTarget_of_json :: "json \<Rightarrow> string + ProxyTarget" where
  "ProxyTarget_of_json v =
     and_then (field ''host'' as_string v) (\<lambda>host.
     and_then (field ''port'' (as_unsigned 16) v) (\<lambda>port.
     Inr \<lparr>pt_host = host, pt_port = port\<rparr>))"

fun McpTransport_json :: "McpTransport \<Rightarrow> json" where
  "McpTransport_json (Stdio command args cwd) = JObj [(''kind'', JStr ''stdio''), (''command'', JStr command),
     (''args'', strings_json args), (''cwd'', option_json JStr cwd)]"
| "McpTransport_json (Http url) = JObj [(''kind'', JStr ''http''), (''url'', JStr url)]"
| "McpTransport_json (Sse url) = JObj [(''kind'', JStr ''sse''), (''url'', JStr url)]"

definition McpTransport_of_json :: "json \<Rightarrow> string + McpTransport" where
  "McpTransport_of_json v = and_then (field ''kind'' as_string v) (\<lambda>kind.
     if kind = ''stdio'' then
       and_then (field ''command'' as_string v) (\<lambda>command.
       and_then (field_default ''args'' [] (as_list as_string) v) (\<lambda>args.
       and_then (field_option ''cwd'' as_string v) (\<lambda>cwd.
       Inr (Stdio command args cwd))))
     else if kind = ''http'' then map_ok Http (field ''url'' as_string v)
     else if kind = ''sse'' then map_ok Sse (field ''url'' as_string v)
     else Inl (''unknown variant '' @ kind))"

text \<open>A map with string keys is an object; a repeated key keeps the last value.\<close>

definition btree_json :: "('v \<Rightarrow> json) \<Rightarrow> (string, 'v) btree_map \<Rightarrow> json" where
  "btree_json f m = JObj (map (\<lambda>(k, v). (k, f v)) m)"

definition btree_of_json :: "(json \<Rightarrow> string + 'v) \<Rightarrow> json \<Rightarrow> string + (string, 'v) btree_map" where
  "btree_of_json f v = (case v of
      JObj kvs \<Rightarrow> map_ok btree_collect (collect_results (map (\<lambda>(k, v). map_ok (Pair k) (f v)) kvs))
    | _ \<Rightarrow> Inl ''invalid type: expected a map'')"

definition McpCatalog_json :: "McpCatalog \<Rightarrow> json" where
  "McpCatalog_json c = JObj [(''revision'', unsigned_json (mc_revision c)),
     (''servers'', btree_json McpTransport_json (mc_servers c))]"

definition McpCatalog_of_json :: "json \<Rightarrow> string + McpCatalog" where
  "McpCatalog_of_json v =
     and_then (field ''revision'' (as_unsigned 64) v) (\<lambda>revision.
     and_then (field_default ''servers'' [] (btree_of_json McpTransport_of_json) v) (\<lambda>servers.
     Inr \<lparr>mc_revision = revision, mc_servers = servers\<rparr>))"

definition ExecParams_json :: "ExecParams \<Rightarrow> json" where
  "ExecParams_json p = JObj [(''command'', JStr (xp_command p)), (''args'', strings_json (xp_args p)),
     (''cwd'', option_json JStr (xp_cwd p))]"

definition ExecParams_of_json :: "json \<Rightarrow> string + ExecParams" where
  "ExecParams_of_json v =
     and_then (field ''command'' as_string v) (\<lambda>command.
     and_then (field_default ''args'' [] (as_list as_string) v) (\<lambda>args.
     and_then (field_option ''cwd'' as_string v) (\<lambda>cwd.
     Inr \<lparr>xp_command = command, xp_args = args, xp_cwd = cwd\<rparr>)))"

fun EdgeReq_json :: "EdgeReq \<Rightarrow> json" where
  "EdgeReq_json (Exec p) = JObj [(''Exec'', ExecParams_json p)]"
| "EdgeReq_json (PrepareDownload path) = JObj [(''PrepareDownload'', JObj [(''path'', JStr path)])]"
| "EdgeReq_json (ReceiveUpload hash client_id client_relay path) = JObj [(''ReceiveUpload'', JObj [
     (''hash'', JStr hash), (''client_id'', JStr client_id), (''client_relay'', JStr client_relay),
     (''path'', JStr path)])]"
| "EdgeReq_json McpList = JStr ''McpList''"
| "EdgeReq_json (McpUpsert name transport) = JObj [(''McpUpsert'', JObj [
     (''name'', JStr name), (''transport'', McpTransport_json transport)])]"
| "EdgeReq_json (McpRemove name) = JObj [(''McpRemove'', JObj [(''name'', JStr name)])]"
| "EdgeReq_json (McpConnect name) = JObj [(''McpConnect'', JObj [(''name'', JStr name)])]"
| "EdgeReq_json (ProxyTcpConnect target secs) = JObj [(''ProxyTcpConnect'', JObj [
     (''target'', ProxyTarget_json target), (''connect_timeout_secs'', unsigned_json secs)])]"
| "EdgeReq_json (ProxyUdpAssociate secs) = JObj [(''ProxyUdpAssociate'', JObj [
     (''resolve_timeout_secs'', unsigned_json secs)])]"

definition EdgeReq_variant :: "string \<Rightarrow> json \<Rightarrow> string + EdgeReq" where
  "EdgeReq_variant tag v =
     (if tag = ''Exec'' then map_ok Exec (ExecParams_of_json v)
      else if tag = ''PrepareDownload'' then map_ok PrepareDownload (field ''path'' as_string v)
      else if tag = ''ReceiveUpload'' then
        and_then (field ''hash'' as_string v) (\<lambda>hash.
        and_then (field ''client_id'' as_string v) (\<lambda>client_id.
        and_then (field ''client_relay'' as_string v) (\<lambda>client_relay.
        map_ok (ReceiveUpload hash client_id client_relay) (field ''path'' as_string v))))
      else if tag = ''McpList'' then (if v = JNull then Inr McpList else Inl ''invalid type: expected unit'')
      else if tag = ''McpUpsert'' then
        and_then (field ''name'' as_string v) (\<lambda>name.
        map_ok (McpUpsert name) (field ''transport'' McpTransport_of_json v))
      else if tag = ''McpRemove'' then map_ok McpRemove (field ''name'' as_string v)
      else if tag = ''McpConnect'' then map_ok McpConnect (field ''name'' as_string v)
      else if tag = ''ProxyTcpConnect'' then
        and_then (field ''target'' ProxyTarget_of_json v) (\<lambda>target.
        map_ok (ProxyTcpConnect target) (field ''connect_timeout_secs'' (as_unsigned 64) v))
      else if tag = ''ProxyUdpAssociate'' then
        map_ok ProxyUdpAssociate (field ''resolve_timeout_secs'' (as_unsigned 64) v)
      else Inl (''unknown variant '' @ tag))"

definition EdgeReq_of_json :: "json \<Rightarrow> string + EdgeReq" where
  "EdgeReq_of_json v = (case v of
      JStr tag \<Rightarrow> if tag = ''McpList'' then Inr McpList else Inl (''invalid type: unit variant '' @ tag)
    | JObj [(tag, content)] \<Rightarrow> EdgeReq_variant tag content
    | _ \<Rightarrow> Inl ''invalid value: expected map with a single key'')"

definition RemoteError_json :: "RemoteError \<Rightarrow> json" where
  "RemoteError_json e = JObj [(''code'', JStr (rme_code e)), (''message'', JStr (rme_message e))]"

definition RemoteError_of_json :: "json \<Rightarrow> string + RemoteError" where
  "RemoteError_of_json v =
     and_then (field ''code'' as_string v) (\<lambda>code.
     and_then (field ''message'' as_string v) (\<lambda>message.
     Inr \<lparr>rme_code = code, rme_message = message\<rparr>))"

fun RpcResult_json :: "('a \<Rightarrow> json) \<Rightarrow> 'a RpcResult \<Rightarrow> json" where
  "RpcResult_json f (RpcOk x) = JObj [(''status'', JStr ''ok''), (''value'', f x)]"
| "RpcResult_json f (RpcError e) = JObj [(''status'', JStr ''error''), (''value'', RemoteError_json e)]"

definition RpcResult_of_json :: "(json \<Rightarrow> string + 'a) \<Rightarrow> json \<Rightarrow> string + 'a RpcResult" where
  "RpcResult_of_json f v = and_then (field ''status'' as_string v) (\<lambda>status.
     if status = ''ok'' then map_ok RpcOk (field ''value'' f v)
     else if status = ''error'' then map_ok RpcError (field ''value'' RemoteError_of_json v)
     else Inl (''unknown variant '' @ status))"

fun TransferResult_json :: "TransferResult \<Rightarrow> json" where
  "TransferResult_json (DownloadReady hash) = JObj [(''kind'', JStr ''download_ready''), (''hash'', JStr hash)]"
| "TransferResult_json (StoredBytes bytes) = JObj [(''kind'', JStr ''stored''), (''bytes'', unsigned_json bytes)]"

definition TransferResult_of_json :: "json \<Rightarrow> string + TransferResult" where
  "TransferResult_of_json v = and_then (field ''kind'' as_string v) (\<lambda>kind.
     if kind = ''download_ready'' then map_ok DownloadReady (field ''hash'' as_string v)
     else if kind = ''stored'' then map_ok StoredBytes (field ''bytes'' (as_unsigned 64) v)
     else Inl (''unknown variant '' @ kind))"

section \<open>Round trips\<close>

definition catalog_in_range :: "McpCatalog \<Rightarrow> bool" where
  "catalog_in_range c \<longleftrightarrow> mc_revision c < 2 ^ 64 \<and> btree_ok (mc_servers c)"

fun request_in_range :: "EdgeReq \<Rightarrow> bool" where
  "request_in_range (ProxyTcpConnect target secs) \<longleftrightarrow> pt_port target < 2 ^ 16 \<and> secs < 2 ^ 64"
| "request_in_range (ProxyUdpAssociate secs) \<longleftrightarrow> secs < 2 ^ 64"
| "request_in_range _ \<longleftrightarrow> True"

lemma strings_round_trip [simp]: "as_list as_string (strings_json ss) = Inr ss"
  unfolding strings_json_def by (rule as_list_map) simp

lemma as_option_string [simp]: "as_option as_string (option_json JStr c) = Inr c"
  by (cases c) simp_all

lemma McpTransport_round_trip [simp]: "McpTransport_of_json (McpTransport_json t) = Inr t"
  by (cases t) (simp_all add: McpTransport_of_json_def read_field_simps)

lemma btree_round_trip:
  assumes "btree_ok m" "\<And>x. f (g x) = Inr x"
  shows "btree_of_json f (btree_json g m) = Inr m"
proof -
  have "collect_results (map (\<lambda>(k, v). map_ok (Pair k) (f v)) (map (\<lambda>(k, v). (k, g v)) m)) = Inr m"
    by (auto simp: collect_results_Inr assms(2))
  then show ?thesis by (simp add: btree_of_json_def btree_json_def assms(1) del: map_map)
qed

lemma McpCatalog_round_trip: "catalog_in_range c \<Longrightarrow> McpCatalog_of_json (McpCatalog_json c) = Inr c"
  by (simp add: McpCatalog_of_json_def McpCatalog_json_def read_field_simps catalog_in_range_def btree_round_trip)

lemma ExecParams_round_trip [simp]: "ExecParams_of_json (ExecParams_json p) = Inr p"
  by (simp add: ExecParams_of_json_def ExecParams_json_def read_field_simps)

lemma ProxyTarget_round_trip [simp]: "pt_port t < 2 ^ 16 \<Longrightarrow> ProxyTarget_of_json (ProxyTarget_json t) = Inr t"
  by (simp add: ProxyTarget_of_json_def ProxyTarget_json_def read_field_simps)

lemma EdgeReq_round_trip: "request_in_range r \<Longrightarrow> EdgeReq_of_json (EdgeReq_json r) = Inr r"
  by (cases r) (simp_all add: EdgeReq_of_json_def EdgeReq_variant_def read_field_simps)

lemma RpcResult_round_trip:
  "(\<And>x. r = RpcOk x \<Longrightarrow> f (g x) = Inr x) \<Longrightarrow> RpcResult_of_json f (RpcResult_json g r) = Inr r"
  by (cases r) (simp_all add: RpcResult_of_json_def RemoteError_json_def RemoteError_of_json_def read_field_simps)

lemma TransferResult_round_trip:
  "(\<forall>n. t = StoredBytes n \<longrightarrow> n < 2 ^ 64) \<Longrightarrow> TransferResult_of_json (TransferResult_json t) = Inr t"
  by (cases t) (simp_all add: TransferResult_of_json_def read_field_simps)

end
