(* ===== verification/Edge_Registry.thy ===== *)
theory Edge_Registry
  imports Protocol Core_Files
begin

text \<open>
  The MCP definitions one edge identity keeps (\<open>crates/as-edge/src/mcp_registry.rs\<close>): a file that
  is read and replaced under a file lock.  While a lock is awaited other processes act on the files.
\<close>

section \<open>The file\<close>

definition REGISTRY_SCHEMA_VERSION :: nat where "REGISTRY_SCHEMA_VERSION = 1"

record RegistryFile =
  rg_version :: nat
  rg_revision :: nat
  rg_servers :: "(string, McpTransport) btree_map"

definition RegistryFile_default :: RegistryFile where
  "RegistryFile_default = \<lparr>rg_version = REGISTRY_SCHEMA_VERSION, rg_revision = 0, rg_servers = []\<rparr>"

definition RegistryFile_json :: "RegistryFile \<Rightarrow> json" where
  "RegistryFile_json r = JObj [(''version'', unsigned_json (rg_version r)),
     (''revision'', unsigned_json (rg_revision r)), (''servers'', btree_json McpTransport_json (rg_servers r))]"

definition RegistryFile_of_json :: "json \<Rightarrow> string + RegistryFile" where
  "RegistryFile_of_json v =
     and_then (field ''version'' (as_unsigned 32) v) (\<lambda>version.
     and_then (field ''revision'' (as_unsigned 64) v) (\<lambda>revision.
     and_then (field_default ''servers'' [] (btree_of_json McpTransport_of_json) v) (\<lambda>servers.
     Inr \<lparr>rg_version = version, rg_revision = revision, rg_servers = servers\<rparr>)))"

definition registry_lock_path :: "path \<Rightarrow> path" where
  "registry_lock_path path = path_with_extension ''lock'' path"

definition validate_mcp_name :: "string \<Rightarrow> string + unit" where
  "validate_mcp_name name = ensure (name \<noteq> [] \<and> CHR 0x00 \<notin> set name) (''invalid MCP name '' @ name)"

definition validate_mcp_url :: "Ext \<Rightarrow> string \<Rightarrow> string + unit" where
  "validate_mcp_url X url =
     and_then (with_context ''invalid MCP URL'' (url_parse X url)) (\<lambda>parsed.
     ensure (u_scheme parsed = ''http'' \<or> u_scheme parsed = ''https'') ''MCP URL must use http or https'')"

fun validate_transport :: "Ext \<Rightarrow> McpTransport \<Rightarrow> string + unit" where
  "validate_transport X (Stdio command _ _) = ensure (command \<noteq> []) ''stdio MCP command cannot be empty''"
| "validate_transport X (Http url) = validate_mcp_url X url"
| "validate_transport X (Sse url) = validate_mcp_url X url"

section \<open>Operations\<close>

definition registry_ensure_parent :: "FsEnv \<Rightarrow> path \<Rightarrow> path io" where
  "registry_ensure_parent E path = (case path_parent path of
      None \<Rightarrow> io_fail (Failed ''MCP registry has no parent'')
    | Some parent \<Rightarrow>
        io_then (io_context (''create '' @ path_display parent)
          (io_step E (create_dir_all (fe_dir_mode E) parent))) (\<lambda>_.
        io_then (io_step E (\<lambda>fs. fs\<lparr>fs_dirs := (fs_dirs fs)(parent \<mapsto> PRIVATE_DIR_MODE)\<rparr>)) (\<lambda>_.
        io_ok parent)))"

definition create_plain :: "FsEnv \<Rightarrow> path \<Rightarrow> Fs \<Rightarrow> Fs" where
  "create_plain E path fs = (if fs_files fs path = None
     then fs\<lparr>fs_files := (fs_files fs)(path \<mapsto> \<lparr>f_bytes = [], f_mode = fe_file_mode E\<rparr>)\<rparr> else fs)"

definition registry_open_lock :: "FsEnv \<Rightarrow> path \<Rightarrow> unit io" where
  "registry_open_lock E path = io_context (''open '' @ path_display (registry_lock_path path))
     (io_step E (create_plain E (registry_lock_path path)))"

text \<open>Both kinds of lock wait for the process that holds the other.\<close>

definition registry_lock :: "FsEnv \<Rightarrow> unit io" where
  "registry_lock E = io_context ''lock MCP registry'' (io_step E (fe_others E))"

definition registry_load_unlocked :: "Ext \<Rightarrow> FsEnv \<Rightarrow> path \<Rightarrow> RegistryFile io" where
  "registry_load_unlocked X E path fs = (case fs_read E path fs of
      (Inl (NotFound e), fs) \<Rightarrow> (Inr RegistryFile_default, fs)
    | (Inl (Failed e), fs) \<Rightarrow> (Inl (Failed (''read '' @ path_display path)), fs)
    | (Inr bytes, fs) \<Rightarrow>
        io_then (io_result (with_context (''parse '' @ path_display path)
          (and_then (json_from_slice X bytes) RegistryFile_of_json))) (\<lambda>registry.
        io_then (io_result (ensure (rg_version registry = REGISTRY_SCHEMA_VERSION)
          (''unsupported MCP registry version '' @ show_nat (rg_version registry) @ '' (expected 1)''))) (\<lambda>_.
        io_ok registry)) fs)"

definition registry_save_unlocked :: "Ext \<Rightarrow> FsEnv \<Rightarrow> path \<Rightarrow> path \<Rightarrow> RegistryFile \<Rightarrow> unit io" where
  "registry_save_unlocked X E parent path registry =
     io_then (io_context (''create temporary file in '' @ path_display parent) (io_step E (\<lambda>fs. fs))) (\<lambda>_.
     io_then (temp_write_all E (json_to_vec_pretty X (RegistryFile_json registry))
       \<lparr>f_bytes = [], f_mode = PRIVATE_FILE_MODE\<rparr>) (\<lambda>temp.
     io_then (temp_write_all E [10] temp) (\<lambda>temp.
     io_then (temp_sync_all E) (\<lambda>_.
     io_then (io_step E (\<lambda>fs. fs)) (\<lambda>_.
     io_then (io_context (''replace '' @ path_display path)
       (temp_persist E (temp\<lparr>f_mode := PRIVATE_FILE_MODE\<rparr>) path)) (\<lambda>_.
     io_then (io_step E (\<lambda>fs. fs)) (\<lambda>_.
     io_step E (\<lambda>fs. fs))))))))"

definition registry_list :: "Ext \<Rightarrow> FsEnv \<Rightarrow> path \<Rightarrow> McpCatalog io" where
  "registry_list X E path =
     io_then (registry_ensure_parent E path) (\<lambda>_.
     io_then (registry_open_lock E path) (\<lambda>_.
     io_then (registry_lock E) (\<lambda>_.
     io_then (registry_load_unlocked X E path) (\<lambda>registry.
     io_ok \<lparr>mc_revision = rg_revision registry, mc_servers = rg_servers registry\<rparr>))))"

definition registry_mutate ::
  "Ext \<Rightarrow> FsEnv \<Rightarrow> path \<Rightarrow> (RegistryFile \<Rightarrow> string + 'a \<times> RegistryFile) \<Rightarrow> 'a io" where
  "registry_mutate X E path change =
     io_then (registry_ensure_parent E path) (\<lambda>parent.
     io_then (registry_open_lock E path) (\<lambda>_.
     io_then (registry_lock E) (\<lambda>_.
     io_then (registry_load_unlocked X E path) (\<lambda>registry.
     io_then (io_result (change registry)) (\<lambda>(value, registry).
     io_then (io_result (ok_or ''MCP registry revision overflow'' (u64_checked_add (rg_revision registry) 1))) (\<lambda>revision.
     io_then (registry_save_unlocked X E parent path (registry\<lparr>rg_revision := revision\<rparr>)) (\<lambda>_.
     io_ok value)))))))"

definition upsert_change :: "string \<Rightarrow> McpTransport \<Rightarrow> RegistryFile \<Rightarrow> string + bool \<times> RegistryFile" where
  "upsert_change name transport registry = Inr (btree_get name (rg_servers registry) \<noteq> None,
     registry\<lparr>rg_servers := btree_insert name transport (rg_servers registry)\<rparr>)"

definition registry_upsert :: "Ext \<Rightarrow> FsEnv \<Rightarrow> path \<Rightarrow> string \<Rightarrow> McpTransport \<Rightarrow> bool io" where
  "registry_upsert X E path name transport =
     io_then (io_result (validate_mcp_name name)) (\<lambda>_.
     io_then (io_result (validate_transport X transport)) (\<lambda>_.
     registry_mutate X E path (upsert_change name transport)))"

definition remove_change :: "string \<Rightarrow> RegistryFile \<Rightarrow> string + unit \<times> RegistryFile" where
  "remove_change name registry =
     and_then (ensure (btree_get name (rg_servers registry) \<noteq> None) (''no MCP named '' @ quoted name)) (\<lambda>_.
     Inr ((), registry\<lparr>rg_servers := btree_remove name (rg_servers registry)\<rparr>))"

definition registry_remove :: "Ext \<Rightarrow> FsEnv \<Rightarrow> path \<Rightarrow> string \<Rightarrow> unit io" where
  "registry_remove X E path name =
     io_then (io_result (validate_mcp_name name)) (\<lambda>_.
     registry_mutate X E path (remove_change name))"

definition registry_get :: "Ext \<Rightarrow> FsEnv \<Rightarrow> path \<Rightarrow> string \<Rightarrow> McpTransport io" where
  "registry_get X E path name =
     io_then (io_result (validate_mcp_name name)) (\<lambda>_.
     io_then (registry_list X E path) (\<lambda>catalog.
     io_result (ok_or (''no MCP named '' @ quoted name) (btree_get name (mc_servers catalog)))))"

section \<open>What the file holds\<close>

definition registry_ok :: "RegistryFile \<Rightarrow> bool" where
  "registry_ok r \<longleftrightarrow> rg_version r < 2 ^ 32 \<and> rg_revision r < 2 ^ 64 \<and> btree_ok (rg_servers r)"

interpretation registry_file: json_state RegistryFile_json RegistryFile_of_json registry_ok
  by unfold_locales
    (simp add: RegistryFile_json_def RegistryFile_of_json_def registry_ok_def read_field_simps btree_round_trip)

lemma btree_of_json_ok: "btree_of_json f v = Inr m \<Longrightarrow> btree_ok m"
  by (auto simp: btree_of_json_def split: json.splits)

lemma field_default_reads: "field_default n d f v = Inr x \<Longrightarrow> x = d \<or> (\<exists>w. f w = Inr x)"
  by (auto simp: field_default_def split: json.splits list.splits)

lemma RegistryFile_read_ok: "RegistryFile_of_json v = Inr r \<Longrightarrow> registry_ok r"
  unfolding RegistryFile_of_json_def registry_ok_def
  by (auto dest!: field_reads as_unsigned_range field_default_reads intro: btree_of_json_ok)

definition registry_at :: "Ext \<Rightarrow> path \<Rightarrow> Fs \<Rightarrow> RegistryFile option" where
  "registry_at X path fs = (case fs_files fs path of
      None \<Rightarrow> Some RegistryFile_default
    | Some f \<Rightarrow> (case and_then (json_from_slice X (f_bytes f)) RegistryFile_of_json of
        Inl e \<Rightarrow> None
      | Inr r \<Rightarrow> if rg_version r = REGISTRY_SCHEMA_VERSION then Some r else None))"

lemma registry_at_ok: "registry_at X path fs = Some r \<Longrightarrow> registry_ok r \<and> rg_version r = REGISTRY_SCHEMA_VERSION"
  by (auto simp: registry_at_def RegistryFile_default_def registry_ok_def REGISTRY_SCHEMA_VERSION_def
      dest: RegistryFile_read_ok [unfolded registry_ok_def] split: option.splits sum.splits if_splits)

lemma registry_load_wp:
  assumes "\<And>e fs'. fs_files fs' = fs_files fs \<Longrightarrow> \<not> (no_faults E \<and> registry_at X path fs \<noteq> None) \<Longrightarrow> Q (Inl e) fs'"
    and "\<And>r fs'. fs_files fs' = fs_files fs \<Longrightarrow> registry_at X path fs = Some r \<Longrightarrow> Q (Inr r) fs'"
  shows "io_wp (registry_load_unlocked X E path) Q fs"
proof -
  obtain r fs' where run: "fs_read E path fs = (r, fs')" by fastforce
  have "io_wp (fs_read E path) (\<lambda>r fs'. fs_files fs' = fs_files fs \<and> (case r of
      Inl (NotFound e) \<Rightarrow> fs_files fs path = None | Inl (Failed e) \<Rightarrow> \<not> no_faults E
      | Inr bytes \<Rightarrow> \<exists>f. fs_files fs path = Some f \<and> bytes = f_bytes f)) fs"
    by (rule fs_read_wp) auto
  from io_wp_result [OF this run] run assms show ?thesis
    by (auto simp: io_wp_def registry_load_unlocked_def registry_at_def io_then_def io_result_def io_check_def io_ok_def
        with_context_def ensure_def map_err_Inl split: sum.splits FsError.splits)
qed

lemma registry_save_wp:
  assumes "\<And>e fs'. fs_files fs' = fs_files fs \<or> stored path (json_to_vec_pretty X (RegistryFile_json r) @ [10]) fs fs' \<and>
      same_except {path} fs fs' \<Longrightarrow> \<not> no_faults E \<Longrightarrow> Q (Inl e) fs'"
    and "\<And>fs'. stored path (json_to_vec_pretty X (RegistryFile_json r) @ [10]) fs fs' \<Longrightarrow>
      same_except {path} fs fs' \<Longrightarrow> Q (Inr ()) fs'"
  shows "io_wp (registry_save_unlocked X E parent path r) Q fs"
  unfolding registry_save_unlocked_def
  by (auto simp: Let_def no_faults_def stored_def same_except_def intro!: quiet_rules temp_persist_wp assms
      split: option.splits)

section \<open>Changes under the lock\<close>

lemma registry_locked_wp:
  assumes "\<And>e fs'. same_except {registry_lock_path path} fs fs' \<Longrightarrow> \<not> (no_faults E \<and> path \<noteq> []) \<Longrightarrow> Q (Inl e) fs'"
    and "\<And>parent fs0. same_except {registry_lock_path path} fs fs0 \<Longrightarrow> io_wp (f parent) Q (fe_others E fs0)"
  shows "io_wp (io_then (registry_ensure_parent E path) (\<lambda>parent. io_then (registry_open_lock E path) (\<lambda>_.
    io_then (registry_lock E) (\<lambda>_. f parent)))) Q fs"
  unfolding registry_ensure_parent_def registry_open_lock_def registry_lock_def path_parent_def
  by (auto simp: Let_def same_except_def create_plain_def no_faults_def split: option.splits intro!: assms)

text \<open>What an update did to the files \<open>fs1\<close> that were there when its lock was granted.\<close>

definition registry_changed ::
  "(RegistryFile \<Rightarrow> string + 'a \<times> RegistryFile) \<Rightarrow> Ext \<Rightarrow> FsEnv \<Rightarrow> path \<Rightarrow> Fs \<Rightarrow> FsError + 'a \<Rightarrow> Fs \<Rightarrow> bool" where
  "registry_changed change X E path fs1 res fs' \<longleftrightarrow> (\<exists>r v r' n. registry_at X path fs1 = Some r \<and>
     change r = Inr (v, r') \<and> u64_checked_add (rg_revision r') 1 = Some n \<and>
     registry_at X path fs' = Some (r'\<lparr>rg_revision := n\<rparr>) \<and> same_except {path} fs1 fs' \<and>
     (res = Inr v \<or> \<not> is_ok res \<and> \<not> no_faults E))"

text \<open>A change of the registry that keeps it well formed.  Whatever other processes did before the
  lock was granted, its effect is on the registry they left, and on nothing else.\<close>

locale registry_change =
  fixes change :: "RegistryFile \<Rightarrow> string + 'a \<times> RegistryFile"
  assumes keeps_ok: "registry_ok r \<Longrightarrow> change r = Inr (v, r') \<Longrightarrow> registry_ok r' \<and> rg_version r' = rg_version r"
begin

lemma stored_change:
  assumes "pretty_laws X" "registry_at X path fs = Some r" "change r = Inr (v, r')" "u64_checked_add (rg_revision r') 1 = Some n"
    and "stored path (json_to_vec_pretty X (RegistryFile_json (r'\<lparr>rg_revision := n\<rparr>)) @ [10]) fs1 fs'"
  shows "registry_at X path fs' = Some (r'\<lparr>rg_revision := n\<rparr>)"
proof -
  have r': "registry_ok r'" "rg_version r' = REGISTRY_SCHEMA_VERSION"
    using registry_at_ok [OF assms(2)] keeps_ok [OF _ assms(3)] by auto
  then have "registry_ok (r'\<lparr>rg_revision := n\<rparr>)"
    using assms(4) by (auto simp: registry_ok_def u64_checked_add_Some u64_max_def)
  from registry_file.parse_stored(1) [OF assms(1) this] assms(5) r'(2) show ?thesis
    by (auto simp: registry_at_def stored_def split: sum.splits)
qed

lemma mutate_wp:
  assumes "pretty_laws X"
    and "\<And>e fs'. same_except {registry_lock_path path} fs fs' \<Longrightarrow> \<not> (no_faults E \<and> path \<noteq> []) \<Longrightarrow> Q (Inl e) fs'"
    and "\<And>e fs0 fs'. same_except {registry_lock_path path} fs fs0 \<Longrightarrow> fs_files fs' = fs_files (fe_others E fs0) \<Longrightarrow>
      \<not> (no_faults E \<and> (\<exists>r v r' n. registry_at X path (fe_others E fs0) = Some r \<and> change r = Inr (v, r') \<and>
        u64_checked_add (rg_revision r') 1 = Some n)) \<Longrightarrow> Q (Inl e) fs'"
    and "\<And>res fs0 fs'. same_except {registry_lock_path path} fs fs0 \<Longrightarrow>
      registry_changed change X E path (fe_others E fs0) res fs' \<Longrightarrow> Q res fs'"
  shows "io_wp (registry_mutate X E path change) Q fs"
  unfolding registry_mutate_def
proof (rule registry_locked_wp)
  fix e fs'
  assume "same_except {registry_lock_path path} fs fs'" "\<not> (no_faults E \<and> path \<noteq> [])"
  then show "Q (Inl e) fs'" by (rule assms(2))
next
  fix parent fs0
  assume fs0: "same_except {registry_lock_path path} fs fs0"
  let ?G = "fe_others E fs0"
  have same: "registry_at X path fs1 = registry_at X path ?G" if "fs_files fs1 = fs_files ?G" for fs1
    using that by (simp add: registry_at_def)
  show "io_wp (io_then (registry_load_unlocked X E path) (\<lambda>registry.
      io_then (io_result (change registry)) (\<lambda>(value, registry).
      io_then (io_result (ok_or ''MCP registry revision overflow'' (u64_checked_add (rg_revision registry) 1))) (\<lambda>revision.
      io_then (registry_save_unlocked X E parent path (registry\<lparr>rg_revision := revision\<rparr>)) (\<lambda>_. io_ok value))))) Q ?G"
    unfolding io_wp_then
  proof (rule registry_load_wp, goal_cases)
    case (1 e fs')
    with assms(3) [OF fs0] show ?case by simp
  next
    case (2 r fs1)
    show ?case
    proof (cases "\<exists>v r' n. change r = Inr (v, r') \<and> u64_checked_add (rg_revision r') 1 = Some n")
      case False
      with assms(3) [OF fs0] 2 show ?thesis
        by (cases "change r") (auto simp: u64_checked_add_def split: option.splits if_splits)
    next
      case True
      then obtain v r' n where ch: "change r = Inr (v, r')" "u64_checked_add (rg_revision r') 1 = Some n" by blast
      note fin = stored_change [OF assms(1) 2(2) ch]
      have "io_wp (registry_save_unlocked X E parent path (r'\<lparr>rg_revision := n\<rparr>)) (\<lambda>res fs'. case res of
          Inl e \<Rightarrow> Q (Inl e) fs' | Inr _ \<Rightarrow> Q (Inr v) fs') fs1"
      proof (rule registry_save_wp, goal_cases)
        case (1 e fs')
        note faulty = 1(2)
        from 1 consider "fs_files fs' = fs_files fs1" | "registry_at X path fs' = Some (r'\<lparr>rg_revision := n\<rparr>)" "same_except {path} fs1 fs'"
          using fin by blast
        then show ?case
        proof cases
          case 1
          with assms(3) [OF fs0] 2(1) faulty show ?thesis by simp
        next
          case changed: 2
          have "registry_changed change X E path ?G (Inl e) fs'"
            unfolding registry_changed_def using changed faulty 2 ch by (auto simp: same_except_def)
          from assms(4) [OF fs0 this] show ?thesis by simp
        qed
      next
        case (2 fs')
        have "registry_changed change X E path ?G (Inr v) fs'"
          unfolding registry_changed_def using fin [OF 2(1)] 2(2) \<open>fs_files fs1 = _\<close> \<open>registry_at X path ?G = Some r\<close> ch
          by (auto simp: same_except_def)
        from assms(4) [OF fs0 this] show ?case by simp
      qed
      with ch show ?thesis
        by (auto simp: u64_checked_add_def elim!: io_wp_mono split: sum.splits if_splits)
    qed
  qed
qed

end

interpretation upserting: registry_change "upsert_change name transport"
  by unfold_locales (auto simp: upsert_change_def registry_ok_def)

interpretation removing: registry_change "remove_change name"
  by unfold_locales (auto simp: remove_change_def registry_ok_def)

section \<open>A small registry\<close>

definition sample_registry_path :: path where "sample_registry_path = [''home'', ''test'', ''mcp.json'']"

section \<open>Properties\<close>

definition catalog_of :: "RegistryFile \<Rightarrow> string \<rightharpoonup> McpTransport" where
  "catalog_of r name = btree_get name (rg_servers r)"

text \<open>C30: The registry file is a map from names to definitions, and its updates are atomic among
  processes.  Adding a definition either leaves the files as they were, but for its lock file, or acts on
  exactly the registry that was there when its lock was granted: there the map gains that one entry and the
  revision rises by one; the answer tells whether the name was known, unless a fault after the replacement hides it.\<close>

theorem registry_upsert_refines:
  assumes "pretty_laws X" "registry_upsert X E path name transport fs = (res, fs')"
  shows "\<not> is_ok res \<and> same_except {registry_lock_path path} fs fs' \<or>
    (\<exists>fs0. same_except {registry_lock_path path} fs fs0 \<and>
      (\<not> is_ok res \<and> fs_files fs' = fs_files (fe_others E fs0) \<or>
       (\<exists>r r'. registry_at X path (fe_others E fs0) = Some r \<and> registry_at X path fs' = Some r' \<and>
          catalog_of r' = (catalog_of r)(name \<mapsto> transport) \<and> rg_revision r' = rg_revision r + 1 \<and>
          same_except {path} (fe_others E fs0) fs' \<and>
          (res = Inr (catalog_of r name \<noteq> None) \<or> \<not> is_ok res \<and> \<not> no_faults E))))"
proof -
  have effect: "\<exists>r r'. registry_at X path fs1 = Some r \<and> registry_at X path fs2 = Some r' \<and>
      catalog_of r' = (catalog_of r)(name \<mapsto> transport) \<and> rg_revision r' = rg_revision r + 1 \<and>
      same_except {path} fs1 fs2 \<and> (res = Inr (catalog_of r name \<noteq> None) \<or> \<not> is_ok res \<and> \<not> no_faults E)"
    if "registry_changed (upsert_change name transport) X E path fs1 res fs2" for res fs1 fs2
    using that registry_at_ok [of X path fs1]
    by (fastforce simp: registry_changed_def upsert_change_def catalog_of_def fun_eq_iff u64_checked_add_Some registry_ok_def)
  let ?P = "\<lambda>res fs'. \<not> is_ok res \<and> same_except {registry_lock_path path} fs fs' \<or>
    (\<exists>fs0. same_except {registry_lock_path path} fs fs0 \<and>
      (\<not> is_ok res \<and> fs_files fs' = fs_files (fe_others E fs0) \<or>
       (\<exists>r r'. registry_at X path (fe_others E fs0) = Some r \<and> registry_at X path fs' = Some r' \<and>
          catalog_of r' = (catalog_of r)(name \<mapsto> transport) \<and> rg_revision r' = rg_revision r + 1 \<and>
          same_except {path} (fe_others E fs0) fs' \<and>
          (res = Inr (catalog_of r name \<noteq> None) \<or> \<not> is_ok res \<and> \<not> no_faults E))))"
  have "io_wp (registry_mutate X E path (upsert_change name transport)) ?P fs"
    by (rule upserting.mutate_wp [OF assms(1)]) (use effect in \<open>simp; blast\<close>)+
  then have "io_wp (registry_upsert X E path name transport) ?P fs"
    unfolding registry_upsert_def by (auto split: sum.split)
  from io_wp_result [OF this assms(2)] show ?thesis .
qed

theorem registry_upsert_refines_witness:
  "\<exists>fs' r'. registry_upsert ref_ext calm_disk sample_registry_path ''lldb'' (Stdio ''lldb-mcp'' [] None) sample_fs =
     (Inr False, fs') \<and> registry_at ref_ext sample_registry_path fs' = Some r' \<and>
     catalog_of r' ''lldb'' = Some (Stdio ''lldb-mcp'' [] None) \<and> rg_revision r' = 1"
proof -
  let ?p = sample_registry_path and ?t = "Stdio ''lldb-mcp'' [] None"
  obtain res fs' where run: "registry_upsert ref_ext calm_disk ?p ''lldb'' ?t sample_fs = (res, fs')" by fastforce
  have nonempty: "?p \<noteq> []" by (simp add: sample_registry_path_def)
  have none: "registry_at ref_ext ?p (fe_others calm_disk fs0) = Some RegistryFile_default"
    if "same_except {registry_lock_path ?p} sample_fs fs0" for fs0
    using that by (auto simp: registry_at_def same_except_def sample_registry_path_def registry_lock_path_def
        path_with_extension_def file_stem_def sample_fs_def state_path_def calm_disk_def)
  have "io_wp (registry_mutate ref_ext calm_disk ?p (upsert_change ''lldb'' ?t)) (\<lambda>res fs'. res = Inr False) sample_fs"
    by (rule upserting.mutate_wp [OF ref_ext_laws(5)])
      (auto simp: none registry_changed_def upsert_change_def RegistryFile_default_def u64_max_def nonempty)
  then have "io_wp (registry_upsert ref_ext calm_disk ?p ''lldb'' ?t) (\<lambda>res fs'. res = Inr False) sample_fs"
    unfolding registry_upsert_def by (simp add: validate_mcp_name_def ensure_def)
  from io_wp_result [OF this run] have res: "res = Inr False" .
  from registry_upsert_refines [OF ref_ext_laws(5) run] none res run show ?thesis
    by (auto simp: RegistryFile_default_def)
qed

end
