(* ===== verification/Transport.thy ===== *)
theory Transport
  imports Protocol Utf8 Core_Files Hash_Maps
begin

text \<open>
  The crate \<open>transport\<close> (\<open>crates/transport/src/lib.rs\<close>): frames on a byte stream, the packed form
  of a UDP packet, relay configurations and verified downloads.  A stream being read is the bytes
  that will arrive and how it ends; a stream being written has room for some bytes before it breaks.
\<close>

definition MAX_FRAME :: nat where "MAX_FRAME = 16 * 1024 * 1024"
definition MAX_UDP_PAYLOAD :: nat where "MAX_UDP_PAYLOAD = 65507"

section \<open>Frames\<close>

datatype FrameTag = TStart | TStdout | TStderr | TExit | TResult | TData

fun tag_byte :: "FrameTag \<Rightarrow> byte" where
  "tag_byte TStart = 0"
| "tag_byte TStdout = 1"
| "tag_byte TStderr = 2"
| "tag_byte TExit = 3"
| "tag_byte TResult = 4"
| "tag_byte TData = 5"

definition FrameTag_try_from :: "byte \<Rightarrow> string + FrameTag" where
  "FrameTag_try_from value =
     (if value = 0 then Inr TStart
      else if value = 1 then Inr TStdout
      else if value = 2 then Inr TStderr
      else if value = 3 then Inr TExit
      else if value = 4 then Inr TResult
      else if value = 5 then Inr TData
      else Inl (''unknown frame tag '' @ show_nat (unat value)))"

record Frame =
  fr_tag :: FrameTag
  fr_payload :: "byte list"

definition le_bytes :: "nat \<Rightarrow> byte list" where
  "le_bytes n = [word_of_nat n, word_of_nat (n div 256), word_of_nat (n div 65536), word_of_nat (n div 16777216)]"

definition le_value :: "byte list \<Rightarrow> nat" where
  "le_value bs = unat (bs ! 0) + unat (bs ! 1) * 256 + unat (bs ! 2) * 65536 + unat (bs ! 3) * 16777216"

definition header :: "FrameTag \<Rightarrow> nat \<Rightarrow> string + byte list" where
  "header tag len =
     and_then (ensure (len \<le> MAX_FRAME) (''frame too large: '' @ show_nat len)) (\<lambda>_.
     and_then (ensure (len < 2 ^ 32) ''frame length exceeds u32'') (\<lambda>_.
     Inr (tag_byte tag # le_bytes len)))"

definition split_header :: "byte list \<Rightarrow> string + FrameTag \<times> nat" where
  "split_header hdr =
     and_then (FrameTag_try_from (hdr ! 0)) (\<lambda>tag.
     let len = le_value (drop 1 hdr) in
     and_then (ensure (len \<le> MAX_FRAME) (''frame too large: '' @ show_nat len)) (\<lambda>_.
     Inr (tag, len)))"

section \<open>Streams\<close>

record InStream =
  in_bytes :: "byte list"
  in_broken :: "string option"

record OutStream =
  out_bytes :: "byte list"
  out_room :: "nat option"

definition write_all :: "byte list \<Rightarrow> OutStream \<Rightarrow> (string + unit) \<times> OutStream" where
  "write_all bs s = (case out_room s of
      None \<Rightarrow> (Inr (), s\<lparr>out_bytes := out_bytes s @ bs\<rparr>)
    | Some n \<Rightarrow> if length bs \<le> n
        then (Inr (), s\<lparr>out_bytes := out_bytes s @ bs, out_room := Some (n - length bs)\<rparr>)
        else (Inl ''stream closed'', s\<lparr>out_bytes := out_bytes s @ take n bs, out_room := Some 0\<rparr>))"

definition read_byte :: "InStream \<Rightarrow> (string + byte option) \<times> InStream" where
  "read_byte s = (case in_bytes s of
      b # bs \<Rightarrow> (Inr (Some b), s\<lparr>in_bytes := bs\<rparr>)
    | [] \<Rightarrow> (case in_broken s of None \<Rightarrow> (Inr None, s) | Some e \<Rightarrow> (Inl e, s)))"

definition read_exact :: "nat \<Rightarrow> InStream \<Rightarrow> (string + byte list) \<times> InStream" where
  "read_exact n s = (if n \<le> length (in_bytes s)
     then (Inr (take n (in_bytes s)), s\<lparr>in_bytes := drop n (in_bytes s)\<rparr>)
     else (Inl (case in_broken s of None \<Rightarrow> ''unexpected end of file'' | Some e \<Rightarrow> e), s\<lparr>in_bytes := []\<rparr>))"

definition write_frame :: "FrameTag \<Rightarrow> byte list \<Rightarrow> OutStream \<Rightarrow> (string + unit) \<times> OutStream" where
  "write_frame tag payload s = (case header tag (length payload) of
      Inl e \<Rightarrow> (Inl e, s)
    | Inr hdr \<Rightarrow> (case write_all hdr s of
        (Inl e, s) \<Rightarrow> (Inl (''write header: '' @ e), s)
      | (Inr _, s) \<Rightarrow> (case write_all payload s of
          (Inl e, s) \<Rightarrow> (Inl (''write payload: '' @ e), s)
        | (Inr _, s) \<Rightarrow> (Inr (), s))))"

text \<open>\<open>iroh_wire::read_frame_with_limit\<close>, and \<open>io_wire::read_frame\<close>, which differs in having no
  limit of its own; \<open>read_frame\<close> is both at the protocol's limit.\<close>

definition read_frame_with_limit :: "nat \<Rightarrow> InStream \<Rightarrow> (string + Frame option) \<times> InStream" where
  "read_frame_with_limit max_payload s = (case read_byte s of
      (Inl e, s) \<Rightarrow> (Inl (''read frame tag: '' @ e), s)
    | (Inr None, s) \<Rightarrow> (Inr None, s)
    | (Inr (Some first), s) \<Rightarrow> (case read_exact 4 s of
        (Inl e, s) \<Rightarrow> (Inl (''read frame header: '' @ e), s)
      | (Inr rest, s) \<Rightarrow> (case split_header (first # rest) of
          Inl e \<Rightarrow> (Inl e, s)
        | Inr (tag, n) \<Rightarrow>
            if n > max_payload then (Inl (''frame too large for this request: '' @ show_nat n), s)
            else (case read_exact n s of
                (Inl e, s) \<Rightarrow> (Inl (''read payload: '' @ e), s)
              | (Inr payload, s) \<Rightarrow> (Inr (Some \<lparr>fr_tag = tag, fr_payload = payload\<rparr>), s)))))"

definition read_frame :: "InStream \<Rightarrow> (string + Frame option) \<times> InStream" where
  "read_frame = read_frame_with_limit MAX_FRAME"

definition io_read_frame :: "InStream \<Rightarrow> (string + Frame option) \<times> InStream" where
  "io_read_frame s = (case read_byte s of
      (Inl e, s) \<Rightarrow> (Inl ''read frame tag'', s)
    | (Inr None, s) \<Rightarrow> (Inr None, s)
    | (Inr (Some first), s) \<Rightarrow> (case read_exact 4 s of
        (Inl e, s) \<Rightarrow> (Inl ''read frame header'', s)
      | (Inr rest, s) \<Rightarrow> (case split_header (first # rest) of
          Inl e \<Rightarrow> (Inl e, s)
        | Inr (tag, n) \<Rightarrow> (case read_exact n s of
            (Inl e, s) \<Rightarrow> (Inl ''read frame payload'', s)
          | (Inr payload, s) \<Rightarrow> (Inr (Some \<lparr>fr_tag = tag, fr_payload = payload\<rparr>), s)))))"

section \<open>UDP packets\<close>

definition be_bytes :: "nat \<Rightarrow> byte list" where
  "be_bytes n = [word_of_nat (n div 256), word_of_nat (n mod 256)]"

definition be_value :: "byte \<Rightarrow> byte \<Rightarrow> nat" where
  "be_value a b = unat a * 256 + unat b"

definition encode_proxy_datagram :: "ProxyDatagram \<Rightarrow> string + byte list" where
  "encode_proxy_datagram datagram =
     (let host = string_bytes (pt_host (pd_target datagram)); port = pt_port (pd_target datagram) in
      and_then (ensure (host \<noteq> []) ''proxy datagram host is empty'') (\<lambda>_.
      and_then (ensure (length host \<le> 255) ''proxy datagram host is too long'') (\<lambda>_.
      and_then (ensure (port \<noteq> 0) ''proxy datagram port is zero'') (\<lambda>_.
      and_then (ensure (length (pd_payload datagram) \<le> MAX_UDP_PAYLOAD)
        (''proxy UDP payload is too large: '' @ show_nat (length (pd_payload datagram)))) (\<lambda>_.
      Inr (word_of_nat (length host) # be_bytes port @ host @ pd_payload datagram))))))"

definition decode_proxy_datagram :: "byte list \<Rightarrow> string + ProxyDatagram" where
  "decode_proxy_datagram encoded =
     and_then (ensure (length encoded \<ge> 4) ''proxy datagram is truncated'') (\<lambda>_.
     let host_len = unat (encoded ! 0); payload_offset = 3 + host_len in
     and_then (ensure (host_len \<noteq> 0 \<and> payload_offset \<le> length encoded)
       ''proxy datagram host is truncated'') (\<lambda>_.
     let port = be_value (encoded ! 1) (encoded ! 2) in
     and_then (ensure (port \<noteq> 0) ''proxy datagram port is zero'') (\<lambda>_.
     and_then (with_context ''proxy datagram host is not UTF-8'' (from_utf8 (take host_len (drop 3 encoded)))) (\<lambda>host.
     let payload = drop payload_offset encoded in
     and_then (ensure (length payload \<le> MAX_UDP_PAYLOAD)
       (''proxy UDP payload is too large: '' @ show_nat (length payload))) (\<lambda>_.
     Inr \<lparr>pd_target = \<lparr>pt_host = host, pt_port = port\<rparr>, pd_payload = payload\<rparr>)))))"

section \<open>Relays\<close>

text \<open>\<open>defaults\<close> stands for the relay set bundled with \<open>iroh\<close>.  A relay URL is its normal form.\<close>

type_synonym RelayUrl = string

record RelayConfig =
  rlc_url :: RelayUrl
  rlc_quic_port :: "nat option"
  rlc_auth_token :: "string option"

definition relay_urls_or_default :: "Ext \<Rightarrow> RelayUrl list \<Rightarrow> string list \<Rightarrow> string + RelayUrl list" where
  "relay_urls_or_default X defaults values =
     (if values = [] then Inr defaults
      else collect_results (map (\<lambda>value. map_err (\<lambda>e. ''invalid relay '' @ value @ '': '' @ e)
        (relay_url_parse X value)) values))"

definition managed_relay_config :: "RelayUrl \<Rightarrow> nat option \<Rightarrow> string option \<Rightarrow> RelayConfig" where
  "managed_relay_config url qad_port credential =
     \<lparr>rlc_url = url, rlc_quic_port = qad_port, rlc_auth_token = credential\<rparr>"

text \<open>What the endpoint is built from; \<open>online\<close> tells whether the caller waits for a relay.\<close>

record EndpointPlan =
  ep_secret_key :: SecretKey
  ep_relays :: "(RelayUrl, RelayConfig) hash_map"
  ep_extra_roots :: "byte list list"
  ep_alpns :: "byte list list"
  ep_online :: bool

definition build_endpoint_with_config ::
  "SecretKey \<Rightarrow> RelayConfig list \<Rightarrow> byte list option \<Rightarrow> byte list list \<Rightarrow> string + EndpointPlan" where
  "build_endpoint_with_config secret_key relays relay_ca_der alpns =
     and_then (ensure (relay_ca_der \<noteq> Some []) ''managed Relay CA certificate is empty'') (\<lambda>_.
     Inr \<lparr>ep_secret_key = secret_key, ep_relays = hash_collect (map (\<lambda>c. (rlc_url c, c)) relays),
       ep_extra_roots = (case relay_ca_der of None \<Rightarrow> [] | Some ca \<Rightarrow> [ca]), ep_alpns = alpns,
       ep_online = (length relays \<noteq> 0)\<rparr>)"

definition build_endpoint :: "SecretKey \<Rightarrow> RelayUrl list \<Rightarrow> byte list list \<Rightarrow> string + EndpointPlan" where
  "build_endpoint secret_key relay_urls alpns = build_endpoint_with_config secret_key
     (map (\<lambda>url. \<lparr>rlc_url = url, rlc_quic_port = None, rlc_auth_token = None\<rparr>) relay_urls) None alpns"

section \<open>Downloads\<close>

text \<open>What \<open>get_blob\<close> delivers.\<close>

datatype GetBlobItem = Leaf "byte list" | Parent | Done | BlobError string

fun download_items :: "FsEnv \<Rightarrow> GetBlobItem list \<Rightarrow> File \<Rightarrow> nat \<Rightarrow> (File \<times> nat \<times> bool) io" where
  "download_items E [] file count = io_ok (file, count, False)"
| "download_items E (Leaf bs # items) file count =
     io_then (temp_write_all E bs file) (\<lambda>file. download_items E items file (count + length bs))"
| "download_items E (Parent # items) file count = download_items E items file count"
| "download_items E (Done # items) file count = io_ok (file, count, True)"
| "download_items E (BlobError e # items) file count = io_fail (Failed (''get_blob: '' @ e))"

definition install_download :: "FsEnv \<Rightarrow> File \<Rightarrow> path \<Rightarrow> unit io" where
  "install_download E temp destination =
     io_then (io_context (''replace '' @ path_display destination) (temp_persist E temp destination)) (\<lambda>_.
     io_then (io_context (''open directory '' @ path_display (butlast destination)) (io_step E (\<lambda>fs. fs))) (\<lambda>_.
     io_context (''sync directory '' @ path_display (butlast destination)) (io_step E (\<lambda>fs. fs))))"

definition fetch_to_file :: "FsEnv \<Rightarrow> string + GetBlobItem list \<Rightarrow> path \<Rightarrow> nat io" where
  "fetch_to_file E connected dest =
     io_then (io_result (map_err (\<lambda>e. ''connect blobs: '' @ e) connected)) (\<lambda>items.
     io_then (io_context (''create temporary download beside '' @ path_display dest) (io_step E (\<lambda>fs. fs))) (\<lambda>_.
     io_then (io_step E (\<lambda>fs. fs)) (\<lambda>_.
     io_then (download_items E items \<lparr>f_bytes = [], f_mode = PRIVATE_FILE_MODE\<rparr> 0) (\<lambda>(file, count, completed).
     io_then (io_result (ensure completed ''blob stream ended before verification completed'')) (\<lambda>_.
     io_then (io_context ''flush downloaded file'' (io_step E (\<lambda>fs. fs))) (\<lambda>_.
     io_then (io_context ''sync downloaded file'' (temp_sync_all E)) (\<lambda>_.
     io_then (install_download E file dest) (\<lambda>_.
     io_ok count))))))))"

section \<open>Codecs\<close>

lemma tag_round_trip [simp]: "FrameTag_try_from (tag_byte t) = Inr t"
  by (cases t) (simp_all add: FrameTag_try_from_def)

lemma tag_try_from_Inr: "FrameTag_try_from b = Inr t \<Longrightarrow> b = tag_byte t"
  by (auto simp: FrameTag_try_from_def split: if_splits)

lemma length_le_bytes [simp]: "length (le_bytes n) = 4"
  by (simp add: le_bytes_def)

lemma le_value_bytes [simp]:
  assumes "n < 2 ^ 32"
  shows "le_value (le_bytes n) = n"
proof -
  have "n mod 256 + n div 256 mod 256 * 256 + n div 65536 mod 256 * 65536 + n div 16777216 * 16777216 = n"
  proof -
    define a b c where "a = n div 256" and "b = a div 256" and "c = b div 256"
    have eqs: "n = 256 * a + n mod 256" "a = 256 * b + a mod 256" "b = 256 * c + b mod 256"
      by (simp_all only: a_def b_def c_def mult_div_mod_eq)
    have quots: "n div 65536 = b" "n div 16777216 = c"
      by (simp_all add: a_def b_def c_def div_mult2_eq [symmetric])
    show ?thesis unfolding a_def [symmetric] quots using eqs by linarith
  qed
  moreover have "n div 16777216 < 256" using assms by (simp add: less_mult_imp_div_less)
  ultimately show ?thesis by (simp add: le_value_def le_bytes_def unat_of_nat)
qed

lemma split_header_header:
  "header t n = Inr hdr \<Longrightarrow> length hdr = 5 \<and> split_header hdr = Inr (t, n) \<and> n \<le> MAX_FRAME"
  by (auto simp: header_def split_header_def Let_def ensure_def split: if_splits)

lemma be_value_bytes: "p < 2 ^ 16 \<Longrightarrow> be_value (be_bytes p ! 0) (be_bytes p ! 1) = p"
  by (simp add: be_value_def be_bytes_def unat_of_nat)

lemma be_bytes_value: "be_bytes (be_value a b) = [a, b]"
proof -
  have "unat a < 256" "unat b < 256" for a b :: byte
    using unsigned_less [of a, where 'a = nat] unsigned_less [of b, where 'a = nat] by simp_all
  then show ?thesis by (simp add: be_bytes_def be_value_def)
qed

section \<open>Frames cross a stream\<close>

definition frame_bytes :: "Frame \<Rightarrow> byte list" where
  "frame_bytes f = tag_byte (fr_tag f) # le_bytes (length (fr_payload f)) @ fr_payload f"

definition frame_fits :: "Frame \<Rightarrow> bool" where
  "frame_fits f \<longleftrightarrow> length (fr_payload f) \<le> MAX_FRAME"

lemma frame_header: "header t n = (if n \<le> MAX_FRAME then Inr (tag_byte t # le_bytes n) else Inl (''frame too large: '' @ show_nat n))"
proof -
  have "n < 2 ^ 32" if "n \<le> MAX_FRAME" using that by (simp add: MAX_FRAME_def)
  then show ?thesis by (simp add: header_def ensure_def)
qed

lemma read_header:
  "n \<le> MAX_FRAME \<Longrightarrow> split_header (tag_byte t # le_bytes n) = Inr (t, n)"
  using split_header_header [of t n "tag_byte t # le_bytes n"] frame_header [of t n] by metis

lemma read_frame_frame:
  assumes "frame_fits f"
  shows "read_frame \<lparr>in_bytes = frame_bytes f @ rest, in_broken = e\<rparr> = (Inr (Some f), \<lparr>in_bytes = rest, in_broken = e\<rparr>)"
  using assms read_header [of "length (fr_payload f)" "fr_tag f"]
  by (simp add: read_frame_def read_frame_with_limit_def read_byte_def read_exact_def frame_bytes_def frame_fits_def)

text \<open>A frame that is cut short is an error, never the end of the stream.\<close>

lemma read_frame_cut:
  assumes "frame_fits f" "strict_prefix bs (frame_bytes f)" "bs \<noteq> []"
  shows "\<exists>msg s. read_frame \<lparr>in_bytes = bs, in_broken = e\<rparr> = (Inl msg, s)"
proof -
  obtain b bs' where bs: "bs = b # bs'" using assms(3) by (cases bs) auto
  have p: "b = tag_byte (fr_tag f)" "strict_prefix bs' (le_bytes (length (fr_payload f)) @ fr_payload f)"
    using assms(2) by (auto simp: bs frame_bytes_def)
  show ?thesis
  proof (cases "length bs' < 4")
    case True
    then show ?thesis by (simp add: read_frame_def read_frame_with_limit_def read_byte_def read_exact_def bs)
  next
    case False
    have pre: "prefix bs' (le_bytes (length (fr_payload f)) @ fr_payload f)"
      and short: "length bs' < 4 + length (fr_payload f)"
      using p(2) prefix_length_less [OF p(2)] by (auto simp: strict_prefix_def)
    then have "take 4 bs' = le_bytes (length (fr_payload f))"
      using False by (auto simp: prefix_def append_eq_append_conv_if)
    with read_header [of "length (fr_payload f)" "fr_tag f"] assms(1) False short p(1) show ?thesis
      by (simp add: read_frame_def read_frame_with_limit_def read_byte_def read_exact_def bs frame_fits_def)
  qed
qed

lemma read_frame_decreases:
  "read_frame s = (Inr (Some f), s') \<Longrightarrow> length (in_bytes s') < length (in_bytes s)"
  by (auto simp: read_frame_def read_frame_with_limit_def read_byte_def read_exact_def
      split: list.splits option.splits sum.splits prod.splits if_splits)

text \<open>Writing frames until one fails, and reading until the stream ends or fails.\<close>

fun write_frames :: "Frame list \<Rightarrow> OutStream \<Rightarrow> (string + unit) \<times> OutStream" where
  "write_frames [] s = (Inr (), s)"
| "write_frames (f # fs) s = (case write_frame (fr_tag f) (fr_payload f) s of
      (Inl e, s) \<Rightarrow> (Inl e, s) | (Inr _, s) \<Rightarrow> write_frames fs s)"

function read_frames :: "InStream \<Rightarrow> Frame list \<times> (string + unit)" where
  "read_frames s = (case read_frame s of
      (Inl e, _) \<Rightarrow> ([], Inl e)
    | (Inr None, _) \<Rightarrow> ([], Inr ())
    | (Inr (Some f), s') \<Rightarrow> (case read_frames s' of (fs, r) \<Rightarrow> (f # fs, r)))"
  by auto
termination
  by (relation "measure (length \<circ> in_bytes)") (auto dest!: sym [of _ "read_frame _"] read_frame_decreases)

declare read_frames.simps [simp del]

lemma write_all_cases:
  assumes "write_all bs s = (r, s')"
  obtains (whole) "r = Inr ()" "out_bytes s' = out_bytes s @ bs"
  | (cut) e n where "r = Inl e" "n < length bs" "out_bytes s' = out_bytes s @ take n bs"
  using assms whole unfolding write_all_def
  by (auto split: option.splits if_splits intro: cut [OF _ not_le_imp_less])

lemma write_frame_cases:
  assumes "write_frame (fr_tag f) (fr_payload f) s = (r, s')"
  obtains (whole) "r = Inr ()" "frame_fits f" "out_bytes s' = out_bytes s @ frame_bytes f"
  | (refused) e where "r = Inl e" "s' = s"
  | (cut) e n where "r = Inl e" "frame_fits f" "n < length (frame_bytes f)" "out_bytes s' = out_bytes s @ take n (frame_bytes f)"
proof (cases "frame_fits f")
  case False
  with assms that(2) show thesis by (auto simp: write_frame_def frame_header frame_fits_def)
next
  case True
  let ?hdr = "tag_byte (fr_tag f) # le_bytes (length (fr_payload f))"
  have hdr: "header (fr_tag f) (length (fr_payload f)) = Inr ?hdr" using True by (simp add: frame_header frame_fits_def)
  have bytes: "frame_bytes f = ?hdr @ fr_payload f" by (simp add: frame_bytes_def)
  obtain r1 s1 where one: "write_all ?hdr s = (r1, s1)" by fastforce
  then show thesis
  proof (cases rule: write_all_cases)
    case (cut e n)
    have "take n (frame_bytes f) = take n ?hdr" unfolding bytes take_append using cut(2) by simp
    moreover have "n < length (frame_bytes f)" using cut(2) by (simp add: bytes)
    moreover have "r = Inl (''write header: '' @ e)" "s' = s1" using assms hdr one cut(1) by (auto simp: write_frame_def)
    ultimately show thesis using that(3) [of _ n] True cut(3) by simp
  next
    case whole
    obtain r2 s2 where two: "write_all (fr_payload f) s1 = (r2, s2)" by fastforce
    then show thesis
    proof (cases rule: write_all_cases)
      case (cut e n)
      have "take (length ?hdr + n) (frame_bytes f) = ?hdr @ take n (fr_payload f)" unfolding bytes take_append by simp
      moreover have "r = Inl (''write payload: '' @ e)" "s' = s2"
        using assms hdr one whole(1) two cut(1) by (auto simp: write_frame_def)
      ultimately show thesis using that(3) [of _ "length ?hdr + n"] True cut(2,3) whole(2) by (simp add: bytes)
    next
      case whole
      with that(1) assms True hdr one two \<open>r1 = Inr ()\<close> \<open>out_bytes s1 = _\<close> show thesis by (simp add: write_frame_def bytes)
    qed
  qed
qed

lemma write_frames_cases:
  assumes "write_frames fs s = (r, s')"
  obtains (whole) "r = Inr ()" "list_all frame_fits fs" "out_bytes s' = out_bytes s @ concat (map frame_bytes fs)"
  | (stopped) e k part where "r = Inl e" "k < length fs" "list_all frame_fits (take k fs)"
      "out_bytes s' = out_bytes s @ concat (map frame_bytes (take k fs)) @ part"
      "part = [] \<or> frame_fits (fs ! k) \<and> strict_prefix part (frame_bytes (fs ! k))"
  using assms
proof (induction fs arbitrary: s thesis)
  case (Cons f fs)
  obtain r1 s1 where one: "write_frame (fr_tag f) (fr_payload f) s = (r1, s1)" by fastforce
  then show ?case
  proof (cases rule: write_frame_cases)
    case whole
    with Cons.prems(3) one have rest: "write_frames fs s1 = (r, s')" by simp
    show ?thesis
    proof (rule Cons.IH [OF _ _ rest], goal_cases)
      case 1
      with whole Cons.prems(1) show ?case by simp
    next
      case (2 e k part)
      with whole Cons.prems(2) [of e "Suc k" part] show ?case by simp
    qed
  next
    case (refused e)
    with one Cons.prems(2) [of e 0 "[]"] Cons.prems(3) show ?thesis by simp
  next
    case (cut e n)
    then have "strict_prefix (take n (frame_bytes f)) (frame_bytes f)"
      by (metis append_take_drop_id drop_eq_Nil linorder_not_le prefixI same_append_eq append_Nil2 strict_prefixI)
    with cut one Cons.prems(2) [of e 0 "take n (frame_bytes f)"] Cons.prems(3) show ?thesis by simp
  qed
qed simp

lemma read_frames_frames:
  assumes "list_all frame_fits fs"
  shows "read_frames \<lparr>in_bytes = concat (map frame_bytes fs) @ rest, in_broken = e\<rparr> =
    (case read_frames \<lparr>in_bytes = rest, in_broken = e\<rparr> of (gs, r) \<Rightarrow> (fs @ gs, r))"
  using assms
proof (induction fs)
  case (Cons f fs)
  then show ?case
    by (subst read_frames.simps) (simp add: read_frame_frame split: prod.splits)
qed simp

lemma read_frames_end: "read_frames \<lparr>in_bytes = [], in_broken = None\<rparr> = ([], Inr ())"
  by (subst read_frames.simps) (simp add: read_frame_def read_frame_with_limit_def read_byte_def)

section \<open>Properties\<close>

text \<open>C31: Frames cross a stream whole and in order.  Whatever was written before the stream broke,
  the reader gets the leading frames that arrived whole and nothing else; it gets them all when every
  write succeeded; and it sees a clean end only at a frame boundary, never inside a frame.\<close>

theorem frames_round_trip:
  assumes "write_frames fs \<lparr>out_bytes = [], out_room = room\<rparr> = (r, s)"
    and "read_frames \<lparr>in_bytes = out_bytes s, in_broken = None\<rparr> = (gs, ending)"
  shows "(\<exists>k. gs = take k fs) \<and> (r = Inr () \<longrightarrow> gs = fs \<and> ending = Inr ()) \<and>
    (ending = Inr () \<longrightarrow> out_bytes s = concat (map frame_bytes gs))"
  using assms(1)
proof (cases rule: write_frames_cases)
  case whole
  with assms(2) read_frames_frames [OF whole(2), of "[]" None] show ?thesis
    by (auto simp: read_frames_end intro: exI [of _ "length fs"])
next
  case (stopped e k part)
  note read = read_frames_frames [OF stopped(3), of part None]
  show ?thesis
  proof (cases "part = []")
    case True
    with assms(2) read stopped(1,4) show ?thesis by (auto simp: read_frames_end)
  next
    case False
    with stopped(5) read_frame_cut [of "fs ! k" part None] obtain msg s' where
      "read_frame \<lparr>in_bytes = part, in_broken = None\<rparr> = (Inl msg, s')" by blast
    then have "read_frames \<lparr>in_bytes = part, in_broken = None\<rparr> = ([], Inl msg)"
      by (subst read_frames.simps) simp
    with assms(2) read stopped(1,4) show ?thesis by auto
  qed
qed

theorem frames_round_trip_witness:
  "\<exists>r s. write_frames [\<lparr>fr_tag = TStdout, fr_payload = [7, 8]\<rparr>, \<lparr>fr_tag = TExit, fr_payload = [0, 0, 0, 0]\<rparr>]
     \<lparr>out_bytes = [], out_room = Some 9\<rparr> = (r, s) \<and> length (out_bytes s) = 9 \<and>
   fst (read_frames \<lparr>in_bytes = out_bytes s, in_broken = None\<rparr>) \<in>
     (\<lambda>k. take k [\<lparr>fr_tag = TStdout, fr_payload = [7, 8]\<rparr>, \<lparr>fr_tag = TExit, fr_payload = [0, 0, 0, 0]\<rparr>]) ` UNIV \<and>
   \<not> is_ok (snd (read_frames \<lparr>in_bytes = out_bytes s, in_broken = None\<rparr>))"
proof -
  let ?fs = "[\<lparr>fr_tag = TStdout, fr_payload = [7, 8]\<rparr>, \<lparr>fr_tag = TExit, fr_payload = [0, 0, 0, 0 :: byte]\<rparr>]"
  obtain r s where run: "write_frames ?fs \<lparr>out_bytes = [], out_room = Some 9\<rparr> = (r, s)" by fastforce
  obtain gs ending where read: "read_frames \<lparr>in_bytes = out_bytes s, in_broken = None\<rparr> = (gs, ending)" by fastforce
  have len: "length (out_bytes s) = 9"
    using run by (auto simp: write_frame_def frame_header MAX_FRAME_def write_all_def split: if_splits)
  have whole: "length (concat (map frame_bytes (take k ?fs))) \<noteq> 9" for k
  proof -
    consider "k = 0" | "k = 1" | "k \<ge> 2" by linarith
    then show ?thesis by cases (simp_all add: frame_bytes_def)
  qed
  note facts = frames_round_trip [OF run read]
  then obtain k where k: "gs = take k ?fs" by blast
  then have "\<not> is_ok ending" using facts len whole [of k] by (auto simp: is_ok_iff)
  with run len read k show ?thesis by auto
qed

lemma decode_datagram_Inr:
  "decode_proxy_datagram bs = Inr d \<longleftrightarrow> (\<exists>a b c rest. bs = a # b # c # rest \<and>
     0 < unat a \<and> unat a \<le> length rest \<and> be_value b c \<noteq> 0 \<and> utf8_valid (take (unat a) rest) \<and>
     length (drop (unat a) rest) \<le> MAX_UDP_PAYLOAD \<and>
     d = \<lparr>pd_target = \<lparr>pt_host = bytes_string (take (unat a) rest), pt_port = be_value b c\<rparr>, pd_payload = drop (unat a) rest\<rparr>)"
proof (cases "\<exists>a b c rest. bs = a # b # c # rest")
  case False
  then have "length bs < 4" by (cases bs; cases "tl bs"; cases "tl (tl bs)") auto
  with False show ?thesis by (auto simp: decode_proxy_datagram_def)
next
  case True
  then obtain a b c rest where bs: "bs = a # b # c # rest" by blast
  show ?thesis
    unfolding bs decode_proxy_datagram_def Let_def from_utf8_def
    by (auto simp: eval_nat_numeral)
qed

lemma encode_datagram_Inr:
  "encode_proxy_datagram d = Inr bs \<longleftrightarrow> (let host = string_bytes (pt_host (pd_target d)) in
     host \<noteq> [] \<and> length host \<le> 255 \<and> pt_port (pd_target d) \<noteq> 0 \<and> length (pd_payload d) \<le> MAX_UDP_PAYLOAD \<and>
     bs = word_of_nat (length host) # be_bytes (pt_port (pd_target d)) @ host @ pd_payload d)"
  by (auto simp: encode_proxy_datagram_def Let_def)

text \<open>The packed form of a UDP packet is exact: decoding accepts precisely the byte strings that
  encoding produces for a valid packet, gives that packet back, and such a string fits in one frame.\<close>

theorem datagram_codec_exact:
  "decode_proxy_datagram bs = Inr d \<longleftrightarrow> encode_proxy_datagram d = Inr bs \<and>
     utf8_valid (string_bytes (pt_host (pd_target d))) \<and> pt_port (pd_target d) < 2 ^ 16 \<and> length bs \<le> MAX_FRAME"
  (is "?decoded \<longleftrightarrow> ?encoded")
proof
  assume ?decoded
  then obtain a b c rest where bs: "bs = a # b # c # rest" and a: "0 < unat a" "unat a \<le> length rest"
    and ok: "be_value b c \<noteq> 0" "utf8_valid (take (unat a) rest)" "length (drop (unat a) rest) \<le> MAX_UDP_PAYLOAD"
    and d: "d = \<lparr>pd_target = \<lparr>pt_host = bytes_string (take (unat a) rest), pt_port = be_value b c\<rparr>,
      pd_payload = drop (unat a) rest\<rparr>" by (auto simp: decode_datagram_Inr)
  have "unat x \<le> 255" for x :: byte using unsigned_less [of x, where 'a = nat] by simp
  from this [of a] this [of b] this [of c] a ok d bs show ?encoded
    by (auto simp: encode_datagram_Inr be_bytes_value [unfolded be_value_def] be_value_def MAX_FRAME_def MAX_UDP_PAYLOAD_def min_absorb2)
next
  assume ?encoded
  then have e: "string_bytes (pt_host (pd_target d)) \<noteq> []" "length (string_bytes (pt_host (pd_target d))) \<le> 255"
    "pt_port (pd_target d) \<noteq> 0" "length (pd_payload d) \<le> MAX_UDP_PAYLOAD"
    "bs = word_of_nat (length (string_bytes (pt_host (pd_target d)))) #
       be_bytes (pt_port (pd_target d)) @ string_bytes (pt_host (pd_target d)) @ pd_payload d"
    "utf8_valid (string_bytes (pt_host (pd_target d)))" "pt_port (pd_target d) < 2 ^ 16"
    by (auto simp: encode_datagram_Inr Let_def)
  have "unat (word_of_nat (length (string_bytes (pt_host (pd_target d)))) :: byte) = length (string_bytes (pt_host (pd_target d)))"
    using e(2) by (simp add: unat_of_nat del: length_string_bytes)
  moreover have "pt_host (pd_target d) \<noteq> []" using e(1) by (auto simp: string_bytes_def)
  ultimately show ?decoded
    using e be_value_bytes [OF e(7)] by (auto simp: decode_datagram_Inr be_bytes_def)
qed

section \<open>Downloads are verified\<close>

text \<open>The content a finished stream of blob items carries.\<close>

fun blob_bytes :: "GetBlobItem list \<Rightarrow> byte list option" where
  "blob_bytes [] = None"
| "blob_bytes (Leaf bs # items) = map_option (\<lambda>rest. bs @ rest) (blob_bytes items)"
| "blob_bytes (Parent # items) = blob_bytes items"
| "blob_bytes (Done # items) = Some []"
| "blob_bytes (BlobError e # items) = None"

lemma download_items_wp:
  assumes "\<And>e fs'. fs_files fs' = fs_files fs \<Longrightarrow> Q (Inl e) fs'"
    and "\<And>bs fs'. fs_files fs' = fs_files fs \<Longrightarrow> blob_bytes items = Some bs \<Longrightarrow>
      Q (Inr (temp\<lparr>f_bytes := f_bytes temp @ bs\<rparr>, count + length bs, True)) fs'"
    and "\<And>file' n fs'. fs_files fs' = fs_files fs \<Longrightarrow> blob_bytes items = None \<Longrightarrow> Q (Inr (file', n, False)) fs'"
  shows "io_wp (download_items E items temp count) Q fs"
  using assms
proof (induction items arbitrary: temp count fs Q)
  case (Cons item items)
  show ?case
  proof (cases item)
    case (Leaf bs)
    with Cons.prems(2) [where bs = "bs @ _"] show ?thesis
      by (auto intro!: quiet_rules Cons.IH Cons.prems(1,3) simp: add.assoc)
  next
    case Parent
    with Cons.prems show ?thesis by (auto intro!: Cons.IH)
  qed (use Cons.prems in simp_all)
qed simp

text \<open>C32: A download replaces its destination all at once and only with verified content: the file
  changes only to the complete content of a stream that reached its final verification, no other file is
  touched, and success means it did.\<close>

theorem download_is_verified:
  assumes "fetch_to_file E connected dest fs = (r, fs')"
  shows "(fs_files fs' = fs_files fs \<or> (\<exists>items bs. connected = Inr items \<and> blob_bytes items = Some bs \<and>
      fs_files fs' = (fs_files fs)(dest \<mapsto> \<lparr>f_bytes = bs, f_mode = PRIVATE_FILE_MODE\<rparr>))) \<and>
    (\<forall>n. r = Inr n \<longrightarrow> (\<exists>f. fs_files fs' dest = Some f \<and> length (f_bytes f) = n) \<and>
      (\<exists>items. connected = Inr items \<and> blob_bytes items = map_option f_bytes (fs_files fs' dest)))"
proof -
  have "io_wp (fetch_to_file E connected dest) (\<lambda>r fs'. (fs_files fs' = fs_files fs \<or>
      (\<exists>items bs. connected = Inr items \<and> blob_bytes items = Some bs \<and>
        fs_files fs' = (fs_files fs)(dest \<mapsto> \<lparr>f_bytes = bs, f_mode = PRIVATE_FILE_MODE\<rparr>))) \<and>
      (\<forall>n. r = Inr n \<longrightarrow> (\<exists>f. fs_files fs' dest = Some f \<and> length (f_bytes f) = n) \<and>
        (\<exists>items. connected = Inr items \<and> blob_bytes items = map_option f_bytes (fs_files fs' dest)))) fs"
    unfolding fetch_to_file_def install_download_def
    by (auto simp: Let_def ensure_def intro!: download_items_wp quiet_rules temp_persist_wp split: sum.split option.split)
  from io_wp_result [OF this assms] show ?thesis .
qed

theorem download_is_verified_witness:
  "fs_files (snd (fetch_to_file calm_disk (Inr [Parent, Leaf [1, 2], Leaf [3], Done]) state_path sample_fs)) state_path =
     Some \<lparr>f_bytes = [1, 2, 3], f_mode = PRIVATE_FILE_MODE\<rparr>"
proof -
  let ?items = "[Parent, Leaf [1, 2], Leaf [3], Done]"
  have "fst (fetch_to_file calm_disk (Inr ?items) state_path sample_fs) = Inr 3"
    by (simp add: fetch_to_file_def install_download_def io_then_def io_step_def io_call_def io_result_def io_check_def
        io_context_def io_map_err_def temp_write_all_def temp_sync_all_def temp_persist_def io_ok_def ensure_def
        calm_disk_def Let_def)
  with download_is_verified [of calm_disk "Inr ?items" state_path sample_fs, OF surjective_pairing]
  show ?thesis by (auto simp: sample_fs_def)
qed

end
