(* ===== verification/Edge_Session.thy ===== *)
theory Edge_Session
  imports Transport
begin

text \<open>
  Streaming requests of an edge (\<open>crates/as-edge/src/runtime.rs\<close>, \<open>exec.rs\<close>): running a command and
  bridging a local MCP server.  A session is a \<open>tokio::select!\<close> loop; what completes first is a list of
  events.  \<open>read_frame\<close> keeps the bytes of an unfinished frame in its future, so they are held only until
  another branch completes and the future is dropped.
\<close>

section \<open>Frames in a select loop\<close>

datatype 's progress = Going 's | Broke 's | Aborted string 's

datatype PolledFrame = Pending | Ready "string + Frame option" "byte list"

text \<open>How the receiving side ended: not yet, cleanly, or with an error.\<close>

type_synonym stream_end = "string option option"

definition frame_complete :: "byte list \<Rightarrow> bool" where
  "frame_complete buf \<longleftrightarrow> 5 \<le> length buf \<and>
     (case split_header (take 5 buf) of Inl _ \<Rightarrow> True | Inr (_, n) \<Rightarrow> 5 + n \<le> length buf)"

definition poll_frame :: "stream_end \<Rightarrow> byte list \<Rightarrow> PolledFrame" where
  "poll_frame ended buf = (if ended = None \<and> \<not> frame_complete buf then Pending
     else case read_frame \<lparr>in_bytes = buf, in_broken = (case ended of None \<Rightarrow> None | Some broken \<Rightarrow> broken)\<rparr> of
       (r, s) \<Rightarrow> Ready r (in_bytes s))"

lemma poll_frame_decreases: "poll_frame ended buf = Ready (Inr (Some f)) rest \<Longrightarrow> length rest < length buf"
  by (auto simp: poll_frame_def dest!: read_frame_decreases split: if_splits prod.splits)

function pump ::
  "('s \<Rightarrow> bool) \<Rightarrow> (Frame option \<Rightarrow> 's \<Rightarrow> 's progress) \<Rightarrow> stream_end \<Rightarrow> byte list \<Rightarrow> 's \<Rightarrow> 's progress \<times> byte list" where
  "pump reading on_frame ended buf s =
     (if \<not> reading s then (Going s, buf)
      else case poll_frame ended buf of
        Pending \<Rightarrow> (Going s, buf)
      | Ready (Inl e) rest \<Rightarrow> (Aborted e s, rest)
      | Ready (Inr None) rest \<Rightarrow> (on_frame None s, rest)
      | Ready (Inr (Some f)) rest \<Rightarrow> (case on_frame (Some f) s of
          Going s \<Rightarrow> pump reading on_frame ended rest s
        | stopped \<Rightarrow> (stopped, rest)))"
  by auto
termination
  by (relation "measure (\<lambda>(_, _, _, buf, _). length buf)") (auto dest: poll_frame_decreases)

declare pump.simps [simp del]

datatype 'c SelectEvent = Arrive "byte list" | ClientEnd "string option" | Other 'c

fun select_step ::
  "('s \<Rightarrow> bool) \<Rightarrow> (Frame option \<Rightarrow> 's \<Rightarrow> 's progress) \<Rightarrow> ('c \<Rightarrow> 's \<Rightarrow> 's progress) \<Rightarrow>
    'c SelectEvent \<Rightarrow> 's \<times> byte list \<Rightarrow> 's progress \<times> byte list" where
  "select_step reading on_frame on_other (Arrive bs) (s, held) = pump reading on_frame None (held @ bs) s"
| "select_step reading on_frame on_other (ClientEnd broken) (s, held) = pump reading on_frame (Some broken) held s"
| "select_step reading on_frame on_other (Other c) (s, held) = (on_other c s, [])"

fun select_run ::
  "('s \<Rightarrow> bool) \<Rightarrow> (Frame option \<Rightarrow> 's \<Rightarrow> 's progress) \<Rightarrow> ('c \<Rightarrow> 's \<Rightarrow> 's progress) \<Rightarrow>
    'c SelectEvent list \<Rightarrow> 's \<times> byte list \<Rightarrow> 's progress \<times> byte list" where
  "select_run reading on_frame on_other [] (s, held) = (Going s, held)"
| "select_run reading on_frame on_other (ev # evs) (s, held) =
     (case select_step reading on_frame on_other ev (s, held) of
        (Going s, held) \<Rightarrow> select_run reading on_frame on_other evs (s, held)
      | stopped \<Rightarrow> stopped)"

lemma select_run_append:
  "select_run r f h (us @ vs) (s, held) = (case select_run r f h us (s, held) of
      (Going s, held) \<Rightarrow> select_run r f h vs (s, held) | stopped \<Rightarrow> stopped)"
  by (induction us arbitrary: s held) (auto split: prod.splits progress.splits)

primrec progress_state :: "'s progress \<Rightarrow> 's" where
  "progress_state (Going s) = s"
| "progress_state (Broke s) = s"
| "progress_state (Aborted e s) = s"

text \<open>What handling a frame never changes, receiving never changes.\<close>

lemma pump_keeps:
  assumes "\<And>f s. g (progress_state (on_frame f s)) = g s"
  shows "g (progress_state (fst (pump reading on_frame ended buf s))) = g s"
proof (induction buf arbitrary: s rule: measure_induct_rule [of length])
  case (less buf)
  have kept: "on_frame f s = p \<Longrightarrow> g (progress_state p) = g s" for f p using assms by blast
  show ?case
    by (subst pump.simps)
      (auto simp: less.IH [OF poll_frame_decreases] assms dest!: kept split: PolledFrame.splits sum.splits option.splits progress.splits)
qed

section \<open>Commands\<close>

definition BUILTIN_COMMANDS :: "string list" where "BUILTIN_COMMANDS = [''fd'', ''rg'']"
definition BUILTIN_ENV :: string where "BUILTIN_ENV = ''AS_EDGE_BUILTIN''"
definition CHUNK :: nat where "CHUNK = 16 * 1024"

datatype Stdin = NullStdin | PipedStdin

record Command =
  cmd_program :: string
  cmd_env :: "(string \<times> string) list"
  cmd_args :: "string list"
  cmd_cwd :: "string option"
  cmd_stdin :: Stdin

definition build_command :: "string \<Rightarrow> ExecParams \<Rightarrow> Command" where
  "build_command current_exe params =
     (if xp_command params \<notin> set BUILTIN_COMMANDS
      then \<lparr>cmd_program = xp_command params, cmd_env = [], cmd_args = [], cmd_cwd = None, cmd_stdin = NullStdin\<rparr>
      else \<lparr>cmd_program = current_exe, cmd_env = [(BUILTIN_ENV, xp_command params)], cmd_args = [], cmd_cwd = None,
        cmd_stdin = NullStdin\<rparr>)"

text \<open>What has become of the child process of a request, and of the request itself: its result once it
  returned, the sending side and whether that was finished.\<close>

datatype Child = NoChild | ChildRunning Command | ChildKilled Command | ChildReaped Command

record Served =
  sd_result :: "(string + unit) option"
  sd_send :: OutStream
  sd_finished :: bool
  sd_child :: Child

definition write_error :: "Ext \<Rightarrow> string \<Rightarrow> OutStream \<Rightarrow> Served" where
  "write_error X e send =
     (case write_frame TResult (json_to_vec X (RpcResult_json (\<lambda>_. JNull) (RpcError (RemoteError_internal e) :: unit RpcResult))) send of
        (Inl e, send) \<Rightarrow> \<lparr>sd_result = Some (Inl e), sd_send = send, sd_finished = False, sd_child = NoChild\<rparr>
      | (Inr _, send) \<Rightarrow> \<lparr>sd_result = Some (Inr ()), sd_send = send, sd_finished = True, sd_child = NoChild\<rparr>)"

definition ok_result :: "Ext \<Rightarrow> byte list" where
  "ok_result X = json_to_vec X (RpcResult_json (\<lambda>_. JNull) (RpcOk ()))"

section \<open>\<open>run_exec\<close>\<close>

datatype ExecEvent = ExecOut "string + byte list" | ExecErr "string + byte list" | ClientGone

record ExecState =
  ex_send :: OutStream
  ex_stdout_done :: bool
  ex_stderr_done :: bool

text \<open>A branch whose guard is off is not polled: its event does not happen.\<close>

definition exec_step :: "ExecEvent \<Rightarrow> ExecState \<Rightarrow> ExecState progress" where
  "exec_step ev s = (case ev of
      ExecOut r \<Rightarrow> if ex_stdout_done s then Going s else (case r of
          Inl e \<Rightarrow> Aborted (''read child stdout: '' @ e) s
        | Inr [] \<Rightarrow> Going (s\<lparr>ex_stdout_done := True\<rparr>)
        | Inr (b # bs) \<Rightarrow> (case write_frame TStdout (b # bs) (ex_send s) of
            (Inl _, send) \<Rightarrow> Broke (s\<lparr>ex_send := send\<rparr>)
          | (Inr _, send) \<Rightarrow> Going (s\<lparr>ex_send := send\<rparr>)))
    | ExecErr r \<Rightarrow> if ex_stderr_done s then Going s else (case r of
          Inl e \<Rightarrow> Aborted (''read child stderr: '' @ e) s
        | Inr [] \<Rightarrow> Going (s\<lparr>ex_stderr_done := True\<rparr>)
        | Inr (b # bs) \<Rightarrow> (case write_frame TStderr (b # bs) (ex_send s) of
            (Inl _, send) \<Rightarrow> Broke (s\<lparr>ex_send := send\<rparr>)
          | (Inr _, send) \<Rightarrow> Going (s\<lparr>ex_send := send\<rparr>)))
    | ClientGone \<Rightarrow> if ex_stdout_done s \<and> ex_stderr_done s then Going s else Broke s)"

fun exec_loop :: "ExecEvent list \<Rightarrow> ExecState \<Rightarrow> ExecState progress \<times> bool" where
  "exec_loop [] s = (Going s, ex_stdout_done s \<and> ex_stderr_done s)"
| "exec_loop (ev # evs) s = (if ex_stdout_done s \<and> ex_stderr_done s then (Going s, True)
     else case exec_step ev s of Going s \<Rightarrow> exec_loop evs s | stopped \<Rightarrow> (stopped, False))"

text \<open>\<open>xe_wait\<close> is \<open>None\<close> while the child has not exited.\<close>

record ExecEnv =
  xe_current_exe :: string
  xe_spawn :: "Command \<Rightarrow> string + unit"
  xe_events :: "ExecEvent list"
  xe_wait :: "(string + int option) option"
  xe_finish :: "string + unit"

definition i32_le_bytes :: "int \<Rightarrow> byte list" where
  "i32_le_bytes c = le_bytes (nat (c mod 2 ^ 32))"

definition exec_command :: "ExecEnv \<Rightarrow> ExecParams \<Rightarrow> Command" where
  "exec_command V params = (build_command (xe_current_exe V) params)
     \<lparr>cmd_args := xp_args params, cmd_cwd := xp_cwd params, cmd_stdin := NullStdin\<rparr>"

definition run_exec :: "ExecEnv \<Rightarrow> ExecParams \<Rightarrow> OutStream \<Rightarrow> Served" where
  "run_exec V params send =
     (let cmd = exec_command V params in
      case xe_spawn V cmd of
        Inl error \<Rightarrow>
          (let send = snd (write_frame TStderr (string_bytes (''failed to spawn `'' @ xp_command params @ ''`: '' @ error)) send);
             send = snd (write_frame TExit (i32_le_bytes (- 1)) send) in
           \<lparr>sd_result = Some (Inr ()), sd_send = send, sd_finished = True, sd_child = NoChild\<rparr>)
      | Inr _ \<Rightarrow>
          (case exec_loop (xe_events V) \<lparr>ex_send = send, ex_stdout_done = False, ex_stderr_done = False\<rparr> of
             (Going s, False) \<Rightarrow>
               \<lparr>sd_result = None, sd_send = ex_send s, sd_finished = False, sd_child = ChildRunning cmd\<rparr>
           | (Broke s, _) \<Rightarrow>
               \<lparr>sd_result = Some (Inr ()), sd_send = ex_send s, sd_finished = False, sd_child = ChildKilled cmd\<rparr>
           | (Aborted e s, _) \<Rightarrow>
               \<lparr>sd_result = Some (Inl e), sd_send = ex_send s, sd_finished = False, sd_child = ChildKilled cmd\<rparr>
           | (Going s, True) \<Rightarrow> (case xe_wait V of
               None \<Rightarrow> \<lparr>sd_result = None, sd_send = ex_send s, sd_finished = False, sd_child = ChildRunning cmd\<rparr>
             | Some (Inl e) \<Rightarrow> \<lparr>sd_result = Some (Inl (''wait child: '' @ e)), sd_send = ex_send s, sd_finished = False,
                 sd_child = ChildKilled cmd\<rparr>
             | Some (Inr status) \<Rightarrow>
                 (let code = (case status of Some c \<Rightarrow> c | None \<Rightarrow> - 1) in
                  case write_frame TExit (i32_le_bytes code) (ex_send s) of
                    (Inl e, send) \<Rightarrow> \<lparr>sd_result = Some (Inl e), sd_send = send, sd_finished = False,
                      sd_child = ChildReaped cmd\<rparr>
                  | (Inr _, send) \<Rightarrow> (case xe_finish V of
                      Inl e \<Rightarrow> \<lparr>sd_result = Some (Inl (''finish: '' @ e)), sd_send = send, sd_finished = False,
                        sd_child = ChildReaped cmd\<rparr>
                    | Inr _ \<Rightarrow> \<lparr>sd_result = Some (Inr ()), sd_send = send, sd_finished = True,
                        sd_child = ChildReaped cmd\<rparr>)))))"

section \<open>\<open>mcp_stdio\<close>\<close>

text \<open>The child's standard input is a pipe that is written until it is dropped.\<close>

record McpSession =
  ms_client_open :: bool
  ms_stdin_open :: bool
  ms_stdin :: OutStream
  ms_stderr_open :: bool
  ms_send :: OutStream

datatype ChildEvent = ChildOut "string + byte list" | ChildErr "string + byte list"

definition mcp_frame :: "Frame option \<Rightarrow> McpSession \<Rightarrow> McpSession progress" where
  "mcp_frame frame s = (case frame of
      Some f \<Rightarrow>
        if fr_tag f = TData then
          (if ms_stdin_open s then
             (case write_all (fr_payload f) (ms_stdin s) of
                (Inl e, stdin) \<Rightarrow> Aborted e (s\<lparr>ms_stdin := stdin\<rparr>)
              | (Inr _, stdin) \<Rightarrow> Going (s\<lparr>ms_stdin := stdin\<rparr>))
           else Going s)
        else Going (s\<lparr>ms_stdin_open := False, ms_client_open := False\<rparr>)
    | None \<Rightarrow> Going (s\<lparr>ms_stdin_open := False, ms_client_open := False\<rparr>))"

definition mcp_child :: "ChildEvent \<Rightarrow> McpSession \<Rightarrow> McpSession progress" where
  "mcp_child ev s = (case ev of
      ChildOut (Inl _) \<Rightarrow> Broke s
    | ChildOut (Inr []) \<Rightarrow> Broke s
    | ChildOut (Inr (b # bs)) \<Rightarrow> (case write_frame TData (b # bs) (ms_send s) of
        (Inl _, send) \<Rightarrow> Broke (s\<lparr>ms_send := send\<rparr>)
      | (Inr _, send) \<Rightarrow> Going (s\<lparr>ms_send := send\<rparr>))
    | ChildErr r \<Rightarrow> if \<not> ms_stderr_open s then Going s else (case r of
        Inl _ \<Rightarrow> Going (s\<lparr>ms_stderr_open := False\<rparr>)
      | Inr [] \<Rightarrow> Going (s\<lparr>ms_stderr_open := False\<rparr>)
      | Inr (b # bs) \<Rightarrow> (case write_frame TStderr (b # bs) (ms_send s) of
          (Inl _, send) \<Rightarrow> Broke (s\<lparr>ms_send := send\<rparr>)
        | (Inr _, send) \<Rightarrow> Going (s\<lparr>ms_send := send\<rparr>))))"

abbreviation mcp_loop :: "ChildEvent SelectEvent list \<Rightarrow> McpSession \<times> byte list \<Rightarrow> McpSession progress \<times> byte list" where
  "mcp_loop \<equiv> select_run ms_client_open mcp_frame mcp_child"

definition mcp_command :: "string \<Rightarrow> string list \<Rightarrow> string option \<Rightarrow> Command" where
  "mcp_command command args cwd =
     \<lparr>cmd_program = command, cmd_env = [], cmd_args = args, cmd_cwd = cwd, cmd_stdin = PipedStdin\<rparr>"

record McpEnv =
  me_spawn :: "Command \<Rightarrow> string + OutStream"
  me_events :: "ChildEvent SelectEvent list"

definition mcp_start :: "OutStream \<Rightarrow> OutStream \<Rightarrow> McpSession" where
  "mcp_start stdin send = \<lparr>ms_client_open = True, ms_stdin_open = True, ms_stdin = stdin, ms_stderr_open = True, ms_send = send\<rparr>"

definition mcp_stdio ::
  "Ext \<Rightarrow> McpEnv \<Rightarrow> string \<Rightarrow> string list \<Rightarrow> string option \<Rightarrow> OutStream \<Rightarrow> Served" where
  "mcp_stdio X V command args cwd send =
     (let cmd = mcp_command command args cwd in
      case me_spawn V cmd of
        Inl error \<Rightarrow> write_error X (''spawn MCP `'' @ command @ ''`: '' @ error) send
      | Inr stdin \<Rightarrow> (case write_frame TResult (ok_result X) send of
          (Inl e, send) \<Rightarrow> \<lparr>sd_result = Some (Inl e), sd_send = send, sd_finished = False, sd_child = ChildKilled cmd\<rparr>
        | (Inr _, send) \<Rightarrow> (case mcp_loop (me_events V) (mcp_start stdin send, []) of
            (Going s, _) \<Rightarrow> \<lparr>sd_result = None, sd_send = ms_send s, sd_finished = False, sd_child = ChildRunning cmd\<rparr>
          | (Broke s, _) \<Rightarrow> \<lparr>sd_result = Some (Inr ()), sd_send = ms_send s, sd_finished = True, sd_child = ChildKilled cmd\<rparr>
          | (Aborted e s, _) \<Rightarrow>
              \<lparr>sd_result = Some (Inl e), sd_send = ms_send s, sd_finished = False, sd_child = ChildKilled cmd\<rparr>)))"

section \<open>What a select loop receives\<close>

lemma strict_prefix_incomplete:
  assumes "frame_fits f" "strict_prefix p (frame_bytes f)"
  shows "\<not> frame_complete p"
proof (cases "5 \<le> length p")
  case True
  obtain q where q: "frame_bytes f = p @ q" "q \<noteq> []" using assms(2) by (auto simp: strict_prefix_def prefix_def)
  have "take 5 p = take 5 (frame_bytes f)" using True by (simp add: q(1))
  then have "take 5 p = tag_byte (fr_tag f) # le_bytes (length (fr_payload f))" by (simp add: frame_bytes_def)
  moreover have "length p < 5 + length (fr_payload f)"
    using prefix_length_less [OF assms(2)] by (simp add: frame_bytes_def)
  ultimately show ?thesis using assms(1) by (simp add: frame_complete_def read_header frame_fits_def)
qed (simp add: frame_complete_def)

lemma empty_incomplete [simp]: "\<not> frame_complete []"
  by (simp add: frame_complete_def)

lemma poll_frame_frame:
  assumes "frame_fits f"
  shows "poll_frame ended (frame_bytes f @ rest) = Ready (Inr (Some f)) rest"
proof -
  have "take 5 (frame_bytes f @ rest) = tag_byte (fr_tag f) # le_bytes (length (fr_payload f))"
    by (simp add: frame_bytes_def)
  then have "frame_complete (frame_bytes f @ rest)"
    using assms by (simp add: frame_complete_def read_header frame_fits_def) (simp add: frame_bytes_def)
  then show ?thesis by (simp add: poll_frame_def read_frame_frame [OF assms])
qed

text \<open>A prefix of frames is some whole frames and the beginning of the next.\<close>

definition cut_of :: "Frame list \<Rightarrow> nat \<Rightarrow> byte list \<Rightarrow> bool" where
  "cut_of fs k p \<longleftrightarrow> k \<le> length fs \<and> (p = [] \<or> k < length fs \<and> strict_prefix p (frame_bytes (fs ! k)))"

abbreviation frames_bytes :: "Frame list \<Rightarrow> byte list" where
  "frames_bytes fs \<equiv> concat (map frame_bytes fs)"

lemma prefix_of_frames: "prefix q (frames_bytes fs) \<Longrightarrow> \<exists>k p. q = frames_bytes (take k fs) @ p \<and> cut_of fs k p"
proof (induction fs arbitrary: q)
  case (Cons f fs)
  show ?case
  proof (cases "prefix (frame_bytes f) q")
    case True
    then obtain q' where q: "q = frame_bytes f @ q'" by (auto simp: prefix_def)
    with Cons.prems have "prefix q' (frames_bytes fs)" by simp
    from Cons.IH [OF this] obtain k p where "q' = frames_bytes (take k fs) @ p" "cut_of fs k p" by blast
    then have "q = frames_bytes (take (Suc k) (f # fs)) @ p \<and> cut_of (f # fs) (Suc k) p" by (simp add: q cut_of_def)
    then show ?thesis by blast
  next
    case False
    then have "strict_prefix q (frame_bytes f)"
      using Cons.prems prefix_same_cases [of q "frames_bytes (f # fs)" "frame_bytes f"] by (auto simp: strict_prefix_def)
    then have "q = frames_bytes (take 0 (f # fs)) @ q \<and> cut_of (f # fs) 0 q" by (simp add: cut_of_def)
    then show ?thesis by blast
  qed
qed (auto simp: cut_of_def)

lemma frames_take_mono: "j \<le> k \<Longrightarrow> length (frames_bytes (take j fs)) \<le> length (frames_bytes (take k fs))"
proof -
  assume "j \<le> k"
  then have "take k fs = take j fs @ take (k - j) (drop j fs)" by (metis take_add le_add_diff_inverse)
  then show ?thesis by simp
qed

lemma cut_at_boundary:
  assumes "frames_bytes (take k fs) @ p = frames_bytes (take j fs)" "cut_of fs k p"
  shows "p = []"
proof (rule ccontr)
  assume "p \<noteq> []"
  with assms(2) have k: "k < length fs" "strict_prefix p (frame_bytes (fs ! k))" by (auto simp: cut_of_def)
  have "length p < length (frame_bytes (fs ! k))" using k(2) by (rule prefix_length_less)
  then have "length (frames_bytes (take j fs)) < length (frames_bytes (take (Suc k) fs))"
    unfolding assms(1) [symmetric] using k(1) by (simp add: take_Suc_conv_app_nth)
  then have "j \<le> k" using frames_take_mono [of "Suc k" j fs] by linarith
  then have "length (frames_bytes (take j fs)) \<le> length (frames_bytes (take k fs))" by (rule frames_take_mono)
  with assms(1) \<open>p \<noteq> []\<close> show False by (metis le_antisym length_append less_not_refl le_add1 append_self_conv length_0_conv add_cancel_right_right)
qed

fun arrived :: "'c SelectEvent list \<Rightarrow> byte list" where
  "arrived [] = []"
| "arrived (Arrive bs # evs) = bs @ arrived evs"
| "arrived (_ # evs) = arrived evs"

lemma arrived_append [simp]: "arrived (us @ vs) = arrived us @ arrived vs"
  by (induction us rule: arrived.induct) auto

text \<open>No other branch completes while a frame is only partly received.\<close>

definition between_frames :: "Frame list \<Rightarrow> 'c SelectEvent list \<Rightarrow> bool" where
  "between_frames fs evs \<longleftrightarrow> (\<forall>us c vs. evs = us @ Other c # vs \<longrightarrow> (\<exists>k. arrived us = frames_bytes (take k fs)))"

text \<open>The loop is going, has handled the whole frames of what arrived and holds the rest.\<close>

definition caught_up ::
  "('s \<Rightarrow> bool) \<Rightarrow> ('s \<Rightarrow> 'g list) \<Rightarrow> (Frame \<Rightarrow> 'g list) \<Rightarrow> 's \<Rightarrow> Frame list \<Rightarrow> byte list \<Rightarrow> 's progress \<times> byte list \<Rightarrow> bool" where
  "caught_up ready got msg s0 fs bs r \<longleftrightarrow> (\<exists>k p s. r = (Going s, p) \<and> bs = frames_bytes (take k fs) @ p \<and> cut_of fs k p \<and>
     ready s \<and> got s = got s0 @ concat (map msg (take k fs)))"

locale framed_loop =
  fixes reading :: "'s \<Rightarrow> bool"
    and on_frame :: "Frame option \<Rightarrow> 's \<Rightarrow> 's progress"
    and on_other :: "'c \<Rightarrow> 's \<Rightarrow> 's progress"
    and ready :: "'s \<Rightarrow> bool"
    and accepts :: "Frame \<Rightarrow> bool"
    and calm :: "'c \<Rightarrow> bool"
    and got :: "'s \<Rightarrow> 'g list"
    and msg :: "Frame \<Rightarrow> 'g list"
  assumes ready_reading: "ready s \<Longrightarrow> reading s"
    and takes_frame: "ready s \<Longrightarrow> accepts f \<Longrightarrow> \<exists>s'. on_frame (Some f) s = Going s' \<and> ready s' \<and> got s' = got s @ msg f"
    and calm_keeps: "ready s \<Longrightarrow> calm c \<Longrightarrow> \<exists>s'. on_other c s = Going s' \<and> ready s' \<and> got s' = got s"
begin

lemma pump_frames:
  assumes "ready s" "list_all (\<lambda>f. frame_fits f \<and> accepts f) fs" "\<not> frame_complete p"
  shows "\<exists>s'. pump reading on_frame None (frames_bytes fs @ p) s = (Going s', p) \<and> ready s' \<and> got s' = got s @ concat (map msg fs)"
  using assms(1,2)
proof (induction fs arbitrary: s)
  case Nil
  then show ?case using assms(3) ready_reading by (subst pump.simps) (auto simp: poll_frame_def)
next
  case (Cons f fs)
  then obtain s' where s': "on_frame (Some f) s = Going s'" "ready s'" "got s' = got s @ msg f"
    using takes_frame [of s f] by auto
  with Cons.IH [OF s'(2)] Cons.prems ready_reading [of s] show ?case
    by (subst pump.simps) (auto simp: poll_frame_frame)
qed

lemma arrive_caught_up:
  assumes "cut_of fs k p" "ready s" "got s = got s0 @ concat (map msg (take k fs))"
    "list_all (\<lambda>f. frame_fits f \<and> accepts f) fs" "prefix (frames_bytes (take k fs) @ p @ bs) (frames_bytes fs)"
  shows "caught_up ready got msg s0 fs (frames_bytes (take k fs) @ p @ bs) (pump reading on_frame None (p @ bs) s)"
proof -
  have "frames_bytes fs = frames_bytes (take k fs) @ frames_bytes (drop k fs)"
    by (metis append_take_drop_id concat_append map_append)
  with assms(5) have "prefix (p @ bs) (frames_bytes (drop k fs))" by simp
  from prefix_of_frames [OF this] obtain j q where
    q: "p @ bs = frames_bytes (take j (drop k fs)) @ q" "cut_of (drop k fs) j q" by blast
  have fits: "list_all (\<lambda>f. frame_fits f \<and> accepts f) (take j (drop k fs))"
    using assms(4) by (auto simp: list_all_iff dest!: in_set_takeD in_set_dropD)
  have part: "\<not> frame_complete q"
    using q(2) assms(4) strict_prefix_incomplete [of "fs ! (k + j)" q] by (auto simp: cut_of_def list_all_iff)
  from pump_frames [OF assms(2) fits part] obtain s' where
    s': "pump reading on_frame None (p @ bs) s = (Going s', q)" "ready s'"
    "got s' = got s @ concat (map msg (take j (drop k fs)))" unfolding q(1) by blast
  moreover have "cut_of fs (k + j) q" using q(2) assms(1) by (auto simp: cut_of_def)
  ultimately show ?thesis unfolding caught_up_def
    by (intro exI [of _ "k + j"] exI [of _ q] exI [of _ s']) (simp add: q(1) assms(3) take_add)
qed

lemma run_caught_up:
  assumes "ready s0" "list_all (\<lambda>f. frame_fits f \<and> accepts f) fs" "between_frames fs evs"
    "prefix (arrived evs) (frames_bytes fs)" "\<forall>ev \<in> set evs. case ev of Other c \<Rightarrow> calm c | ClientEnd _ \<Rightarrow> False | Arrive _ \<Rightarrow> True"
  shows "caught_up ready got msg s0 fs (arrived evs) (select_run reading on_frame on_other evs (s0, []))"
  using assms(3-5)
proof (induction evs rule: rev_induct)
  case Nil
  then show ?case using assms(1) by (auto simp: caught_up_def cut_of_def intro!: exI [of _ 0])
next
  case (snoc ev evs)
  have "between_frames fs evs" "prefix (arrived evs) (frames_bytes fs)"
    using snoc.prems(1,2) by (auto simp: between_frames_def append_prefixD)
  with snoc.IH snoc.prems(3) obtain k p s where
    s: "select_run reading on_frame on_other evs (s0, []) = (Going s, p)" "arrived evs = frames_bytes (take k fs) @ p"
    "cut_of fs k p" "ready s" "got s = got s0 @ concat (map msg (take k fs))" by (auto simp: caught_up_def)
  show ?case
  proof (cases ev)
    case (Arrive bs)
    then have "caught_up ready got msg s0 fs (arrived (evs @ [ev])) (pump reading on_frame None (p @ bs) s)"
      using arrive_caught_up [OF s(3-5) assms(2)] s(2) snoc.prems(2) by simp
    with Arrive s(1) show ?thesis by (auto simp: select_run_append caught_up_def)
  next
    case (Other c)
    obtain j where "arrived evs = frames_bytes (take j fs)"
      using snoc.prems(1) Other by (auto simp: between_frames_def)
    with s(2) cut_at_boundary [OF _ s(3), of j] have "p = []" by simp
    moreover obtain s' where "on_other c s = Going s'" "ready s'" "got s' = got s"
      using calm_keeps [OF s(4)] snoc.prems(3) Other by auto
    ultimately show ?thesis using s Other by (auto simp: select_run_append caught_up_def intro!: exI [of _ k])
  qed (use snoc.prems(3) in auto)
qed

lemma frames_received:
  assumes "ready s0" "list_all (\<lambda>f. frame_fits f \<and> accepts f) fs" "between_frames fs evs"
    "arrived evs = frames_bytes fs" "\<forall>ev \<in> set evs. case ev of Other c \<Rightarrow> calm c | ClientEnd _ \<Rightarrow> False | Arrive _ \<Rightarrow> True"
  shows "\<exists>s. select_run reading on_frame on_other evs (s0, []) = (Going s, []) \<and> ready s \<and> got s = got s0 @ concat (map msg fs)"
proof -
  have "caught_up ready got msg s0 fs (frames_bytes fs) (select_run reading on_frame on_other evs (s0, []))"
    using run_caught_up [OF assms(1-3) _ assms(5)] assms(4) by simp
  then obtain k p s where s: "select_run reading on_frame on_other evs (s0, []) = (Going s, p)"
    "frames_bytes fs = frames_bytes (take k fs) @ p" "cut_of fs k p" "ready s"
    "got s = got s0 @ concat (map msg (take k fs))" by (auto simp: caught_up_def)
  have "p = []" using s(2,3) cut_at_boundary [of k fs p "length fs"] by simp
  moreover have "k = length fs"
  proof (rule ccontr)
    assume "k \<noteq> length fs"
    then have "k < length fs" using s(3) by (auto simp: cut_of_def)
    then have "frames_bytes fs = frames_bytes (take k fs) @ frame_bytes (fs ! k) @ frames_bytes (drop (Suc k) fs)"
      by (metis append_Cons append_Nil concat.simps(2) concat_append id_take_nth_drop list.simps(9) map_append)
    with s(2) \<open>p = []\<close> show False by (simp add: frame_bytes_def)
  qed
  ultimately show ?thesis using s by auto
qed

end

section \<open>Sessions\<close>

lemma write_frame_room:
  "out_room send = None \<Longrightarrow> length bs \<le> MAX_FRAME \<Longrightarrow> write_frame t bs send =
    (Inr (), send\<lparr>out_bytes := out_bytes send @ frame_bytes \<lparr>fr_tag = t, fr_payload = bs\<rparr>\<rparr>)"
  by (simp add: write_frame_def frame_header write_all_def frame_bytes_def)

text \<open>An MCP session in which neither the child nor the client has gone.\<close>

definition mcp_ready :: "McpSession \<Rightarrow> bool" where
  "mcp_ready s \<longleftrightarrow> ms_client_open s \<and> ms_stdin_open s \<and> out_room (ms_stdin s) = None \<and> out_room (ms_send s) = None"

fun child_calm :: "ChildEvent \<Rightarrow> bool" where
  "child_calm (ChildOut (Inr bs)) \<longleftrightarrow> bs \<noteq> [] \<and> length bs \<le> MAX_FRAME"
| "child_calm (ChildOut (Inl _)) \<longleftrightarrow> False"
| "child_calm (ChildErr (Inr bs)) \<longleftrightarrow> length bs \<le> MAX_FRAME"
| "child_calm (ChildErr (Inl _)) \<longleftrightarrow> True"

interpretation mcp_session: framed_loop ms_client_open mcp_frame mcp_child mcp_ready
  "\<lambda>f. fr_tag f = TData" child_calm "\<lambda>s. out_bytes (ms_stdin s)" fr_payload
proof
  fix s :: McpSession and f :: Frame
  assume "mcp_ready s" "fr_tag f = TData"
  then show "\<exists>s'. mcp_frame (Some f) s = Going s' \<and> mcp_ready s' \<and> out_bytes (ms_stdin s') = out_bytes (ms_stdin s) @ fr_payload f"
    by (simp add: mcp_ready_def mcp_frame_def write_all_def)
next
  fix s :: McpSession and c :: ChildEvent
  assume "mcp_ready s" "child_calm c"
  then show "\<exists>s'. mcp_child c s = Going s' \<and> mcp_ready s' \<and> out_bytes (ms_stdin s') = out_bytes (ms_stdin s)"
    by (cases c rule: child_calm.cases) (auto simp: mcp_ready_def mcp_child_def write_frame_room split: list.splits)
qed (simp add: mcp_ready_def)

section \<open>Output of a command\<close>

fun stdout_of :: "bool \<Rightarrow> ExecEvent list \<Rightarrow> byte list" where
  "stdout_of closed [] = []"
| "stdout_of closed (ExecOut (Inr bs) # evs) = (if closed \<or> bs = [] then stdout_of True evs else bs @ stdout_of False evs)"
| "stdout_of closed (_ # evs) = stdout_of closed evs"

fun stderr_of :: "bool \<Rightarrow> ExecEvent list \<Rightarrow> byte list" where
  "stderr_of closed [] = []"
| "stderr_of closed (ExecErr (Inr bs) # evs) = (if closed \<or> bs = [] then stderr_of True evs else bs @ stderr_of False evs)"
| "stderr_of closed (_ # evs) = stderr_of closed evs"

lemma closed_stream_silent [simp]: "stdout_of True evs = []" "stderr_of True evs = []"
proof -
  have "closed \<Longrightarrow> stdout_of closed evs = []" for closed by (induction closed evs rule: stdout_of.induct) auto
  moreover have "closed \<Longrightarrow> stderr_of closed evs = []" for closed by (induction closed evs rule: stderr_of.induct) auto
  ultimately show "stdout_of True evs = []" "stderr_of True evs = []" by simp_all
qed

definition payloads :: "FrameTag \<Rightarrow> Frame list \<Rightarrow> byte list" where
  "payloads t fs = concat (map fr_payload (filter (\<lambda>f. fr_tag f = t) fs))"

fun exec_fine :: "ExecEvent \<Rightarrow> bool" where
  "exec_fine (ExecOut (Inr bs)) \<longleftrightarrow> length bs \<le> CHUNK"
| "exec_fine (ExecErr (Inr bs)) \<longleftrightarrow> length bs \<le> CHUNK"
| "exec_fine _ \<longleftrightarrow> False"

text \<open>The state of the loop after it relayed some frames.\<close>

definition relayed :: "ExecEvent list \<Rightarrow> ExecState \<Rightarrow> ExecState \<Rightarrow> bool" where
  "relayed evs s s' \<longleftrightarrow> out_room (ex_send s') = None \<and>
     (ex_stdout_done s' \<longleftrightarrow> ex_stdout_done s \<or> ExecOut (Inr []) \<in> set evs) \<and>
     (ex_stderr_done s' \<longleftrightarrow> ex_stderr_done s \<or> ExecErr (Inr []) \<in> set evs) \<and>
     (\<exists>fs. out_bytes (ex_send s') = out_bytes (ex_send s) @ frames_bytes fs \<and>
       fr_tag ` set fs \<subseteq> {TStdout, TStderr} \<and>
       payloads TStdout fs = stdout_of (ex_stdout_done s) evs \<and> payloads TStderr fs = stderr_of (ex_stderr_done s) evs)"

lemma relayed_Nil: "out_room (ex_send s) = None \<Longrightarrow> relayed [] s s"
  by (auto simp: relayed_def payloads_def intro!: exI [of _ "[]"])

lemma relayed_done: "out_room (ex_send s) = None \<Longrightarrow> ex_stdout_done s \<Longrightarrow> ex_stderr_done s \<Longrightarrow> relayed evs s s"
  by (auto simp: relayed_def payloads_def intro!: exI [of _ "[]"])

lemma exec_step_relays:
  assumes "exec_fine ev" "out_room (ex_send s) = None"
  shows "\<exists>s1. exec_step ev s = Going s1 \<and> out_room (ex_send s1) = None \<and> (\<forall>evs s'. relayed evs s1 s' \<longrightarrow> relayed (ev # evs) s s')"
proof -
  have fits: "length bs \<le> CHUNK \<Longrightarrow> length bs \<le> MAX_FRAME" for bs :: "byte list"
    by (simp add: CHUNK_def MAX_FRAME_def)
  have frame: "relayed (ev # evs) s s'"
    if "relayed evs (s\<lparr>ex_send := ex_send s\<lparr>out_bytes := out_bytes (ex_send s) @ frame_bytes f\<rparr>\<rparr>) s'"
      "fr_tag f \<in> {TStdout, TStderr}" "fr_payload f \<noteq> []"
      "ev = (if fr_tag f = TStdout then ExecOut (Inr (fr_payload f)) else ExecErr (Inr (fr_payload f)))"
      "\<not> (if fr_tag f = TStdout then ex_stdout_done s else ex_stderr_done s)" for evs s' f
  proof -
    from that(1) obtain fs where fs: "out_bytes (ex_send s') = out_bytes (ex_send s) @ frames_bytes (f # fs)"
      "fr_tag ` set fs \<subseteq> {TStdout, TStderr}" "payloads TStdout fs = stdout_of (ex_stdout_done s) evs"
      "payloads TStderr fs = stderr_of (ex_stderr_done s) evs" by (auto simp: relayed_def)
    have "payloads TStdout (f # fs) = stdout_of (ex_stdout_done s) (ev # evs)"
      "payloads TStderr (f # fs) = stderr_of (ex_stderr_done s) (ev # evs)"
      using fs(3,4) that(2-5) by (auto simp: payloads_def split: if_splits)
    then show ?thesis using that fs(1,2) unfolding relayed_def
      by (intro conjI exI [of _ "f # fs"]) (auto simp: relayed_def split: if_splits)
  qed
  show ?thesis
  proof (cases ev)
    case (ExecOut r)
    show ?thesis
    proof (cases "ex_stdout_done s \<or> r = Inr []")
      case True
      then show ?thesis using ExecOut assms by (auto simp: exec_step_def relayed_def)
    next
      case False
      then have "\<exists>b bs. r = Inr (b # bs)" using ExecOut assms(1) by (cases r) (auto simp: neq_Nil_conv)
      then obtain b bs where "r = Inr (b # bs)" by blast
      then show ?thesis using False ExecOut assms frame [of _ "\<lparr>fr_tag = TStdout, fr_payload = b # bs\<rparr>"] fits [of "b # bs"]
        by (auto simp: exec_step_def write_frame_room)
    qed
  next
    case (ExecErr r)
    show ?thesis
    proof (cases "ex_stderr_done s \<or> r = Inr []")
      case True
      then show ?thesis using ExecErr assms by (auto simp: exec_step_def relayed_def)
    next
      case False
      then have "\<exists>b bs. r = Inr (b # bs)" using ExecErr assms(1) by (cases r) (auto simp: neq_Nil_conv)
      then obtain b bs where "r = Inr (b # bs)" by blast
      then show ?thesis using False ExecErr assms frame [of _ "\<lparr>fr_tag = TStderr, fr_payload = b # bs\<rparr>"] fits [of "b # bs"]
        by (auto simp: exec_step_def write_frame_room)
    qed
  qed (use assms(1) in simp)
qed

lemma exec_loop_relays:
  assumes "list_all exec_fine evs" "out_room (ex_send s) = None"
  shows "\<exists>s'. exec_loop evs s = (Going s', ex_stdout_done s' \<and> ex_stderr_done s') \<and> relayed evs s s'"
  using assms
proof (induction evs arbitrary: s)
  case (Cons ev evs)
  show ?case
  proof (cases "ex_stdout_done s \<and> ex_stderr_done s")
    case True
    then show ?thesis using Cons.prems(2) relayed_done [of s "ev # evs"] by simp
  next
    case False
    obtain s1 where s1: "exec_step ev s = Going s1" "out_room (ex_send s1) = None"
      "\<And>s'. relayed evs s1 s' \<Longrightarrow> relayed (ev # evs) s s'"
      using exec_step_relays [of ev s] Cons.prems by auto
    from Cons.IH [OF _ s1(2)] Cons.prems(1) s1(1,3) False show ?thesis by auto
  qed
qed (auto intro: relayed_Nil)

lemma exec_step_done:
  assumes "exec_step ev s = Going s1"
  shows "(ex_stdout_done s1 \<longleftrightarrow> ex_stdout_done s \<or> ev = ExecOut (Inr [])) \<and>
    (ex_stderr_done s1 \<longleftrightarrow> ex_stderr_done s \<or> ev = ExecErr (Inr []))"
  using assms by (auto simp: exec_step_def split: ExecEvent.splits sum.splits list.splits if_splits prod.splits)

lemma exec_gone:
  assumes "list_all exec_fine us" "out_room (ex_send s) = None" "\<not> ex_stdout_done s \<or> \<not> ex_stderr_done s"
    "\<not> (ex_stdout_done s \<or> ExecOut (Inr []) \<in> set us) \<or> \<not> (ex_stderr_done s \<or> ExecErr (Inr []) \<in> set us)"
  shows "\<exists>s'. exec_loop (us @ ClientGone # vs) s = (Broke s', False) \<and> relayed us s s'"
  using assms
proof (induction us arbitrary: s)
  case Nil
  then show ?case by (auto simp: exec_step_def intro: relayed_Nil)
next
  case (Cons ev us)
  obtain s1 where s1: "exec_step ev s = Going s1" "out_room (ex_send s1) = None"
    "\<And>s'. relayed us s1 s' \<Longrightarrow> relayed (ev # us) s s'"
    using exec_step_relays [of ev s] Cons.prems by auto
  have "(ex_stdout_done s1 \<longleftrightarrow> ex_stdout_done s \<or> ev = ExecOut (Inr [])) \<and>
      (ex_stderr_done s1 \<longleftrightarrow> ex_stderr_done s \<or> ev = ExecErr (Inr []))"
    by (rule exec_step_done [OF s1(1)])
  with Cons.IH [of s1] Cons.prems s1 show ?case by auto
qed

abbreviation exec_start :: "OutStream \<Rightarrow> ExecState" where
  "exec_start send \<equiv> \<lparr>ex_send = send, ex_stdout_done = False, ex_stderr_done = False\<rparr>"

lemma exec_loop_closed:
  assumes "list_all exec_fine us" "out_room (ex_send s) = None"
    "ex_stdout_done s \<or> ExecOut (Inr []) \<in> set us" "ex_stderr_done s \<or> ExecErr (Inr []) \<in> set us"
  shows "exec_loop (us @ vs) s = exec_loop us s"
  using assms
proof (induction us arbitrary: s)
  case Nil
  then show ?case by (cases vs) simp_all
next
  case (Cons ev us)
  obtain s1 where s1: "exec_step ev s = Going s1" "out_room (ex_send s1) = None"
    using exec_step_relays [of ev s] Cons.prems by auto
  have "(ex_stdout_done s1 \<longleftrightarrow> ex_stdout_done s \<or> ev = ExecOut (Inr [])) \<and>
      (ex_stderr_done s1 \<longleftrightarrow> ex_stderr_done s \<or> ev = ExecErr (Inr []))" by (rule exec_step_done [OF s1(1)])
  with Cons.IH [of s1] Cons.prems s1 show ?case by auto
qed

text \<open>Once both outputs are closed the loop is over, whatever else happens.\<close>

lemma run_exec_closes:
  assumes "xe_spawn V (exec_command V params) = Inr ()" "out_room send = None" "list_all exec_fine us"
    "xe_events V = us @ vs" "ExecOut (Inr []) \<in> set us" "ExecErr (Inr []) \<in> set us"
  shows "\<exists>s. relayed us (exec_start send) s \<and>
    (xe_wait V = None \<longrightarrow> run_exec V params send = \<lparr>sd_result = None, sd_send = ex_send s, sd_finished = False,
       sd_child = ChildRunning (exec_command V params)\<rparr>) \<and>
    (xe_wait V = Some (Inr (Some code)) \<and> xe_finish V = Inr () \<longrightarrow> run_exec V params send =
      \<lparr>sd_result = Some (Inr ()), sd_send = (ex_send s)\<lparr>out_bytes := out_bytes (ex_send s) @
          frame_bytes \<lparr>fr_tag = TExit, fr_payload = i32_le_bytes code\<rparr>\<rparr>,
        sd_finished = True, sd_child = ChildReaped (exec_command V params)\<rparr>)"
proof -
  obtain s where s: "exec_loop us (exec_start send) = (Going s, ex_stdout_done s \<and> ex_stderr_done s)" "relayed us (exec_start send) s"
    using exec_loop_relays [OF assms(3), of "exec_start send"] assms(2) by auto
  have "ex_stdout_done s" "ex_stderr_done s" "out_room (ex_send s) = None"
    using s(2) assms(5,6) by (auto simp: relayed_def)
  moreover have "exec_loop (us @ vs) (exec_start send) = exec_loop us (exec_start send)"
    using assms by (intro exec_loop_closed) auto
  ultimately show ?thesis using s assms
    by (intro exI [of _ s]) (simp add: run_exec_def write_frame_room i32_le_bytes_def MAX_FRAME_def)
qed

lemma run_exec_killed:
  assumes "xe_spawn V (exec_command V params) = Inr ()" "out_room send = None" "list_all exec_fine us"
    "xe_events V = us @ ClientGone # vs" "ExecOut (Inr []) \<notin> set us \<or> ExecErr (Inr []) \<notin> set us"
  shows "\<exists>s. relayed us (exec_start send) s \<and> run_exec V params send =
    \<lparr>sd_result = Some (Inr ()), sd_send = ex_send s, sd_finished = False, sd_child = ChildKilled (exec_command V params)\<rparr>"
  using exec_gone [OF assms(3), of "exec_start send" vs] assms(1,2,4,5) by (auto simp: run_exec_def)

section \<open>Properties\<close>

text \<open>C36: What an MCP client sends reaches the local server.  However the bytes are cut on the way, if no
  output of the child arrives inside a frame, the session goes on and the child's standard input is exactly
  the payloads of the frames sent, in order.\<close>

theorem mcp_input_delivered:
  assumes "out_room stdin = None" "out_room send = None" "list_all (\<lambda>f. frame_fits f \<and> fr_tag f = TData) fs"
    "between_frames fs evs" "arrived evs = frames_bytes fs"
    "\<forall>ev \<in> set evs. case ev of Other c \<Rightarrow> child_calm c | ClientEnd _ \<Rightarrow> False | Arrive _ \<Rightarrow> True"
  shows "\<exists>s. mcp_loop evs (mcp_start stdin send, []) = (Going s, []) \<and>
    out_bytes (ms_stdin s) = out_bytes stdin @ concat (map fr_payload fs)"
proof -
  have "mcp_ready (mcp_start stdin send)" using assms(1,2) by (simp add: mcp_ready_def mcp_start_def)
  from mcp_session.frames_received [OF this assms(3-6)] show ?thesis by (auto simp: mcp_start_def)
qed

definition ping_frame :: Frame where
  "ping_frame = \<lparr>fr_tag = TData, fr_payload = [123, 34, 105, 100, 34, 58, 49, 125, 10]\<rparr>"

definition quiet_stream :: OutStream where
  "quiet_stream = \<lparr>out_bytes = [], out_room = None\<rparr>"

definition ping_events :: "ChildEvent SelectEvent list" where
  "ping_events = [Arrive (take 3 (frame_bytes ping_frame)), Arrive (drop 3 (frame_bytes ping_frame)),
     Other (ChildOut (Inr [123, 125, 10]))]"

theorem mcp_input_delivered_witness:
  "\<exists>s. mcp_loop ping_events (mcp_start quiet_stream quiet_stream, []) = (Going s, []) \<and>
    out_bytes (ms_stdin s) = fr_payload ping_frame"
proof -
  have "between_frames [ping_frame] ping_events"
    unfolding between_frames_def ping_events_def
    by (auto simp: Cons_eq_append_conv intro!: exI [of _ 1])
  moreover have "list_all (\<lambda>f. frame_fits f \<and> fr_tag f = TData) [ping_frame]"
    by (simp add: ping_frame_def frame_fits_def MAX_FRAME_def)
  ultimately show ?thesis
    using mcp_input_delivered [of quiet_stream quiet_stream "[ping_frame]" ping_events]
    by (simp add: quiet_stream_def ping_events_def MAX_FRAME_def)
qed

text \<open>C37: A frame interrupted by output of the child ends the session.  When the header of a message has
  been read and the child writes before its payload arrives, the header is lost with the dropped read, the
  payload is taken for a header, and the session is aborted with nothing of the message delivered.\<close>

theorem mcp_interrupted_frame_aborts:
  assumes "fr_tag f = TData" "frame_fits f" "fr_payload f = 123 # rest" "4 \<le> length rest"
    "mcp_ready s" "out \<noteq> []" "length out \<le> MAX_FRAME"
  shows "\<exists>s' held. mcp_loop [Arrive (take 5 (frame_bytes f)), Other (ChildOut (Inr out)), Arrive (drop 5 (frame_bytes f))]
      (s, []) = (Aborted ''unknown frame tag 123'' s', held) \<and> ms_stdin s' = ms_stdin s"
proof -
  have split: "frame_bytes f = take 5 (frame_bytes f) @ fr_payload f" by (simp add: frame_bytes_def)
  have cut: "\<not> frame_complete (take 5 (frame_bytes f))"
    using assms(2,3) split by (intro strict_prefix_incomplete [of f]) (auto simp: strict_prefix_def intro: take_is_prefix)
  have payload: "drop 5 (frame_bytes f) = 123 # rest" using assms(3) by (simp add: frame_bytes_def)
  have tag: "FrameTag_try_from 123 = Inl ''unknown frame tag 123''" by code_simp
  obtain s1 where s1: "mcp_child (ChildOut (Inr out)) s = Going s1" "ms_stdin s1 = ms_stdin s" "ms_client_open s1"
    using assms(5-7) by (cases out) (auto simp: mcp_child_def mcp_ready_def write_frame_room)
  have first: "pump ms_client_open mcp_frame None (take 5 (frame_bytes f)) s = (Going s, take 5 (frame_bytes f))"
    using cut assms(5) by (subst pump.simps) (simp add: poll_frame_def mcp_ready_def)
  have "poll_frame None (123 # rest) = Ready (Inl ''unknown frame tag 123'') (drop 4 rest)"
    using assms(4) tag
    by (simp add: poll_frame_def frame_complete_def split_header_def read_frame_def read_frame_with_limit_def
        read_byte_def read_exact_def)
  then have "pump ms_client_open mcp_frame None (123 # rest) s1 = (Aborted ''unknown frame tag 123'' s1, drop 4 rest)"
    using s1(3) by (subst pump.simps) simp
  with first s1(1,2) show ?thesis by (simp add: payload)
qed

theorem mcp_interrupted_frame_aborts_witness:
  "\<exists>s' held. mcp_loop [Arrive (take 5 (frame_bytes ping_frame)), Other (ChildOut (Inr [1])),
      Arrive (drop 5 (frame_bytes ping_frame))] (mcp_start quiet_stream quiet_stream, []) =
    (Aborted ''unknown frame tag 123'' s', held) \<and> ms_stdin s' = quiet_stream"
  using mcp_interrupted_frame_aborts [of ping_frame "[34, 105, 100, 34, 58, 49, 125, 10]" "mcp_start quiet_stream quiet_stream" "[1]"]
  by (simp add: ping_frame_def frame_fits_def MAX_FRAME_def mcp_ready_def mcp_start_def quiet_stream_def)

text \<open>C35: A command's output reaches the client whole, and a client that leaves while an output is open has
  the child killed.  If the child writes to both outputs in any interleaving and closes them before the
  client leaves, the client gets frames whose payloads are exactly its standard output and its standard
  error, each in order, and then its exit code, and the stream is finished.  If the client leaves while an
  output is still open, the child is killed and no exit code is sent.  But a child that has closed both
  outputs and runs on is only waited for: the client's leaving does not end it.\<close>

theorem exec_output_complete:
  assumes "xe_spawn V (exec_command V params) = Inr ()" "out_room send = None" "list_all exec_fine us"
  shows "(xe_events V = us @ vs \<and> ExecOut (Inr []) \<in> set us \<and> ExecErr (Inr []) \<in> set us \<and>
        xe_wait V = Some (Inr (Some code)) \<and> xe_finish V = Inr () \<longrightarrow>
      (\<exists>fs. out_bytes (sd_send (run_exec V params send)) =
          out_bytes send @ frames_bytes (fs @ [\<lparr>fr_tag = TExit, fr_payload = i32_le_bytes code\<rparr>]) \<and>
        fr_tag ` set fs \<subseteq> {TStdout, TStderr} \<and>
        payloads TStdout fs = stdout_of False us \<and> payloads TStderr fs = stderr_of False us) \<and>
      sd_result (run_exec V params send) = Some (Inr ()) \<and> sd_finished (run_exec V params send)) \<and>
    (xe_events V = us @ ClientGone # vs \<and> (ExecOut (Inr []) \<notin> set us \<or> ExecErr (Inr []) \<notin> set us) \<longrightarrow>
      (\<exists>fs. out_bytes (sd_send (run_exec V params send)) = out_bytes send @ frames_bytes fs \<and>
        fr_tag ` set fs \<subseteq> {TStdout, TStderr}) \<and>
      sd_child (run_exec V params send) = ChildKilled (exec_command V params)) \<and>
    (xe_events V = us @ ClientGone # vs \<and> ExecOut (Inr []) \<in> set us \<and> ExecErr (Inr []) \<in> set us \<and> xe_wait V = None \<longrightarrow>
      sd_result (run_exec V params send) = None \<and>
      sd_child (run_exec V params send) = ChildRunning (exec_command V params))"
proof (intro conjI impI, goal_cases)
  case 1
  then show ?case using run_exec_closes [OF assms, of vs code] by (force simp: relayed_def)
next
  case 2
  then show ?case using run_exec_closes [OF assms, of vs code] by auto
next
  case 3
  then show ?case using run_exec_closes [OF assms, of vs code] by auto
next
  case 4
  then show ?case using run_exec_killed [OF assms] by (force simp: relayed_def)
next
  case 5
  then show ?case using run_exec_killed [OF assms] by auto
next
  case 6
  then show ?case using run_exec_closes [OF assms, of "ClientGone # vs"] by auto
next
  case 7
  then show ?case using run_exec_closes [OF assms, of "ClientGone # vs"] by auto
qed

definition echo_params :: ExecParams where
  "echo_params = \<lparr>xp_command = ''rg'', xp_args = [''x''], xp_cwd = None\<rparr>"

definition echo_env :: ExecEnv where
  "echo_env = \<lparr>xe_current_exe = ''/bin/as-edge'', xe_spawn = (\<lambda>_. Inr ()),
     xe_events = [ExecOut (Inr [104, 105]), ExecErr (Inr [33]), ExecErr (Inr []), ExecOut (Inr [10]), ExecOut (Inr [])],
     xe_wait = Some (Inr (Some 0)), xe_finish = Inr ()\<rparr>"

theorem exec_output_complete_witness:
  "\<exists>fs. out_bytes (sd_send (run_exec echo_env echo_params quiet_stream)) =
      frames_bytes (fs @ [\<lparr>fr_tag = TExit, fr_payload = i32_le_bytes 0\<rparr>]) \<and>
    payloads TStdout fs = [104, 105, 10] \<and> payloads TStderr fs = [33]"
proof -
  have fine: "list_all exec_fine (xe_events echo_env)" by (simp add: echo_env_def CHUNK_def)
  have "xe_spawn echo_env (exec_command echo_env echo_params) = Inr ()" "out_room quiet_stream = None"
    by (simp_all add: echo_env_def quiet_stream_def)
  from exec_output_complete [OF this fine, of "[]" 0] show ?thesis by (auto simp: echo_env_def quiet_stream_def)
qed

end
