(* ===== verification/Edge_Proxy.thy ===== *)
theory Edge_Proxy
  imports Edge_Session
begin

text \<open>
  The proxy requests of an edge (\<open>crates/as-edge/src/proxy.rs\<close>): a TCP connection and a UDP association
  to hosts the edge can reach.  Name resolution and the sockets are parameters.
\<close>

datatype SocketAddr = V4 string nat | V6 string nat

fun socket_ip :: "SocketAddr \<Rightarrow> string" where
  "socket_ip (V4 ip _) = ip" | "socket_ip (V6 ip _) = ip"

fun socket_port :: "SocketAddr \<Rightarrow> nat" where
  "socket_port (V4 _ p) = p" | "socket_port (V6 _ p) = p"

datatype ErrorKind = ConnectionRefused | TimedOut | KindNotFound | NetworkUnreachable | HostUnreachable | OtherKind

record IoError =
  ioe_kind :: ErrorKind
  ioe_text :: string

definition network_error :: "IoError \<Rightarrow> RemoteError" where
  "network_error e = \<lparr>rme_code = (case ioe_kind e of
       ConnectionRefused \<Rightarrow> ''connection_refused''
     | TimedOut \<Rightarrow> ''timeout''
     | KindNotFound \<Rightarrow> ''host_unreachable''
     | NetworkUnreachable \<Rightarrow> ''network_unreachable''
     | HostUnreachable \<Rightarrow> ''host_unreachable''
     | OtherKind \<Rightarrow> ''network_error''), rme_message = ioe_text e\<rparr>"

section \<open>TCP\<close>

text \<open>A connected socket: what the target will send, what it accepts, and the calls made at set-up.\<close>

record TcpSocket =
  tcp_in :: InStream
  tcp_out :: OutStream
  tcp_set_nodelay :: "string + unit"
  tcp_local_addr :: "string + string"

datatype ConnectAttempt = Connected TcpSocket | ConnectFailed IoError | ConnectElapsed

definition connect_tcp :: "(ProxyTarget \<Rightarrow> nat \<Rightarrow> ConnectAttempt) \<Rightarrow> ProxyTarget \<Rightarrow> nat \<Rightarrow> RemoteError + TcpSocket" where
  "connect_tcp connect target timeout_secs =
     (if pt_host target = [] \<or> pt_port target = 0
      then Inl \<lparr>rme_code = ''invalid_target'', rme_message = ''proxy target requires a host and non-zero port''\<rparr>
      else if timeout_secs = 0
      then Inl \<lparr>rme_code = ''invalid_timeout'', rme_message = ''proxy connect timeout must be non-zero''\<rparr>
      else case connect target timeout_secs of
        Connected socket \<Rightarrow> Inr socket
      | ConnectFailed e \<Rightarrow> Inl (network_error e)
      | ConnectElapsed \<Rightarrow> Inl \<lparr>rme_code = ''timeout'',
          rme_message = ''connection to '' @ pt_host target @ '':'' @ show_nat (pt_port target) @ '' timed out''\<rparr>)"

text \<open>\<open>copy\<close> passes bytes on until the end, or the failure of either side.\<close>

definition copy_stream :: "InStream \<Rightarrow> OutStream \<Rightarrow> (string + unit) \<times> OutStream" where
  "copy_stream r w = (case write_all (in_bytes r) w of
      (Inl e, w) \<Rightarrow> (Inl e, w)
    | (Inr _, w) \<Rightarrow> (case in_broken r of None \<Rightarrow> (Inr (), w) | Some e \<Rightarrow> (Inl e, w)))"

text \<open>\<open>try_join!\<close> ends at the first failure: the other direction has then copied some prefix.\<close>

record TcpProxied =
  tp_served :: Served
  tp_target :: OutStream

definition copied_prefix :: "nat \<Rightarrow> InStream \<Rightarrow> OutStream \<Rightarrow> OutStream" where
  "copied_prefix n r w = snd (write_all (take n (in_bytes r)) w)"

definition join_copies :: "nat \<Rightarrow> InStream \<Rightarrow> OutStream \<Rightarrow> TcpSocket \<Rightarrow> TcpProxied" where
  "join_copies n recv send socket =
     (case (copy_stream recv (tcp_out socket), copy_stream (tcp_in socket) send) of
        ((Inr _, target), (Inr _, client)) \<Rightarrow>
          \<lparr>tp_served = \<lparr>sd_result = Some (Inr ()), sd_send = client, sd_finished = True, sd_child = NoChild\<rparr>, tp_target = target\<rparr>
      | ((Inl e, target), _) \<Rightarrow>
          \<lparr>tp_served = \<lparr>sd_result = Some (Inl e), sd_send = copied_prefix n (tcp_in socket) send, sd_finished = False,
            sd_child = NoChild\<rparr>, tp_target = target\<rparr>
      | (_, (Inl e, client)) \<Rightarrow>
          \<lparr>tp_served = \<lparr>sd_result = Some (Inl e), sd_send = client, sd_finished = False, sd_child = NoChild\<rparr>,
            tp_target = copied_prefix n recv (tcp_out socket)\<rparr>)"

record TcpEnv =
  te_connect :: "ProxyTarget \<Rightarrow> nat \<Rightarrow> ConnectAttempt"
  te_prefix :: nat

definition failed_request :: "string \<Rightarrow> OutStream \<Rightarrow> Served" where
  "failed_request e send = \<lparr>sd_result = Some (Inl e), sd_send = send, sd_finished = False, sd_child = NoChild\<rparr>"

definition no_target :: OutStream where "no_target = \<lparr>out_bytes = [], out_room = Some 0\<rparr>"

definition bound_json :: "string \<Rightarrow> json" where
  "bound_json addr = JObj [(''bound_addr'', JStr addr)]"

definition serve_tcp :: "Ext \<Rightarrow> TcpEnv \<Rightarrow> ProxyTarget \<Rightarrow> nat \<Rightarrow> InStream \<Rightarrow> OutStream \<Rightarrow> TcpProxied" where
  "serve_tcp X V target connect_timeout_secs recv send =
     (case connect_tcp (te_connect V) target connect_timeout_secs of
        Inl error \<Rightarrow> (case write_frame TResult (json_to_vec X (RpcResult_json bound_json (RpcError error))) send of
            (Inl e, send) \<Rightarrow> \<lparr>tp_served = failed_request e send, tp_target = no_target\<rparr>
          | (Inr _, send) \<Rightarrow> \<lparr>tp_served = \<lparr>sd_result = Some (Inr ()), sd_send = send, sd_finished = True, sd_child = NoChild\<rparr>,
              tp_target = no_target\<rparr>)
      | Inr socket \<Rightarrow> (case tcp_set_nodelay socket of
          Inl e \<Rightarrow> \<lparr>tp_served = failed_request e send, tp_target = tcp_out socket\<rparr>
        | Inr _ \<Rightarrow> (case tcp_local_addr socket of
            Inl e \<Rightarrow> \<lparr>tp_served = failed_request e send, tp_target = tcp_out socket\<rparr>
          | Inr addr \<Rightarrow> (case write_frame TResult (json_to_vec X (RpcResult_json bound_json (RpcOk addr))) send of
              (Inl e, send) \<Rightarrow> \<lparr>tp_served = failed_request e send, tp_target = tcp_out socket\<rparr>
            | (Inr _, send) \<Rightarrow> join_copies (te_prefix V) recv send socket))))"

section \<open>UDP\<close>

record UdpEnv =
  ue_bind_ipv4 :: "string + unit"
  ue_ipv6 :: bool
  ue_lookup :: "string \<Rightarrow> nat \<Rightarrow> nat \<Rightarrow> string + SocketAddr list"
  ue_send_to :: "byte list \<Rightarrow> SocketAddr \<Rightarrow> string + unit"

record UdpSession =
  us_sent :: "(SocketAddr \<times> byte list) list"
  us_send :: OutStream

fun send_first :: "UdpEnv \<Rightarrow> byte list \<Rightarrow> SocketAddr list \<Rightarrow> string option \<Rightarrow> string + SocketAddr" where
  "send_first V payload [] last_error =
     Inl (case last_error of Some e \<Rightarrow> e | None \<Rightarrow> ''proxy target did not resolve to a supported address'')"
| "send_first V payload (addr # addrs) last_error = (case addr of
      V6 _ _ \<Rightarrow> if \<not> ue_ipv6 V then send_first V payload addrs last_error
        else (case ue_send_to V payload addr of
          Inr _ \<Rightarrow> Inr addr | Inl e \<Rightarrow> send_first V payload addrs (Some e))
    | V4 _ _ \<Rightarrow> (case ue_send_to V payload addr of
          Inr _ \<Rightarrow> Inr addr | Inl e \<Rightarrow> send_first V payload addrs (Some e)))"

definition send_udp :: "UdpEnv \<Rightarrow> ProxyDatagram \<Rightarrow> nat \<Rightarrow> string + SocketAddr" where
  "send_udp V datagram timeout_secs =
     and_then (ue_lookup V (pt_host (pd_target datagram)) (pt_port (pd_target datagram)) timeout_secs) (\<lambda>addrs.
     send_first V (pd_payload datagram) addrs None)"

definition udp_response :: "SocketAddr \<Rightarrow> byte list \<Rightarrow> ProxyDatagram" where
  "udp_response source payload =
     \<lparr>pd_target = \<lparr>pt_host = socket_ip source, pt_port = socket_port source\<rparr>, pd_payload = payload\<rparr>"

definition write_udp_response :: "SocketAddr \<Rightarrow> byte list \<Rightarrow> OutStream \<Rightarrow> (string + unit) \<times> OutStream" where
  "write_udp_response source payload send = (case encode_proxy_datagram (udp_response source payload) of
      Inl e \<Rightarrow> (Inl e, send) | Inr bs \<Rightarrow> write_frame TData bs send)"

definition udp_frame :: "UdpEnv \<Rightarrow> nat \<Rightarrow> Frame option \<Rightarrow> UdpSession \<Rightarrow> UdpSession progress" where
  "udp_frame V timeout_secs frame s = (case frame of
      None \<Rightarrow> Broke s
    | Some f \<Rightarrow>
        if fr_tag f = TData then
          (case decode_proxy_datagram (fr_payload f) of
             Inl e \<Rightarrow> Aborted e s
           | Inr datagram \<Rightarrow> (case send_udp V datagram timeout_secs of
               Inl e \<Rightarrow> Aborted e s
             | Inr addr \<Rightarrow> Going (s\<lparr>us_sent := us_sent s @ [(addr, pd_payload datagram)]\<rparr>)))
        else Aborted (''unexpected UDP proxy frame tag '' @ show_nat (unat (tag_byte (fr_tag f)))) s)"

text \<open>A packet received on either socket, or the failure of a receive.\<close>

definition udp_packet :: "string + SocketAddr \<times> byte list \<Rightarrow> UdpSession \<Rightarrow> UdpSession progress" where
  "udp_packet received s = (case received of
      Inl e \<Rightarrow> Aborted e s
    | Inr (source, payload) \<Rightarrow> (case write_udp_response source payload (us_send s) of
        (Inl e, send) \<Rightarrow> Aborted e (s\<lparr>us_send := send\<rparr>)
      | (Inr _, send) \<Rightarrow> Going (s\<lparr>us_send := send\<rparr>)))"

abbreviation udp_loop where
  "udp_loop V timeout_secs \<equiv> select_run (\<lambda>_. True) (udp_frame V timeout_secs) udp_packet"

definition serve_udp ::
  "Ext \<Rightarrow> UdpEnv \<Rightarrow> nat \<Rightarrow> (string + SocketAddr \<times> byte list) SelectEvent list \<Rightarrow> OutStream \<Rightarrow> Served \<times> (SocketAddr \<times> byte list) list" where
  "serve_udp X V resolve_timeout_secs events send =
     (if resolve_timeout_secs = 0 then (failed_request ''proxy resolve timeout must be non-zero'' send, [])
      else case ue_bind_ipv4 V of
        Inl e \<Rightarrow> (failed_request e send, [])
      | Inr _ \<Rightarrow> (case write_frame TResult (ok_result X) send of
          (Inl e, send) \<Rightarrow> (failed_request e send, [])
        | (Inr _, send) \<Rightarrow> (case udp_loop V resolve_timeout_secs events (\<lparr>us_sent = [], us_send = send\<rparr>, []) of
            (Going s, _) \<Rightarrow> (\<lparr>sd_result = None, sd_send = us_send s, sd_finished = False, sd_child = NoChild\<rparr>, us_sent s)
          | (Broke s, _) \<Rightarrow> (\<lparr>sd_result = Some (Inr ()), sd_send = us_send s, sd_finished = True, sd_child = NoChild\<rparr>, us_sent s)
          | (Aborted e s, _) \<Rightarrow> (failed_request e (us_send s), us_sent s))))"

section \<open>Forwarding\<close>

text \<open>A datagram frame the edge can forward, and where it goes.\<close>

definition forwardable :: "UdpEnv \<Rightarrow> nat \<Rightarrow> Frame \<Rightarrow> bool" where
  "forwardable V t f \<longleftrightarrow> fr_tag f = TData \<and>
     is_ok (and_then (decode_proxy_datagram (fr_payload f)) (\<lambda>d. send_udp V d t))"

definition forwarded :: "UdpEnv \<Rightarrow> nat \<Rightarrow> Frame \<Rightarrow> (SocketAddr \<times> byte list) list" where
  "forwarded V t f = (case decode_proxy_datagram (fr_payload f) of
      Inl _ \<Rightarrow> []
    | Inr d \<Rightarrow> (case send_udp V d t of Inl _ \<Rightarrow> [] | Inr addr \<Rightarrow> [(addr, pd_payload d)]))"

fun packet_calm :: "string + SocketAddr \<times> byte list \<Rightarrow> bool" where
  "packet_calm (Inl _) \<longleftrightarrow> False"
| "packet_calm (Inr (source, payload)) \<longleftrightarrow> socket_ip source \<noteq> [] \<and> length (string_bytes (socket_ip source)) \<le> 255 \<and>
     socket_port source \<noteq> 0 \<and> length payload \<le> MAX_UDP_PAYLOAD"

lemma packet_answered:
  assumes "packet_calm (Inr (source, payload))" "out_room send = None"
  shows "\<exists>bs. encode_proxy_datagram (udp_response source payload) = Inr bs \<and>
    write_udp_response source payload send =
      (Inr (), send\<lparr>out_bytes := out_bytes send @ frame_bytes \<lparr>fr_tag = TData, fr_payload = bs\<rparr>\<rparr>)"
proof -
  obtain bs where bs: "encode_proxy_datagram (udp_response source payload) = Inr bs"
    using assms(1) by (auto simp: encode_proxy_datagram_def udp_response_def Let_def string_bytes_def)
  then have "length bs \<le> MAX_FRAME"
    using assms(1) by (auto simp: encode_datagram_Inr udp_response_def Let_def be_bytes_def MAX_FRAME_def MAX_UDP_PAYLOAD_def)
  with bs assms(2) show ?thesis by (auto simp: write_udp_response_def write_frame_room)
qed

interpretation udp_session: framed_loop "\<lambda>_. True" "udp_frame V t" udp_packet
  "\<lambda>s. out_room (us_send s) = None" "forwardable V t" packet_calm us_sent "forwarded V t" for V t
proof
  fix s :: UdpSession and f :: Frame
  assume "out_room (us_send s) = None" "forwardable V t f"
  then show "\<exists>s'. udp_frame V t (Some f) s = Going s' \<and> out_room (us_send s') = None \<and> us_sent s' = us_sent s @ forwarded V t f"
    by (auto simp: forwardable_def udp_frame_def forwarded_def split: sum.splits)
next
  fix s :: UdpSession and c
  assume "out_room (us_send s) = None" "packet_calm c"
  then show "\<exists>s'. udp_packet c s = Going s' \<and> out_room (us_send s') = None \<and> us_sent s' = us_sent s"
    using packet_answered [of _ _ "us_send s"]
    by (cases c rule: packet_calm.cases) (fastforce simp: udp_packet_def)+
qed simp

text \<open>The packets received, as frames to the client.\<close>

fun answers :: "(string + SocketAddr \<times> byte list) SelectEvent list \<Rightarrow> Frame list" where
  "answers [] = []"
| "answers (Other (Inr (source, payload)) # evs) = (case encode_proxy_datagram (udp_response source payload) of
      Inl _ \<Rightarrow> answers evs | Inr bs \<Rightarrow> \<lparr>fr_tag = TData, fr_payload = bs\<rparr> # answers evs)"
| "answers (_ # evs) = answers evs"

lemma udp_frame_keeps_send: "us_send (progress_state (udp_frame V t f s)) = us_send s"
  by (auto simp: udp_frame_def split: option.splits sum.splits)

lemma udp_answers:
  assumes "udp_loop V t evs (s, held) = (Going s', held')" "out_room (us_send s) = None"
    "\<forall>ev \<in> set evs. case ev of Other c \<Rightarrow> packet_calm c | _ \<Rightarrow> True"
  shows "out_bytes (us_send s') = out_bytes (us_send s) @ frames_bytes (answers evs)"
  using assms
proof (induction evs arbitrary: s held)
  case (Cons ev evs)
  obtain s1 held1 where s1: "select_step (\<lambda>_. True) (udp_frame V t) udp_packet ev (s, held) = (Going s1, held1)"
    "udp_loop V t evs (s1, held1) = (Going s', held')"
    using Cons.prems(1) by (auto split: prod.splits progress.splits)
  show ?case
  proof (cases ev)
    case (Other c)
    obtain source payload where c: "c = Inr (source, payload)" "packet_calm (Inr (source, payload))"
      using Cons.prems(3) Other by (cases c rule: packet_calm.cases) auto
    from packet_answered [OF c(2) Cons.prems(2)] obtain bs where
      bs: "encode_proxy_datagram (udp_response source payload) = Inr bs"
      "write_udp_response source payload (us_send s) =
        (Inr (), (us_send s)\<lparr>out_bytes := out_bytes (us_send s) @ frame_bytes \<lparr>fr_tag = TData, fr_payload = bs\<rparr>\<rparr>)" by blast
    with Cons.IH [OF s1(2)] Cons.prems s1(1) Other c(1) show ?thesis by (auto simp: udp_packet_def)
  next
    case (Arrive bs)
    have "us_send s1 = us_send s"
      using s1(1) Arrive pump_keeps [of us_send "udp_frame V t", OF udp_frame_keeps_send, of "\<lambda>_. True" None "held @ bs" s] by simp
    with Cons.IH [OF s1(2)] Cons.prems Arrive show ?thesis by simp
  next
    case (ClientEnd b)
    have "us_send s1 = us_send s"
      using s1(1) ClientEnd pump_keeps [of us_send "udp_frame V t", OF udp_frame_keeps_send, of "\<lambda>_. True" "Some b" held s] by simp
    with Cons.IH [OF s1(2)] Cons.prems ClientEnd show ?thesis by simp
  qed
qed simp

section \<open>Properties\<close>

text \<open>A UDP association relays in both directions.  If no packet arrives while a frame of the client is
  only partly received, every datagram of the client is sent, in order, to the first address of its target
  that takes it, and every packet received comes back, in order, as a frame that names its source.\<close>

theorem udp_association_relays:
  assumes "out_room send = None" "list_all (\<lambda>f. frame_fits f \<and> forwardable V t f) fs"
    "between_frames fs evs" "arrived evs = frames_bytes fs"
    "\<forall>ev \<in> set evs. case ev of Other c \<Rightarrow> packet_calm c | ClientEnd _ \<Rightarrow> False | Arrive _ \<Rightarrow> True"
  shows "\<exists>s. udp_loop V t evs (\<lparr>us_sent = [], us_send = send\<rparr>, []) = (Going s, []) \<and>
    us_sent s = concat (map (forwarded V t) fs) \<and> out_bytes (us_send s) = out_bytes send @ frames_bytes (answers evs)"
proof -
  obtain s where s: "udp_loop V t evs (\<lparr>us_sent = [], us_send = send\<rparr>, []) = (Going s, [])"
    "us_sent s = concat (map (forwarded V t) fs)"
    using udp_session.frames_received [OF _ assms(2-5), of "\<lparr>us_sent = [], us_send = send\<rparr>"] assms(1) by auto
  have "\<forall>ev \<in> set evs. case ev of Other c \<Rightarrow> packet_calm c | _ \<Rightarrow> True"
    using assms(5) by (auto split: SelectEvent.splits)
  with udp_answers [OF s(1)] s assms(1) show ?thesis by auto
qed

definition dns_env :: UdpEnv where
  "dns_env = \<lparr>ue_bind_ipv4 = Inr (), ue_ipv6 = False,
     ue_lookup = (\<lambda>host port _. Inr [V6 ''::1'' port, V4 ''9.9.9.9'' port]), ue_send_to = (\<lambda>_ _. Inr ())\<rparr>"

definition dns_frame :: Frame where
  "dns_frame = \<lparr>fr_tag = TData, fr_payload = [1, 0, 53, 100, 7, 8]\<rparr>"

definition dns_events :: "(string + SocketAddr \<times> byte list) SelectEvent list" where
  "dns_events = [Arrive (frame_bytes dns_frame), Other (Inr (V4 ''9'' 53, [6]))]"

lemma dns_decoded: "decode_proxy_datagram [1, 0, 53, 100, 7, 8] =
    Inr \<lparr>pd_target = \<lparr>pt_host = ''d'', pt_port = 53\<rparr>, pd_payload = [7, 8]\<rparr>"
proof -
  have "utf8_valid [100]" "bytes_string [100] = ''d''" by code_simp+
  then show ?thesis by (simp add: decode_datagram_Inr be_value_def MAX_UDP_PAYLOAD_def)
qed

theorem udp_association_relays_witness:
  "\<exists>s. udp_loop dns_env 5 dns_events (\<lparr>us_sent = [], us_send = quiet_stream\<rparr>, []) = (Going s, []) \<and>
    us_sent s = [(V4 ''9.9.9.9'' 53, [7, 8])]"
proof -
  have sent: "forwarded dns_env 5 dns_frame = [(V4 ''9.9.9.9'' 53, [7, 8])]" "forwardable dns_env 5 dns_frame"
    by (simp_all add: forwarded_def forwardable_def dns_frame_def dns_decoded send_udp_def dns_env_def)
  have between: "between_frames [dns_frame] dns_events"
    unfolding between_frames_def dns_events_def by (auto simp: Cons_eq_append_conv intro!: exI [of _ 1])
  have fits: "list_all (\<lambda>f. frame_fits f \<and> forwardable dns_env 5 f) [dns_frame]"
    using sent(2) by (simp add: frame_fits_def dns_frame_def MAX_FRAME_def)
  have calm: "\<forall>ev \<in> set dns_events. case ev of Other c \<Rightarrow> packet_calm c | ClientEnd _ \<Rightarrow> False | Arrive _ \<Rightarrow> True"
    by (simp add: dns_events_def string_bytes_def MAX_UDP_PAYLOAD_def)
  have "arrived dns_events = frames_bytes [dns_frame]" by (simp add: dns_events_def)
  from udp_association_relays [OF _ fits between this calm, of quiet_stream] show ?thesis
    by (auto simp: sent quiet_stream_def)
qed

end
