(* ===== verification/Edge_Http.thy ===== *)
theory Edge_Http
  imports Edge_Session
begin

text \<open>
  Bridging an HTTP MCP server to the frames of a session (\<open>crates/as-edge/src/mcp_http.rs\<close>): reading
  newline-delimited messages, the bounded output queue, both HTTP transports, and the tasks of a bridge
  as a step relation.  The HTTP client and the event-stream parser are parameters.
\<close>

definition OUTPUT_QUEUE_ITEMS :: nat where "OUTPUT_QUEUE_ITEMS = 64"
definition OUTPUT_BUDGET_BYTES :: nat where "OUTPUT_BUDGET_BYTES = 32 * 1024 * 1024"
definition MAX_MESSAGE_BYTES :: nat where "MAX_MESSAGE_BYTES = 16 * 1024 * 1024"

datatype Kind = Streamable | LegacySse

section \<open>Messages\<close>

definition strip_cr :: "byte list \<Rightarrow> byte list" where
  "strip_cr line = (if line \<noteq> [] \<and> last line = 13 then butlast line else line)"

definition too_large :: string where "too_large = ''MCP message exceeds 16777216 bytes''"

lemma read_frame_consumes:
  "read_frame s = (Inr (Some f), s') \<Longrightarrow> length (in_bytes s') + length (fr_payload f) < length (in_bytes s)"
  by (auto simp: read_frame_def read_frame_with_limit_def read_byte_def read_exact_def
      split: list.splits option.splits sum.splits prod.splits if_splits)

function read_message :: "InStream \<Rightarrow> byte list \<Rightarrow> (string + byte list option) \<times> InStream \<times> byte list" where
  "read_message recv buf =
     (if 10 \<in> set buf then
        (let line = takeWhile (\<lambda>b. b \<noteq> 10) buf; rest = drop (Suc (length line)) buf; line = strip_cr line in
         if line = [] then read_message recv rest else (Inr (Some line), recv, rest))
      else case read_frame recv of
        (Inl e, recv') \<Rightarrow> (Inl e, recv', buf)
      | (Inr None, recv') \<Rightarrow> if buf = [] then (Inr None, recv', []) else (Inr (Some buf), recv', [])
      | (Inr (Some f), recv') \<Rightarrow>
          if fr_tag f = TData then
            (if length buf + length (fr_payload f) \<le> MAX_MESSAGE_BYTES
             then read_message recv' (buf @ fr_payload f) else (Inl too_large, recv', buf))
          else if buf = [] then (Inr None, recv', []) else (Inr (Some buf), recv', []))"
  by auto
termination
proof (relation "measure (\<lambda>(recv, buf). length (in_bytes recv) + length buf)", goal_cases)
  case (2 recv buf line rest line')
  then show ?case using length_takeWhile_le [of "\<lambda>b. b \<noteq> 10" buf] by (cases buf) auto
next
  case (3 recv buf r recv' f x)
  then have "length (in_bytes recv') + length (fr_payload x) < length (in_bytes recv)"
    by (auto intro!: read_frame_consumes dest!: sym [of _ "read_frame _"])
  then show ?case by simp
qed simp

declare read_message.simps [simp del]

lemma read_message_line:
  "10 \<in> set buf \<Longrightarrow> read_message recv buf =
    (let line = strip_cr (takeWhile (\<lambda>b. b \<noteq> 10) buf); rest = drop (Suc (length (takeWhile (\<lambda>b. b \<noteq> 10) buf))) buf in
     if line = [] then read_message recv rest else (Inr (Some line), recv, rest))"
  by (subst read_message.simps) (simp add: Let_def)

lemma read_message_more:
  "10 \<notin> set buf \<Longrightarrow> read_message recv buf = (case read_frame recv of
      (Inl e, recv') \<Rightarrow> (Inl e, recv', buf)
    | (Inr None, recv') \<Rightarrow> if buf = [] then (Inr None, recv', []) else (Inr (Some buf), recv', [])
    | (Inr (Some f), recv') \<Rightarrow>
        if fr_tag f = TData then
          (if length buf + length (fr_payload f) \<le> MAX_MESSAGE_BYTES
           then read_message recv' (buf @ fr_payload f) else (Inl too_large, recv', buf))
        else if buf = [] then (Inr None, recv', []) else (Inr (Some buf), recv', []))"
  by (subst read_message.simps) simp

lemma rest_shorter: "10 \<in> set buf \<Longrightarrow> length (drop (Suc (length (takeWhile (\<lambda>b. b \<noteq> 10) buf))) buf) < length (buf :: byte list)"
  by (cases buf) auto

lemma read_frame_shrinks: "read_frame s = (r, s') \<Longrightarrow> length (in_bytes s') \<le> length (in_bytes s)"
  by (auto simp: read_frame_def read_frame_with_limit_def read_byte_def read_exact_def
      split: list.splits option.splits sum.splits prod.splits if_splits)

lemma read_message_decreases:
  "read_message recv buf = (Inr (Some m), recv', buf') \<Longrightarrow>
    length (in_bytes recv') + length buf' < length (in_bytes recv) + length buf"
proof (induction recv buf rule: read_message.induct)
  case (1 recv buf)
  show ?case
  proof (cases "10 \<in> set buf")
    case True
    then show ?thesis using 1(1) [OF True refl refl refl] 1(3) rest_shorter [OF True]
      by (force simp: read_message_line Let_def split: if_splits)
  next
    case False
    obtain r recv1 where r: "read_frame recv = (r, recv1)" by (cases "read_frame recv")
    have taken: "length (in_bytes recv1) + length (fr_payload f) < length (in_bytes recv)" if "r = Inr (Some f)" for f
      using r that by (simp add: read_frame_consumes)
    show ?thesis
    proof (cases "\<exists>f. r = Inr (Some f) \<and> fr_tag f = TData")
      case True
      then obtain f where f: "r = Inr (Some f)" "fr_tag f = TData" by blast
      then have "length (in_bytes recv') + length buf' < length (in_bytes recv1) + length (buf @ fr_payload f)"
        using 1(2) [OF False r [symmetric] f(1) refl f(2)] 1(3) False r by (simp add: read_message_more split: if_splits)
      with taken [OF f(1)] show ?thesis by simp
    next
      case no_data: False
      then have "recv' = recv1 \<and> buf' = [] \<and> buf \<noteq> []"
        using 1(3) False r by (auto simp: read_message_more split: sum.splits option.splits if_splits)
      with read_frame_shrinks [OF r] show ?thesis by (cases buf) auto
    qed
  qed
qed

section \<open>Output\<close>

text \<open>What has been queued for the client, and after how many items the writer is gone.\<close>

record OutputSender =
  os_queued :: "(FrameTag \<times> byte list) list"
  os_writer_ends :: "nat option"

definition output_send :: "FrameTag \<Rightarrow> byte list \<Rightarrow> OutputSender \<Rightarrow> (string + unit) \<times> OutputSender" where
  "output_send tag data tx =
     (if length data > MAX_MESSAGE_BYTES then (Inl too_large, tx)
      else if os_writer_ends tx = Some (length (os_queued tx)) then (Inl ''MCP output writer closed'', tx)
      else (Inr (), tx\<lparr>os_queued := os_queued tx @ [(tag, data)]\<rparr>))"

definition push_line :: "string \<Rightarrow> OutputSender \<Rightarrow> (string + unit) \<times> OutputSender" where
  "push_line data tx = (if data = [] then (Inr (), tx) else output_send TData (string_bytes data @ [10]) tx)"

definition push_error :: "string \<Rightarrow> OutputSender \<Rightarrow> (string + unit) \<times> OutputSender" where
  "push_error error tx = output_send TStderr (string_bytes error @ [10]) tx"

section \<open>HTTP\<close>

datatype SseItem = SseEvent string string | SseError string

record HttpResponse =
  hr_success :: bool
  hr_session :: "string option"
  hr_content_type :: "string option"
  hr_events :: "SseItem list"
  hr_chunks :: "(string + byte list) list"

record HttpPost =
  hp_url :: string
  hp_session :: "string option"
  hp_body :: "byte list"

fun read_chunks :: "byte list \<Rightarrow> (string + byte list) list \<Rightarrow> string + byte list" where
  "read_chunks body [] = Inr body"
| "read_chunks body (Inl e # _) = Inl (''read MCP response body: '' @ e)"
| "read_chunks body (Inr chunk # chunks) =
     (if length body + length chunk \<le> MAX_MESSAGE_BYTES then read_chunks (body @ chunk) chunks
      else Inl ''MCP response exceeds 16777216 bytes'')"

definition read_bounded_body :: "HttpResponse \<Rightarrow> string + byte list" where
  "read_bounded_body response = read_chunks [] (hr_chunks response)"

text \<open>\<open>String::from_utf8_lossy\<close> replaces each maximal ill-formed part by U+FFFD.\<close>

definition utf8_bad_length :: "byte list \<Rightarrow> nat" where
  "utf8_bad_length bs = (case bs of
      b # c # rest \<Rightarrow>
        (let n = unat b; second = (if n = 224 then 160 \<le> unat c \<and> unat c \<le> 191
             else if n = 237 then 128 \<le> unat c \<and> unat c \<le> 159
             else if n = 240 then 144 \<le> unat c \<and> unat c \<le> 191
             else if n = 244 then 128 \<le> unat c \<and> unat c \<le> 143 else cont c) in
         if 224 \<le> n \<and> n \<le> 239 \<and> second then 2
         else if 240 \<le> n \<and> n \<le> 244 \<and> second then
           (case rest of d # _ \<Rightarrow> if cont d then 3 else 2 | [] \<Rightarrow> 2)
         else 1)
    | _ \<Rightarrow> 1)"

lemma utf8_bad_length_pos [simp]: "0 < utf8_bad_length bs"
  by (auto simp: utf8_bad_length_def Let_def split: list.splits)

function from_utf8_lossy :: "byte list \<Rightarrow> string" where
  "from_utf8_lossy bs = (if bs = [] then [] else case utf8_step bs of
      Some n \<Rightarrow> bytes_string (take n bs) @ from_utf8_lossy (drop n bs)
    | None \<Rightarrow> bytes_string [239, 191, 189] @ from_utf8_lossy (drop (utf8_bad_length bs) bs))"
  by auto
termination
  by (relation "measure length") (auto dest: utf8_step_append simp: diff_less)

declare from_utf8_lossy.simps [simp del]

fun push_events :: "SseItem list \<Rightarrow> OutputSender \<Rightarrow> (string + unit) \<times> OutputSender" where
  "push_events [] tx = (Inr (), tx)"
| "push_events (SseEvent _ data # evs) tx = (case push_line data tx of
      (Inl e, tx) \<Rightarrow> (Inl e, tx) | (Inr _, tx) \<Rightarrow> push_events evs tx)"
| "push_events (SseError e # evs) tx = (Inr (), snd (push_error (''MCP SSE error: '' @ e) tx))"

fun is_infix :: "string \<Rightarrow> string \<Rightarrow> bool" where
  "is_infix needle [] \<longleftrightarrow> needle = []"
| "is_infix needle (c # cs) \<longleftrightarrow> prefix needle (c # cs) \<or> is_infix needle cs"

definition is_event_stream :: "HttpResponse \<Rightarrow> bool" where
  "is_event_stream resp \<longleftrightarrow> (case hr_content_type resp of Some ct \<Rightarrow> is_infix ''text/event-stream'' ct | None \<Rightarrow> False)"

definition push_response :: "HttpResponse \<Rightarrow> OutputSender \<Rightarrow> (string + unit) \<times> OutputSender" where
  "push_response resp tx = (if is_event_stream resp then push_events (hr_events resp) tx
     else case read_bounded_body resp of
       Inr body \<Rightarrow> if body \<noteq> [] then push_line (from_utf8_lossy body) tx else (Inr (), tx)
     | Inl e \<Rightarrow> (Inr (), snd (push_error (''MCP response body error: '' @ e) tx)))"

text \<open>The worker of a session: requests made so far, the session id it learned and whether the reader of
  server-initiated messages was started, with the session id it was started with.\<close>

record HttpWorker =
  hw_posts :: "HttpPost list"
  hw_session :: "string option"
  hw_sse_started :: "string option option"
  hw_tx :: OutputSender

function streamable_loop ::
  "(HttpPost \<Rightarrow> string + HttpResponse) \<Rightarrow> string \<Rightarrow> InStream \<Rightarrow> byte list \<Rightarrow> HttpWorker \<Rightarrow> (string + unit) \<times> HttpWorker" where
  "streamable_loop post url recv buf w = (case read_message recv buf of
      (Inl e, _, _) \<Rightarrow> (Inl e, w)
    | (Inr None, _, _) \<Rightarrow> (Inr (), w)
    | (Inr (Some msg), recv', buf') \<Rightarrow>
        (let request = \<lparr>hp_url = url, hp_session = hw_session w, hp_body = msg\<rparr>;
             w = w\<lparr>hw_posts := hw_posts w @ [request]\<rparr> in
         case post request of
           Inl e \<Rightarrow> (Inr (), w\<lparr>hw_tx := snd (push_error (''MCP POST failed: '' @ e) (hw_tx w))\<rparr>)
         | Inr resp \<Rightarrow>
             (let session = (case hr_session resp of Some sid \<Rightarrow> Some sid | None \<Rightarrow> hw_session w);
                  w = w\<lparr>hw_session := session, hw_sse_started := (case hw_sse_started w of
                      None \<Rightarrow> Some session | started \<Rightarrow> started)\<rparr> in
              case push_response resp (hw_tx w) of
                (Inl e, tx) \<Rightarrow> (Inl e, w\<lparr>hw_tx := tx\<rparr>)
              | (Inr _, tx) \<Rightarrow> streamable_loop post url recv' buf' (w\<lparr>hw_tx := tx\<rparr>))))"
  by auto
termination
  by (relation "measure (\<lambda>(_, _, recv, buf, _). length (in_bytes recv) + length buf)")
    (auto dest: read_message_decreases [OF sym])

declare streamable_loop.simps [simp del]

definition streamable ::
  "Ext \<Rightarrow> (HttpPost \<Rightarrow> string + HttpResponse) \<Rightarrow> string \<Rightarrow> InStream \<Rightarrow> OutputSender \<Rightarrow> (string + unit) \<times> HttpWorker" where
  "streamable X post url recv tx =
     (let w = \<lparr>hw_posts = [], hw_session = None, hw_sse_started = None, hw_tx = tx\<rparr> in
      case url_parse X url of
        Inl e \<Rightarrow> (Inl (''parse mcp url: '' @ e), w)
      | Inr endpoint \<Rightarrow> streamable_loop post (url_to_string X endpoint) recv [] w)"

text \<open>The reader of server-initiated messages.\<close>

fun push_sse_events :: "SseItem list \<Rightarrow> OutputSender \<Rightarrow> OutputSender" where
  "push_sse_events [] tx = tx"
| "push_sse_events (SseEvent _ data # evs) tx = (case push_line data tx of
      (Inl _, tx) \<Rightarrow> tx | (Inr _, tx) \<Rightarrow> push_sse_events evs tx)"
| "push_sse_events (SseError e # evs) tx = snd (push_error (''MCP GET-SSE error: '' @ e) tx)"

definition get_sse :: "(string option \<Rightarrow> string + HttpResponse) \<Rightarrow> string option \<Rightarrow> OutputSender \<Rightarrow> OutputSender" where
  "get_sse get session tx = (case get session of
      Inr resp \<Rightarrow> if hr_success resp then push_sse_events (hr_events resp) tx else tx
    | Inl e \<Rightarrow> snd (push_error (''MCP GET-SSE failed: '' @ e) tx))"

text \<open>The legacy transport: its reader passes events on and hands over the first valid endpoint event, if
  the first endpoint event is valid; posting starts when it arrives.  The events are those received until the
  session ends and the reader is aborted.\<close>

fun legacy_events :: "Ext \<Rightarrow> Url \<Rightarrow> SseItem list \<Rightarrow> bool \<Rightarrow> OutputSender \<Rightarrow> Url option \<times> OutputSender" where
  "legacy_events X base [] waiting tx = (None, tx)"
| "legacy_events X base (SseError _ # evs) waiting tx = (None, tx)"
| "legacy_events X base (SseEvent event data # evs) waiting tx =
     (if event = ''endpoint'' then
        (case (waiting, url_join X base data) of
           (True, Inr u) \<Rightarrow> (Some u, snd (legacy_events X base evs False tx))
         | _ \<Rightarrow> legacy_events X base evs False tx)
      else case push_line data tx of
        (Inl _, tx) \<Rightarrow> (None, tx)
      | (Inr _, tx) \<Rightarrow> legacy_events X base evs waiting tx)"

function legacy_posts ::
  "(HttpPost \<Rightarrow> string + HttpResponse) \<Rightarrow> string \<Rightarrow> InStream \<Rightarrow> byte list \<Rightarrow> HttpPost list \<Rightarrow> OutputSender \<Rightarrow>
    (string + unit) \<times> HttpPost list \<times> OutputSender" where
  "legacy_posts post url recv buf posts tx = (case read_message recv buf of
      (Inl e, _, _) \<Rightarrow> (Inl e, posts, tx)
    | (Inr None, _, _) \<Rightarrow> (Inr (), posts, tx)
    | (Inr (Some msg), recv', buf') \<Rightarrow>
        (let request = \<lparr>hp_url = url, hp_session = None, hp_body = msg\<rparr> in
         case post request of
           Inl e \<Rightarrow> (Inr (), posts @ [request], snd (push_error (''MCP POST failed: '' @ e) tx))
         | Inr _ \<Rightarrow> legacy_posts post url recv' buf' (posts @ [request]) tx))"
  by auto
termination
  by (relation "measure (\<lambda>(_, _, recv, buf, _, _). length (in_bytes recv) + length buf)")
    (auto dest: read_message_decreases [OF sym])

declare legacy_posts.simps [simp del]

definition legacy_sse ::
  "Ext \<Rightarrow> (Url \<Rightarrow> string + HttpResponse) \<Rightarrow> (HttpPost \<Rightarrow> string + HttpResponse) \<Rightarrow> string \<Rightarrow> InStream \<Rightarrow> OutputSender \<Rightarrow>
    (string + unit) \<times> HttpPost list \<times> OutputSender" where
  "legacy_sse X get post url recv tx = (case url_parse X url of
      Inl e \<Rightarrow> (Inl (''parse mcp url: '' @ e), [], tx)
    | Inr base \<Rightarrow> (case get base of
        Inl e \<Rightarrow> (Inl (''open sse stream: '' @ e), [], tx)
      | Inr resp \<Rightarrow> (case legacy_events X base (hr_events resp) True tx of
          (None, tx) \<Rightarrow> (Inl ''server sent no endpoint event'', [], tx)
        | (Some post_url, tx) \<Rightarrow> legacy_posts post (url_to_string X post_url) recv [] [] tx)))"

section \<open>The tasks of a bridge\<close>

text \<open>Who holds a sender of the output channel: the bridge itself, the transport it awaits, the reader of
  server-initiated messages.  The writer ends when a write fails, or when the channel is empty and no
  sender is left.\<close>

datatype Holder = BridgeTx | TransportTx | ReaderTx

datatype BridgePhase = Transporting | Reporting | AwaitingWriter | BridgeReturned

record Bridge =
  bg_phase :: BridgePhase
  bg_senders :: "Holder set"
  bg_queue :: "(FrameTag \<times> byte list) list"
  bg_writer_done :: bool
  bg_send :: OutStream
  bg_finished :: bool

definition queued_bytes :: "(FrameTag \<times> byte list) list \<Rightarrow> nat" where
  "queued_bytes q = sum_list (map (length \<circ> snd) q)"

definition bridge_start :: "OutStream \<Rightarrow> Bridge" where
  "bridge_start send = \<lparr>bg_phase = Transporting, bg_senders = {BridgeTx, TransportTx}, bg_queue = [],
     bg_writer_done = False, bg_send = send, bg_finished = False\<rparr>"

inductive bridge_step :: "Bridge \<Rightarrow> Bridge \<Rightarrow> bool" where
  push: "h \<in> bg_senders b \<Longrightarrow> h = BridgeTx \<longrightarrow> bg_phase b = Reporting \<Longrightarrow> \<not> bg_writer_done b \<Longrightarrow>
    length data \<le> MAX_MESSAGE_BYTES \<Longrightarrow> length (bg_queue b) < OUTPUT_QUEUE_ITEMS \<Longrightarrow>
    queued_bytes (bg_queue b) + length data \<le> OUTPUT_BUDGET_BYTES \<Longrightarrow>
    bridge_step b (b\<lparr>bg_queue := bg_queue b @ [(tag, data)]\<rparr>)"
| reader_starts: "bg_phase b = Transporting \<Longrightarrow> bridge_step b (b\<lparr>bg_senders := insert ReaderTx (bg_senders b)\<rparr>)"
| reader_ends: "bridge_step b (b\<lparr>bg_senders := bg_senders b - {ReaderTx}\<rparr>)"
| transport_ok: "bg_phase b = Transporting \<Longrightarrow>
    bridge_step b (b\<lparr>bg_phase := AwaitingWriter, bg_senders := bg_senders b - {TransportTx, ReaderTx}\<rparr>)"
| transport_failed: "bg_phase b = Transporting \<Longrightarrow>
    bridge_step b (b\<lparr>bg_phase := Reporting, bg_senders := bg_senders b - {TransportTx}\<rparr>)"
| reported: "bg_phase b = Reporting \<Longrightarrow> bridge_step b (b\<lparr>bg_phase := AwaitingWriter\<rparr>)"
| wrote: "\<not> bg_writer_done b \<Longrightarrow> bg_queue b = (tag, data) # q \<Longrightarrow>
    write_frame tag data (bg_send b) = (Inr (), send) \<Longrightarrow> bridge_step b (b\<lparr>bg_queue := q, bg_send := send\<rparr>)"
| write_failed: "\<not> bg_writer_done b \<Longrightarrow> bg_queue b = (tag, data) # q \<Longrightarrow>
    write_frame tag data (bg_send b) = (Inl e, send) \<Longrightarrow>
    bridge_step b (b\<lparr>bg_queue := [], bg_send := send, bg_writer_done := True, bg_finished := True\<rparr>)"
| writer_ends: "\<not> bg_writer_done b \<Longrightarrow> bg_queue b = [] \<Longrightarrow> bg_senders b = {} \<Longrightarrow>
    bridge_step b (b\<lparr>bg_writer_done := True, bg_finished := True\<rparr>)"
| returns: "bg_phase b = AwaitingWriter \<Longrightarrow> bg_writer_done b \<Longrightarrow>
    bridge_step b (b\<lparr>bg_phase := BridgeReturned, bg_senders := bg_senders b - {BridgeTx}\<rparr>)"

inductive bridge_run :: "Bridge \<Rightarrow> Bridge \<Rightarrow> bool" where
  bridge_here: "bridge_run b b"
| bridge_next: "bridge_run b b' \<Longrightarrow> bridge_step b' b'' \<Longrightarrow> bridge_run b b''"

text \<open>\<open>bridge\<close> up to the start of its tasks.\<close>

definition bridge_open :: "Ext \<Rightarrow> string + unit \<Rightarrow> string \<Rightarrow> OutStream \<Rightarrow> Served + Bridge" where
  "bridge_open X build_client url send = (case url_parse X url of
      Inl e \<Rightarrow> Inl \<lparr>sd_result = Some (Inl (''parse mcp url: '' @ e)), sd_send = send, sd_finished = False, sd_child = NoChild\<rparr>
    | Inr _ \<Rightarrow> (case build_client of
        Inl e \<Rightarrow> Inl \<lparr>sd_result = Some (Inl (''build http client: '' @ e)), sd_send = send, sd_finished = False, sd_child = NoChild\<rparr>
      | Inr _ \<Rightarrow> (case write_frame TResult (ok_result X) send of
          (Inl e, send) \<Rightarrow> Inl \<lparr>sd_result = Some (Inl e), sd_send = send, sd_finished = False, sd_child = NoChild\<rparr>
        | (Inr _, send) \<Rightarrow> Inr (bridge_start send))))"

definition bridge_ok :: "Bridge \<Rightarrow> bool" where
  "bridge_ok b \<longleftrightarrow> (BridgeTx \<in> bg_senders b) = (bg_phase b \<noteq> BridgeReturned) \<and>
     length (bg_queue b) \<le> OUTPUT_QUEUE_ITEMS \<and> queued_bytes (bg_queue b) \<le> OUTPUT_BUDGET_BYTES \<and>
     (\<forall>(t, d) \<in> set (bg_queue b). length d \<le> MAX_MESSAGE_BYTES)"

lemma bridge_step_ok: "bridge_step b b' \<Longrightarrow> bridge_ok b \<Longrightarrow> bridge_ok b'"
  by (induction rule: bridge_step.induct) (auto simp: bridge_ok_def queued_bytes_def)

lemma bridge_start_ok: "bridge_ok (bridge_start send)"
  by (simp add: bridge_ok_def bridge_start_def queued_bytes_def)

lemma bridge_run_ok: "bridge_run b b' \<Longrightarrow> bridge_ok b \<Longrightarrow> bridge_ok b'"
  by (induction rule: bridge_run.induct) (auto intro: bridge_step_ok)

text \<open>While writes succeed the writer goes on, because the bridge keeps a sender until it returns.\<close>

definition bridge_stuck :: "Bridge \<Rightarrow> bool" where
  "bridge_stuck b \<longleftrightarrow> out_room (bg_send b) = None \<and> \<not> bg_writer_done b \<and> \<not> bg_finished b \<and> bg_phase b \<noteq> BridgeReturned"

lemma bridge_step_stuck: "bridge_step b b' \<Longrightarrow> bridge_ok b \<Longrightarrow> bridge_stuck b \<Longrightarrow> bridge_stuck b'"
proof (induction rule: bridge_step.induct)
  case (wrote b tag data q send)
  then have "length data \<le> MAX_FRAME" by (auto simp: bridge_ok_def MAX_MESSAGE_BYTES_def MAX_FRAME_def)
  with wrote show ?case by (auto simp: bridge_stuck_def write_frame_room)
next
  case (write_failed b tag data q e send)
  then have "length data \<le> MAX_FRAME" by (auto simp: bridge_ok_def MAX_MESSAGE_BYTES_def MAX_FRAME_def)
  with write_failed show ?case by (auto simp: bridge_stuck_def write_frame_room)
qed (auto simp: bridge_stuck_def bridge_ok_def)

lemma bridge_run_stuck: "bridge_run b b' \<Longrightarrow> bridge_ok b \<Longrightarrow> bridge_stuck b \<Longrightarrow> bridge_stuck b'"
  by (induction rule: bridge_run.induct) (auto intro: bridge_step_stuck bridge_run_ok)

section \<open>Messages are lines\<close>

text \<open>The messages in a text, said without the code's functions: the text is cut at each line feed, a line
  that was ended loses one carriage return at its end if it has one, and empty lines are left out.\<close>

fun lf_lines :: "byte list \<Rightarrow> byte list list" where
  "lf_lines [] = [[]]"
| "lf_lines (b # bs) = (if b = 10 then [] # lf_lines bs else (b # hd (lf_lines bs)) # tl (lf_lines bs))"

fun line_text :: "byte list \<Rightarrow> byte list" where
  "line_text [] = []"
| "line_text [b] = (if b = 13 then [] else [b])"
| "line_text (b # c # bs) = b # line_text (c # bs)"

definition messages_of :: "byte list \<Rightarrow> byte list list" where
  "messages_of bs = filter (\<lambda>m. m \<noteq> []) (map line_text (butlast (lf_lines bs)) @ [last (lf_lines bs)])"

lemma strip_cr_text: "strip_cr line = line_text line"
  by (induction line rule: line_text.induct) (auto simp: strip_cr_def)

lemma lf_lines_nonempty [simp]: "lf_lines bs \<noteq> []"
  by (cases bs) simp_all

lemma lf_lines_cut:
  "lf_lines bs = (if 10 \<in> set bs
     then takeWhile (\<lambda>b. b \<noteq> 10) bs # lf_lines (drop (Suc (length (takeWhile (\<lambda>b. b \<noteq> 10) bs))) bs) else [bs])"
  by (induction bs) auto

lemma messages_of_cut: "messages_of bs = (if 10 \<in> set bs then
       (let line = strip_cr (takeWhile (\<lambda>b. b \<noteq> 10) bs); rest = drop (Suc (length (takeWhile (\<lambda>b. b \<noteq> 10) bs))) bs in
        if line = [] then messages_of rest else line # messages_of rest)
     else if bs = [] then [] else [bs])"
  unfolding messages_of_def by (subst (1 2) lf_lines_cut) (simp add: strip_cr_text Let_def)

function read_messages :: "InStream \<Rightarrow> byte list \<Rightarrow> byte list list \<times> (string + unit)" where
  "read_messages recv buf = (case read_message recv buf of
      (Inl e, _, _) \<Rightarrow> ([], Inl e)
    | (Inr None, _, _) \<Rightarrow> ([], Inr ())
    | (Inr (Some m), recv', buf') \<Rightarrow> (case read_messages recv' buf' of (ms, r) \<Rightarrow> (m # ms, r)))"
  by auto
termination
  by (relation "measure (\<lambda>(recv, buf). length (in_bytes recv) + length buf)") (auto dest: read_message_decreases [OF sym])

declare read_messages.simps [simp del]

text \<open>No line is longer than \<open>l\<close>.\<close>

definition lines_within :: "nat \<Rightarrow> byte list \<Rightarrow> bool" where
  "lines_within l bs \<longleftrightarrow> (\<forall>us vs ws. bs = us @ vs @ ws \<and> 10 \<notin> set vs \<longrightarrow> length vs \<le> l)"

lemma lines_within_append: "lines_within l (us @ bs) \<Longrightarrow> lines_within l bs"
  unfolding lines_within_def by (metis append_assoc)

lemma lines_within_first: "lines_within l (vs @ ws) \<Longrightarrow> 10 \<notin> set vs \<Longrightarrow> length vs \<le> l"
  unfolding lines_within_def by (metis append_Nil)

lemma messages_of_line:
  assumes "10 \<in> set buf"
  shows "messages_of (buf @ bs) =
    (let line = strip_cr (takeWhile (\<lambda>b. b \<noteq> 10) buf); rest = drop (Suc (length (takeWhile (\<lambda>b. b \<noteq> 10) buf))) buf @ bs in
     if line = [] then messages_of rest else line # messages_of rest)"
proof -
  have "takeWhile (\<lambda>b. b \<noteq> 10) (buf @ bs) = takeWhile (\<lambda>b. b \<noteq> 10) buf"
    using assms takeWhile_append1 [of 10 buf "\<lambda>b. b \<noteq> 10" bs] by simp
  moreover have "length (takeWhile (\<lambda>b. b \<noteq> 10) buf) < length buf" using assms
    by (metis (full_types) length_takeWhile_le le_neq_implies_less takeWhile_eq_all_conv takeWhile_eq_take take_all_iff order_refl)
  ultimately show ?thesis using assms by (subst messages_of_cut) (simp add: Let_def)
qed

text \<open>Reading one message from whole data frames takes the next line of what they carry.\<close>

abbreviation data_stream :: "Frame list \<Rightarrow> InStream" where
  "data_stream fs \<equiv> \<lparr>in_bytes = frames_bytes fs, in_broken = None\<rparr>"

abbreviation carried :: "Frame list \<Rightarrow> byte list" where
  "carried fs \<equiv> concat (map fr_payload fs)"

definition data_frames :: "nat \<Rightarrow> Frame list \<Rightarrow> bool" where
  "data_frames l fs \<longleftrightarrow> (\<forall>f \<in> set fs. fr_tag f = TData \<and> frame_fits f \<and> length (fr_payload f) + l \<le> MAX_MESSAGE_BYTES)"

lemma read_message_reads:
  assumes "data_frames l fs" "lines_within l (buf @ carried fs)"
  shows "case messages_of (buf @ carried fs) of
      [] \<Rightarrow> fst (read_message (data_stream fs) buf) = Inr None
    | m # ms \<Rightarrow> (\<exists>gs buf'. read_message (data_stream fs) buf = (Inr (Some m), data_stream gs, buf') \<and>
        messages_of (buf' @ carried gs) = ms \<and> data_frames l gs \<and> lines_within l (buf' @ carried gs))"
  using assms
proof (induction "length buf + length (frames_bytes fs)" arbitrary: buf fs rule: less_induct)
  case less
  show ?case
  proof (cases "10 \<in> set buf")
    case True
    let ?rest = "drop (Suc (length (takeWhile (\<lambda>b. b \<noteq> 10) buf))) buf"
    have within: "lines_within l (?rest @ carried fs)"
      using less.prems(2) lines_within_append [of l "take (Suc (length (takeWhile (\<lambda>b. b \<noteq> 10) buf))) buf" "?rest @ carried fs"]
      by (metis append_assoc append_take_drop_id)
    have IH: "case messages_of (?rest @ carried fs) of
        [] \<Rightarrow> fst (read_message (data_stream fs) ?rest) = Inr None
      | m # ms \<Rightarrow> (\<exists>gs buf'. read_message (data_stream fs) ?rest = (Inr (Some m), data_stream gs, buf') \<and>
          messages_of (buf' @ carried gs) = ms \<and> data_frames l gs \<and> lines_within l (buf' @ carried gs))"
      using rest_shorter [OF True] by (intro less.hyps less.prems(1) within) auto
    show ?thesis
    proof (cases "strip_cr (takeWhile (\<lambda>b. b \<noteq> 10) buf) = []")
      case empty: True
      have same: "read_message (data_stream fs) buf = read_message (data_stream fs) ?rest"
        using empty by (simp add: read_message_line [OF True])
      from IH show ?thesis unfolding messages_of_line [OF True] Let_def if_P [OF empty] same .
    next
      case False
      then show ?thesis using less.prems(1) within
        by (auto simp: messages_of_line [OF True] read_message_line [OF True] Let_def)
    qed
  next
    case no_line: False
    show ?thesis
    proof (cases fs)
      case Nil
      have "read_frame (data_stream []) = (Inr None, data_stream [])"
        by (simp add: read_frame_def read_frame_with_limit_def read_byte_def)
      then show ?thesis using Nil no_line
        by (auto simp: read_message_more messages_of_cut [of buf] messages_of_cut [of "[]"] data_frames_def lines_within_def
            intro!: exI [of _ "[]"])
    next
      case (Cons f gs)
      have f: "fr_tag f = TData" "frame_fits f" "length (fr_payload f) + l \<le> MAX_MESSAGE_BYTES" "data_frames l gs"
        using less.prems(1) Cons by (auto simp: data_frames_def)
      have "length buf \<le> l" using less.prems(2) no_line by (rule lines_within_first)
      with f(3) have "length buf + length (fr_payload f) \<le> MAX_MESSAGE_BYTES" by simp
      then have same: "read_message (data_stream fs) buf = read_message (data_stream gs) (buf @ fr_payload f)"
        using no_line f(1) read_frame_frame [OF f(2)] Cons by (simp add: read_message_more)
      have bytes: "buf @ carried fs = (buf @ fr_payload f) @ carried gs" by (simp add: Cons)
      have "length (buf @ fr_payload f) + length (frames_bytes gs) < length buf + length (frames_bytes fs)"
        by (simp add: Cons frame_bytes_def)
      from less.hyps [OF this f(4) less.prems(2) [unfolded bytes]] show ?thesis unfolding same bytes .
    qed
  qed
qed

section \<open>Properties\<close>

text \<open>C38: The messages an HTTP session posts do not depend on how the client cut them into frames.  Read
  to the end, they are exactly the non-empty lines of what the frames carry, cut at the line feeds and without
  one carriage return before each, as long as no line and frame together exceed the message limit.\<close>

theorem http_messages_are_lines:
  assumes "data_frames l fs" "lines_within l (carried fs)"
  shows "read_messages (data_stream fs) [] = (messages_of (carried fs), Inr ())"
proof -
  have "read_messages (data_stream fs) buf = (messages_of (buf @ carried fs), Inr ())"
    if "data_frames l fs" "lines_within l (buf @ carried fs)" for buf fs
    using that
  proof (induction "messages_of (buf @ carried fs)" arbitrary: buf fs)
    case Nil
    obtain r recv' buf' where r: "read_message (data_stream fs) buf = (r, recv', buf')" by (metis prod_cases3)
    with read_message_reads [OF Nil(2,3)] have "r = Inr None" unfolding Nil(1) [symmetric] by simp
    with r show ?case unfolding Nil(1) [symmetric] by (subst read_messages.simps) simp
  next
    case (Cons m ms)
    obtain gs buf' where nx: "read_message (data_stream fs) buf = (Inr (Some m), data_stream gs, buf')"
      "messages_of (buf' @ carried gs) = ms" "data_frames l gs" "lines_within l (buf' @ carried gs)"
      using read_message_reads [OF Cons(3,4)] unfolding Cons(2) [symmetric] by auto
    with Cons(1) [OF nx(2) [symmetric] nx(3,4)] Cons(2) [symmetric] show ?case
      by (subst read_messages.simps) simp
  qed
  from this [of fs "[]"] assms show ?thesis by simp
qed

definition ping_line_frames :: "Frame list" where
  "ping_line_frames = [\<lparr>fr_tag = TData, fr_payload = [123]\<rparr>, \<lparr>fr_tag = TData, fr_payload = [125, 13, 10, 10, 49]\<rparr>]"

theorem http_messages_are_lines_witness:
  "read_messages (data_stream ping_line_frames) [] = ([[123, 125], [49]], Inr ())"
proof -
  have "data_frames 100 ping_line_frames" by (simp add: data_frames_def ping_line_frames_def frame_fits_def MAX_FRAME_def MAX_MESSAGE_BYTES_def)
  moreover have "lines_within 100 (carried ping_line_frames)"
  proof -
    have "length (carried ping_line_frames) \<le> 100" by (simp add: ping_line_frames_def)
    then show ?thesis unfolding lines_within_def by (metis add_leD1 add_leD2 length_append)
  qed
  moreover have "messages_of (carried ping_line_frames) = [[123, 125], [49]]" by code_simp
  ultimately show ?thesis using http_messages_are_lines [of 100 ping_line_frames] by simp
qed

text \<open>C39: An HTTP session never ends by itself.  Whatever its tasks do, as long as writing to the client
  succeeds, the bridge has not returned and the stream to the client is not finished, also after the client
  ended its side and the transport returned: the writer waits for the sender the bridge itself still holds.
  The queue of output stays within its limits throughout.\<close>

theorem http_bridge_never_returns:
  assumes "bridge_run (bridge_start send) b" "out_room send = None"
  shows "bg_phase b \<noteq> BridgeReturned \<and> \<not> bg_finished b \<and>
    length (bg_queue b) \<le> OUTPUT_QUEUE_ITEMS \<and> queued_bytes (bg_queue b) \<le> OUTPUT_BUDGET_BYTES"
proof -
  have "bridge_stuck (bridge_start send)" using assms(2) by (simp add: bridge_stuck_def bridge_start_def)
  with bridge_run_stuck [OF assms(1) bridge_start_ok] bridge_run_ok [OF assms(1) bridge_start_ok]
  show ?thesis by (simp add: bridge_stuck_def bridge_ok_def)
qed

theorem http_bridge_never_returns_witness:
  "\<exists>b. bridge_run (bridge_start quiet_stream) b \<and> bg_phase b = AwaitingWriter \<and> bg_queue b = [] \<and> \<not> bg_finished b"
proof -
  let ?init = "bridge_start quiet_stream"
  let ?ended = "?init\<lparr>bg_phase := AwaitingWriter, bg_senders := bg_senders ?init - {TransportTx, ReaderTx}\<rparr>"
  have "bridge_step ?init ?ended" by (rule bridge_step.transport_ok) (simp add: bridge_start_def)
  then have "bridge_run ?init ?ended" by (meson bridge_run.intros)
  with http_bridge_never_returns [OF this] show ?thesis
    by (intro exI [of _ ?ended]) (simp add: quiet_stream_def bridge_start_def)
qed

end
