(* ===== verification/Edge_Requests.thy ===== *)
theory Edge_Requests
  imports Edge_Registry Edge_Proxy Edge_Http
begin

text \<open>
  One request of an authenticated client (\<open>serve_request\<close> of \<open>crates/as-edge/src/iroh_edge.rs\<close>): the
  START frame, its dispatch to the registry, a command, an MCP server, a proxy or a blob transfer, and the
  answer.  What the network, child processes and the blob store do is a parameter, also what they do to
  files: \<open>re_child\<close> for a process that was spawned, \<open>re_stage\<close> for \<open>add_path\<close> of the blob store.
\<close>

definition MAX_START_PAYLOAD :: nat where "MAX_START_PAYLOAD = 64 * 1024"

record RequestEnv =
  re_start_elapsed :: bool
  re_exec :: ExecEnv
  re_mcp :: McpEnv
  re_tcp :: TcpEnv
  re_udp :: UdpEnv
  re_udp_events :: "(string + SocketAddr \<times> byte list) SelectEvent list"
  re_http_client :: "string + unit"
  re_path :: "string \<Rightarrow> path"
  re_stage :: "path \<Rightarrow> Fs \<Rightarrow> (string + string) \<times> Fs"
  re_child :: "Command \<Rightarrow> Fs \<Rightarrow> Fs"
  re_client_closed :: bool
  re_hash_parse :: "string \<Rightarrow> string + byte list"
  re_fetch :: "EndpointId \<Rightarrow> RelayUrl \<Rightarrow> byte list \<Rightarrow> string + GetBlobItem list"

text \<open>How far a request has come; a staged blob is kept while its tag is held.\<close>

datatype Response =
    Answered Served
  | Proxied TcpProxied
  | Associated Served "(SocketAddr \<times> byte list) list"
  | Bridging Kind Bridge
  | Staged Served bool

definition answered :: "OutStream \<Rightarrow> Served" where
  "answered send = \<lparr>sd_result = Some (Inr ()), sd_send = send, sd_finished = True, sd_child = NoChild\<rparr>"

definition write_json_result :: "Ext \<Rightarrow> json \<Rightarrow> OutStream \<Rightarrow> Served" where
  "write_json_result X value send =
     (case write_frame TResult (json_to_vec X (RpcResult_json (\<lambda>v. v) (RpcOk value))) send of
        (Inl e, send) \<Rightarrow> failed_request e send | (Inr _, send) \<Rightarrow> answered send)"

definition write_ok_result :: "Ext \<Rightarrow> OutStream \<Rightarrow> Served" where
  "write_ok_result X send = write_json_result X JNull send"

definition write_error_result :: "Ext \<Rightarrow> FsError \<Rightarrow> OutStream \<Rightarrow> Served" where
  "write_error_result X e send =
     (case write_frame TResult (json_to_vec X (RpcResult_json (\<lambda>_. JNull)
         (RpcError (RemoteError_internal (fs_error_text e)) :: unit RpcResult))) send of
        (Inl e, send) \<Rightarrow> failed_request e send | (Inr _, send) \<Rightarrow> answered send)"

definition write_transfer_result :: "Ext \<Rightarrow> TransferResult RpcResult \<Rightarrow> OutStream \<Rightarrow> (string + unit) \<times> OutStream" where
  "write_transfer_result X r send = write_frame TResult (json_to_vec X (RpcResult_json TransferResult_json r)) send"

definition recv_upload ::
  "Ext \<Rightarrow> FsEnv \<Rightarrow> RequestEnv \<Rightarrow> string \<Rightarrow> string \<Rightarrow> string \<Rightarrow> string \<Rightarrow> nat io" where
  "recv_upload X E V hash client_id client_relay path =
     io_then (io_result (map_err (\<lambda>e. ''bad client_id: '' @ e) (id_parse X client_id))) (\<lambda>id.
     io_then (io_result (map_err (\<lambda>e. ''bad client_relay: '' @ e) (relay_url_parse X client_relay))) (\<lambda>url.
     io_then (io_result (map_err (\<lambda>e. ''bad hash: '' @ e) (re_hash_parse V hash))) (\<lambda>hash.
     fetch_to_file E (re_fetch V id url hash) (re_path V path))))"

text \<open>Bytes that came with the START frame are the first the session sees.\<close>

definition already_arrived :: "InStream \<Rightarrow> 'c SelectEvent list" where
  "already_arrived recv = (if in_bytes recv = [] then [] else [Arrive (in_bytes recv)])"

definition open_bridge :: "Ext \<Rightarrow> RequestEnv \<Rightarrow> string \<Rightarrow> Kind \<Rightarrow> OutStream \<Rightarrow> Response" where
  "open_bridge X V url kind send = (case url_parse X url of
      Inl e \<Rightarrow> Answered (write_error_result X (Failed (''invalid MCP URL: '' @ e)) send)
    | Inr _ \<Rightarrow> (case bridge_open X (re_http_client V) url send of
        Inl served \<Rightarrow> Answered served | Inr b \<Rightarrow> Bridging kind b))"

definition mcp_connect :: "Ext \<Rightarrow> RequestEnv \<Rightarrow> McpTransport \<Rightarrow> InStream \<Rightarrow> OutStream \<Rightarrow> Response" where
  "mcp_connect X V transport recv send = (case transport of
      Stdio command args cwd \<Rightarrow> Answered (mcp_stdio X
        ((re_mcp V)\<lparr>me_events := already_arrived recv @ me_events (re_mcp V)\<rparr>) command args cwd send)
    | Http url \<Rightarrow> open_bridge X V url Streamable send
    | Sse url \<Rightarrow> open_bridge X V url LegacySse send)"

text \<open>What the child of a session did to files while it was served.\<close>

definition child_effects :: "RequestEnv \<Rightarrow> Child \<Rightarrow> Fs \<Rightarrow> Fs" where
  "child_effects V child fs = (case child of
      NoChild \<Rightarrow> fs
    | ChildRunning cmd \<Rightarrow> re_child V cmd fs
    | ChildKilled cmd \<Rightarrow> re_child V cmd fs
    | ChildReaped cmd \<Rightarrow> re_child V cmd fs)"

definition session_effects :: "RequestEnv \<Rightarrow> Response \<Rightarrow> Fs \<Rightarrow> Fs" where
  "session_effects V resp fs = (case resp of Answered served \<Rightarrow> child_effects V (sd_child served) fs | _ \<Rightarrow> fs)"

definition prepare_download :: "Ext \<Rightarrow> RequestEnv \<Rightarrow> string \<Rightarrow> OutStream \<Rightarrow> Fs \<Rightarrow> Response \<times> Fs" where
  "prepare_download X V path send fs = (case re_stage V (re_path V path) fs of
      (Inr hash, fs) \<Rightarrow> (case write_transfer_result X (RpcOk (DownloadReady hash)) send of
          (Inl e, send) \<Rightarrow> (Staged (failed_request e send) False, fs)
        | (Inr _, send) \<Rightarrow>
            if re_client_closed V then (Staged (answered send) False, fs)
            else (Staged ((answered send)\<lparr>sd_result := None\<rparr>) True, fs))
    | (Inl e, fs) \<Rightarrow> (case write_transfer_result X (RpcError (RemoteError_internal (''stage '' @ path @ '': '' @ e))) send of
          (Inl e, send) \<Rightarrow> (Answered (failed_request e send), fs)
        | (Inr _, send) \<Rightarrow> (Answered (answered send), fs)))"

definition receive_upload ::
  "Ext \<Rightarrow> FsEnv \<Rightarrow> RequestEnv \<Rightarrow> EndpointId \<Rightarrow> string \<Rightarrow> string \<Rightarrow> string \<Rightarrow> string \<Rightarrow> OutStream \<Rightarrow> Fs \<Rightarrow> Response \<times> Fs" where
  "receive_upload X E V client hash client_id client_relay path send fs =
     (if client_id \<noteq> id_to_string X client
      then (Answered (failed_request ''upload client_id does not match authenticated connection'' send), fs)
      else case recv_upload X E V hash client_id client_relay path fs of
        (r, fs) \<Rightarrow> (case write_transfer_result X (case r of
              Inr bytes \<Rightarrow> RpcOk (StoredBytes bytes)
            | Inl e \<Rightarrow> RpcError (RemoteError_internal (fs_error_text e))) send of
            (Inl e, send) \<Rightarrow> (Answered (failed_request e send), fs)
          | (Inr _, send) \<Rightarrow> (Answered (answered send), fs)))"

definition dispatch_request ::
  "Ext \<Rightarrow> FsEnv \<Rightarrow> RequestEnv \<Rightarrow> path \<Rightarrow> EndpointId \<Rightarrow> EdgeReq \<Rightarrow> InStream \<Rightarrow> OutStream \<Rightarrow> Fs \<Rightarrow> Response \<times> Fs" where
  "dispatch_request X E V registry client req recv send fs = (case req of
      Exec params \<Rightarrow> (let resp = Answered (run_exec (re_exec V) params send) in (resp, session_effects V resp fs))
    | McpList \<Rightarrow> (case registry_list X E registry fs of
        (Inr catalog, fs) \<Rightarrow> (Answered (write_json_result X (McpCatalog_json catalog) send), fs)
      | (Inl e, fs) \<Rightarrow> (Answered (write_error_result X e send), fs))
    | McpUpsert name transport \<Rightarrow> (case registry_upsert X E registry name transport fs of
        (Inr _, fs) \<Rightarrow> (Answered (write_ok_result X send), fs)
      | (Inl e, fs) \<Rightarrow> (Answered (write_error_result X e send), fs))
    | McpRemove name \<Rightarrow> (case registry_remove X E registry name fs of
        (Inr _, fs) \<Rightarrow> (Answered (write_ok_result X send), fs)
      | (Inl e, fs) \<Rightarrow> (Answered (write_error_result X e send), fs))
    | McpConnect name \<Rightarrow> (case registry_get X E registry name fs of
        (Inr transport, fs) \<Rightarrow>
          (let resp = mcp_connect X V transport recv send in (resp, session_effects V resp fs))
      | (Inl e, fs) \<Rightarrow> (Answered (write_error_result X e send), fs))
    | ProxyTcpConnect target connect_timeout_secs \<Rightarrow>
        (Proxied (serve_tcp X (re_tcp V) target connect_timeout_secs recv send), fs)
    | ProxyUdpAssociate resolve_timeout_secs \<Rightarrow>
        (case serve_udp X (re_udp V) resolve_timeout_secs (already_arrived recv @ re_udp_events V) send of
           (served, sent) \<Rightarrow> (Associated served sent, fs))
    | PrepareDownload path \<Rightarrow> prepare_download X V path send fs
    | ReceiveUpload hash client_id client_relay path \<Rightarrow>
        receive_upload X E V client hash client_id client_relay path send fs)"

definition serve_request ::
  "Ext \<Rightarrow> FsEnv \<Rightarrow> RequestEnv \<Rightarrow> path \<Rightarrow> EndpointId \<Rightarrow> InStream \<Rightarrow> OutStream \<Rightarrow> Fs \<Rightarrow> Response \<times> Fs" where
  "serve_request X E V registry client recv send fs =
     (if re_start_elapsed V then (Answered (failed_request ''START frame timed out'' send), fs)
      else case read_frame_with_limit MAX_START_PAYLOAD recv of
        (Inl e, _) \<Rightarrow> (Answered (failed_request e send), fs)
      | (Inr None, _) \<Rightarrow> (Answered ((answered send)\<lparr>sd_finished := False\<rparr>), fs)
      | (Inr (Some f), recv) \<Rightarrow>
          if fr_tag f \<noteq> TStart
          then (Answered (failed_request (''expected START, got tag '' @ show_nat (unat (tag_byte (fr_tag f)))) send), fs)
          else (case with_context ''parse EdgeReq'' (and_then (json_from_slice X (fr_payload f)) EdgeReq_of_json) of
              Inl e \<Rightarrow> (Answered (failed_request e send), fs)
            | Inr req \<Rightarrow> dispatch_request X E V registry client req recv send fs))"

section \<open>What a request may change\<close>

text \<open>The request a stream starts with.\<close>

definition started :: "Ext \<Rightarrow> InStream \<Rightarrow> EdgeReq option" where
  "started X recv = (case read_frame_with_limit MAX_START_PAYLOAD recv of
      (Inr (Some f), _) \<Rightarrow> if fr_tag f = TStart
        then (case and_then (json_from_slice X (fr_payload f)) EdgeReq_of_json of Inr req \<Rightarrow> Some req | Inl _ \<Rightarrow> None)
        else None
    | _ \<Rightarrow> None)"

lemma registry_at_cong: "fs_files fs path = fs_files fs' path \<Longrightarrow> registry_at X path fs = registry_at X path fs'"
  by (simp add: registry_at_def)

lemma registry_list_wp:
  assumes "others_idle E" "path \<noteq> registry_lock_path path"
    and "\<And>e fs'. same_except {registry_lock_path path} fs fs' \<Longrightarrow>
      \<not> (no_faults E \<and> path \<noteq> [] \<and> registry_at X path fs \<noteq> None) \<Longrightarrow> Q (Inl e) fs'"
    and "\<And>r fs'. same_except {registry_lock_path path} fs fs' \<Longrightarrow> registry_at X path fs = Some r \<Longrightarrow>
      Q (Inr \<lparr>mc_revision = rg_revision r, mc_servers = rg_servers r\<rparr>) fs'"
  shows "io_wp (registry_list X E path) Q fs"
  unfolding registry_list_def
proof (rule registry_locked_wp, goal_cases)
  case (1 e fs')
  with assms(3) show ?case by blast
next
  case (2 parent fs0)
  let ?G = "fe_others E fs0"
  have same: "same_except {registry_lock_path path} fs fs'" if "fs_files fs' = fs_files ?G" for fs'
    using that 2 assms(1) by (simp add: same_except_def others_idle_def)
  have reg: "registry_at X path ?G = registry_at X path fs"
    using 2 assms(1,2) by (intro registry_at_cong) (simp add: same_except_def others_idle_def)
  show ?case unfolding io_wp_then
  proof (rule registry_load_wp, goal_cases)
    case (1 e fs')
    with assms(3) [OF same] reg show ?case by auto
  next
    case (2 r fs')
    with assms(4) [OF same] reg show ?case by simp
  qed
qed

lemma registry_get_from:
  assumes "others_idle E" "path \<noteq> registry_lock_path path" "registry_get X E path name fs = (r, fs')"
  shows "same_except {registry_lock_path path} fs fs' \<and>
    (\<forall>transport. r = Inr transport \<longrightarrow> (\<exists>reg. registry_at X path fs = Some reg \<and> btree_get name (rg_servers reg) = Some transport))"
proof -
  have "io_wp (registry_get X E path name) (\<lambda>r fs'. same_except {registry_lock_path path} fs fs' \<and>
      (\<forall>transport. r = Inr transport \<longrightarrow> (\<exists>reg. registry_at X path fs = Some reg \<and> btree_get name (rg_servers reg) = Some transport))) fs"
    unfolding registry_get_def using assms(1,2)
    by (cases "validate_mcp_name name") (auto intro!: registry_list_wp simp: map_err_Inl same_except_def split: option.splits)
  from io_wp_result [OF this assms(3)] show ?thesis .
qed

context registry_change
begin

lemma mutate_same:
  assumes "pretty_laws X" "others_idle E"
  shows "io_wp (registry_mutate X E path change) (\<lambda>_ fs'. same_except {path, registry_lock_path path} fs fs') fs"
  using assms(2)
  by (intro mutate_wp [OF assms(1)]) (auto simp: same_except_def others_idle_def registry_changed_def)

end

lemma registry_upsert_same:
  assumes "pretty_laws X" "others_idle E" "registry_upsert X E path name transport fs = (r, fs')"
  shows "same_except {path, registry_lock_path path} fs fs'"
proof -
  have "io_wp (registry_upsert X E path name transport) (\<lambda>_ fs'. same_except {path, registry_lock_path path} fs fs') fs"
    unfolding registry_upsert_def using upserting.mutate_same [OF assms(1,2)] by (auto simp: same_except_def split: sum.split)
  from io_wp_result [OF this assms(3)] show ?thesis .
qed

lemma registry_remove_same:
  assumes "pretty_laws X" "others_idle E" "registry_remove X E path name fs = (r, fs')"
  shows "same_except {path, registry_lock_path path} fs fs'"
proof -
  have "io_wp (registry_remove X E path name) (\<lambda>_ fs'. same_except {path, registry_lock_path path} fs fs') fs"
    unfolding registry_remove_def using removing.mutate_same [OF assms(1,2)] by (auto simp: same_except_def split: sum.split)
  from io_wp_result [OF this assms(3)] show ?thesis .
qed

lemma registry_list_same:
  assumes "others_idle E" "path \<noteq> registry_lock_path path" "registry_list X E path fs = (r, fs')"
  shows "same_except {registry_lock_path path} fs fs'"
proof -
  have "io_wp (registry_list X E path) (\<lambda>_ fs'. same_except {registry_lock_path path} fs fs') fs"
    using assms(1,2) by (auto intro!: registry_list_wp)
  from io_wp_result [OF this assms(3)] show ?thesis .
qed

text \<open>An upload writes at most its destination, and only verified content.\<close>

lemma fetch_effect:
  "io_wp (fetch_to_file E connected dest) (\<lambda>_ fs'. fs_files fs' = fs_files fs \<or>
     (\<exists>items bs. connected = Inr items \<and> blob_bytes items = Some bs \<and>
       fs_files fs' = (fs_files fs)(dest \<mapsto> \<lparr>f_bytes = bs, f_mode = PRIVATE_FILE_MODE\<rparr>))) fs"
  unfolding fetch_to_file_def install_download_def
  by (auto simp: Let_def ensure_def intro!: download_items_wp quiet_rules temp_persist_wp split: sum.split option.split)

lemma recv_upload_effect:
  assumes "recv_upload X E V hash client_id relay path fs = (r, fs')"
  shows "fs_files fs' = fs_files fs \<or> (\<exists>id url h items bs. id_parse X client_id = Inr id \<and>
    re_hash_parse V hash = Inr h \<and> re_fetch V id url h = Inr items \<and> blob_bytes items = Some bs \<and>
    fs_files fs' = (fs_files fs)(re_path V path \<mapsto> \<lparr>f_bytes = bs, f_mode = PRIVATE_FILE_MODE\<rparr>))"
proof (cases "id_parse X client_id"; cases "relay_url_parse X relay"; cases "re_hash_parse V hash")
  fix id url h
  assume parsed: "id_parse X client_id = Inr id" "relay_url_parse X relay = Inr url" "re_hash_parse V hash = Inr h"
  then have "recv_upload X E V hash client_id relay path = fetch_to_file E (re_fetch V id url h) (re_path V path)"
    by (simp add: recv_upload_def io_then_def io_result_def io_check_def fun_eq_iff)
  with io_wp_result [OF fetch_effect, of E "re_fetch V id url h"] assms parsed show ?thesis by metis
qed (use assms in \<open>auto simp: recv_upload_def io_then_def io_result_def io_check_def\<close>)

lemma receive_upload_files:
  "client_id = id_to_string X client \<Longrightarrow> snd (receive_upload X E V client hash client_id relay path send fs) =
    snd (recv_upload X E V hash client_id relay path fs)"
  by (auto simp: receive_upload_def split: prod.splits sum.splits)

text \<open>A process is spawned only as the request says.\<close>

lemma run_exec_child:
  "child_effects V (sd_child (run_exec W params send)) fs =
     (if is_ok (xe_spawn W (exec_command W params)) then re_child V (exec_command W params) fs else fs)"
  by (auto simp: run_exec_def Let_def child_effects_def is_ok_iff
      split: sum.splits prod.splits progress.splits option.splits bool.splits)

lemma mcp_connect_child:
  "session_effects V (mcp_connect X V transport recv send) fs = fs \<or>
    (\<exists>command args cwd. transport = Stdio command args cwd \<and>
      session_effects V (mcp_connect X V transport recv send) fs = re_child V (mcp_command command args cwd) fs)"
proof (cases transport)
  case (Stdio command args cwd)
  let ?V = "(re_mcp V)\<lparr>me_events := already_arrived recv @ me_events (re_mcp V)\<rparr>"
  have "sd_child (mcp_stdio X ?V command args cwd send) \<in> {NoChild, ChildRunning (mcp_command command args cwd),
      ChildKilled (mcp_command command args cwd)}"
    unfolding mcp_stdio_def write_error_def Let_def by (auto split: sum.split prod.split progress.split)
  then show ?thesis by (auto simp: Stdio mcp_connect_def session_effects_def child_effects_def)
qed (auto simp: mcp_connect_def open_bridge_def session_effects_def child_effects_def write_error_result_def
    answered_def failed_request_def bridge_open_def write_error_def split: sum.splits prod.splits)

text \<open>The blob store keeps its own directory.\<close>

definition blobs_confined :: "RequestEnv \<Rightarrow> path \<Rightarrow> bool" where
  "blobs_confined V blobs \<longleftrightarrow>
     (\<forall>path fs p. \<not> prefix blobs p \<longrightarrow> fs_files (snd (re_stage V path fs)) p = fs_files fs p)"

text \<open>The change of files a request may make.\<close>

fun permitted_change :: "Ext \<Rightarrow> RequestEnv \<Rightarrow> path \<Rightarrow> path \<Rightarrow> EndpointId \<Rightarrow> Fs \<Rightarrow> Fs \<Rightarrow> EdgeReq \<Rightarrow> bool" where
  "permitted_change X V registry blobs client fs fs' (ReceiveUpload hash client_id relay path) \<longleftrightarrow>
     client_id = id_to_string X client \<and>
     (\<exists>id url h items bs. id_parse X client_id = Inr id \<and> re_hash_parse V hash = Inr h \<and>
        re_fetch V id url h = Inr items \<and> blob_bytes items = Some bs \<and>
        fs_files fs' = (fs_files fs)(re_path V path \<mapsto> \<lparr>f_bytes = bs, f_mode = PRIVATE_FILE_MODE\<rparr>))"
| "permitted_change X V registry blobs client fs fs' McpList \<longleftrightarrow> same_except {registry_lock_path registry} fs fs'"
| "permitted_change X V registry blobs client fs fs' (McpConnect name) \<longleftrightarrow>
     same_except {registry_lock_path registry} fs fs' \<or>
     (\<exists>fs1 r command args cwd. same_except {registry_lock_path registry} fs fs1 \<and> registry_at X registry fs = Some r \<and>
        btree_get name (rg_servers r) = Some (Stdio command args cwd) \<and> fs' = re_child V (mcp_command command args cwd) fs1)"
| "permitted_change X V registry blobs client fs fs' (McpUpsert _ _) \<longleftrightarrow>
     same_except {registry, registry_lock_path registry} fs fs'"
| "permitted_change X V registry blobs client fs fs' (McpRemove _) \<longleftrightarrow>
     same_except {registry, registry_lock_path registry} fs fs'"
| "permitted_change X V registry blobs client fs fs' (Exec params) \<longleftrightarrow>
     xe_spawn (re_exec V) (exec_command (re_exec V) params) = Inr () \<and> fs' = re_child V (exec_command (re_exec V) params) fs"
| "permitted_change X V registry blobs client fs fs' (PrepareDownload _) \<longleftrightarrow>
     (\<forall>p. \<not> prefix blobs p \<longrightarrow> fs_files fs' p = fs_files fs p)"
| "permitted_change X V registry blobs client fs fs' _ \<longleftrightarrow> False"

lemma dispatch_changes:
  assumes "pretty_laws X" "others_idle E" "registry \<noteq> registry_lock_path registry" "blobs_confined V blobs"
    "dispatch_request X E V registry client req recv send fs = (resp, fs')" "fs_files fs' \<noteq> fs_files fs"
  shows "permitted_change X V registry blobs client fs fs' req"
proof (cases req)
  case (ReceiveUpload hash client_id relay path)
  obtain r fs1 where run: "recv_upload X E V hash client_id relay path fs = (r, fs1)" by fastforce
  have "client_id = id_to_string X client \<and> fs' = fs1"
    using assms(5,6) run by (auto simp: ReceiveUpload dispatch_request_def receive_upload_def split: prod.splits sum.splits if_splits)
  with recv_upload_effect [OF run] assms(6) show ?thesis unfolding ReceiveUpload permitted_change.simps by metis
next
  case McpList
  obtain r fs1 where run: "registry_list X E registry fs = (r, fs1)" by fastforce
  then have "fs' = fs1" using assms(5) by (auto simp: McpList dispatch_request_def split: sum.splits)
  with registry_list_same [OF assms(2,3) run] McpList show ?thesis by simp
next
  case (McpConnect name)
  obtain r fs1 where run: "registry_get X E registry name fs = (r, fs1)" by fastforce
  note got = registry_get_from [OF assms(2,3) run]
  show ?thesis
  proof (cases r)
    case (Inl e)
    then have "fs' = fs1" using assms(5) run by (auto simp: McpConnect dispatch_request_def)
    with got McpConnect show ?thesis by simp
  next
    case (Inr transport)
    then have "fs' = session_effects V (mcp_connect X V transport recv send) fs1"
      using assms(5) run by (auto simp: McpConnect dispatch_request_def Let_def)
    with got Inr mcp_connect_child [of V X transport recv send fs1] show ?thesis
      unfolding McpConnect permitted_change.simps by metis
  qed
next
  case (McpUpsert name transport)
  obtain r fs1 where run: "registry_upsert X E registry name transport fs = (r, fs1)" by fastforce
  then have "fs' = fs1" using assms(5) by (auto simp: McpUpsert dispatch_request_def split: sum.splits)
  with registry_upsert_same [OF assms(1,2) run] McpUpsert show ?thesis by simp
next
  case (McpRemove name)
  obtain r fs1 where run: "registry_remove X E registry name fs = (r, fs1)" by fastforce
  then have "fs' = fs1" using assms(5) by (auto simp: McpRemove dispatch_request_def split: sum.splits)
  with registry_remove_same [OF assms(1,2) run] McpRemove show ?thesis by simp
next
  case (Exec params)
  then have "fs' = child_effects V (sd_child (run_exec (re_exec V) params send)) fs"
    using assms(5) by (auto simp: dispatch_request_def Let_def session_effects_def)
  with assms(6) show ?thesis by (auto simp: Exec run_exec_child is_ok_iff split: if_splits)
next
  case (PrepareDownload path)
  then have "fs' = snd (re_stage V (re_path V path) fs)"
    using assms(5) by (auto simp: dispatch_request_def prepare_download_def split: prod.splits sum.splits if_splits)
  with assms(4) show ?thesis by (simp add: PrepareDownload blobs_confined_def)
qed (use assms(5,6) in \<open>auto simp: dispatch_request_def split: prod.splits\<close>)

section \<open>A request on a stream\<close>

definition start_frame :: "Ext \<Rightarrow> EdgeReq \<Rightarrow> Frame" where
  "start_frame X req = \<lparr>fr_tag = TStart, fr_payload = json_to_vec X (EdgeReq_json req)\<rparr>"

definition start_stream :: "Ext \<Rightarrow> EdgeReq \<Rightarrow> InStream" where
  "start_stream X req = \<lparr>in_bytes = frame_bytes (start_frame X req), in_broken = None\<rparr>"

definition startable :: "Ext \<Rightarrow> EdgeReq \<Rightarrow> bool" where
  "startable X req \<longleftrightarrow> json_laws X \<and> request_in_range req \<and> length (json_to_vec X (EdgeReq_json req)) \<le> MAX_START_PAYLOAD"

lemma start_read:
  assumes "startable X req"
  shows "read_frame_with_limit MAX_START_PAYLOAD (start_stream X req) =
    (Inr (Some (start_frame X req)), \<lparr>in_bytes = [], in_broken = None\<rparr>)"
proof -
  let ?n = "length (json_to_vec X (EdgeReq_json req))"
  have "?n \<le> MAX_START_PAYLOAD" using assms by (simp add: startable_def)
  moreover from this have "?n \<le> MAX_FRAME" by (simp add: MAX_START_PAYLOAD_def MAX_FRAME_def)
  from read_header [OF this, of TStart] have "split_header (tag_byte TStart # le_bytes ?n) = Inr (TStart, ?n)" .
  ultimately show ?thesis
    by (simp add: read_frame_with_limit_def start_stream_def start_frame_def frame_bytes_def read_byte_def read_exact_def del: tag_byte.simps)
qed

lemma start_parsed: "startable X req \<Longrightarrow> and_then (json_from_slice X (fr_payload (start_frame X req))) EdgeReq_of_json = Inr req"
  by (simp add: startable_def start_frame_def json_laws_def EdgeReq_round_trip)

lemma serve_started:
  assumes "startable X req" "\<not> re_start_elapsed V"
  shows "serve_request X E V registry client (start_stream X req) send fs =
    dispatch_request X E V registry client req \<lparr>in_bytes = [], in_broken = None\<rparr> send fs"
  using assms(2) start_parsed [OF assms(1)]
  by (auto simp: serve_request_def start_read [OF assms(1)] with_context_def start_frame_def)

section \<open>Properties\<close>

text \<open>C34: Files change only by what a request may change.  If a request changed any file, its stream began
  with a START frame within the limit holding a well-formed request, and the change was that request's: an
  upload naming the identity the connection was authenticated with, whose destination now holds content that
  was verified while it was fetched from that client; an MCP registry request, where only the registry and
  its lock changed; a download, where only the blob store changed; or the doing of a process, which was the
  requested command or the registered local MCP server, and nothing else was spawned.  A proxy request
  changes no file.\<close>

theorem request_effects:
  assumes "pretty_laws X" "others_idle E" "registry \<noteq> registry_lock_path registry" "blobs_confined V blobs"
    "serve_request X E V registry client recv send fs = (resp, fs')" "fs_files fs' \<noteq> fs_files fs"
  shows "\<exists>req. started X recv = Some req \<and> permitted_change X V registry blobs client fs fs' req"
proof -
  obtain f rest req where start: "read_frame_with_limit MAX_START_PAYLOAD recv = (Inr (Some f), rest)" "fr_tag f = TStart"
    "and_then (json_from_slice X (fr_payload f)) EdgeReq_of_json = Inr req"
    and run: "dispatch_request X E V registry client req rest send fs = (resp, fs')"
    using assms(5,6) by (auto simp: serve_request_def with_context_def map_err_Inl
        split: if_splits prod.splits sum.splits option.splits)
  have "started X recv = Some req"
    by (simp only: started_def start prod.case sum.case option.case if_True simp_thms)
  with dispatch_changes [OF assms(1-4) run assms(6)] show ?thesis by blast
qed

definition request_env :: RequestEnv where
  "request_env = \<lparr>re_start_elapsed = False, re_exec = echo_env,
     re_mcp = \<lparr>me_spawn = (\<lambda>_. Inr quiet_stream), me_events = []\<rparr>,
     re_tcp = \<lparr>te_connect = (\<lambda>_ _. ConnectElapsed), te_prefix = 0\<rparr>, re_udp = dns_env, re_udp_events = [],
     re_http_client = Inr (), re_path = (\<lambda>_. state_path), re_stage = (\<lambda>_ fs. (Inl ''missing'', fs)),
     re_child = (\<lambda>_ fs. fs), re_client_closed = True,
     re_hash_parse = (\<lambda>s. Inr (string_bytes s)), re_fetch = (\<lambda>_ _ _. Inr [Leaf [7, 7], Done])\<rparr>"

definition upload_request :: EdgeReq where
  "upload_request = ReceiveUpload ''h'' (id_to_string ref_ext (EndpointId [1])) ''r'' ''f''"

lemma upload_startable: "startable ref_ext upload_request"
proof -
  have "length (json_to_vec ref_ext (EdgeReq_json upload_request)) \<le> MAX_START_PAYLOAD"
    by (simp add: ref_ext_def upload_request_def MAX_START_PAYLOAD_def enc_nat.simps)
  then show ?thesis by (simp add: startable_def upload_request_def)
qed

theorem request_effects_witness:
  "\<exists>fs'. snd (serve_request ref_ext calm_disk request_env sample_registry_path (EndpointId [1])
      (start_stream ref_ext upload_request) quiet_stream sample_fs) = fs' \<and>
    permitted_change ref_ext request_env sample_registry_path [''blobs''] (EndpointId [1]) sample_fs fs' upload_request \<and>
    fs_files fs' state_path = Some \<lparr>f_bytes = [7, 7], f_mode = PRIVATE_FILE_MODE\<rparr>"
proof -
  let ?run = "serve_request ref_ext calm_disk request_env sample_registry_path (EndpointId [1])
    (start_stream ref_ext upload_request) quiet_stream sample_fs"
  have live: "\<not> re_start_elapsed request_env" by (simp add: request_env_def)
  have parse: "id_parse ref_ext (id_to_string ref_ext (EndpointId [1])) = Inr (EndpointId [1])"
    using ref_ext_laws(2) by (simp add: id_laws_def)
  have relay: "relay_url_parse ref_ext ''r'' = Inr ''r/''" by (simp add: ref_ext_def)
  have "fs_files (snd (recv_upload ref_ext calm_disk request_env ''h'' (id_to_string ref_ext (EndpointId [1])) ''r'' ''f'' sample_fs))
      = (fs_files sample_fs)(state_path \<mapsto> \<lparr>f_bytes = [7, 7], f_mode = PRIVATE_FILE_MODE\<rparr>)"
    by (simp add: recv_upload_def request_env_def parse relay fetch_to_file_def install_download_def io_then_def io_step_def
        io_call_def io_result_def io_check_def io_context_def io_map_err_def temp_write_all_def temp_sync_all_def
        temp_persist_def io_ok_def ensure_def calm_disk_def Let_def)
  then have files: "fs_files (snd ?run) = (fs_files sample_fs)(state_path \<mapsto> \<lparr>f_bytes = [7, 7], f_mode = PRIVATE_FILE_MODE\<rparr>)"
    unfolding serve_started [OF upload_startable live]
    by (simp add: dispatch_request_def upload_request_def receive_upload_files)
  then have "fs_files (snd ?run) \<noteq> fs_files sample_fs" by (auto simp: sample_fs_def fun_eq_iff)
  moreover have "sample_registry_path \<noteq> registry_lock_path sample_registry_path"
    by (simp add: sample_registry_path_def registry_lock_path_def path_with_extension_def file_stem_def)
  moreover have "others_idle calm_disk" by (simp add: others_idle_def calm_disk_def)
  moreover have "blobs_confined request_env [''blobs'']" by (simp add: blobs_confined_def request_env_def)
  ultimately have "\<exists>req. started ref_ext (start_stream ref_ext upload_request) = Some req \<and>
      permitted_change ref_ext request_env sample_registry_path [''blobs''] (EndpointId [1]) sample_fs (snd ?run) req"
    by (intro request_effects [OF ref_ext_laws(5) _ _ _ surjective_pairing]) auto
  moreover have "started ref_ext (start_stream ref_ext upload_request) = Some upload_request"
    using start_parsed [OF upload_startable] start_read [OF upload_startable]
    by (auto simp: started_def start_frame_def)
  ultimately show ?thesis using files by auto
qed

text \<open>A definition that was added is listed.  On a disk without faults, an upsert request with a valid
  name and transport succeeds, and a list request after it answers with a catalog in which that name has that
  transport and every other name what it had.\<close>

theorem mcp_added_is_listed:
  assumes "pretty_laws X" "no_faults E" "others_idle E" "registry \<noteq> []" "registry \<noteq> registry_lock_path registry"
    and "startable X (McpUpsert name transport)" "startable X McpList" "\<not> re_start_elapsed V"
    and "validate_mcp_name name = Inr ()" "validate_transport X transport = Inr ()"
    and "registry_at X registry fs = Some r" "rg_revision r < u64_max"
    and "serve_request X E V registry client (start_stream X (McpUpsert name transport)) send fs = (added, fs1)"
    and "serve_request X E V registry client (start_stream X McpList) send fs1 = (listed, fs2)"
  shows "added = Answered (write_ok_result X send) \<and>
    (\<exists>catalog. listed = Answered (write_json_result X (McpCatalog_json catalog) send) \<and>
      btree_get name (mc_servers catalog) = Some transport \<and>
      (\<forall>n. n \<noteq> name \<longrightarrow> btree_get n (mc_servers catalog) = btree_get n (rg_servers r)))"
proof -
  let ?r = "r\<lparr>rg_servers := btree_insert name transport (rg_servers r), rg_revision := rg_revision r + 1\<rparr>"
  obtain res fs0 where upsert: "registry_upsert X E registry name transport fs = (res, fs0)" by fastforce
  have at: "registry_at X registry (fe_others E fs0) = Some r" if "same_except {registry_lock_path registry} fs fs0" for fs0
    using that assms(3,5,11) registry_at_cong [of "fe_others E fs0" registry fs X] by (simp add: same_except_def others_idle_def)
  have "io_wp (registry_mutate X E registry (upsert_change name transport)) (\<lambda>res fs'. is_ok res \<and> registry_at X registry fs' = Some ?r) fs"
    using assms(2,4,12) registry_at_ok [OF assms(11)]
    by (intro upserting.mutate_wp [OF assms(1)])
      (auto simp: at registry_changed_def upsert_change_def u64_checked_add_def registry_ok_def)
  then have "io_wp (registry_upsert X E registry name transport) (\<lambda>res fs'. is_ok res \<and> registry_at X registry fs' = Some ?r) fs"
    unfolding registry_upsert_def by (simp add: assms(9,10))
  from io_wp_result [OF this upsert] have ok: "is_ok res" "registry_at X registry fs0 = Some ?r" by auto
  then have added: "added = Answered (write_ok_result X send)" "fs1 = fs0"
    using assms(13) upsert by (auto simp: serve_started [OF assms(6,8)] dispatch_request_def is_ok_iff)
  obtain res2 fs3 where list: "registry_list X E registry fs1 = (res2, fs3)" by fastforce
  have "io_wp (registry_list X E registry) (\<lambda>res fs'. res = Inr \<lparr>mc_revision = rg_revision ?r, mc_servers = rg_servers ?r\<rparr>) fs1"
    using ok(2) added(2) assms(2,4) by (intro registry_list_wp [OF assms(3,5)]) auto
  from io_wp_result [OF this list] have "res2 = Inr \<lparr>mc_revision = rg_revision ?r, mc_servers = rg_servers ?r\<rparr>" .
  with list assms(14) have "listed = Answered (write_json_result X (McpCatalog_json \<lparr>mc_revision = rg_revision ?r, mc_servers = rg_servers ?r\<rparr>) send)"
    by (auto simp: serve_started [OF assms(7,8)] dispatch_request_def)
  moreover have "btree_ok (rg_servers r)" using registry_at_ok [OF assms(11)] by (simp add: registry_ok_def)
  ultimately show ?thesis using added(1) by auto
qed

definition lldb_request :: EdgeReq where
  "lldb_request = McpUpsert ''lldb'' (Stdio ''lldb-mcp'' [] None)"

theorem mcp_added_is_listed_witness:
  "\<exists>fs1 catalog. snd (serve_request ref_ext calm_disk request_env sample_registry_path (EndpointId [1])
      (start_stream ref_ext lldb_request) quiet_stream sample_fs) = fs1 \<and>
    fst (serve_request ref_ext calm_disk request_env sample_registry_path (EndpointId [1])
      (start_stream ref_ext McpList) quiet_stream fs1) = Answered (write_json_result ref_ext (McpCatalog_json catalog) quiet_stream) \<and>
    btree_get ''lldb'' (mc_servers catalog) = Some (Stdio ''lldb-mcp'' [] None)"
proof -
  have start: "startable ref_ext lldb_request" "startable ref_ext McpList"
    by (simp_all add: startable_def lldb_request_def ref_ext_laws(4))
      (simp_all add: ref_ext_def MAX_START_PAYLOAD_def enc_nat.simps strings_json_def)
  have path: "sample_registry_path \<noteq> []" "sample_registry_path \<noteq> registry_lock_path sample_registry_path"
    by (simp_all add: sample_registry_path_def registry_lock_path_def path_with_extension_def file_stem_def)
  have disk: "no_faults calm_disk" "others_idle calm_disk" by (simp_all add: no_faults_def others_idle_def calm_disk_def)
  have at: "registry_at ref_ext sample_registry_path sample_fs = Some RegistryFile_default"
    by (auto simp: registry_at_def sample_registry_path_def sample_fs_def state_path_def)
  from mcp_added_is_listed [OF ref_ext_laws(5) disk path start(1) [unfolded lldb_request_def] start(2) _ _ _ at _
      surjective_pairing surjective_pairing, of request_env "EndpointId [1]" quiet_stream]
  show ?thesis
    by (auto simp: lldb_request_def request_env_def validate_mcp_name_def ensure_def RegistryFile_default_def u64_max_def)
qed

end
