(* ===== verification/Edge_Server.thy ===== *)
theory Edge_Server
  imports Core_Files Hash_Maps
begin

text \<open>
  Who may use an edge (\<open>crates/as-edge/src/iroh_edge.rs\<close>): the pinned or managed set of clients, the
  table of their connections, and the accept loop with its limit on pending handshakes.  Connections are
  what \<open>iroh\<close> hands over; closing one is recorded.
\<close>

definition MAX_PENDING_HANDSHAKES :: nat where "MAX_PENDING_HANDSHAKES = 64"

record Connection =
  cn_stable_id :: nat
  cn_remote :: EndpointId

datatype ClientAuth = Single "EndpointId option" "path option" | Managed "EndpointId set"

record ClientPin =
  cp_auth :: ClientAuth
  cp_connections :: "(EndpointId, (nat, Connection) hash_map) hash_map"
  cp_closed :: "(Connection \<times> string) list"

definition pin_strict :: "EndpointId \<Rightarrow> ClientPin" where
  "pin_strict i = \<lparr>cp_auth = Single (Some i) None, cp_connections = [], cp_closed = []\<rparr>"

definition pin_tofu :: "EndpointId option \<Rightarrow> path \<Rightarrow> ClientPin" where
  "pin_tofu existing store = \<lparr>cp_auth = Single existing (Some store), cp_connections = [], cp_closed = []\<rparr>"

definition pin_managed :: "EndpointId set \<Rightarrow> ClientPin" where
  "pin_managed ids = \<lparr>cp_auth = Managed ids, cp_connections = [], cp_closed = []\<rparr>"

fun is_authorized :: "ClientAuth \<Rightarrow> EndpointId \<Rightarrow> bool" where
  "is_authorized (Single pinned _) remote \<longleftrightarrow> pinned = Some remote"
| "is_authorized (Managed ids) remote \<longleftrightarrow> remote \<in> ids"

section \<open>Operations\<close>

definition authorize :: "Ext \<Rightarrow> FsEnv \<Rightarrow> EndpointId \<Rightarrow> ClientAuth \<Rightarrow> (bool \<times> ClientAuth) io" where
  "authorize X E remote auth = (case auth of
      Single (Some i) store \<Rightarrow> io_ok (i = remote, auth)
    | Single None store \<Rightarrow>
        io_then (case store of
            Some path \<Rightarrow> atomic_write E path (string_bytes (id_to_string X remote @ [CHR 0x0A]))
          | None \<Rightarrow> io_ok ()) (\<lambda>_.
        io_ok (True, Single (Some remote) store))
    | Managed ids \<Rightarrow> io_ok (remote \<in> ids, auth))"

definition register :: "Connection \<Rightarrow> ClientPin \<Rightarrow> ClientPin" where
  "register connection pin = (let remote = cn_remote connection;
       items = (case hash_get remote (cp_connections pin) of Some items \<Rightarrow> items | None \<Rightarrow> []) in
     pin\<lparr>cp_connections := hash_insert remote
       (hash_insert (cn_stable_id connection) connection items) (cp_connections pin)\<rparr>)"

definition authorize_and_register ::
  "Ext \<Rightarrow> FsEnv \<Rightarrow> Connection \<Rightarrow> ClientPin \<Rightarrow> Fs \<Rightarrow> ((FsError + bool) \<times> ClientPin) \<times> Fs" where
  "authorize_and_register X E connection pin fs =
     (case authorize X E (cn_remote connection) (cp_auth pin) fs of
        (Inl e, fs) \<Rightarrow> ((Inl e, pin), fs)
      | (Inr (authorized, auth), fs) \<Rightarrow>
          (let pin = pin\<lparr>cp_auth := auth\<rparr> in
           ((Inr authorized, if authorized then register connection pin else pin), fs)))"

definition unregister :: "EndpointId \<Rightarrow> nat \<Rightarrow> ClientPin \<Rightarrow> ClientPin" where
  "unregister remote stable_id pin = (case hash_get remote (cp_connections pin) of
      None \<Rightarrow> pin
    | Some items \<Rightarrow>
        (let items = hash_remove stable_id items in
         pin\<lparr>cp_connections := (if items = [] then hash_remove remote (cp_connections pin)
           else hash_insert remote items (cp_connections pin))\<rparr>))"

text \<open>A removed client without connections has nothing to close, so only those with connections are listed;
  the order the set difference is iterated in is that of the table, and no property depends on it.\<close>

definition close_client :: "EndpointId \<Rightarrow> ClientPin \<Rightarrow> ClientPin" where
  "close_client endpoint_id pin = (case hash_get endpoint_id (cp_connections pin) of
      None \<Rightarrow> pin
    | Some items \<Rightarrow> pin\<lparr>cp_connections := hash_remove endpoint_id (cp_connections pin),
        cp_closed := cp_closed pin @ map (\<lambda>(_, c). (c, ''client authorization revoked'')) items\<rparr>)"

definition replace_managed :: "EndpointId set \<Rightarrow> ClientPin \<Rightarrow> (string + unit) \<times> ClientPin" where
  "replace_managed next pin = (case cp_auth pin of
      Single _ _ \<Rightarrow> (Inl ''cannot update a standalone client pin'', pin)
    | Managed current \<Rightarrow>
        (let removed = filter (\<lambda>i. i \<in> current \<and> i \<notin> next) (map fst (cp_connections pin)) in
         (Inr (), fold close_client removed (pin\<lparr>cp_auth := Managed next\<rparr>))))"

section \<open>The accept loop\<close>

text \<open>The tasks of a serving edge, as \<open>serve\<close> and \<open>handle_conn\<close> create and end them.  A connection that
  finishes its handshake has a stable id no live connection has.\<close>

record EdgeServer =
  sv_pin :: ClientPin
  sv_pending :: nat
  sv_serving :: "Connection list"
  sv_refused :: nat
  sv_requests :: "Connection list"
  sv_fs :: Fs

definition finish_handshake :: "Ext \<Rightarrow> FsEnv \<Rightarrow> Connection \<Rightarrow> EdgeServer \<Rightarrow> EdgeServer" where
  "finish_handshake X E conn sv =
     (case authorize_and_register X E conn (sv_pin sv) (sv_fs sv) of
        ((Inl e, pin), fs) \<Rightarrow> sv\<lparr>sv_pin := pin, sv_fs := fs, sv_pending := sv_pending sv - 1\<rparr>
      | ((Inr False, pin), fs) \<Rightarrow> sv\<lparr>sv_pin := pin\<lparr>cp_closed := cp_closed pin @ [(conn, ''unauthorized'')]\<rparr>,
          sv_fs := fs, sv_pending := sv_pending sv - 1\<rparr>
      | ((Inr True, pin), fs) \<Rightarrow> sv\<lparr>sv_pin := pin, sv_fs := fs, sv_pending := sv_pending sv - 1,
          sv_serving := conn # sv_serving sv\<rparr>)"

definition accept_incoming :: "EdgeServer \<Rightarrow> EdgeServer" where
  "accept_incoming sv = (if sv_pending sv < MAX_PENDING_HANDSHAKES
     then sv\<lparr>sv_pending := sv_pending sv + 1\<rparr> else sv\<lparr>sv_refused := sv_refused sv + 1\<rparr>)"

definition end_connection :: "Connection \<Rightarrow> EdgeServer \<Rightarrow> EdgeServer" where
  "end_connection conn sv = sv\<lparr>sv_pin := unregister (cn_remote conn) (cn_stable_id conn) (sv_pin sv),
     sv_serving := filter (\<lambda>c. c \<noteq> conn) (sv_serving sv)\<rparr>"

inductive edge_step :: "Ext \<Rightarrow> EdgeServer \<Rightarrow> EdgeServer \<Rightarrow> bool" for X where
  incoming: "edge_step X sv (accept_incoming sv)"
| handshake_failed: "0 < sv_pending sv \<Longrightarrow> edge_step X sv (sv\<lparr>sv_pending := sv_pending sv - 1\<rparr>)"
| handshake_done: "0 < sv_pending sv \<Longrightarrow> cn_stable_id conn \<notin> cn_stable_id ` set (sv_serving sv) \<Longrightarrow>
    cn_stable_id conn \<notin> cn_stable_id ` fst ` set (cp_closed (sv_pin sv)) \<Longrightarrow>
    edge_step X sv (finish_handshake X E conn sv)"
| request: "conn \<in> set (sv_serving sv) \<Longrightarrow> conn \<notin> fst ` set (cp_closed (sv_pin sv)) \<Longrightarrow>
    edge_step X sv (sv\<lparr>sv_requests := sv_requests sv @ [conn]\<rparr>)"
| ended: "conn \<in> set (sv_serving sv) \<Longrightarrow> edge_step X sv (end_connection conn sv)"
| authority: "replace_managed next (sv_pin sv) = (r, pin) \<Longrightarrow> edge_step X sv (sv\<lparr>sv_pin := pin\<rparr>)"

inductive edge_run :: "Ext \<Rightarrow> EdgeServer \<Rightarrow> EdgeServer \<Rightarrow> bool" for X where
  start: "edge_run X sv sv"
| step: "edge_run X sv sv' \<Longrightarrow> edge_step X sv' sv'' \<Longrightarrow> edge_run X sv sv''"

inductive_cases edge_stepE: "edge_step X sv sv'"

definition server_start :: "ClientPin \<Rightarrow> Fs \<Rightarrow> EdgeServer" where
  "server_start pin fs = \<lparr>sv_pin = pin, sv_pending = 0, sv_serving = [], sv_refused = 0, sv_requests = [], sv_fs = fs\<rparr>"

section \<open>Invariant\<close>

definition registered :: "ClientPin \<Rightarrow> Connection \<Rightarrow> bool" where
  "registered pin c \<longleftrightarrow> (\<exists>items. hash_get (cn_remote c) (cp_connections pin) = Some items \<and>
     hash_get (cn_stable_id c) items = Some c)"

definition pin_closed :: "ClientPin \<Rightarrow> Connection \<Rightarrow> bool" where
  "pin_closed pin c \<longleftrightarrow> c \<in> fst ` set (cp_closed pin)"

definition tracked :: "ClientPin \<Rightarrow> Connection \<Rightarrow> bool" where
  "tracked pin c \<longleftrightarrow> registered pin c \<or> pin_closed pin c"

definition pin_ok :: "ClientPin \<Rightarrow> bool" where
  "pin_ok pin \<longleftrightarrow> hash_ok (cp_connections pin) \<and> (\<forall>i items. hash_get i (cp_connections pin) = Some items \<longrightarrow>
     hash_ok items \<and> is_authorized (cp_auth pin) i)"

definition server_ok :: "EdgeServer \<Rightarrow> bool" where
  "server_ok sv \<longleftrightarrow> pin_ok (sv_pin sv) \<and> sv_pending sv \<le> MAX_PENDING_HANDSHAKES \<and>
     distinct (map cn_stable_id (sv_serving sv)) \<and>
     (\<forall>c \<in> set (sv_serving sv). tracked (sv_pin sv) c)"

lemma registered_authorized: "pin_ok pin \<Longrightarrow> registered pin c \<Longrightarrow> is_authorized (cp_auth pin) (cn_remote c)"
  by (auto simp: pin_ok_def registered_def)

lemma authorize_Inr:
  assumes "authorize X E remote auth fs = (Inr (b, auth'), fs')"
  shows "b = is_authorized auth' remote" "is_authorized auth i \<Longrightarrow> is_authorized auth' i"
    "auth = Single (Some j) st \<Longrightarrow> auth' = auth"
  using assms unfolding authorize_def
  by (auto simp: io_ok_def io_then_def split: ClientAuth.splits option.splits prod.splits sum.splits)

lemma register_ok:
  assumes "pin_ok pin" "is_authorized (cp_auth pin) (cn_remote c)"
  shows "pin_ok (register c pin)" "registered (register c pin) c" "pin_closed (register c pin) d \<longleftrightarrow> pin_closed pin d"
    "registered pin d \<Longrightarrow> cn_stable_id d \<noteq> cn_stable_id c \<Longrightarrow> registered (register c pin) d"
    "cp_auth (register c pin) = cp_auth pin"
  using assms
  by (auto simp: register_def Let_def pin_ok_def registered_def pin_closed_def split: option.splits)

lemma unregister_ok:
  assumes "pin_ok pin"
  shows "pin_ok (unregister i n pin)" "pin_closed (unregister i n pin) d \<longleftrightarrow> pin_closed pin d"
    "registered pin d \<Longrightarrow> cn_stable_id d \<noteq> n \<Longrightarrow> registered (unregister i n pin) d"
    "cp_auth (unregister i n pin) = cp_auth pin"
proof -
  have "hash_remove n items \<noteq> []" if "hash_get k items = Some c" "k \<noteq> n" for items :: "(nat, Connection) hash_map" and k c
    using that by (metis hash_get_Nil hash_get_remove option.distinct(1))
  then show "registered pin d \<Longrightarrow> cn_stable_id d \<noteq> n \<Longrightarrow> registered (unregister i n pin) d"
    by (auto simp: unregister_def Let_def registered_def split: option.splits)
qed (use assms in \<open>auto simp: unregister_def Let_def pin_ok_def pin_closed_def split: option.splits if_splits\<close>)

text \<open>Closing clients keeps every connection registered or closed, and registers none.\<close>

definition conn_tables_ok :: "ClientPin \<Rightarrow> bool" where
  "conn_tables_ok pin \<longleftrightarrow> hash_ok (cp_connections pin) \<and>
     (\<forall>j items. hash_get j (cp_connections pin) = Some items \<longrightarrow> hash_ok items)"

lemma close_client_keeps:
  assumes "conn_tables_ok pin"
  shows "hash_get j (cp_connections (close_client i pin)) = (if j = i then None else hash_get j (cp_connections pin))"
    "tracked pin c \<Longrightarrow> tracked (close_client i pin) c" "cp_auth (close_client i pin) = cp_auth pin"
    "conn_tables_ok (close_client i pin)"
proof -
  have "pin_closed (close_client i pin) c" if "hash_get i (cp_connections pin) = Some items" "hash_get n items = Some c" for items n
  proof -
    have "(n, c) \<in> set items" using assms that by (simp add: conn_tables_ok_def hash_get_member)
    with that(1) show ?thesis by (force simp: pin_closed_def close_client_def)
  qed
  then show "tracked pin c \<Longrightarrow> tracked (close_client i pin) c"
    by (cases "cn_remote c = i")
      (auto simp: tracked_def registered_def pin_closed_def close_client_def split: option.splits)
qed (use assms in \<open>auto simp: conn_tables_ok_def close_client_def split: option.splits if_splits\<close>)

lemma fold_close_keeps:
  assumes "conn_tables_ok pin"
  shows "hash_get j (cp_connections (fold close_client ids pin)) = (if j \<in> set ids then None else hash_get j (cp_connections pin))"
    "tracked pin c \<Longrightarrow> tracked (fold close_client ids pin) c" "cp_auth (fold close_client ids pin) = cp_auth pin"
    "conn_tables_ok (fold close_client ids pin)"
  using assms by (induction ids arbitrary: pin) (simp_all add: close_client_keeps)

lemma replace_managed_managed:
  assumes "pin_ok pin" "replace_managed next pin = (r, pin')" "cp_auth pin = Managed current"
  shows "pin_ok pin' \<and> (tracked pin c \<longrightarrow> tracked pin' c) \<and> r = Inr () \<and> cp_auth pin' = Managed next"
proof -
  let ?removed = "filter (\<lambda>i. i \<in> current \<and> i \<notin> next) (map fst (cp_connections pin))"
  let ?pin = "pin\<lparr>cp_auth := Managed next\<rparr>"
  have tables: "conn_tables_ok ?pin" using assms(1) by (simp add: conn_tables_ok_def pin_ok_def)
  have res: "pin' = fold close_client ?removed ?pin" "r = Inr ()"
    using assms(2,3) by (simp_all add: replace_managed_def Let_def)
  note kept = fold_close_keeps [OF tables, where ids = ?removed, folded res(1)]
  have "i \<in> next" if "hash_get i (cp_connections pin') = Some items" for i items
  proof -
    have i: "i \<notin> set ?removed" "hash_get i (cp_connections pin) = Some items"
      using that kept(1) [of i] by (simp_all split: if_splits)
    from i(2) have "i \<in> fst ` set (cp_connections pin)" by (metis hash_get_None option.distinct(1))
    moreover from i(2) assms(1,3) have "i \<in> current" by (simp add: pin_ok_def)
    ultimately show ?thesis using i(1) by simp
  qed
  with kept(3,4) have "pin_ok pin'" by (simp add: pin_ok_def conn_tables_ok_def)
  moreover have "tracked pin c = tracked ?pin c" by (simp add: tracked_def registered_def pin_closed_def)
  ultimately show ?thesis using kept(2,3) res(2) by simp
qed

lemma replace_managed_ok:
  assumes "pin_ok pin" "replace_managed next pin = (r, pin')"
  shows "pin_ok pin'" "tracked pin c \<Longrightarrow> tracked pin' c"
proof -
  have "pin_ok pin' \<and> (tracked pin c \<longrightarrow> tracked pin' c)"
  proof (cases "cp_auth pin")
    case (Managed current)
    from replace_managed_managed [OF assms this] show ?thesis by blast
  qed (use assms in \<open>simp add: replace_managed_def\<close>)
  then show "pin_ok pin'" "tracked pin c \<Longrightarrow> tracked pin' c" by blast+
qed

lemma server_start_ok: "cp_connections pin = [] \<Longrightarrow> server_ok (server_start pin fs)"
  by (simp add: server_ok_def server_start_def pin_ok_def)

lemma finish_handshake_ok:
  assumes "server_ok sv" "cn_stable_id conn \<notin> cn_stable_id ` set (sv_serving sv)"
  shows "server_ok (finish_handshake X E conn sv)"
proof -
  have ok: "pin_ok (sv_pin sv)" using assms(1) by (simp add: server_ok_def)
  obtain res fs where run: "authorize X E (cn_remote conn) (cp_auth (sv_pin sv)) (sv_fs sv) = (res, fs)" by fastforce
  show ?thesis
  proof (cases res)
    case (Inl e)
    with run assms(1) show ?thesis by (auto simp: finish_handshake_def authorize_and_register_def server_ok_def)
  next
    case (Inr p)
    obtain b auth where p: "p = (b, auth)" by fastforce
    note auth = authorize_Inr [OF run [unfolded Inr p]]
    let ?pin = "(sv_pin sv)\<lparr>cp_auth := auth\<rparr>"
    have pin: "pin_ok ?pin" "tracked ?pin c \<longleftrightarrow> tracked (sv_pin sv) c" for c
      using ok auth(2) by (auto simp: pin_ok_def tracked_def registered_def pin_closed_def)
    show ?thesis
    proof (cases b)
      case False
      with run Inr p pin assms(1) show ?thesis
        by (auto simp: finish_handshake_def authorize_and_register_def server_ok_def Let_def tracked_def registered_def
            pin_closed_def pin_ok_def)
    next
      case True
      with auth(1) have "is_authorized (cp_auth ?pin) (cn_remote conn)" by simp
      note reg = register_ok [OF pin(1) this]
      have "tracked (register conn ?pin) c" if "c \<in> set (sv_serving sv)" for c
      proof -
        have "tracked ?pin c" using that assms(1) pin(2) by (simp add: server_ok_def)
        moreover have "cn_stable_id c \<noteq> cn_stable_id conn" using that assms(2) by (metis imageI)
        ultimately show ?thesis using reg(3,4) by (auto simp: tracked_def)
      qed
      with True run Inr p reg(1,2) assms show ?thesis
        by (auto simp: finish_handshake_def authorize_and_register_def server_ok_def Let_def tracked_def)
    qed
  qed
qed

lemma edge_step_ok: "edge_step X sv sv' \<Longrightarrow> server_ok sv \<Longrightarrow> server_ok sv'"
proof (induction rule: edge_step.induct)
  case (incoming sv)
  then show ?case by (simp add: server_ok_def accept_incoming_def)
next
  case (ended conn sv)
  have ok: "pin_ok (sv_pin sv)" "distinct (map cn_stable_id (sv_serving sv))" "\<forall>c \<in> set (sv_serving sv). tracked (sv_pin sv) c"
    using ended by (simp_all add: server_ok_def)
  note un = unregister_ok [OF ok(1), where i = "cn_remote conn" and n = "cn_stable_id conn"]
  have "tracked (unregister (cn_remote conn) (cn_stable_id conn) (sv_pin sv)) c"
    if "c \<in> set (sv_serving sv)" "c \<noteq> conn" for c
  proof -
    have "cn_stable_id c \<noteq> cn_stable_id conn"
      using ok(2) that ended(1) by (metis distinct_map inj_onD)
    with ok(3) that(1) un(2,3) show ?thesis by (auto simp: tracked_def)
  qed
  moreover have "distinct (map cn_stable_id (filter (\<lambda>c. c \<noteq> conn) (sv_serving sv)))"
    using ok(2) by (rule distinct_map_filter)
  ultimately show ?case using ended un(1) by (simp add: server_ok_def end_connection_def)
next
  case (authority "next" sv r pin)
  then have "pin_ok (sv_pin sv)" by (simp add: server_ok_def)
  from authority replace_managed_ok(1,2) [OF this authority(1)] show ?case by (simp add: server_ok_def)
next
  case (handshake_done sv conn E)
  then show ?case by (intro finish_handshake_ok)
qed (auto simp: server_ok_def)

lemma edge_run_ok: "edge_run X sv sv' \<Longrightarrow> server_ok sv \<Longrightarrow> server_ok sv'"
  by (induction rule: edge_run.induct) (auto intro: edge_step_ok)

lemma authorize_keeps_pin: "cp_auth pin = Single (Some i) st \<Longrightarrow>
    authorize_and_register X E conn pin fs = ((r, pin'), fs') \<Longrightarrow> cp_auth pin' = Single (Some i) st"
  by (auto simp: authorize_and_register_def authorize_def io_ok_def register_def Let_def)

lemma edge_step_pinned: "edge_step X sv sv' \<Longrightarrow> cp_auth (sv_pin sv) = Single (Some i) st \<Longrightarrow>
    cp_auth (sv_pin sv') = Single (Some i) st"
proof (induction rule: edge_step.induct)
  case (handshake_done sv conn E)
  obtain r pin fs where run: "authorize_and_register X E conn (sv_pin sv) (sv_fs sv) = ((r, pin), fs)"
    by (metis prod.exhaust)
  from authorize_keeps_pin [OF handshake_done(4) run] run show ?case
    by (auto simp: finish_handshake_def split: sum.splits bool.splits)
next
  case (ended conn sv)
  then show ?case by (simp add: end_connection_def unregister_def Let_def split: option.splits)
next
  case (authority "next" sv r pin)
  then show ?case by (simp add: replace_managed_def)
qed (simp_all add: accept_incoming_def)

lemma edge_run_pinned: "edge_run X sv sv' \<Longrightarrow> cp_auth (sv_pin sv) = Single (Some i) st \<Longrightarrow>
    cp_auth (sv_pin sv') = Single (Some i) st"
  by (induction rule: edge_run.induct) (auto intro: edge_step_pinned)

section \<open>Properties\<close>

text \<open>C9: An edge serves only clients that are authorized now.  However connections arrive, end and are
  revoked, a connection that is being served and was not closed belongs to a client the current authority
  admits; a pinned client stays the only one; and no more than the limit of handshakes are pending.\<close>

theorem edge_serves_authorized:
  assumes "edge_run X (server_start pin fs) sv" "cp_connections pin = []"
  shows "(\<forall>c \<in> set (sv_serving sv). c \<notin> fst ` set (cp_closed (sv_pin sv)) \<longrightarrow>
      is_authorized (cp_auth (sv_pin sv)) (cn_remote c)) \<and>
    (\<forall>i st. cp_auth pin = Single (Some i) st \<longrightarrow> cp_auth (sv_pin sv) = cp_auth pin) \<and>
    sv_pending sv \<le> MAX_PENDING_HANDSHAKES"
proof -
  have ok: "server_ok sv" by (rule edge_run_ok [OF assms(1) server_start_ok [OF assms(2)]])
  have "is_authorized (cp_auth (sv_pin sv)) (cn_remote c)"
    if "c \<in> set (sv_serving sv)" "c \<notin> fst ` set (cp_closed (sv_pin sv))" for c
    using that ok registered_authorized by (auto simp: server_ok_def tracked_def pin_closed_def)
  moreover have "cp_auth (sv_pin sv) = Single (Some i) st" if "cp_auth pin = Single (Some i) st" for i st
    using edge_run_pinned [OF assms(1)] that by (simp add: server_start_def)
  ultimately show ?thesis using ok by (simp add: server_ok_def)
qed

definition alice_conn :: Connection where "alice_conn = \<lparr>cn_stable_id = 7, cn_remote = EndpointId [1]\<rparr>"

theorem edge_serves_authorized_witness:
  "\<exists>sv. edge_run ref_ext (server_start (pin_managed {EndpointId [1]}) sample_fs) sv \<and>
     alice_conn \<in> set (sv_serving sv) \<and> alice_conn \<notin> fst ` set (cp_closed (sv_pin sv)) \<and>
     is_authorized (cp_auth (sv_pin sv)) (cn_remote alice_conn)"
proof -
  let ?s0 = "server_start (pin_managed {EndpointId [1]}) sample_fs"
  let ?s1 = "accept_incoming ?s0"
  let ?s2 = "finish_handshake ref_ext calm_disk alice_conn ?s1"
  have "edge_step ref_ext ?s0 ?s1" by (rule incoming)
  moreover have "edge_step ref_ext ?s1 ?s2"
    by (rule handshake_done) (simp_all add: accept_incoming_def server_start_def MAX_PENDING_HANDSHAKES_def pin_managed_def)
  ultimately have run: "edge_run ref_ext ?s0 ?s2" by (meson edge_run.intros)
  have "alice_conn \<in> set (sv_serving ?s2)" "alice_conn \<notin> fst ` set (cp_closed (sv_pin ?s2))"
    by (simp_all add: finish_handshake_def authorize_and_register_def authorize_def io_ok_def accept_incoming_def
        server_start_def pin_managed_def alice_conn_def register_def MAX_PENDING_HANDSHAKES_def Let_def)
  with edge_serves_authorized [OF run] run show ?thesis by (fastforce simp: pin_managed_def)
qed

end
