(* ===== verification/Edge_Control.thy ===== *)
theory Edge_Control
  imports Edge_Server Edge_Registry Transport Node_Docs Control_Link
begin

text \<open>
  An edge and its Control (\<open>crates/as-edge/src/main.rs\<close>): the profile an enrolled edge keeps, joining,
  starting in each mode, and the watch that replaces the clients and relays of a running edge by those of
  the last map Control signed.
\<close>

section \<open>Profile\<close>

record EdgeProfile =
  eg_schema_version :: nat
  eg_name :: string
  eg_control_url :: string
  eg_control_id :: string
  eg_audience :: string
  eg_endpoint_id :: string
  eg_map :: SignedNodeMap

definition EdgeProfile_json :: "Ext \<Rightarrow> EdgeProfile \<Rightarrow> json" where
  "EdgeProfile_json X p = JObj [
     (''schema_version'', unsigned_json (eg_schema_version p)),
     (''name'', JStr (eg_name p)),
     (''control_url'', JStr (eg_control_url p)),
     (''control_id'', JStr (eg_control_id p)),
     (''audience'', JStr (eg_audience p)),
     (''endpoint_id'', JStr (eg_endpoint_id p)),
     (''map'', SignedNodeMap_json X (eg_map p))]"

definition EdgeProfile_of_json :: "Ext \<Rightarrow> json \<Rightarrow> string + EdgeProfile" where
  "EdgeProfile_of_json X v =
     and_then (field ''schema_version'' (as_unsigned 32) v) (\<lambda>schema_version.
     and_then (field ''name'' as_string v) (\<lambda>name.
     and_then (field ''control_url'' as_string v) (\<lambda>control_url.
     and_then (field ''control_id'' as_string v) (\<lambda>control_id.
     and_then (field ''audience'' as_string v) (\<lambda>audience.
     and_then (field ''endpoint_id'' as_string v) (\<lambda>endpoint_id.
     and_then (field ''map'' (SignedNodeMap_of_json X) v) (\<lambda>node_map.
     Inr \<lparr>eg_schema_version = schema_version, eg_name = name, eg_control_url = control_url,
       eg_control_id = control_id, eg_audience = audience, eg_endpoint_id = endpoint_id,
       eg_map = node_map\<rparr>)))))))"

definition persist_edge_profile :: "Ext \<Rightarrow> FsEnv \<Rightarrow> path \<Rightarrow> EdgeProfile \<Rightarrow> unit io" where
  "persist_edge_profile X E path profile =
     atomic_write E path (json_to_vec_pretty X (EdgeProfile_json X profile) @ [10])"

definition load_control_profile :: "Ext \<Rightarrow> FsEnv \<Rightarrow> path \<Rightarrow> EdgeProfile option io" where
  "load_control_profile X E path fs = (case fs_read E path fs of
      (Inl (NotFound _), fs) \<Rightarrow> (Inr None, fs)
    | (Inl (Failed _), fs) \<Rightarrow> (Inl (Failed (''read '' @ path_display path)), fs)
    | (Inr data, fs) \<Rightarrow>
        (io_then (io_result (with_context (''parse '' @ path_display path)
            (and_then (json_from_slice X data) (EdgeProfile_of_json X)))) (\<lambda>profile.
         io_then (io_result (ensure (eg_schema_version profile = 1) ''unsupported edge profile schema'')) (\<lambda>_.
         io_ok (Some profile)))) fs)"

definition verify_profile :: "Ext \<Rightarrow> EdgeProfile \<Rightarrow> EndpointId \<Rightarrow> string + unit" where
  "verify_profile X profile endpoint_id =
     and_then (with_context ''invalid control id in profile'' (id_parse X (eg_control_id profile))) (\<lambda>control_id.
     and_then (ensure (eg_endpoint_id profile = id_to_string X endpoint_id)
       ''control profile belongs to another edge key'') (\<lambda>_.
     and_then (SignedNodeMap_verify X (eg_map profile) control_id endpoint_id) (\<lambda>_.
     ensure (nm_audience (snm_map (eg_map profile)) = eg_audience profile \<and>
         nm_control_url (snm_map (eg_map profile)) = eg_control_url profile) ''control map binding mismatch'')))"

definition parse_clients :: "Ext \<Rightarrow> string \<Rightarrow> NodeMap \<Rightarrow> string + EndpointId set" where
  "parse_clients X what m = map_ok set (collect_results (map (\<lambda>value.
     map_err (\<lambda>e. what @ e) (id_parse X value)) (nm_allowed_clients m)))"

section \<open>Paths and options\<close>

text \<open>The debug form of a string (control characters other than these do not occur in arguments).\<close>

definition debug_quoted :: "string \<Rightarrow> string" where
  "debug_quoted s = CHR 0x22 # concat (map (\<lambda>c.
     if c = CHR 0x22 \<or> c = CHR 0x5C then [CHR 0x5C, c]
     else if c = CHR 0x0A then [CHR 0x5C, CHR ''n'']
     else if c = CHR 0x0D then [CHR 0x5C, CHR ''r'']
     else if c = CHR 0x09 then [CHR 0x5C, CHR ''t''] else [c]) s) @ [CHR 0x22]"

definition who_dir :: "path \<Rightarrow> string \<Rightarrow> string + path" where
  "who_dir home who =
     and_then (ensure (who \<noteq> [] \<and> who \<noteq> ''.'' \<and> who \<noteq> ''..'' \<and> CHR ''/'' \<notin> set who \<and> CHR 0x5C \<notin> set who)
       (''invalid WHO: '' @ debug_quoted who)) (\<lambda>_.
     Inr (home @ [who]))"

record RunArgs =
  rn_who :: "string option"
  rn_relays :: "string list"
  rn_client :: "string option"
  rn_secret_key_file :: "path option"

definition resolve_key_path :: "path \<Rightarrow> string option \<Rightarrow> path option \<Rightarrow> string + path" where
  "resolve_key_path home who key_file = (case key_file of
      Some p \<Rightarrow> Inr p
    | None \<Rightarrow>
        and_then (ok_or ''specify WHO (e.g. `run me --relay ...`) or --secret-key-file <PATH>'' who) (\<lambda>who.
        and_then (who_dir home who) (\<lambda>dir.
        Inr (dir @ [''agent.key'']))))"

definition with_file_name :: "string \<Rightarrow> path \<Rightarrow> path" where
  "with_file_name name path = butlast path @ [name]"

section \<open>Starting\<close>

definition profile_relays :: "Ext \<Rightarrow> EdgeProfile \<Rightarrow> string + RelayConfig list \<times> byte list option" where
  "profile_relays X profile = (let m = snm_map (eg_map profile) in
     and_then (ok_or ''control map is missing its Relay credential'' (nm_relay_credential m)) (\<lambda>credential.
     and_then (collect_results (map (\<lambda>relay.
         map_ok (\<lambda>url. managed_relay_config url (ri_qad_port relay) (Some credential))
           (map_err (\<lambda>e. ''bad relay in control map: '' @ e) (relay_url_parse X (ri_url relay)))) (nm_relays m))) (\<lambda>relays.
     Inr (relays, Some (nm_relay_ca_der m)))))"

definition standalone_relays :: "Ext \<Rightarrow> RelayUrl list \<Rightarrow> string list \<Rightarrow> string + RelayConfig list \<times> byte list option" where
  "standalone_relays X defaults relays =
     map_ok (\<lambda>urls. (map (\<lambda>url. \<lparr>rlc_url = url, rlc_quic_port = None, rlc_auth_token = None\<rparr>) urls, None))
       (relay_urls_or_default X defaults relays)"

definition managed_pin :: "Ext \<Rightarrow> EdgeProfile \<Rightarrow> EndpointId \<Rightarrow> string + ClientPin" where
  "managed_pin X profile node =
     and_then (verify_profile X profile node) (\<lambda>_.
     map_ok pin_managed (parse_clients X ''invalid client in control map: '' (snm_map (eg_map profile))))"

definition standalone_pin :: "Ext \<Rightarrow> FsEnv \<Rightarrow> string option \<Rightarrow> path \<Rightarrow> ClientPin io" where
  "standalone_pin X E client key_path = (case client of
      Some c \<Rightarrow> io_result (map_ok pin_strict (map_err (\<lambda>e. ''bad --client: '' @ e) (id_parse X c)))
    | None \<Rightarrow> (let store = with_file_name ''trusted_client'' key_path in
        (\<lambda>fs. case io_then (fs_read E store) (\<lambda>bytes. io_result (from_utf8 bytes)) fs of
           (Inr value, fs) \<Rightarrow> io_result (map_ok (\<lambda>i. pin_tofu (Some i) store)
             (with_context (''invalid trusted client in '' @ path_display store) (id_parse X (trim value)))) fs
         | (Inl (NotFound _), fs) \<Rightarrow> (Inr (pin_tofu None store), fs)
         | (Inl (Failed _), fs) \<Rightarrow> (Inl (Failed (''read '' @ path_display store)), fs))))"

text \<open>A running edge before it accepts connections.  \<open>open_store\<close> is the blob store, \<open>defaults\<close> the relays
  bundled with \<open>iroh\<close>.\<close>

record EdgeAgent =
  ea_key :: SecretKey
  ea_profile :: "EdgeProfile option"
  ea_plan :: EndpointPlan
  ea_pin :: ClientPin

definition EDGE_ALPNS :: "byte list list" where
  "EDGE_ALPNS = [string_bytes ''agent-scale/rpc/5'', string_bytes ''/iroh-bytes/4'']"

definition run_iroh_edge ::
  "Ext \<Rightarrow> FsEnv \<Rightarrow> RelayUrl list \<Rightarrow> (path \<Rightarrow> string + unit) \<Rightarrow> path \<Rightarrow> RunArgs \<Rightarrow> EdgeAgent io" where
  "run_iroh_edge X E defaults open_store home args =
     io_then (io_result (resolve_key_path home (rn_who args) (rn_secret_key_file args))) (\<lambda>key_path.
     io_then (load_or_create_secret E key_path) (\<lambda>key.
     io_then (load_control_profile X E (with_file_name ''control.json'' key_path)) (\<lambda>profile.
     io_then (io_result (ensure (profile \<noteq> None \<longrightarrow> rn_relays args = [] \<and> rn_client args = None)
       ''a control-managed edge cannot override --relay or --client'')) (\<lambda>_.
     io_then (io_result (case profile of
         Some p \<Rightarrow> profile_relays X p | None \<Rightarrow> standalone_relays X defaults (rn_relays args))) (\<lambda>(relays, relay_ca_der).
     io_then (case profile of
         Some p \<Rightarrow> io_result (managed_pin X p (ed_public X key))
       | None \<Rightarrow> standalone_pin X E (rn_client args) key_path) (\<lambda>pin.
     io_then (io_result (build_endpoint_with_config key relays relay_ca_der EDGE_ALPNS)) (\<lambda>plan.
     io_then (io_result (open_store (with_file_name ''blobs'' key_path))) (\<lambda>_.
     io_ok \<lparr>ea_key = key, ea_profile = profile, ea_plan = plan, ea_pin = pin\<rparr>))))))))"

section \<open>Joining\<close>

record EdgeJoinEnv =
  ej_now :: int
  ej_nonce :: string
  ej_exchange :: "Url \<Rightarrow> ClaimRequest \<Rightarrow> string + HttpResponse"

definition edge_invitation :: "JoinToken \<Rightarrow> string + string \<times> string \<times> string" where
  "edge_invitation token = (case inv_kind (jt_invite token) of
      IKEdge _ \<Rightarrow> Inr (inv_name (jt_invite token), inv_audience (jt_invite token), inv_control_url (jt_invite token))
    | _ \<Rightarrow> Inl ''this invitation is not for an edge'')"

definition decode_edge_join :: "Ext \<Rightarrow> EndpointId \<Rightarrow> EndpointId \<Rightarrow> HttpResponse \<Rightarrow> string + SignedNodeMap" where
  "decode_edge_join X control_id node response =
     and_then (ensure (is_success (h_status response)) (''control rejected edge claim ('' @
       show_nat (h_status response) @ ''): '' @ bytes_string (h_body response))) (\<lambda>_.
     and_then (with_context ''decode edge join response''
       (and_then (json_from_slice X (h_body response)) (JoinResult_of_json X))) (\<lambda>joined.
     and_then (SignedNodeMap_verify X (jr_map joined) control_id node) (\<lambda>_.
     Inr (jr_map joined))))"

definition join_edge :: "Ext \<Rightarrow> FsEnv \<Rightarrow> EdgeJoinEnv \<Rightarrow> path \<Rightarrow> string \<Rightarrow> EdgeProfile io" where
  "join_edge X E J home link =
     io_then (io_result (join_token X link)) (\<lambda>(token, control_id).
     io_then (io_result (edge_invitation token)) (\<lambda>(who, audience, control_url).
     io_then (io_result (who_dir home who)) (\<lambda>dir.
     io_then (io_step E (create_dir_all (fe_dir_mode E) dir)) (\<lambda>_.
     let profile_path = dir @ [''control.json''] in
     io_then (\<lambda>fs. io_result (ensure (\<not> path_exists profile_path fs)
       (''edge '' @ quoted who @ '' is already enrolled in control'')) fs) (\<lambda>_.
     io_then (load_or_create_secret E (dir @ [''agent.key''])) (\<lambda>key.
     let request = ClaimRequest_sign X token key (ej_now J) (ej_nonce J) in
     io_then (io_result (api_url X control_url ''v1/claim'')) (\<lambda>url.
     io_then (io_result (with_context ''claim edge invitation'' (ej_exchange J url request))) (\<lambda>response.
     io_then (io_result (decode_edge_join X control_id (ed_public X key) response)) (\<lambda>node_map.
     let profile = \<lparr>eg_schema_version = 1, eg_name = who, eg_control_url = control_url,
           eg_control_id = id_to_string X control_id, eg_audience = audience,
           eg_endpoint_id = id_to_string X (ed_public X key), eg_map = node_map\<rparr> in
     io_then (persist_edge_profile X E profile_path profile) (\<lambda>_.
     io_ok profile))))))))))"

section \<open>Watching\<close>

type_synonym relay_table = "(string, nat option \<times> string) hash_map"

definition map_relays :: "string \<Rightarrow> NodeMap \<Rightarrow> relay_table" where
  "map_relays credential m = hash_collect (map (\<lambda>relay. (ri_url relay, (ri_qad_port relay, credential))) (nm_relays m))"

record EdgeWatch =
  ew_profile :: EdgeProfile
  ew_pin :: ClientPin
  ew_endpoint :: "(RelayUrl, RelayConfig) hash_map"
  ew_current :: relay_table
  ew_fs :: Fs

fun insert_relays ::
  "Ext \<Rightarrow> relay_table \<Rightarrow> (string \<times> nat option \<times> string) list \<Rightarrow> (RelayUrl, RelayConfig) hash_map
    \<Rightarrow> (string + unit) \<times> (RelayUrl, RelayConfig) hash_map" where
  "insert_relays X current [] endpoint = (Inr (), endpoint)"
| "insert_relays X current ((value, (qad_port, credential)) # relays) endpoint =
     (if hash_get value current = Some (qad_port, credential) then insert_relays X current relays endpoint
      else case relay_url_parse X value of
        Inl e \<Rightarrow> (Inl (''invalid relay '' @ value @ '': '' @ e), endpoint)
      | Inr url \<Rightarrow> insert_relays X current relays
          (hash_insert url (managed_relay_config url qad_port (Some credential)) endpoint))"

fun remove_relays :: "Ext \<Rightarrow> string list \<Rightarrow> (RelayUrl, RelayConfig) hash_map \<Rightarrow> (RelayUrl, RelayConfig) hash_map" where
  "remove_relays X [] endpoint = endpoint"
| "remove_relays X (value # values) endpoint = (case relay_url_parse X value of
      Inr url \<Rightarrow> remove_relays X values (hash_remove url endpoint)
    | Inl _ \<Rightarrow> remove_relays X values endpoint)"

definition apply_control_map :: "Ext \<Rightarrow> SignedNodeMap \<Rightarrow> EdgeWatch \<Rightarrow> (string + unit) \<times> EdgeWatch" where
  "apply_control_map X next w = (let m = snm_map next in
     case nm_relay_credential m of
       None \<Rightarrow> (Inl ''control map is missing its Relay credential'', w)
     | Some credential \<Rightarrow>
         (let next_relays = map_relays credential m in
          case insert_relays X (ew_current w) next_relays (ew_endpoint w) of
            (Inl e, endpoint) \<Rightarrow> (Inl e, w\<lparr>ew_endpoint := endpoint\<rparr>)
          | (Inr _, endpoint) \<Rightarrow>
              (let gone = filter (\<lambda>value. hash_get value next_relays = None) (map fst (ew_current w));
                   w = w\<lparr>ew_endpoint := remove_relays X gone endpoint\<rparr> in
               case parse_clients X ''invalid allowed client: '' m of
                 Inl e \<Rightarrow> (Inl e, w)
               | Inr allowed \<Rightarrow> (case replace_managed allowed (ew_pin w) of
                   (Inl e, pin) \<Rightarrow> (Inl e, w\<lparr>ew_pin := pin\<rparr>)
                 | (Inr _, pin) \<Rightarrow> (Inr (), w\<lparr>ew_pin := pin, ew_current := next_relays\<rparr>)))))"

definition valid_next :: "Ext \<Rightarrow> EndpointId \<Rightarrow> EndpointId \<Rightarrow> EdgeProfile \<Rightarrow> SignedNodeMap \<Rightarrow> string + unit" where
  "valid_next X control_id node profile next =
     and_then (SignedNodeMap_verify X next control_id node) (\<lambda>_.
     and_then (ensure (nm_revision (snm_map next) \<ge> nm_revision (snm_map (eg_map profile))) ''control map rollback'') (\<lambda>_.
     ensure (nm_audience (snm_map next) = eg_audience profile \<and> nm_control_url (snm_map next) = eg_control_url profile)
       ''control map binding mismatch''))"

datatype WatchNext = WatchAgain | WatchWait | WatchStop

definition watch_answer ::
  "Ext \<Rightarrow> FsEnv \<Rightarrow> path \<Rightarrow> EndpointId \<Rightarrow> EndpointId \<Rightarrow> LinkError + HttpResponse \<Rightarrow> EdgeWatch \<Rightarrow> WatchNext \<times> EdgeWatch" where
  "watch_answer X E path control_id node answer w = (case answer of
      Inl e \<Rightarrow> (WatchWait, w)
    | Inr response \<Rightarrow>
        if h_status response = 204 then (WatchAgain, w)
        else if is_success (h_status response) then
          (case and_then (json_from_slice X (h_body response)) (SignedNodeMap_of_json X) of
             Inl e \<Rightarrow> (WatchWait, w)
           | Inr next \<Rightarrow> (case valid_next X control_id node (ew_profile w) next of
               Inl e \<Rightarrow> (WatchWait, w)
             | Inr _ \<Rightarrow> (case apply_control_map X next w of
                 (Inl e, w) \<Rightarrow> (WatchWait, w)
               | (Inr _, w) \<Rightarrow>
                   (let profile = (ew_profile w)\<lparr>eg_map := next\<rparr> in
                    case persist_edge_profile X E path profile (ew_fs w) of
                      (_, fs) \<Rightarrow> (WatchAgain, w\<lparr>ew_profile := profile, ew_fs := fs\<rparr>)))))
        else if h_status response = 403 \<or> h_status response = 410
        then (WatchStop, w\<lparr>ew_pin := snd (replace_managed {} (ew_pin w))\<rparr>)
        else (WatchWait, w))"

record WatchEnv =
  we_issued_at :: int
  we_nonce :: string
  we_answer :: "WatchRequest \<Rightarrow> LinkError + HttpResponse"
  we_io :: FsEnv

fun watch_loop ::
  "Ext \<Rightarrow> path \<Rightarrow> SecretKey \<Rightarrow> EndpointId \<Rightarrow> nat \<Rightarrow> WatchEnv list \<Rightarrow> EdgeWatch \<Rightarrow> bool \<times> nat \<times> EdgeWatch" where
  "watch_loop X path key control_id backoff [] w = (True, backoff, w)"
| "watch_loop X path key control_id backoff (V # envs) w =
     (let request = WatchRequest_sign X key (nm_revision (snm_map (eg_map (ew_profile w)))) (we_issued_at V) (we_nonce V) in
      case watch_answer X (we_io V) path control_id (ed_public X key) (we_answer V request) w of
        (WatchAgain, w) \<Rightarrow> watch_loop X path key control_id 1 envs w
      | (WatchWait, w) \<Rightarrow> watch_loop X path key control_id (next_backoff 60 backoff) envs w
      | (WatchStop, w) \<Rightarrow> (False, backoff, w))"

definition spawn_control_watch ::
  "Ext \<Rightarrow> string + unit \<Rightarrow> path \<Rightarrow> SecretKey \<Rightarrow> (RelayUrl, RelayConfig) hash_map \<Rightarrow> ClientPin \<Rightarrow> EdgeProfile \<Rightarrow>
    WatchEnv list \<Rightarrow> Fs \<Rightarrow> (bool \<times> nat \<times> EdgeWatch) option" where
  "spawn_control_watch X client path key endpoint pin profile envs fs =
     (case id_parse X (eg_control_id profile) of
        Inl e \<Rightarrow> None
      | Inr control_id \<Rightarrow> (case api_url X (eg_control_url profile) ''v1/watch'' of
          Inl e \<Rightarrow> None
        | Inr url \<Rightarrow> (case client of
            Inl e \<Rightarrow> None
          | Inr _ \<Rightarrow> (case nm_relay_credential (snm_map (eg_map profile)) of
              None \<Rightarrow> None
            | Some credential \<Rightarrow>
                (let current = map_relays credential (snm_map (eg_map profile)) in
                 Some (watch_loop X path key control_id 1 envs
                   \<lparr>ew_profile = profile, ew_pin = pin, ew_endpoint = endpoint, ew_current = current, ew_fs = fs\<rparr>))))))"

section \<open>Local commands\<close>

record McpAdd =
  ma_name :: string
  ma_http :: "string option"
  ma_sse :: "string option"
  ma_cwd :: "string option"
  ma_argv :: "string list"

definition parse_mcp_transport :: "McpAdd \<Rightarrow> string + McpTransport" where
  "parse_mcp_transport a = (case ma_http a of
      Some url \<Rightarrow> Inr (Http url)
    | None \<Rightarrow> (case ma_sse a of
        Some url \<Rightarrow> Inr (Sse url)
      | None \<Rightarrow> (case ma_argv a of
          [] \<Rightarrow> Inl ''specify `-- <command>`, `--http <url>`, or `--sse <url>`''
        | command # args \<Rightarrow> Inr (Stdio command args (ma_cwd a)))))"

fun join_words :: "string list \<Rightarrow> string" where
  "join_words [] = []"
| "join_words [w] = w"
| "join_words (w # ws) = w @ '' '' @ join_words ws"

definition describe_mcp :: "McpTransport \<Rightarrow> string" where
  "describe_mcp transport = (case transport of
      Stdio command args cwd \<Rightarrow> ''stdio: '' @ command @
        (if args \<noteq> [] then '' '' @ join_words args else []) @
        (case cwd of Some cwd \<Rightarrow> '' (cwd: '' @ cwd @ '')'' | None \<Rightarrow> [])
    | Http url \<Rightarrow> ''http: '' @ url
    | Sse url \<Rightarrow> ''sse: '' @ url)"

datatype McpCommand = McpAddCommand McpAdd | McpLsCommand | McpRmCommand string

text \<open>The lines a command prints.\<close>

definition cmd_mcp :: "Ext \<Rightarrow> FsEnv \<Rightarrow> path \<Rightarrow> string \<Rightarrow> McpCommand \<Rightarrow> string list io" where
  "cmd_mcp X E home who command =
     io_then (io_result (who_dir home who)) (\<lambda>dir.
     let store = dir @ [''mcp.json''] in
     case command of
       McpAddCommand a \<Rightarrow>
         io_then (io_result (ensure (ma_cwd a = None \<or> ma_http a = None \<and> ma_sse a = None)
           ''--cwd is only valid for stdio MCP servers'')) (\<lambda>_.
         io_then (io_result (parse_mcp_transport a)) (\<lambda>transport.
         io_then (registry_upsert X E store (ma_name a) transport) (\<lambda>updated.
         io_ok [(if updated then ''updated'' else ''added'') @ '' MCP '' @ quoted (ma_name a)])))
     | McpLsCommand \<Rightarrow>
         io_then (registry_list X E store) (\<lambda>catalog.
         io_ok ((if mc_servers catalog = [] then [''no MCP servers configured''] else []) @
           map (\<lambda>(name, transport). name @ '': '' @ describe_mcp transport) (mc_servers catalog)))
     | McpRmCommand name \<Rightarrow>
         io_then (registry_remove X E store name) (\<lambda>_.
         io_ok [''removed MCP '' @ quoted name]))"

definition remove_dir_all :: "path \<Rightarrow> Fs \<Rightarrow> Fs" where
  "remove_dir_all dir fs = fs\<lparr>fs_files := (\<lambda>p. if prefix dir p then None else fs_files fs p),
     fs_dirs := (\<lambda>p. if prefix dir p then None else fs_dirs fs p)\<rparr>"

definition cmd_rm :: "FsEnv \<Rightarrow> path \<Rightarrow> string \<Rightarrow> unit io" where
  "cmd_rm E home who =
     io_then (io_result (who_dir home who)) (\<lambda>dir.
     io_then (\<lambda>fs. io_result (ensure (fs_files fs (dir @ [''agent.key'']) \<noteq> None) (''no agent named '' @ quoted who)) fs) (\<lambda>_.
     io_context (''remove '' @ path_display dir) (io_step E (remove_dir_all dir))))"

section \<open>Profiles survive\<close>

definition edge_profile_in_range :: "Ext \<Rightarrow> EdgeProfile \<Rightarrow> bool" where
  "edge_profile_in_range X p \<longleftrightarrow> json_laws X \<and> eg_schema_version p < 2 ^ 32 \<and> node_map_in_range (snm_map (eg_map p))"

interpretation edge_profile: json_state "EdgeProfile_json X" "EdgeProfile_of_json X" "edge_profile_in_range X" for X
  by unfold_locales
    (simp add: EdgeProfile_json_def EdgeProfile_of_json_def edge_profile_in_range_def read_field_simps SignedNodeMap_round_trip)

lemma RelayInfo_in_range: "RelayInfo_of_json v = Inr r \<Longrightarrow> relay_info_in_range r"
  unfolding RelayInfo_of_json_def relay_info_in_range_def field_option_def
  by (auto dest: as_option_range [OF _ as_unsigned_range])

lemma NodeMap_in_range: "NodeMap_of_json v = Inr m \<Longrightarrow> node_map_in_range m"
  unfolding NodeMap_of_json_def node_map_in_range_def
  by (auto dest!: field_reads as_unsigned_range as_i64_range as_list_range [OF _ RelayInfo_in_range])

lemma SignedNodeMap_in_range: "SignedNodeMap_of_json X v = Inr s \<Longrightarrow> node_map_in_range (snm_map s)"
  unfolding SignedNodeMap_of_json_def by (auto dest!: field_reads intro: NodeMap_in_range)

definition holds_edge_profile :: "Ext \<Rightarrow> EdgeProfile \<Rightarrow> path \<Rightarrow> Fs \<Rightarrow> bool" where
  "holds_edge_profile X p path fs \<longleftrightarrow> (\<exists>f. fs_files fs path = Some f \<and>
     and_then (json_from_slice X (f_bytes f)) (EdgeProfile_of_json X) = Inr p)"

lemma persist_holds:
  assumes "pretty_laws X" "edge_profile_in_range X p" "others_idle E" "no_faults E" "path \<noteq> []"
    "persist_edge_profile X E path p fs = (r, fs')"
  shows "holds_edge_profile X p path fs'"
proof -
  have "io_wp (persist_edge_profile X E path p) (\<lambda>_ fs'. stored path (json_to_vec_pretty X (EdgeProfile_json X p) @ [10]) fs fs') fs"
    unfolding persist_edge_profile_def using assms(4,5) by (intro atomic_write_wp [OF assms(3)]) auto
  from io_wp_result [OF this assms(6)] edge_profile.parse_stored(1) [OF assms(1,2)] show ?thesis
    by (auto simp: holds_edge_profile_def stored_def)
qed

lemma load_held:
  assumes "holds_edge_profile X p path fs" "eg_schema_version p = 1" "no_faults E"
  shows "\<exists>fs'. load_control_profile X E path fs = (Inr (Some p), fs')"
proof -
  obtain r fs' where run: "fs_read E path fs = (r, fs')" by fastforce
  obtain f where f: "fs_files fs path = Some f" "and_then (json_from_slice X (f_bytes f)) (EdgeProfile_of_json X) = Inr p"
    using assms(1) by (auto simp: holds_edge_profile_def)
  have "io_wp (fs_read E path) (\<lambda>r fs'. r = Inr (f_bytes f)) fs"
    using f(1) assms(3) by (intro fs_read_wp) auto
  from io_wp_result [OF this run] have "r = Inr (f_bytes f)" .
  with run f(2) assms(2) show ?thesis
    by (auto simp: load_control_profile_def io_then_def io_result_def io_check_def io_ok_def with_context_def ensure_def)
qed

section \<open>Following Control\<close>

lemma parse_clients_Inr:
  "parse_clients X what m = Inr s \<longleftrightarrow> (\<exists>ids. map (id_parse X) (nm_allowed_clients m) = map Inr ids \<and> s = set ids)"
  by (auto simp: parse_clients_def collect_results_Inr map_eq_conv list_eq_iff_nth_eq)

lemma all_parsed: "\<forall>x \<in> set xs. \<exists>y. f x = Inr y \<Longrightarrow> \<exists>ys. map f xs = map Inr ys"
  by (induction xs) (auto simp: Cons_eq_map_conv)

text \<open>The map a running edge goes by is signed by its Control for it, and its clients are exactly those
  that are authorized.\<close>

definition follows :: "Ext \<Rightarrow> EndpointId \<Rightarrow> EndpointId \<Rightarrow> EdgeProfile \<Rightarrow> ClientPin \<Rightarrow> bool" where
  "follows X control_id node p pin \<longleftrightarrow> SignedNodeMap_verify X (eg_map p) control_id node = Inr () \<and>
     nm_audience (snm_map (eg_map p)) = eg_audience p \<and> nm_control_url (snm_map (eg_map p)) = eg_control_url p \<and>
     (\<exists>ids. map (id_parse X) (nm_allowed_clients (snm_map (eg_map p))) = map Inr ids \<and> cp_auth pin = Managed (set ids))"

lemma replace_managed_auth: "cp_auth pin = Managed s \<Longrightarrow> replace_managed next pin = (r, pin') \<Longrightarrow>
    r = Inr () \<and> cp_auth pin' = Managed next"
proof -
  have "cp_auth (fold close_client ids p) = cp_auth p" for ids p
    by (induction ids arbitrary: p) (simp_all add: close_client_def split: option.splits)
  then show "cp_auth pin = Managed s \<Longrightarrow> replace_managed next pin = (r, pin') \<Longrightarrow> r = Inr () \<and> cp_auth pin' = Managed next"
    by (auto simp: replace_managed_def Let_def)
qed

lemma apply_control_map_cases:
  assumes "apply_control_map X next w = (r, w')" "cp_auth (ew_pin w) = Managed s"
  obtains (refused) e endpoint where "r = Inl e" "w' = w\<lparr>ew_endpoint := endpoint\<rparr>"
  | (applied) ids endpoint pin current where "r = Inr ()"
      "map (id_parse X) (nm_allowed_clients (snm_map next)) = map Inr ids"
      "replace_managed (set ids) (ew_pin w) = (Inr (), pin)" "cp_auth pin = Managed (set ids)"
      "w' = w\<lparr>ew_endpoint := endpoint, ew_pin := pin, ew_current := current\<rparr>"
proof (cases "nm_relay_credential (snm_map next)")
  case None
  show thesis by (rule refused [of _ "ew_endpoint w"]) (use None assms(1) in \<open>auto simp: apply_control_map_def\<close>)
next
  case (Some credential)
  let ?next = "map_relays credential (snm_map next)"
  obtain ir endpoint where ins: "insert_relays X (ew_current w) ?next (ew_endpoint w) = (ir, endpoint)" by fastforce
  let ?gone = "filter (\<lambda>value. hash_get value ?next = None) (map fst (ew_current w))"
  show thesis
  proof (cases "is_ok ir \<and> is_ok (parse_clients X ''invalid allowed client: '' (snm_map next))")
    case False
    then have "(\<exists>e. ir = Inl e) \<or> (\<exists>e u. ir = Inr u \<and> parse_clients X ''invalid allowed client: '' (snm_map next) = Inl e)"
      by (cases ir; cases "parse_clients X ''invalid allowed client: '' (snm_map next)") auto
    then show thesis
      using assms(1) Some ins refused by (auto simp: apply_control_map_def Let_def)
  next
    case True
    then obtain allowed where ok: "ir = Inr ()" "parse_clients X ''invalid allowed client: '' (snm_map next) = Inr allowed"
      by (auto simp: is_ok_iff)
    obtain pr pin where pin: "replace_managed allowed (ew_pin w) = (pr, pin)" by fastforce
    from replace_managed_auth [OF assms(2) pin] have auth: "pr = Inr ()" "cp_auth pin = Managed allowed" by auto
    obtain ids where ids: "map (id_parse X) (nm_allowed_clients (snm_map next)) = map Inr ids" "allowed = set ids"
      using ok(2) by (auto simp: parse_clients_Inr)
    show thesis
      by (rule applied [where ids = ids and pin = pin and endpoint = "remove_relays X ?gone endpoint" and current = ?next])
        (use assms(1) Some ins ok pin auth ids in \<open>auto simp: apply_control_map_def Let_def\<close>)
  qed
qed

lemma watch_answer_cases:
  assumes "watch_answer X E path control_id node answer w = (nxt, w')" "cp_auth (ew_pin w) = Managed s"
  obtains (idle) endpoint where "nxt \<noteq> WatchStop" "w' = w\<lparr>ew_endpoint := endpoint\<rparr>"
  | (applied) m ids endpoint pin current r fs where "nxt = WatchAgain" "valid_next X control_id node (ew_profile w) m = Inr ()"
      "node_map_in_range (snm_map m)" "map (id_parse X) (nm_allowed_clients (snm_map m)) = map Inr ids"
      "replace_managed (set ids) (ew_pin w) = (Inr (), pin)" "cp_auth pin = Managed (set ids)"
      "persist_edge_profile X E path ((ew_profile w)\<lparr>eg_map := m\<rparr>) (ew_fs w) = (r, fs)"
      "w' = w\<lparr>ew_endpoint := endpoint, ew_pin := pin, ew_current := current, ew_profile := (ew_profile w)\<lparr>eg_map := m\<rparr>, ew_fs := fs\<rparr>"
  | (stopped) "nxt = WatchStop" "w' = w\<lparr>ew_pin := snd (replace_managed {} (ew_pin w))\<rparr>"
proof (cases "\<exists>response m. answer = Inr response \<and> h_status response \<noteq> 204 \<and> is_success (h_status response) \<and>
    and_then (json_from_slice X (h_body response)) (SignedNodeMap_of_json X) = Inr m \<and>
    valid_next X control_id node (ew_profile w) m = Inr ()")
  case True
  then obtain response m where m: "answer = Inr response" "h_status response \<noteq> 204" "is_success (h_status response)"
    "and_then (json_from_slice X (h_body response)) (SignedNodeMap_of_json X) = Inr m"
    "valid_next X control_id node (ew_profile w) m = Inr ()" by blast
  then have range: "node_map_in_range (snm_map m)" by (auto intro: SignedNodeMap_in_range)
  obtain ar w1 where ap: "apply_control_map X m w = (ar, w1)" by fastforce
  have answer: "watch_answer X E path control_id node answer w = (case (ar, w1) of (Inl e, w) \<Rightarrow> (WatchWait, w)
      | (Inr _, w) \<Rightarrow> (let profile = (ew_profile w)\<lparr>eg_map := m\<rparr> in
          case persist_edge_profile X E path profile (ew_fs w) of
            (_, fs) \<Rightarrow> (WatchAgain, w\<lparr>ew_profile := profile, ew_fs := fs\<rparr>)))"
    unfolding watch_answer_def m(1) sum.case m(4,5) ap using m(2,3) by simp
  from ap assms(2) show thesis
  proof (cases rule: apply_control_map_cases)
    case (refused e endpoint)
    show thesis by (rule idle [of endpoint]) (use refused answer assms(1) in auto)
  next
    case (applied ids endpoint pin current)
    obtain r fs where "persist_edge_profile X E path ((ew_profile w)\<lparr>eg_map := m\<rparr>) (ew_fs w) = (r, fs)" by fastforce
    then show thesis
      using applied answer assms(1) m(5) range
      by (intro that(2) [where m = m and ids = ids and endpoint = endpoint and pin = pin and current = current]) auto
  qed
next
  case False
  show thesis
  proof (cases "\<exists>response. answer = Inr response \<and> (h_status response = 403 \<or> h_status response = 410)")
    case True
    then have "nxt = WatchStop \<and> w' = w\<lparr>ew_pin := snd (replace_managed {} (ew_pin w))\<rparr>"
      using assms(1) by (auto simp: watch_answer_def is_success_def)
    then show thesis using stopped by blast
  next
    case no_stop: False
    have "nxt \<noteq> WatchStop \<and> w' = w"
      using assms(1) False no_stop unfolding watch_answer_def by (auto split: sum.splits if_splits)
    then show thesis using idle [of "ew_endpoint w"] by simp
  qed
qed

lemma watch_answer_follows:
  assumes "watch_answer X E path control_id node answer w = (nxt, w')" "follows X control_id node (ew_profile w) (ew_pin w)"
  shows "nm_revision (snm_map (eg_map (ew_profile w))) \<le> nm_revision (snm_map (eg_map (ew_profile w')))"
    and "\<exists>m. ew_profile w' = (ew_profile w)\<lparr>eg_map := m\<rparr>"
    and "nxt \<noteq> WatchStop \<Longrightarrow> follows X control_id node (ew_profile w') (ew_pin w')"
    and "nxt = WatchStop \<Longrightarrow> ew_profile w' = ew_profile w \<and> ew_fs w' = ew_fs w \<and> cp_auth (ew_pin w') = Managed {}"
proof -
  obtain s where auth: "cp_auth (ew_pin w) = Managed s" using assms(2) by (auto simp: follows_def)
  have same: "\<exists>m. ew_profile w = (ew_profile w)\<lparr>eg_map := m\<rparr>" by (rule exI [of _ "eg_map (ew_profile w)"]) simp
  have empty: "cp_auth (snd (replace_managed {} (ew_pin w))) = Managed {}"
    using replace_managed_auth [OF auth, of "{}"] by (metis prod.collapse)
  from assms(1) auth
  have "nm_revision (snm_map (eg_map (ew_profile w))) \<le> nm_revision (snm_map (eg_map (ew_profile w'))) \<and>
    (\<exists>m. ew_profile w' = (ew_profile w)\<lparr>eg_map := m\<rparr>) \<and>
    (nxt \<noteq> WatchStop \<longrightarrow> follows X control_id node (ew_profile w') (ew_pin w')) \<and>
    (nxt = WatchStop \<longrightarrow> ew_profile w' = ew_profile w \<and> ew_fs w' = ew_fs w \<and> cp_auth (ew_pin w') = Managed {})"
  proof (cases rule: watch_answer_cases)
    case (idle endpoint)
    then show ?thesis using assms(2) same by auto
  next
    case (applied m ids endpoint pin current r fs)
    then show ?thesis by (auto simp: follows_def valid_next_def)
  next
    case stopped
    then show ?thesis using same empty by simp
  qed
  then show "nm_revision (snm_map (eg_map (ew_profile w))) \<le> nm_revision (snm_map (eg_map (ew_profile w')))"
    "\<exists>m. ew_profile w' = (ew_profile w)\<lparr>eg_map := m\<rparr>"
    "nxt \<noteq> WatchStop \<Longrightarrow> follows X control_id node (ew_profile w') (ew_pin w')"
    "nxt = WatchStop \<Longrightarrow> ew_profile w' = ew_profile w \<and> ew_fs w' = ew_fs w \<and> cp_auth (ew_pin w') = Managed {}" by blast+
qed

lemma watch_loop_follows:
  assumes "watch_loop X path key control_id b envs w = (going, b', w')"
    "follows X control_id (ed_public X key) (ew_profile w) (ew_pin w)"
  shows "nm_revision (snm_map (eg_map (ew_profile w))) \<le> nm_revision (snm_map (eg_map (ew_profile w'))) \<and>
    (\<exists>m. ew_profile w' = (ew_profile w)\<lparr>eg_map := m\<rparr>) \<and>
    (going \<longrightarrow> follows X control_id (ed_public X key) (ew_profile w') (ew_pin w')) \<and>
    (\<not> going \<longrightarrow> cp_auth (ew_pin w') = Managed {} \<and>
      (\<exists>pin. follows X control_id (ed_public X key) (ew_profile w') pin))"
  using assms
proof (induction envs arbitrary: b w)
  case Nil
  then show ?case by (auto intro: exI [of _ "eg_map (ew_profile w)"])
next
  case (Cons V envs)
  let ?answer = "we_answer V (WatchRequest_sign X key (nm_revision (snm_map (eg_map (ew_profile w)))) (we_issued_at V) (we_nonce V))"
  obtain nxt w1 where step: "watch_answer X (we_io V) path control_id (ed_public X key) ?answer w = (nxt, w1)" by fastforce
  note kept = watch_answer_follows [OF step Cons.prems(2)]
  show ?case
  proof (cases "nxt = WatchStop")
    case True
    then have "going = False \<and> w' = w1" using Cons.prems(1) step by simp
    with kept True Cons.prems(2) show ?thesis by auto
  next
    case False
    then obtain b1 where rest: "watch_loop X path key control_id b1 envs w1 = (going, b', w')"
      using Cons.prems(1) step by (cases nxt) auto
    obtain m where m: "ew_profile w1 = (ew_profile w)\<lparr>eg_map := m\<rparr>" using kept(2) by blast
    from Cons.IH [OF rest kept(3) [OF False]] kept(1) show ?thesis unfolding m by auto
  qed
qed

text \<open>A map the edge has no reason to refuse, and the answer Control gives to one request.\<close>

definition usable_map :: "Ext \<Rightarrow> EndpointId \<Rightarrow> EndpointId \<Rightarrow> EdgeProfile \<Rightarrow> SignedNodeMap \<Rightarrow> bool" where
  "usable_map X control_id node p m \<longleftrightarrow> SignedNodeMap_verify X m control_id node = Inr () \<and>
     nm_audience (snm_map m) = eg_audience p \<and> nm_control_url (snm_map m) = eg_control_url p \<and>
     nm_relay_credential (snm_map m) \<noteq> None \<and>
     (\<forall>relay \<in> set (nm_relays (snm_map m)). is_ok (relay_url_parse X (ri_url relay))) \<and>
     (\<forall>client \<in> set (nm_allowed_clients (snm_map m)). is_ok (id_parse X client))"

definition answered :: "Ext \<Rightarrow> SecretKey \<Rightarrow> WatchEnv \<Rightarrow> EdgeWatch \<Rightarrow> LinkError + HttpResponse" where
  "answered X key V w = we_answer V
     (WatchRequest_sign X key (nm_revision (snm_map (eg_map (ew_profile w)))) (we_issued_at V) (we_nonce V))"

lemma insert_relays_ok: "\<forall>value \<in> fst ` set rs. is_ok (relay_url_parse X value) \<Longrightarrow>
    \<exists>endpoint'. insert_relays X current rs endpoint = (Inr (), endpoint')"
  by (induction X current rs endpoint rule: insert_relays.induct) (auto simp: is_ok_iff)

lemma usable_map_applies:
  assumes "usable_map X control_id node p m" "cp_auth (ew_pin w) = Managed s"
  shows "\<exists>w'. apply_control_map X m w = (Inr (), w') \<and> ew_profile w' = ew_profile w"
proof -
  obtain credential where c: "nm_relay_credential (snm_map m) = Some credential"
    using assms(1) by (auto simp: usable_map_def)
  have "\<forall>value \<in> fst ` set (map_relays credential (snm_map m)). is_ok (relay_url_parse X value)"
    using assms(1) by (auto simp: map_relays_def hash_keys_collect usable_map_def image_iff simp del: split_paired_Ex)
  from insert_relays_ok [OF this] obtain endpoint where
    ins: "insert_relays X (ew_current w) (map_relays credential (snm_map m)) (ew_endpoint w) = (Inr (), endpoint)" by blast
  have "\<exists>ids. map (id_parse X) (nm_allowed_clients (snm_map m)) = map Inr ids"
    using assms(1) by (auto simp: usable_map_def is_ok_iff intro!: all_parsed)
  then obtain allowed where clients: "parse_clients X ''invalid allowed client: '' (snm_map m) = Inr allowed"
    by (auto simp: parse_clients_Inr)
  obtain r pin where pin: "replace_managed allowed (ew_pin w) = (r, pin)" by fastforce
  then have "r = Inr ()" using replace_managed_auth [OF assms(2) pin] by simp
  with c ins clients pin show ?thesis by (simp add: apply_control_map_def Let_def)
qed

lemma watch_answer_offered:
  assumes "watch_answer X E path control_id node (Inr response) w = (nxt, w')" "cp_auth (ew_pin w) = Managed s"
    "is_success (h_status response)" "h_status response \<noteq> 204"
    "and_then (json_from_slice X (h_body response)) (SignedNodeMap_of_json X) = Inr m"
    "usable_map X control_id node (ew_profile w) m"
  shows "nm_revision (snm_map m) \<le> nm_revision (snm_map (eg_map (ew_profile w')))"
    and "nm_revision (snm_map (eg_map (ew_profile w))) \<le> nm_revision (snm_map m) \<Longrightarrow> eg_map (ew_profile w') = m"
proof -
  obtain w1 where ap: "apply_control_map X m w = (Inr (), w1)" "ew_profile w1 = ew_profile w"
    using usable_map_applies [OF assms(6,2)] by blast
  have valid: "valid_next X control_id node (ew_profile w) m =
      ensure (nm_revision (snm_map m) \<ge> nm_revision (snm_map (eg_map (ew_profile w)))) ''control map rollback''"
    using assms(6) by (simp add: valid_next_def usable_map_def ensure_def)
  have "watch_answer X E path control_id node (Inr response) w =
      (case valid_next X control_id node (ew_profile w) m of Inl e \<Rightarrow> (WatchWait, w)
       | Inr _ \<Rightarrow> (case persist_edge_profile X E path ((ew_profile w)\<lparr>eg_map := m\<rparr>) (ew_fs w1) of
           (_, fs) \<Rightarrow> (WatchAgain, w1\<lparr>ew_profile := (ew_profile w)\<lparr>eg_map := m\<rparr>, ew_fs := fs\<rparr>)))"
    unfolding watch_answer_def sum.case assms(5) ap prod.case using assms(3,4) by (simp add: ap(2) Let_def split: sum.split)
  with assms(1) show "nm_revision (snm_map m) \<le> nm_revision (snm_map (eg_map (ew_profile w')))"
    "nm_revision (snm_map (eg_map (ew_profile w))) \<le> nm_revision (snm_map m) \<Longrightarrow> eg_map (ew_profile w') = m"
    by (auto simp: valid ensure_def split: prod.splits if_splits)
qed

lemma watch_loop_append:
  "watch_loop X path key control_id b (before @ after) w =
     (case watch_loop X path key control_id b before w of
        (True, b, w) \<Rightarrow> watch_loop X path key control_id b after w | (False, b, w) \<Rightarrow> (False, b, w))"
  by (induction before arbitrary: b w) (auto simp: Let_def split: prod.splits WatchNext.splits)

lemma watch_loop_offered:
  assumes "watch_loop X path key control_id b (V # after) w = (going, b', w')"
    "follows X control_id (ed_public X key) (ew_profile w) (ew_pin w)" "answered X key V w = Inr response"
  shows "h_status response = 403 \<or> h_status response = 410 \<Longrightarrow> \<not> going"
    and "is_success (h_status response) \<Longrightarrow> h_status response \<noteq> 204 \<Longrightarrow>
      and_then (json_from_slice X (h_body response)) (SignedNodeMap_of_json X) = Inr m \<Longrightarrow>
      usable_map X control_id (ed_public X key) (ew_profile w) m \<Longrightarrow>
      nm_revision (snm_map m) \<le> nm_revision (snm_map (eg_map (ew_profile w'))) \<and>
      (after = [] \<and> nm_revision (snm_map (eg_map (ew_profile w))) \<le> nm_revision (snm_map m) \<longrightarrow> eg_map (ew_profile w') = m)"
proof -
  obtain nxt w1 where step: "watch_answer X (we_io V) path control_id (ed_public X key) (Inr response) w = (nxt, w1)"
    by fastforce
  have loop: "(case nxt of WatchAgain \<Rightarrow> watch_loop X path key control_id 1 after w1
      | WatchWait \<Rightarrow> watch_loop X path key control_id (next_backoff 60 b) after w1
      | WatchStop \<Rightarrow> (False, b, w1)) = (going, b', w')"
    using assms(1,3) step by (cases nxt) (simp_all add: answered_def)
  then show "\<not> going" if "h_status response = 403 \<or> h_status response = 410"
    using that step by (auto simp: watch_answer_def is_success_def)
  assume offer: "is_success (h_status response)" "h_status response \<noteq> 204"
    "and_then (json_from_slice X (h_body response)) (SignedNodeMap_of_json X) = Inr m"
    "usable_map X control_id (ed_public X key) (ew_profile w) m"
  obtain s where auth: "cp_auth (ew_pin w) = Managed s" using assms(2) by (auto simp: follows_def)
  note taken = watch_answer_offered [OF step auth offer]
  note kept = watch_answer_follows [OF step assms(2)]
  have "nm_revision (snm_map (eg_map (ew_profile w1))) \<le> nm_revision (snm_map (eg_map (ew_profile w')))"
  proof (cases "nxt = WatchStop")
    case True
    then show ?thesis using loop by simp
  next
    case False
    then obtain b1 where "watch_loop X path key control_id b1 after w1 = (going, b', w')" using loop by (cases nxt) auto
    from watch_loop_follows [OF this kept(3) [OF False]] show ?thesis by blast
  qed
  moreover have "after = [] \<Longrightarrow> w' = w1" using loop by (cases nxt) auto
  ultimately show "nm_revision (snm_map m) \<le> nm_revision (snm_map (eg_map (ew_profile w'))) \<and>
      (after = [] \<and> nm_revision (snm_map (eg_map (ew_profile w))) \<le> nm_revision (snm_map m) \<longrightarrow> eg_map (ew_profile w') = m)"
    using taken by auto
qed

lemma managed_pin_Inr:
  "managed_pin X p node = Inr pin \<longleftrightarrow> (\<exists>control_id ids. id_parse X (eg_control_id p) = Inr control_id \<and>
     eg_endpoint_id p = id_to_string X node \<and> SignedNodeMap_verify X (eg_map p) control_id node = Inr () \<and>
     nm_audience (snm_map (eg_map p)) = eg_audience p \<and> nm_control_url (snm_map (eg_map p)) = eg_control_url p \<and>
     map (id_parse X) (nm_allowed_clients (snm_map (eg_map p))) = map Inr ids \<and> pin = pin_managed (set ids))"
  by (auto simp: managed_pin_def verify_profile_def with_context_def parse_clients_Inr)

lemma managed_pin_follows:
  assumes "managed_pin X p node = Inr pin" "id_parse X (eg_control_id p) = Inr control_id"
  shows "follows X control_id node p pin"
  using assms by (auto simp: managed_pin_Inr follows_def pin_managed_def)

lemma spawned_loop:
  assumes "spawn_control_watch X client path key endpoint pin profile envs fs = Some (going, b, w)"
  obtains control_id current where "id_parse X (eg_control_id profile) = Inr control_id"
    "watch_loop X path key control_id 1 envs
       \<lparr>ew_profile = profile, ew_pin = pin, ew_endpoint = endpoint, ew_current = current, ew_fs = fs\<rparr> = (going, b, w)"
    "\<exists>credential. nm_relay_credential (snm_map (eg_map profile)) = Some credential \<and>
       current = map_relays credential (snm_map (eg_map profile))"
  using assms by (auto simp: spawn_control_watch_def Let_def split: sum.splits option.splits)

lemma watch_loop_holds:
  assumes "watch_loop X path key control_id b envs w = (going, b', w')"
    "follows X control_id (ed_public X key) (ew_profile w) (ew_pin w)" "holds_edge_profile X (ew_profile w) path (ew_fs w)"
    "json_laws X" "pretty_laws X" "path \<noteq> []" "eg_schema_version (ew_profile w) < 2 ^ 32"
    "\<forall>V \<in> set envs. no_faults (we_io V) \<and> others_idle (we_io V)"
  shows "holds_edge_profile X (ew_profile w') path (ew_fs w')"
  using assms
proof (induction envs arbitrary: b w)
  case (Cons V envs)
  let ?answer = "we_answer V (WatchRequest_sign X key (nm_revision (snm_map (eg_map (ew_profile w)))) (we_issued_at V) (we_nonce V))"
  obtain nxt w1 where step: "watch_answer X (we_io V) path control_id (ed_public X key) ?answer w = (nxt, w1)" by fastforce
  obtain s where auth: "cp_auth (ew_pin w) = Managed s" using Cons.prems(2) by (auto simp: follows_def)
  have disk: "no_faults (we_io V)" "others_idle (we_io V)" using Cons.prems(8) by simp_all
  have held: "holds_edge_profile X (ew_profile w1) path (ew_fs w1) \<and> eg_schema_version (ew_profile w1) < 2 ^ 32"
    using step auth
  proof (cases rule: watch_answer_cases)
    case (applied m ids endpoint pin current r fs)
    have "edge_profile_in_range X ((ew_profile w)\<lparr>eg_map := m\<rparr>)"
      using applied(3) Cons.prems(4,7) by (simp add: edge_profile_in_range_def)
    from persist_holds [OF Cons.prems(5) this disk(2,1) Cons.prems(6) applied(7)] applied(8) Cons.prems(7) show ?thesis by simp
  qed (use Cons.prems(3,7) in auto)
  note kept = watch_answer_follows [OF step Cons.prems(2)]
  show ?case
  proof (cases "nxt = WatchStop")
    case True
    then show ?thesis using Cons.prems(1) step held by simp
  next
    case False
    then obtain b1 where rest: "watch_loop X path key control_id b1 envs w1 = (going, b', w')"
      using Cons.prems(1) step by (cases nxt) auto
    from Cons.IH [OF rest kept(3) [OF False]] held Cons.prems(4-6,8) show ?thesis by simp
  qed
qed simp

section \<open>A small enrolled edge\<close>

definition box_map :: NodeMap where
  "box_map = \<lparr>nm_protocol_version = CONTROL_PROTOCOL_VERSION, nm_audience = ''prod'', nm_control_url = ''http://control'',
     nm_control_id = id_to_string ref_ext (ed_public ref_ext (SecretKey [9])), nm_revision = 3, nm_issued_at = 1000,
     nm_recipient_id = id_to_string ref_ext (ed_public ref_ext (SecretKey [2])), nm_relays = [],
     nm_relay_credential = Some ''c'', nm_relay_ca_der = [1],
     nm_allowed_clients = [id_to_string ref_ext (EndpointId [1])], nm_edges = []\<rparr>"

definition box_profile :: EdgeProfile where
  "box_profile = \<lparr>eg_schema_version = 1, eg_name = ''box'', eg_control_url = ''http://control'',
     eg_control_id = id_to_string ref_ext (ed_public ref_ext (SecretKey [9])), eg_audience = ''prod'',
     eg_endpoint_id = id_to_string ref_ext (ed_public ref_ext (SecretKey [2])),
     eg_map = SignedNodeMap_sign ref_ext box_map (SecretKey [9])\<rparr>"

definition box_fs :: Fs where
  "box_fs = sample_fs\<lparr>fs_files := (fs_files sample_fs)(state_path \<mapsto>
     \<lparr>f_bytes = json_to_vec_pretty ref_ext (EdgeProfile_json ref_ext box_profile) @ [10], f_mode = PRIVATE_FILE_MODE\<rparr>)\<rparr>"

definition enrollment_over :: WatchEnv where
  "enrollment_over = \<lparr>we_issued_at = 1000, we_nonce = ''n'',
     we_answer = (\<lambda>_. Inr \<lparr>h_status = 403, h_retry_after = None, h_body = []\<rparr>), we_io = calm_disk\<rparr>"

lemma box_pin: "managed_pin ref_ext box_profile (ed_public ref_ext (SecretKey [2])) = Inr (pin_managed {EndpointId [1]})"
proof -
  have "SignedNodeMap_verify ref_ext (eg_map box_profile) (ed_public ref_ext (SecretKey [9])) (ed_public ref_ext (SecretKey [2])) = Inr ()"
    by (simp add: SignedNodeMap_verify_def box_profile_def SignedNodeMap_sign_def box_map_def ensure_protocol_version_def
        ensure_def ext_round_trips)
  then show ?thesis unfolding managed_pin_Inr
    by (intro exI [of _ "ed_public ref_ext (SecretKey [9])"] exI [of _ "[EndpointId [1]]"])
      (simp add: box_profile_def SignedNodeMap_sign_def box_map_def ext_round_trips)
qed

lemma box_watch:
  obtains w where "spawn_control_watch ref_ext (Inr ()) state_path (SecretKey [2]) [] (pin_managed {EndpointId [1]}) box_profile
    [enrollment_over] box_fs = Some (False, 1, w)" "ew_profile w = box_profile"
proof -
  have "api_url ref_ext ''http://control'' ''v1/watch'' \<noteq> Inl e" for e
    by (simp add: api_url_def ref_ext_def with_context_def)
  then obtain u where "api_url ref_ext ''http://control'' ''v1/watch'' = Inr u" by (metis sum.exhaust)
  then have "\<exists>w. spawn_control_watch ref_ext (Inr ()) state_path (SecretKey [2]) [] (pin_managed {EndpointId [1]}) box_profile
      [enrollment_over] box_fs = Some (False, 1, w) \<and> ew_profile w = box_profile"
    by (simp add: spawn_control_watch_def box_profile_def SignedNodeMap_sign_def box_map_def ext_round_trips
        enrollment_over_def watch_answer_def is_success_def)
  then show thesis using that by blast
qed

section \<open>Properties\<close>

text \<open>C8: A managed edge authorizes exactly what its Control says.  Started from a verified profile, whatever
  Control and the network answer, the edge goes by a map that its Control signed for it and for its audience,
  and the authorized clients are exactly those of that map.  The map's revision is no older than the one the
  edge started with, and no older than that of any usable map Control answered with on the way; the last
  such answer, unless it is a rollback, is the map the edge goes by.  Once Control says the enrollment is
  over, the watch stops and no client is authorized.\<close>

theorem edge_follows_control:
  assumes "managed_pin X profile (ed_public X key) = Inr pin"
    "spawn_control_watch X client path key endpoint pin profile envs fs = Some (going, b, w)"
  shows "\<exists>control_id. id_parse X (eg_control_id profile) = Inr control_id \<and>
    nm_revision (snm_map (eg_map profile)) \<le> nm_revision (snm_map (eg_map (ew_profile w))) \<and>
    (going \<longrightarrow> follows X control_id (ed_public X key) (ew_profile w) (ew_pin w)) \<and>
    (\<not> going \<longrightarrow> cp_auth (ew_pin w) = Managed {}) \<and>
    (\<forall>before V after b1 w1 response. envs = before @ V # after \<and>
       spawn_control_watch X client path key endpoint pin profile before fs = Some (True, b1, w1) \<and>
       answered X key V w1 = Inr response \<longrightarrow>
       (h_status response = 403 \<or> h_status response = 410 \<longrightarrow> \<not> going) \<and>
       (\<forall>m. is_success (h_status response) \<and> h_status response \<noteq> 204 \<and>
          and_then (json_from_slice X (h_body response)) (SignedNodeMap_of_json X) = Inr m \<and>
          usable_map X control_id (ed_public X key) profile m \<longrightarrow>
          nm_revision (snm_map m) \<le> nm_revision (snm_map (eg_map (ew_profile w))) \<and>
          (after = [] \<and> nm_revision (snm_map (eg_map (ew_profile w1))) \<le> nm_revision (snm_map m) \<longrightarrow>
             eg_map (ew_profile w) = m)))"
  using assms(2)
proof (cases rule: spawned_loop)
  case (1 control_id current)
  note start = managed_pin_follows [OF assms(1) 1(1)]
  have offers: "(h_status response = 403 \<or> h_status response = 410 \<longrightarrow> \<not> going) \<and>
      (\<forall>m. is_success (h_status response) \<and> h_status response \<noteq> 204 \<and>
          and_then (json_from_slice X (h_body response)) (SignedNodeMap_of_json X) = Inr m \<and>
          usable_map X control_id (ed_public X key) profile m \<longrightarrow>
          nm_revision (snm_map m) \<le> nm_revision (snm_map (eg_map (ew_profile w))) \<and>
          (after = [] \<and> nm_revision (snm_map (eg_map (ew_profile w1))) \<le> nm_revision (snm_map m) \<longrightarrow>
             eg_map (ew_profile w) = m))"
    if split: "envs = before @ V # after"
      and half: "spawn_control_watch X client path key endpoint pin profile before fs = Some (True, b1, w1)"
      and answer: "answered X key V w1 = Inr response" for before V after b1 w1 response
  proof -
    let ?w0 = "\<lparr>ew_profile = profile, ew_pin = pin, ew_endpoint = endpoint, ew_current = current, ew_fs = fs\<rparr>"
    have before: "watch_loop X path key control_id 1 before ?w0 = (True, b1, w1)"
      using half 1(3) 1(1) by (auto simp: spawn_control_watch_def Let_def split: sum.splits option.splits)
    then have rest: "watch_loop X path key control_id b1 (V # after) w1 = (going, b, w)"
      using 1(2) unfolding split watch_loop_append by simp
    from watch_loop_follows [OF before] start obtain m0 where w1: "ew_profile w1 = profile\<lparr>eg_map := m0\<rparr>"
      "follows X control_id (ed_public X key) (ew_profile w1) (ew_pin w1)" by auto
    have "usable_map X control_id (ed_public X key) (ew_profile w1) m" if "usable_map X control_id (ed_public X key) profile m" for m
      using that by (simp add: usable_map_def w1(1))
    with watch_loop_offered [OF rest w1(2) answer] show ?thesis by blast
  qed
  from watch_loop_follows [OF 1(2)] start 1(1) show ?thesis
    by (intro exI [of _ control_id] conjI allI impI offers) auto
qed

theorem edge_follows_control_witness:
  "\<exists>w. spawn_control_watch ref_ext (Inr ()) state_path (SecretKey [2]) [] (pin_managed {EndpointId [1]}) box_profile
      [enrollment_over] box_fs = Some (False, 1, w) \<and> cp_auth (ew_pin w) = Managed {}"
  using box_watch edge_follows_control [OF box_pin] by (metis (no_types, lifting))

text \<open>C33: A restarted edge goes on where it was, but forgets that its enrollment ended.  On a disk without
  faults, after any watch, the profile it loads is that of the last map it applied, and it authorizes that
  map's clients again: those it authorized before, or, if Control had ended its enrollment and no client was
  authorized any more, the clients of the cached map.\<close>

theorem edge_restart:
  assumes "json_laws X" "pretty_laws X" "managed_pin X profile (ed_public X key) = Inr pin"
    "spawn_control_watch X client path key endpoint pin profile envs fs = Some (going, b, w)"
    "holds_edge_profile X profile path fs" "eg_schema_version profile = 1" "path \<noteq> []"
    "\<forall>V \<in> set envs. no_faults (we_io V) \<and> others_idle (we_io V)" "no_faults E"
  shows "\<exists>fs' pin' ids. load_control_profile X E path (ew_fs w) = (Inr (Some (ew_profile w)), fs') \<and>
    managed_pin X (ew_profile w) (ed_public X key) = Inr pin' \<and>
    map (id_parse X) (nm_allowed_clients (snm_map (eg_map (ew_profile w)))) = map Inr ids \<and>
    cp_auth pin' = Managed (set ids) \<and> (going \<longrightarrow> cp_auth (ew_pin w) = Managed (set ids)) \<and>
    (\<not> going \<longrightarrow> cp_auth (ew_pin w) = Managed {})"
  using assms(4)
proof (cases rule: spawned_loop)
  case (1 control_id current)
  note start = managed_pin_follows [OF assms(3) 1(1)]
  from watch_loop_follows [OF 1(2)] start obtain m pin1 where
    run: "ew_profile w = profile\<lparr>eg_map := m\<rparr>" "follows X control_id (ed_public X key) (ew_profile w) pin1"
    "going \<longrightarrow> pin1 = ew_pin w" "\<not> going \<longrightarrow> cp_auth (ew_pin w) = Managed {}"
    by (cases going) auto
  have "holds_edge_profile X (ew_profile w) path (ew_fs w)"
    by (rule watch_loop_holds [OF 1(2)]) (use start assms in simp_all)
  then obtain fs' where load: "load_control_profile X E path (ew_fs w) = (Inr (Some (ew_profile w)), fs')"
    using load_held [of X "ew_profile w" path "ew_fs w" E] run(1) assms(6,9) by auto
  obtain ids where ids: "map (id_parse X) (nm_allowed_clients (snm_map (eg_map (ew_profile w)))) = map Inr ids"
    "cp_auth pin1 = Managed (set ids)" using run(2) by (auto simp: follows_def)
  have "eg_endpoint_id profile = id_to_string X (ed_public X key)" using assms(3) by (auto simp: managed_pin_Inr)
  then have "managed_pin X (ew_profile w) (ed_public X key) = Inr (pin_managed (set ids))"
    unfolding managed_pin_Inr using run(1,2) 1(1) ids(1) by (auto simp: follows_def)
  with load ids run(3,4) show ?thesis by (auto simp: pin_managed_def)
qed

theorem edge_restart_witness:
  "\<exists>w fs' pin'. spawn_control_watch ref_ext (Inr ()) state_path (SecretKey [2]) [] (pin_managed {EndpointId [1]}) box_profile
      [enrollment_over] box_fs = Some (False, 1, w) \<and> cp_auth (ew_pin w) = Managed {} \<and>
    load_control_profile ref_ext calm_disk state_path (ew_fs w) = (Inr (Some (ew_profile w)), fs') \<and>
    managed_pin ref_ext (ew_profile w) (ed_public ref_ext (SecretKey [2])) = Inr pin' \<and> cp_auth pin' = Managed {EndpointId [1]}"
proof -
  obtain w where w: "spawn_control_watch ref_ext (Inr ()) state_path (SecretKey [2]) [] (pin_managed {EndpointId [1]}) box_profile
    [enrollment_over] box_fs = Some (False, 1, w)" "ew_profile w = box_profile" by (rule box_watch)
  have "edge_profile_in_range ref_ext box_profile"
    by (simp add: edge_profile_in_range_def box_profile_def SignedNodeMap_sign_def box_map_def node_map_in_range_def
        CONTROL_PROTOCOL_VERSION_def i64_range_def i64_min_def i64_max_def)
  then have "holds_edge_profile ref_ext box_profile state_path box_fs"
    using edge_profile.parse_stored(1) [OF ref_ext_laws(5)] by (auto simp: holds_edge_profile_def box_fs_def)
  moreover have "no_faults calm_disk" "others_idle calm_disk" "state_path \<noteq> []" "eg_schema_version box_profile = 1"
    by (simp_all add: no_faults_def others_idle_def calm_disk_def state_path_def box_profile_def)
  ultimately have "\<exists>fs' pin' ids. load_control_profile ref_ext calm_disk state_path (ew_fs w) = (Inr (Some (ew_profile w)), fs') \<and>
      managed_pin ref_ext (ew_profile w) (ed_public ref_ext (SecretKey [2])) = Inr pin' \<and>
      map (id_parse ref_ext) (nm_allowed_clients (snm_map (eg_map (ew_profile w)))) = map Inr ids \<and>
      cp_auth pin' = Managed (set ids) \<and> (False \<longrightarrow> cp_auth (ew_pin w) = Managed (set ids)) \<and>
      (\<not> False \<longrightarrow> cp_auth (ew_pin w) = Managed {})"
    by (intro edge_restart [OF ref_ext_laws(4,5) box_pin w(1)]) (simp_all add: enrollment_over_def)
  with w box_pin show ?thesis by (auto simp: pin_managed_def)
qed

end
