(* ===== verification/Control_Db_Sync.thy ===== *)
theory Control_Db_Sync
  imports Control_Store Hash_Maps "HOL-Library.Product_Lexorder"
begin

text \<open>
  Whole states on disk (\<open>crates/as-control/src/db.rs\<close>): writing the first state, replacing one state by
  another, and loading.  A load returns the rows in the order its queries ask for, so what survives is the
  content of every table, not the order of the vectors in memory.
\<close>

section \<open>Writing\<close>

text \<open>An \<open>INSERT\<close> without \<open>ON CONFLICT\<close>: a second row of the same primary key is a violation.\<close>

definition db_insert ::
  "Ext \<Rightarrow> string \<Rightarrow> ('r \<Rightarrow> string) \<Rightarrow> (Database \<Rightarrow> 'r list) \<Rightarrow> string \<Rightarrow> (Database \<Rightarrow> string + Database)
    \<Rightarrow> Database \<Rightarrow> string + Database" where
  "db_insert X column key rows k put db =
     and_then (ensure (k \<notin> key ` set (rows db)) (unique_violation X column)) (\<lambda>_. put db)"

definition present_owner :: "ControlState \<Rightarrow> InviteRecord \<Rightarrow> string option" where
  "present_owner st item = (case inv_kind (i_invite item) of
      IKEdge owner_id \<Rightarrow>
        if list_ex (\<lambda>client. c_endpoint_id client = owner_id) (clients st) then Some owner_id else None
    | _ \<Rightarrow> None)"

definition db_clear :: "Database \<Rightarrow> Database" where
  "db_clear db = db\<lparr>db_invitations := [], db_edges := [], db_clients := [], db_relays := [],
     db_revocations := [], db_provisioners := map (\<lambda>r. r\<lparr>pv_active := False\<rparr>) (db_provisioners db)\<rparr>"

definition db_write_metadata :: "Ext \<Rightarrow> ControlState \<Rightarrow> int \<Rightarrow> int \<Rightarrow> Database \<Rightarrow> string + Database" where
  "db_write_metadata X st version relay_version db =
     and_then (ensure (cs_audience st \<noteq> [] \<and> cs_public_url st \<noteq> [] \<and> cs_relay_ca_der st \<noteq> [] \<and>
         version \<ge> 0 \<and> relay_version > 0) (check_violation X ''metadata'')) (\<lambda>_.
     Inr (db\<lparr>db_metadata := Some \<lparr>md_schema = cs_schema st, md_audience = cs_audience st,
       md_public_url = cs_public_url st, md_relay_ca_der = cs_relay_ca_der st, md_revision = version,
       md_relay_revision = relay_version\<rparr>\<rparr>))"

definition u64_try_from :: "int \<Rightarrow> nat option" where
  "u64_try_from i = (if i \<ge> 0 then Some (nat i) else None)"

definition check_stored_revision :: "string \<Rightarrow> (nat \<Rightarrow> string) \<Rightarrow> int option \<Rightarrow> nat \<Rightarrow> string + unit" where
  "check_stored_revision negative message stored candidate = (case stored of
      None \<Rightarrow> Inr ()
    | Some i \<Rightarrow> and_then (ok_or negative (u64_try_from i)) (\<lambda>stored.
        ensure (candidate = stored \<or> candidate = u64_saturating_add stored 1) (message stored)))"

definition revocations_covered :: "ControlState \<Rightarrow> string + unit" where
  "revocations_covered st = ensure (list_all (\<lambda>r. rv_revision r \<le> relay_revision st) (revocations st))
     ''revocation record is ahead of the Relay revision''"

definition initialize_sync :: "Ext \<Rightarrow> bool \<Rightarrow> ControlState \<Rightarrow> Database \<Rightarrow> string + Database" where
  "initialize_sync X io st db =
     and_then (ensure io (db_error_text X DbIo)) (\<lambda>_.
     and_then (check_stored_revision ''negative stored control revision''
       (\<lambda>stored. ''control revision must remain unchanged or advance atomically by one (stored '' @
         show_nat stored @ '', candidate '' @ show_nat (revision st) @ '')'') (map_option md_revision (db_metadata db)) (revision st)) (\<lambda>_.
     and_then (check_stored_revision ''negative stored Relay revision''
       (\<lambda>_. ''Relay revision must remain unchanged or advance atomically by one'')
       (map_option md_relay_revision (db_metadata db)) (relay_revision st)) (\<lambda>_.
     and_then (revocations_covered st) (\<lambda>_.
     let db = db_clear db in
     and_then (sqlite_range ''control revision exceeds SQLite range'' (revision st)) (\<lambda>version.
     and_then (sqlite_range ''Relay revision exceeds SQLite range'' (relay_revision st)) (\<lambda>relay_version.
     and_then (db_write_metadata X st version relay_version db) (\<lambda>db.
     and_then (fold_ok (db_put_provisioner X) (provisioners st) db) (\<lambda>db.
     and_then (fold_ok (\<lambda>item. db_insert X ''clients.endpoint_id'' c_endpoint_id db_clients
       (c_endpoint_id item) (db_put_client X item)) (clients st) db) (\<lambda>db.
     and_then (fold_ok (\<lambda>item. db_insert X ''edges.endpoint_id'' e_endpoint_id db_edges
       (e_endpoint_id item) (db_put_edge X item)) (edges st) db) (\<lambda>db.
     and_then (fold_ok (\<lambda>item. db_insert X ''relays.endpoint_id'' r_endpoint_id db_relays
       (r_endpoint_id item) (db_put_relay X item)) (relays st) db) (\<lambda>db.
     and_then (fold_ok (\<lambda>item. db_insert X ''relay_revocations.endpoint_id'' rv_endpoint_id db_revocations
       (rv_endpoint_id item) (db_put_revocation X item)) (revocations st) db) (\<lambda>db.
     and_then (fold_ok (\<lambda>item db. db_insert X ''invitations.invite_id'' iw_invite_id db_invitations
       (i_id item) (db_put_invitation X (invitation_row X (present_owner st item) item))
       (placeholder_for (i_managed_by item) db)) (invites st) db) (\<lambda>db.
     Inr (db_purge_provisioners db))))))))))))))"

section \<open>Replacing\<close>

definition by_key :: "('r \<Rightarrow> string) \<Rightarrow> 'r list \<Rightarrow> (string, 'r) hash_map" where
  "by_key key items = hash_collect (map (\<lambda>item. (key item, item)) items)"

definition gone_keys :: "('r \<Rightarrow> string) \<Rightarrow> 'r list \<Rightarrow> 'r list \<Rightarrow> string list" where
  "gone_keys key previous later =
     filter (\<lambda>k. hash_get k (by_key key later) = None) (map fst (by_key key previous))"

definition changed_items :: "('r \<Rightarrow> string) \<Rightarrow> 'r list \<Rightarrow> 'r list \<Rightarrow> 'r list" where
  "changed_items key previous later =
     filter (\<lambda>item. hash_get (key item) (by_key key previous) \<noteq> Some item) later"

definition sync_deletes :: "Ext \<Rightarrow> ControlState \<Rightarrow> ControlState \<Rightarrow> Database \<Rightarrow> string + Database" where
  "sync_deletes X previous later db =
     (let db = fold db_delete_invitation (gone_keys i_id (invites previous) (invites later)) db;
          db = fold db_delete_edge (gone_keys e_endpoint_id (edges previous) (edges later)) db in
      and_then (fold_ok (db_delete_client X) (gone_keys c_endpoint_id (clients previous) (clients later)) db) (\<lambda>db.
      let db = fold db_delete_relay (gone_keys r_endpoint_id (relays previous) (relays later)) db in
      Inr (fold db_delete_revocation (gone_keys rv_endpoint_id (revocations previous) (revocations later)) db)))"

definition sync_placeholders :: "ControlState \<Rightarrow> Database \<Rightarrow> Database" where
  "sync_placeholders later db =
     fold placeholder_for (map c_managed_by (clients later) @ map i_managed_by (invites later)) db"

definition sync_puts :: "Ext \<Rightarrow> ControlState \<Rightarrow> ControlState \<Rightarrow> Database \<Rightarrow> string + Database" where
  "sync_puts X previous later db =
     and_then (fold_ok (db_put_provisioner X)
       (changed_items p_endpoint_id (provisioners previous) (provisioners later)) db) (\<lambda>db.
     and_then (fold_ok (db_put_client X) (changed_items c_endpoint_id (clients previous) (clients later)) db) (\<lambda>db.
     and_then (fold_ok (db_put_edge X) (changed_items e_endpoint_id (edges previous) (edges later)) db) (\<lambda>db.
     and_then (fold_ok (db_put_relay X) (changed_items r_endpoint_id (relays previous) (relays later)) db) (\<lambda>db.
     and_then (fold_ok (db_put_revocation X)
       (changed_items rv_endpoint_id (revocations previous) (revocations later)) db) (\<lambda>db.
     fold_ok (\<lambda>item. db_put_invitation X (invitation_row X (present_owner later item) item))
       (changed_items i_id (invites previous) (invites later)) db)))))"

definition apply_sync :: "Ext \<Rightarrow> bool \<Rightarrow> ControlState \<Rightarrow> ControlState \<Rightarrow> Database \<Rightarrow> string + Database" where
  "apply_sync X io previous later db =
     and_then (ensure io (db_error_text X DbIo)) (\<lambda>_.
     and_then (ok_or (db_error_text X DbIo) (db_metadata db)) (\<lambda>md.
     and_then (ok_or ''negative stored control revision'' (u64_try_from (md_revision md))) (\<lambda>stored_revision.
     and_then (ok_or ''negative stored Relay revision'' (u64_try_from (md_relay_revision md))) (\<lambda>stored_relay_revision.
     and_then (ensure (stored_revision = revision previous \<and> stored_relay_revision = relay_revision previous)
       ''durable Control state changed while applying mutation'') (\<lambda>_.
     and_then (ensure (revision later = revision previous \<or> revision later = u64_saturating_add (revision previous) 1)
       ''control revision must remain unchanged or advance atomically by one'') (\<lambda>_.
     and_then (ensure (relay_revision later = relay_revision previous \<or>
         relay_revision later = u64_saturating_add (relay_revision previous) 1)
       ''Relay revision must remain unchanged or advance atomically by one'') (\<lambda>_.
     and_then (revocations_covered later) (\<lambda>_.
     and_then (sync_deletes X previous later db) (\<lambda>db.
     and_then (sync_puts X previous later (sync_placeholders later db)) (\<lambda>db.
     let db = db_purge_provisioners (fold db_deactivate_provisioner
           (gone_keys p_endpoint_id (provisioners previous) (provisioners later)) db) in
     and_then (sqlite_range ''control revision exceeds SQLite range'' (revision later)) (\<lambda>version.
     and_then (sqlite_range ''Relay revision exceeds SQLite range'' (relay_revision later)) (\<lambda>relay_version.
     and_then (sqlite_range ''control revision exceeds SQLite range'' (revision previous)) (\<lambda>_.
     and_then (sqlite_range ''Relay revision exceeds SQLite range'' (relay_revision previous)) (\<lambda>_.
     db_write_metadata X later version relay_version db))))))))))))))"

section \<open>Loading\<close>

definition invite_state_of_text :: "Ext \<Rightarrow> string \<Rightarrow> string + InviteState" where
  "invite_state_of_text X s =
     (if s = ''pending'' then Inr Pending else if s = ''claimed'' then Inr Claimed
      else if s = ''revoked'' then Inr Revoked else Inl (db_error_text X DbIo))"

definition invite_of_row :: "Ext \<Rightarrow> InvitationRow \<Rightarrow> string + InviteRecord" where
  "invite_of_row X row =
     and_then (and_then (json_from_slice X (iw_invite_json row)) Invite_of_json) (\<lambda>invite.
     and_then (invite_state_of_text X (iw_state row)) (\<lambda>state.
     Inr \<lparr>i_invite = invite, i_state = state, i_claimed_by = iw_claimed_by row,
       i_request_id = iw_request_id row, i_managed_by = iw_managed_by row,
       i_request_hash = iw_request_hash row, i_terminal_at = iw_terminal_at row\<rparr>))"

definition db_load :: "Ext \<Rightarrow> Database \<Rightarrow> string + ControlState" where
  "db_load X db =
     and_then (ok_or ''database is not initialized; run `as-control init` to initialize a new network''
       (db_metadata db)) (\<lambda>md.
     and_then (ensure (md_schema md = STATE_SCHEMA) (''unsupported state schema '' @ show_nat (md_schema md))) (\<lambda>_.
     and_then (ok_or ''negative control revision'' (u64_try_from (md_revision md))) (\<lambda>version.
     and_then (ok_or ''negative Relay revision'' (u64_try_from (md_relay_revision md))) (\<lambda>relay_version.
     and_then (collect_results (map (invite_of_row X) (db_invitations db))) (\<lambda>invites.
     Inr \<lparr>cs_schema = md_schema md, cs_audience = md_audience md, cs_public_url = md_public_url md,
       cs_relay_ca_der = md_relay_ca_der md, revision = version, relay_revision = relay_version,
       clients = sort_key c_name (db_clients db),
       edges = sort_key edge_slot (db_edges db),
       relays = sort_key r_name (db_relays db), invites = invites,
       provisioners = sort_key p_name (map provisioner_of (filter pv_active (db_provisioners db))),
       revocations = sort_key rv_endpoint_id (db_revocations db)\<rparr>)))))"

section \<open>Differences of tables\<close>

lemma by_key_get:
  assumes "keys_distinct key items"
  shows "hash_get k (by_key key items) = find_by key k items"
proof -
  have "hash_get k (by_key key items) = map_of (map (\<lambda>i. (key i, i)) items) k"
    using assms by (simp add: by_key_def hash_get_collect_distinct keys_distinct_def comp_def)
  also have "\<dots> = find_by key k items" by (induction items) auto
  finally show ?thesis .
qed

lemma set_gone_keys:
  "set (gone_keys key previous later) = key ` set previous - key ` set later"
proof -
  have keys: "fst ` set (by_key key items) = key ` set items" for items
    by (simp add: by_key_def hash_keys_collect image_image)
  have "set (gone_keys key previous later) = {k \<in> fst ` set (by_key key previous). k \<notin> fst ` set (by_key key later)}"
    by (simp add: gone_keys_def hash_get_None)
  then show ?thesis unfolding keys by blast
qed

lemma set_changed_items:
  assumes "keys_distinct key previous" "keys_distinct key later"
  shows "set (changed_items key previous later) = set later - set previous"
  using find_by_Some_iff [OF assms(1)] by (auto simp: changed_items_def by_key_get assms)

lemma keys_distinct_changed: "keys_distinct key later \<Longrightarrow> keys_distinct key (changed_items key previous later)"
  by (simp add: changed_items_def keys_distinct_def distinct_map_filter)

lemma keys_distinct_inj: "keys_distinct key t \<Longrightarrow> x \<in> set t \<Longrightarrow> y \<in> set t \<Longrightarrow> key x = key y \<Longrightarrow> x = y"
  by (auto simp: keys_distinct_def distinct_map dest: inj_onD)

text \<open>Removing the keys that are gone and writing the items that changed gives the later table.\<close>

lemma sync_set:
  assumes "keys_distinct key previous" "keys_distinct key later" "\<And>i. rk (f i) = key i"
  shows "f ` set (changed_items key previous later) \<union>
      {x \<in> f ` set previous. rk x \<notin> set (gone_keys key previous later) \<and>
        rk x \<notin> key ` set (changed_items key previous later)} = f ` set later" (is "?l = ?r")
proof
  show "?l \<subseteq> ?r"
  proof
    fix x assume "x \<in> ?l"
    then consider i where "x = f i" "i \<in> set later"
      | i where "x = f i" "i \<in> set previous" "key i \<in> key ` set later" "key i \<notin> key ` set (changed_items key previous later)"
      by (auto simp: set_gone_keys set_changed_items [OF assms(1,2)] assms(3))
    then show "x \<in> ?r"
    proof cases
      case 2
      then obtain j where j: "j \<in> set later" "key j = key i" by auto
      with 2(4) have "j \<in> set previous" by (metis DiffI imageI set_changed_items [OF assms(1,2)])
      with j 2 show ?thesis using keys_distinct_inj [OF assms(1)] by blast
    qed simp
  qed
  show "?r \<subseteq> ?l"
  proof
    fix x assume "x \<in> ?r"
    then obtain i where i: "x = f i" "i \<in> set later" by auto
    have "key i \<noteq> key j" if "i \<in> set previous" "j \<in> set later - set previous" for j
      using keys_distinct_inj [OF assms(2)] i(2) that by blast
    then show "x \<in> ?l"
      using i by (auto simp: set_gone_keys set_changed_items [OF assms(1,2)] assms(3))
  qed
qed

lemma set_fold_upsert:
  assumes "keys_distinct key xs" "keys_distinct rk t" "\<And>i. rk (f i) = key i"
  shows "set (fold (\<lambda>i. upsert_by rk (f i)) xs t) = f ` set xs \<union> {x \<in> set t. rk x \<notin> key ` set xs}"
    "keys_distinct rk (fold (\<lambda>i. upsert_by rk (f i)) xs t)"
  using assms(1,2)
proof (induction xs arbitrary: t)
  case (Cons i xs)
  {
    case 1
    have "keys_distinct key xs" "key i \<notin> key ` set xs" using 1(1) by (simp_all add: keys_distinct_def)
    moreover have "keys_distinct rk (upsert_by rk (f i) t)" using 1(2) by (rule keys_distinct_upsert)
    ultimately show ?case using Cons.IH(1) 1 by (auto simp: set_upsert_by assms(3))
  next
    case 2
    have "keys_distinct key xs" using 2(1) by (simp add: keys_distinct_def)
    with Cons.IH(2) keys_distinct_upsert [OF 2(2)] show ?case by simp
  }
qed auto

lemma set_fold_upsert_new:
  assumes "keys_distinct key xs"
  shows "set (fold (upsert_by key) xs []) = set xs" "keys_distinct key (fold (upsert_by key) xs [])"
  using set_fold_upsert [where f = "\<lambda>x. x", OF assms keys_distinct_Nil [of key]] by simp_all

lemma set_fold_delete:
  "set (fold (delete_by rk) ks t) = {x \<in> set t. rk x \<notin> set ks}"
  "keys_distinct rk t \<Longrightarrow> keys_distinct rk (fold (delete_by rk) ks t)"
  by (induction ks arbitrary: t) (auto simp: set_delete_by keys_distinct_delete)

text \<open>A table of rows that holds a previous table holds the later one after both.\<close>

lemma sync_rows:
  assumes "keys_distinct key previous" "keys_distinct key later" "\<And>i. rk (f i) = key i"
    "keys_distinct rk t" "set t = f ` set previous"
  shows "set (fold (\<lambda>i. upsert_by rk (f i)) (changed_items key previous later)
      (fold (delete_by rk) (gone_keys key previous later) t)) = f ` set later"
    "keys_distinct rk (fold (\<lambda>i. upsert_by rk (f i)) (changed_items key previous later)
      (fold (delete_by rk) (gone_keys key previous later) t))"
proof -
  note rows = set_fold_upsert [OF keys_distinct_changed [OF assms(2)] set_fold_delete(2) [OF assms(4)], of f]
  show "set (fold (\<lambda>i. upsert_by rk (f i)) (changed_items key previous later)
      (fold (delete_by rk) (gone_keys key previous later) t)) = f ` set later"
    using rows(1) [OF assms(3)] sync_set [where f = f and rk = rk, OF assms(1-3)]
    by (simp add: set_fold_delete(1) assms(5) conj_assoc Collect_conj_eq)
  show "keys_distinct rk (fold (\<lambda>i. upsert_by rk (f i)) (changed_items key previous later)
      (fold (delete_by rk) (gone_keys key previous later) t))"
    by (rule rows(2)) (rule assms(3))
qed

section \<open>What the statements do\<close>

text \<open>A run of statements that each replace one column of the database by a function of it.\<close>

lemma fold_ok_column:
  assumes "\<And>x db db'. f x db = Inr db' \<Longrightarrow> db' = upd (g x (col db)) db"
    and "\<And>v db. col (upd v db) = v" "\<And>v w db. upd v (upd w db) = upd v db" "\<And>db. upd (col db) db = db"
    and "fold_ok f xs db = Inr db'"
  shows "db' = upd (fold g xs (col db)) db"
  using assms(5)
proof (induction xs arbitrary: db)
  case (Cons x xs)
  then obtain mid where "f x db = Inr mid" "fold_ok f xs mid = Inr db'" by auto
  with Cons.IH [of mid] assms(1) [of x db mid] show ?case by (simp add: assms(2,3))
qed (simp add: assms(4))

lemma fold_puts:
  "fold_ok (db_put_client X) cs db = Inr db' \<Longrightarrow> db' = db\<lparr>db_clients := fold (upsert_by c_endpoint_id) cs (db_clients db)\<rparr>"
  "fold_ok (db_put_edge X) es db = Inr db' \<Longrightarrow> db' = db\<lparr>db_edges := fold (upsert_by e_endpoint_id) es (db_edges db)\<rparr>"
  "fold_ok (db_put_relay X) rs db = Inr db' \<Longrightarrow> db' = db\<lparr>db_relays := fold (upsert_by r_endpoint_id) rs (db_relays db)\<rparr>"
  "fold_ok (db_put_revocation X) vs db = Inr db' \<Longrightarrow>
    db' = db\<lparr>db_revocations := fold (upsert_by rv_endpoint_id) vs (db_revocations db)\<rparr>"
  "fold_ok (db_put_provisioner X) ps db = Inr db' \<Longrightarrow> db' = db\<lparr>db_provisioners :=
    fold (\<lambda>p. upsert_by pv_endpoint_id \<lparr>pv_endpoint_id = p_endpoint_id p, pv_name = p_name p, pv_active = True\<rparr>)
      ps (db_provisioners db)\<rparr>"
  "fold_ok (\<lambda>i. db_put_invitation X (row i)) is db = Inr db' \<Longrightarrow>
    db' = db\<lparr>db_invitations := fold (\<lambda>i. upsert_by iw_invite_id (row i)) is (db_invitations db)\<rparr>"
  by (rule fold_ok_column; auto simp: db_put_Inr)+

lemma fold_deletes:
  "fold db_delete_invitation ks db = db\<lparr>db_invitations := fold (delete_by iw_invite_id) ks (db_invitations db)\<rparr>"
  "fold db_delete_edge ks db = db\<lparr>db_edges := fold (delete_by e_endpoint_id) ks (db_edges db)\<rparr>"
  "fold db_delete_relay ks db = db\<lparr>db_relays := fold (delete_by r_endpoint_id) ks (db_relays db)\<rparr>"
  "fold db_delete_revocation ks db = db\<lparr>db_revocations := fold (delete_by rv_endpoint_id) ks (db_revocations db)\<rparr>"
  "fold db_deactivate_provisioner ks db = db\<lparr>db_provisioners := map (\<lambda>r. if pv_endpoint_id r \<in> set ks
     then r\<lparr>pv_active := False\<rparr> else r) (db_provisioners db)\<rparr>"
  by (induction ks arbitrary: db)
    (auto simp: db_delete_invitation_def db_delete_edge_def db_delete_relay_def db_delete_revocation_def
      db_deactivate_provisioner_def comp_def intro!: map_cong)

lemma fold_placeholders:
  obtains rows where "fold placeholder_for ms db = db\<lparr>db_provisioners := rows\<rparr>"
    "active_rows rows = active_rows (db_provisioners db)"
    "keys_distinct pv_endpoint_id (db_provisioners db) \<longrightarrow> keys_distinct pv_endpoint_id rows"
proof -
  have "\<exists>rows. fold placeholder_for ms db = db\<lparr>db_provisioners := rows\<rparr> \<and>
    active_rows rows = active_rows (db_provisioners db) \<and>
    (keys_distinct pv_endpoint_id (db_provisioners db) \<longrightarrow> keys_distinct pv_endpoint_id rows)"
  proof (induction ms arbitrary: db)
    case Nil
    then show ?case by (intro exI [of _ "db_provisioners db"]) simp
  next
    case (Cons m ms)
    have "placeholder_for m db = db\<lparr>db_provisioners := db_provisioners (placeholder_for m db)\<rparr>"
      by (simp add: placeholder_for_def ensure_provisioner_placeholder_def split: option.split)
    with Cons.IH [of "placeholder_for m db"] placeholder_rows [where m = m and db = db] show ?case
      by (metis (no_types, lifting) Database.surjective Database.update_convs(2) fold_simps(2))
  qed
  then show thesis using that by blast
qed

lemma fold_delete_clients:
  assumes "fold_ok (db_delete_client X) ks db = Inr db'"
  obtains rows where "db' = db\<lparr>db_clients := fold (delete_by c_endpoint_id) ks (db_clients db), db_invitations := rows\<rparr>"
    "map erase_owner rows = map erase_owner (db_invitations db)"
proof -
  have "\<exists>rows. db' = db\<lparr>db_clients := fold (delete_by c_endpoint_id) ks (db_clients db), db_invitations := rows\<rparr> \<and>
    map erase_owner rows = map erase_owner (db_invitations db)"
    using assms
  proof (induction ks arbitrary: db)
    case Nil
    then show ?case by (intro exI [of _ "db_invitations db"]) simp
  next
    case (Cons k ks)
    let ?null = "\<lambda>r :: InvitationRow. if iw_owner_id r = Some k then r\<lparr>iw_owner_id := None\<rparr> else r"
    let ?mid = "db\<lparr>db_clients := delete_by c_endpoint_id k (db_clients db), db_invitations := map ?null (db_invitations db)\<rparr>"
    have "map erase_owner (map ?null (db_invitations db)) = map erase_owner (db_invitations db)"
      by (simp add: erase_owner_def)
    moreover have "fold_ok (db_delete_client X) ks ?mid = Inr db'"
      using Cons.prems by (auto simp: db_delete_client_Inr)
    ultimately show ?case using Cons.IH [of ?mid] by (simp del: map_map)
  qed
  then show thesis using that by blast
qed

lemma erase_owner_updates:
  "map erase_owner (fold (delete_by iw_invite_id) ks rows) = fold (delete_by iw_invite_id) ks (map erase_owner rows)"
  "map erase_owner (fold (\<lambda>i. upsert_by iw_invite_id (invitation_row X (own i) i)) is rows) =
   fold (\<lambda>i. upsert_by iw_invite_id (invitation_row X None i)) is (map erase_owner rows)"
proof -
  have "map erase_owner (delete_by iw_invite_id k rows) = delete_by iw_invite_id k (map erase_owner rows)" for k rows
    by (simp add: delete_by_def filter_map comp_def)
  then show "map erase_owner (fold (delete_by iw_invite_id) ks rows) = fold (delete_by iw_invite_id) ks (map erase_owner rows)"
    by (induction ks arbitrary: rows) simp_all
  have "map erase_owner (upsert_by iw_invite_id r rows) = upsert_by iw_invite_id (erase_owner r) (map erase_owner rows)" for r rows
    by (induction rows) simp_all
  then show "map erase_owner (fold (\<lambda>i. upsert_by iw_invite_id (invitation_row X (own i) i)) is rows) =
     fold (\<lambda>i. upsert_by iw_invite_id (invitation_row X None i)) is (map erase_owner rows)"
    by (induction "is" arbitrary: rows) simp_all
qed

lemma keys_distinct_erase: "keys_distinct iw_invite_id (map erase_owner rows) = keys_distinct iw_invite_id rows"
  by (simp add: keys_distinct_def comp_def)

lemma sync_deletes_db:
  assumes "sync_deletes X previous later db = Inr db'"
  obtains rows where "db' = db\<lparr>db_invitations := rows,
      db_edges := fold (delete_by e_endpoint_id) (gone_keys e_endpoint_id (edges previous) (edges later)) (db_edges db),
      db_clients := fold (delete_by c_endpoint_id) (gone_keys c_endpoint_id (clients previous) (clients later)) (db_clients db),
      db_relays := fold (delete_by r_endpoint_id) (gone_keys r_endpoint_id (relays previous) (relays later)) (db_relays db),
      db_revocations := fold (delete_by rv_endpoint_id)
        (gone_keys rv_endpoint_id (revocations previous) (revocations later)) (db_revocations db)\<rparr>"
    "map erase_owner rows = fold (delete_by iw_invite_id) (gone_keys i_id (invites previous) (invites later))
      (map erase_owner (db_invitations db))"
proof -
  let ?inv = "fold (delete_by iw_invite_id) (gone_keys i_id (invites previous) (invites later)) (db_invitations db)"
  let ?edg = "fold (delete_by e_endpoint_id) (gone_keys e_endpoint_id (edges previous) (edges later)) (db_edges db)"
  obtain mid where mid: "fold_ok (db_delete_client X) (gone_keys c_endpoint_id (clients previous) (clients later))
      (db\<lparr>db_invitations := ?inv, db_edges := ?edg\<rparr>) = Inr mid"
    "db' = fold db_delete_revocation (gone_keys rv_endpoint_id (revocations previous) (revocations later))
      (fold db_delete_relay (gone_keys r_endpoint_id (relays previous) (relays later)) mid)"
    using assms by (auto simp: sync_deletes_def Let_def fold_deletes)
  obtain rows where rows: "mid = db\<lparr>db_invitations := ?inv, db_edges := ?edg\<rparr>\<lparr>db_clients :=
      fold (delete_by c_endpoint_id) (gone_keys c_endpoint_id (clients previous) (clients later)) (db_clients db),
      db_invitations := rows\<rparr>" "map erase_owner rows = map erase_owner ?inv"
    using fold_delete_clients [OF mid(1)] by auto
  show thesis by (rule that [of rows]) (simp_all add: mid(2) rows fold_deletes erase_owner_updates)
qed

lemma sync_puts_db:
  assumes "sync_puts X previous later db = Inr db'"
  shows "db' = db\<lparr>
     db_provisioners := fold (\<lambda>p. upsert_by pv_endpoint_id \<lparr>pv_endpoint_id = p_endpoint_id p, pv_name = p_name p, pv_active = True\<rparr>)
       (changed_items p_endpoint_id (provisioners previous) (provisioners later)) (db_provisioners db),
     db_clients := fold (upsert_by c_endpoint_id) (changed_items c_endpoint_id (clients previous) (clients later)) (db_clients db),
     db_edges := fold (upsert_by e_endpoint_id) (changed_items e_endpoint_id (edges previous) (edges later)) (db_edges db),
     db_relays := fold (upsert_by r_endpoint_id) (changed_items r_endpoint_id (relays previous) (relays later)) (db_relays db),
     db_revocations := fold (upsert_by rv_endpoint_id)
       (changed_items rv_endpoint_id (revocations previous) (revocations later)) (db_revocations db),
     db_invitations := fold (\<lambda>i. upsert_by iw_invite_id (invitation_row X (present_owner later i) i))
       (changed_items i_id (invites previous) (invites later)) (db_invitations db)\<rparr>"
  using assms by (auto simp: sync_puts_def dest!: fold_puts)

lemma sync_provisioners:
  assumes "keys_distinct p_endpoint_id previous" "keys_distinct p_endpoint_id later"
    "keys_distinct pv_endpoint_id rows" "provisioner_of ` active_rows rows = set previous"
  defines "written \<equiv> fold (\<lambda>p. upsert_by pv_endpoint_id
      \<lparr>pv_endpoint_id = p_endpoint_id p, pv_name = p_name p, pv_active = True\<rparr>)
      (changed_items p_endpoint_id previous later) rows"
    and "off \<equiv> \<lambda>r. if pv_endpoint_id r \<in> set (gone_keys p_endpoint_id previous later)
      then r\<lparr>pv_active := False\<rparr> else r"
  shows "provisioner_of ` active_rows (map off written) = set later"
    and "keys_distinct pv_endpoint_id (map off written)"
proof -
  let ?row = "\<lambda>p. \<lparr>pv_endpoint_id = p_endpoint_id p, pv_name = p_name p, pv_active = True\<rparr>"
  let ?ch = "changed_items p_endpoint_id previous later" and ?gone = "gone_keys p_endpoint_id previous later"
  note w = set_fold_upsert [OF keys_distinct_changed [OF assms(2), of previous] assms(3), of ?row, simplified, folded written_def]
  have "active_rows (map off written) = {r \<in> ?row ` set ?ch \<union> {x \<in> set rows. pv_endpoint_id x \<notin> p_endpoint_id ` set ?ch}.
      pv_active r \<and> pv_endpoint_id r \<notin> set ?gone}"
    using w(1) by (auto simp: active_rows_def off_def)
  also have "\<dots> = ?row ` set ?ch \<union> {x \<in> active_rows rows. pv_endpoint_id x \<notin> set ?gone \<and> pv_endpoint_id x \<notin> p_endpoint_id ` set ?ch}"
    by (auto simp: active_rows_def set_gone_keys set_changed_items [OF assms(1,2)]) (metis imageI)
  finally have "provisioner_of ` active_rows (map off written) = provisioner_of ` ?row ` set ?ch \<union>
      provisioner_of ` {x \<in> active_rows rows. pv_endpoint_id x \<notin> set ?gone \<and> pv_endpoint_id x \<notin> p_endpoint_id ` set ?ch}"
    by (simp add: image_Un)
  also have "provisioner_of ` {x \<in> active_rows rows. pv_endpoint_id x \<notin> set ?gone \<and> pv_endpoint_id x \<notin> p_endpoint_id ` set ?ch} =
      {q \<in> set previous. p_endpoint_id q \<notin> set ?gone \<and> p_endpoint_id q \<notin> p_endpoint_id ` set ?ch}"
    unfolding assms(4) [symmetric] by auto
  also have "provisioner_of ` ?row ` set ?ch = set ?ch"
  proof -
    have "provisioner_of (?row p) = p" for p by (cases p) (simp add: provisioner_of_def)
    then show ?thesis by (simp add: image_image)
  qed
  finally show "provisioner_of ` active_rows (map off written) = set later"
    using sync_set [where f = "\<lambda>p. p" and rk = p_endpoint_id, OF assms(1,2)] by simp
  have "keys_distinct pv_endpoint_id (map off written) = keys_distinct pv_endpoint_id written"
    by (rule keys_distinct_map_same) (simp add: off_def)
  then show "keys_distinct pv_endpoint_id (map off written)" using w(2) by simp
qed

section \<open>Replacing a state\<close>

lemma db_write_metadata_Inr:
  "db_write_metadata X st version relay_version db = Inr db' \<longleftrightarrow>
     cs_audience st \<noteq> [] \<and> cs_public_url st \<noteq> [] \<and> cs_relay_ca_der st \<noteq> [] \<and> version \<ge> 0 \<and> relay_version > 0 \<and>
     db' = db\<lparr>db_metadata := Some \<lparr>md_schema = cs_schema st, md_audience = cs_audience st,
       md_public_url = cs_public_url st, md_relay_ca_der = cs_relay_ca_der st, md_revision = version,
       md_relay_revision = relay_version\<rparr>\<rparr>"
  by (auto simp: db_write_metadata_def)

lemma u64_try_from_int [simp]: "u64_try_from (int n) = Some n"
  by (simp add: u64_try_from_def)

lemma apply_sync_Inr:
  assumes "apply_sync X io previous later db = Inr db'"
  obtains gone mid where "sync_deletes X previous later db = Inr gone"
    "sync_puts X previous later (sync_placeholders later gone) = Inr mid"
    "db_write_metadata X later (int (revision later)) (int (relay_revision later)) (db_purge_provisioners
      (fold db_deactivate_provisioner (gone_keys p_endpoint_id (provisioners previous) (provisioners later)) mid)) = Inr db'"
    "int (revision later) \<le> i64_max" "int (relay_revision later) \<le> i64_max" "revocations_covered later = Inr ()"
  using assms by (auto simp: apply_sync_def Let_def revocations_covered_def)

theorem apply_sync_coherent:
  assumes "apply_sync X io previous later db = Inr db'" "coherent X db previous"
    "tables_keyed previous" "tables_keyed later"
  shows "coherent X db' later"
proof -
  obtain gone mid where g: "sync_deletes X previous later db = Inr gone"
    "sync_puts X previous later (sync_placeholders later gone) = Inr mid"
    "db_write_metadata X later (int (revision later)) (int (relay_revision later)) (db_purge_provisioners
      (fold db_deactivate_provisioner (gone_keys p_endpoint_id (provisioners previous) (provisioners later)) mid)) = Inr db'"
    using assms(1) by (rule apply_sync_Inr)
  obtain rows where d: "gone = db\<lparr>db_invitations := rows,
      db_edges := fold (delete_by e_endpoint_id) (gone_keys e_endpoint_id (edges previous) (edges later)) (db_edges db),
      db_clients := fold (delete_by c_endpoint_id) (gone_keys c_endpoint_id (clients previous) (clients later)) (db_clients db),
      db_relays := fold (delete_by r_endpoint_id) (gone_keys r_endpoint_id (relays previous) (relays later)) (db_relays db),
      db_revocations := fold (delete_by rv_endpoint_id)
        (gone_keys rv_endpoint_id (revocations previous) (revocations later)) (db_revocations db)\<rparr>"
    "map erase_owner rows = fold (delete_by iw_invite_id) (gone_keys i_id (invites previous) (invites later))
      (map erase_owner (db_invitations db))"
    using g(1) by (rule sync_deletes_db)
  obtain ps where p: "sync_placeholders later gone = gone\<lparr>db_provisioners := ps\<rparr>"
    "active_rows ps = active_rows (db_provisioners gone)"
    "keys_distinct pv_endpoint_id (db_provisioners gone) \<longrightarrow> keys_distinct pv_endpoint_id ps"
    unfolding sync_placeholders_def
    by (rule fold_placeholders [where ms = "map c_managed_by (clients later) @ map i_managed_by (invites later)" and db = gone])
  note mid = sync_puts_db [OF g(2), unfolded p(1), unfolded d(1)]
  have same: "db_provisioners gone = db_provisioners db" by (simp add: d(1))
  have coh: "tables_coherent X db previous" using assms(2) by (simp add: coherent_def)
  have inv: "set (map erase_owner (db_invitations mid)) = invitation_row X None ` set (invites later)"
    "keys_distinct iw_invite_id (map erase_owner (db_invitations mid))"
    using sync_rows [where f = "invitation_row X None" and rk = iw_invite_id and t = "map erase_owner (db_invitations db)"
        and key = i_id and previous = "invites previous" and later = "invites later"] coh assms(3,4) d(2)
    by (simp_all add: mid tables_coherent_def tables_keyed_def erase_owner_updates keys_distinct_erase)
  note prov = sync_provisioners [where previous = "provisioners previous" and later = "provisioners later" and rows = ps]
  have "tables_coherent X (fold db_deactivate_provisioner
      (gone_keys p_endpoint_id (provisioners previous) (provisioners later)) mid) later"
    using coh assms(3,4) prov inv p(2,3) [unfolded same]
      sync_rows [where f = "\<lambda>c. c" and rk = c_endpoint_id and key = c_endpoint_id and t = "db_clients db"
        and previous = "clients previous" and later = "clients later"]
      sync_rows [where f = "\<lambda>c. c" and rk = e_endpoint_id and key = e_endpoint_id and t = "db_edges db"
        and previous = "edges previous" and later = "edges later"]
      sync_rows [where f = "\<lambda>c. c" and rk = r_endpoint_id and key = r_endpoint_id and t = "db_relays db"
        and previous = "relays previous" and later = "relays later"]
      sync_rows [where f = "\<lambda>c. c" and rk = rv_endpoint_id and key = rv_endpoint_id and t = "db_revocations db"
        and previous = "revocations previous" and later = "revocations later"]
    by (simp add: tables_coherent_def tables_keyed_def fold_deletes keys_distinct_erase mid)
  then show ?thesis
    using g(3) by (simp add: coherent_def metadata_coherent_def db_write_metadata_Inr purge_coherent)
qed

section \<open>Writing the first state\<close>

lemma db_insert_Inr: "db_insert X column key rows k put db = Inr db' \<longleftrightarrow> k \<notin> key ` set (rows db) \<and> put db = Inr db'"
  by (auto simp: db_insert_def)

lemma fold_inserts:
  "fold_ok (\<lambda>item. db_insert X col c_endpoint_id db_clients (c_endpoint_id item) (db_put_client X item)) cs db = Inr db' \<Longrightarrow>
    db' = db\<lparr>db_clients := fold (upsert_by c_endpoint_id) cs (db_clients db)\<rparr>"
  "fold_ok (\<lambda>item. db_insert X col e_endpoint_id db_edges (e_endpoint_id item) (db_put_edge X item)) es db = Inr db' \<Longrightarrow>
    db' = db\<lparr>db_edges := fold (upsert_by e_endpoint_id) es (db_edges db)\<rparr>"
  "fold_ok (\<lambda>item. db_insert X col r_endpoint_id db_relays (r_endpoint_id item) (db_put_relay X item)) rs db = Inr db' \<Longrightarrow>
    db' = db\<lparr>db_relays := fold (upsert_by r_endpoint_id) rs (db_relays db)\<rparr>"
  "fold_ok (\<lambda>item. db_insert X col rv_endpoint_id db_revocations (rv_endpoint_id item) (db_put_revocation X item)) vs db = Inr db' \<Longrightarrow>
    db' = db\<lparr>db_revocations := fold (upsert_by rv_endpoint_id) vs (db_revocations db)\<rparr>"
  by (rule fold_ok_column; auto simp: db_insert_Inr db_put_Inr)+

lemma fold_invites:
  assumes "fold_ok (\<lambda>item db. db_insert X col iw_invite_id db_invitations (i_id item) (db_put_invitation X (row item))
    (placeholder_for (i_managed_by item) db)) is db = Inr db'"
  obtains ps where "db' = db\<lparr>db_provisioners := ps,
      db_invitations := fold (\<lambda>i. upsert_by iw_invite_id (row i)) is (db_invitations db)\<rparr>"
    "active_rows ps = active_rows (db_provisioners db)"
    "keys_distinct pv_endpoint_id (db_provisioners db) \<longrightarrow> keys_distinct pv_endpoint_id ps"
proof -
  have "\<exists>ps. db' = db\<lparr>db_provisioners := ps,
      db_invitations := fold (\<lambda>i. upsert_by iw_invite_id (row i)) is (db_invitations db)\<rparr> \<and>
    active_rows ps = active_rows (db_provisioners db) \<and>
    (keys_distinct pv_endpoint_id (db_provisioners db) \<longrightarrow> keys_distinct pv_endpoint_id ps)"
    using assms
  proof (induction "is" arbitrary: db)
    case Nil
    then show ?case by (intro exI [of _ "db_provisioners db"]) simp
  next
    case (Cons i "is")
    let ?held = "placeholder_for (i_managed_by i) db"
    obtain ps where ps: "?held = db\<lparr>db_provisioners := ps\<rparr>" "active_rows ps = active_rows (db_provisioners db)"
      "keys_distinct pv_endpoint_id (db_provisioners db) \<longrightarrow> keys_distinct pv_endpoint_id ps"
      by (rule fold_placeholders [where ms = "[i_managed_by i]" and db = db]) simp
    let ?mid = "db\<lparr>db_provisioners := ps, db_invitations := upsert_by iw_invite_id (row i) (db_invitations db)\<rparr>"
    have "fold_ok (\<lambda>item db. db_insert X col iw_invite_id db_invitations (i_id item) (db_put_invitation X (row item))
        (placeholder_for (i_managed_by item) db)) is ?mid = Inr db'"
      using Cons.prems by (auto simp: db_insert_Inr db_put_invitation_Inr ps(1))
    with Cons.IH [of ?mid] ps(2,3) show ?case by auto
  qed
  then show thesis using that by blast
qed

lemma active_rows_split:
  "set rs = A \<union> B \<Longrightarrow> \<forall>x \<in> A. pv_active x \<Longrightarrow> \<forall>x \<in> B. \<not> pv_active x \<Longrightarrow> active_rows rs = A"
  by (auto simp: active_rows_def)

lemma initialize_sync_Inr:
  assumes "initialize_sync X io st db = Inr db'"
  obtains d1 d2 d3 d4 d5 d6 d7 where
    "db_write_metadata X st (int (revision st)) (int (relay_revision st)) (db_clear db) = Inr d1"
    "fold_ok (db_put_provisioner X) (provisioners st) d1 = Inr d2"
    "fold_ok (\<lambda>item. db_insert X ''clients.endpoint_id'' c_endpoint_id db_clients (c_endpoint_id item)
       (db_put_client X item)) (clients st) d2 = Inr d3"
    "fold_ok (\<lambda>item. db_insert X ''edges.endpoint_id'' e_endpoint_id db_edges (e_endpoint_id item)
       (db_put_edge X item)) (edges st) d3 = Inr d4"
    "fold_ok (\<lambda>item. db_insert X ''relays.endpoint_id'' r_endpoint_id db_relays (r_endpoint_id item)
       (db_put_relay X item)) (relays st) d4 = Inr d5"
    "fold_ok (\<lambda>item. db_insert X ''relay_revocations.endpoint_id'' rv_endpoint_id db_revocations (rv_endpoint_id item)
       (db_put_revocation X item)) (revocations st) d5 = Inr d6"
    "fold_ok (\<lambda>item db. db_insert X ''invitations.invite_id'' iw_invite_id db_invitations (i_id item)
       (db_put_invitation X (invitation_row X (present_owner st item) item)) (placeholder_for (i_managed_by item) db))
       (invites st) d6 = Inr d7"
    "db' = db_purge_provisioners d7"
  using assms unfolding initialize_sync_def Let_def and_then_Inr sqlite_range_Inr by auto

theorem initialize_sync_coherent:
  assumes "initialize_sync X io st db = Inr db'" "tables_keyed st" "keys_distinct pv_endpoint_id (db_provisioners db)"
  shows "coherent X db' st"
  using assms(1)
proof (cases rule: initialize_sync_Inr)
  case (1 d1 d2 d3 d4 d5 d6 d7)
  let ?off = "map (\<lambda>r. r\<lparr>pv_active := False\<rparr>) (db_provisioners db)"
  let ?row = "\<lambda>p. \<lparr>pv_endpoint_id = p_endpoint_id p, pv_name = p_name p, pv_active = True\<rparr>"
  obtain ps where d7: "d7 = d6\<lparr>db_provisioners := ps,
      db_invitations := fold (\<lambda>i. upsert_by iw_invite_id (invitation_row X (present_owner st i) i)) (invites st) (db_invitations d6)\<rparr>"
    "active_rows ps = active_rows (db_provisioners d6)"
    "keys_distinct pv_endpoint_id (db_provisioners d6) \<longrightarrow> keys_distinct pv_endpoint_id ps"
    using 1(7) by (rule fold_invites)
  note d6 = fold_inserts(4) [OF 1(6)] fold_inserts(3) [OF 1(5)] fold_inserts(2) [OF 1(4)] fold_inserts(1) [OF 1(3)]
    fold_puts(5) [OF 1(2)]
  have off: "active_rows ?off = {}" "keys_distinct pv_endpoint_id ?off"
    using assms(3) keys_distinct_map_same [of pv_endpoint_id "\<lambda>r. r\<lparr>pv_active := False\<rparr>"]
    by (auto simp: active_rows_def)
  note inv = set_fold_upsert [where t = "[]" and f = "invitation_row X None" and rk = iw_invite_id and key = i_id, simplified]
  have held: "db_provisioners d6 = fold (\<lambda>p. upsert_by pv_endpoint_id (?row p)) (provisioners st) ?off"
    using 1(1) by (simp add: d6 db_write_metadata_Inr db_clear_def)
  have keyed: "keys_distinct p_endpoint_id (provisioners st)" using assms(2) by (simp add: tables_keyed_def)
  have "set (db_provisioners d6) = ?row ` set (provisioners st) \<union>
      {x \<in> set ?off. pv_endpoint_id x \<notin> p_endpoint_id ` set (provisioners st)}"
    unfolding held by (rule set_fold_upsert(1) [OF keyed off(2)]) simp
  then have "active_rows (db_provisioners d6) = ?row ` set (provisioners st)"
    by (rule active_rows_split) auto
  moreover have "keys_distinct pv_endpoint_id (db_provisioners d6)" unfolding held
    by (rule set_fold_upsert(2) [OF keyed off(2)]) simp
  moreover have "provisioner_of (?row p) = p" for p by (cases p) (simp add: provisioner_of_def)
  moreover have "db_provisioners d7 = ps" by (simp add: d7(1))
  ultimately have prov: "provisioner_of ` active_rows (db_provisioners d7) = set (provisioners st)"
    "keys_distinct pv_endpoint_id (db_provisioners d7)"
    using d7(2,3) by (simp_all add: image_image)
  have rows: "map erase_owner (db_invitations d7) = fold (\<lambda>i. upsert_by iw_invite_id (invitation_row X None i)) (invites st) []"
    using 1(1) by (simp add: d7(1) d6 db_write_metadata_Inr db_clear_def erase_owner_updates)
  have "set (map erase_owner (db_invitations d7)) = invitation_row X None ` set (invites st)"
    "keys_distinct iw_invite_id (map erase_owner (db_invitations d7))"
    unfolding rows using inv assms(2) by (simp_all add: tables_keyed_def)
  then have "erase_owner ` set (db_invitations d7) = invitation_row X None ` set (invites st)"
    "keys_distinct iw_invite_id (db_invitations d7)"
    by (simp_all add: keys_distinct_erase)
  moreover have "set (db_clients d7) = set (clients st)" "keys_distinct c_endpoint_id (db_clients d7)"
    "set (db_edges d7) = set (edges st)" "keys_distinct e_endpoint_id (db_edges d7)"
    "set (db_relays d7) = set (relays st)" "keys_distinct r_endpoint_id (db_relays d7)"
    "set (db_revocations d7) = set (revocations st)" "keys_distinct rv_endpoint_id (db_revocations d7)"
    using assms(2) 1(1)
    by (simp_all add: set_fold_upsert_new d7(1) d6 db_write_metadata_Inr db_clear_def tables_keyed_def)
  ultimately have "tables_coherent X d7 st"
    using prov by (simp add: tables_coherent_def)
  then show ?thesis
    using 1(1,8) d7(1) by (simp add: coherent_def metadata_coherent_def db_write_metadata_Inr purge_coherent d6)
qed

section \<open>Loading what was written\<close>

definition same_content :: "ControlState \<Rightarrow> ControlState \<Rightarrow> bool" where
  "same_content st st' \<longleftrightarrow> cs_schema st' = cs_schema st \<and> cs_audience st' = cs_audience st \<and>
     cs_public_url st' = cs_public_url st \<and> cs_relay_ca_der st' = cs_relay_ca_der st \<and>
     revision st' = revision st \<and> relay_revision st' = relay_revision st \<and>
     set (clients st') = set (clients st) \<and> set (edges st') = set (edges st) \<and>
     set (relays st') = set (relays st) \<and> set (invites st') = set (invites st) \<and>
     set (provisioners st') = set (provisioners st) \<and> set (revocations st') = set (revocations st)"

definition storable :: "ControlState \<Rightarrow> bool" where
  "storable st \<longleftrightarrow> cs_schema st = STATE_SCHEMA \<and> cs_audience st \<noteq> [] \<and> cs_public_url st \<noteq> [] \<and>
     cs_relay_ca_der st \<noteq> [] \<and> int (revision st) \<le> i64_max \<and> int (relay_revision st) \<le> i64_max \<and>
     (\<forall>i \<in> set (invites st). invite_in_range (i_invite i))"

lemma keys_distinct_content:
  assumes "keys_distinct key t" "set t' = set t" "distinct t'"
  shows "keys_distinct key t'"
  using assms by (simp add: keys_distinct_def distinct_map)

lemma tables_keyed_distinct: "keys_distinct key t \<Longrightarrow> distinct t"
  by (simp add: keys_distinct_def distinct_map)

lemma same_content_ok:
  assumes "same_content st st'" "tables_keyed st'" "state_ok st"
  shows "state_ok st'"
proof -
  have d: "distinct (clients st')" "distinct (edges st')" "distinct (relays st')" "distinct (invites st')"
    "distinct (provisioners st')" "distinct (revocations st')"
    using assms(2) by (auto simp: tables_keyed_def intro: tables_keyed_distinct)
  note kept = keys_distinct_content [where t = "clients st", OF _ _ d(1)] keys_distinct_content [where t = "edges st", OF _ _ d(2)]
    keys_distinct_content [where t = "relays st", OF _ _ d(3)] keys_distinct_content [where t = "invites st", OF _ _ d(4)]
    keys_distinct_content [where t = "provisioners st", OF _ _ d(5)] keys_distinct_content [where t = "revocations st", OF _ _ d(6)]
  show ?thesis
    using assms(1,3) unfolding state_ok_def tables_ok_def tables_ok_defs same_content_def by (simp add: kept)
qed

lemma same_content_coherent: "same_content st st' \<Longrightarrow> coherent X db st \<Longrightarrow> coherent X db st'"
  by (simp add: same_content_def coherent_def tables_coherent_def metadata_coherent_def)

lemma same_content_request_ids: "same_content st st' \<Longrightarrow> request_ids_unique st \<Longrightarrow> request_ids_unique st'"
  by (simp add: same_content_def request_ids_unique_def)

lemma same_content_storable: "same_content st st' \<Longrightarrow> storable st \<Longrightarrow> storable st'"
  by (simp add: same_content_def storable_def)

lemma invite_of_row_written:
  assumes "json_laws X" "invite_in_range (i_invite i)" "erase_owner r = invitation_row X None i"
  shows "invite_of_row X r = Inr i"
proof -
  have "iw_invite_json r = json_to_vec X (Invite_json (i_invite i))" "iw_state r = invite_state_text (i_state i)"
    "iw_claimed_by r = i_claimed_by i" "iw_request_id r = i_request_id i" "iw_managed_by r = i_managed_by i"
    "iw_request_hash r = i_request_hash i" "iw_terminal_at r = i_terminal_at i"
    using assms(3) by (cases r; simp add: erase_owner_def invitation_row_def)+
  moreover have "invite_state_of_text X (invite_state_text (i_state i)) = Inr (i_state i)"
    by (cases "i_state i") (simp_all add: invite_state_of_text_def invite_state_text_def)
  ultimately show ?thesis
    using assms(1,2) by (simp add: invite_of_row_def json_laws_def Invite_round_trip)
qed

lemma invite_of_row_sound:
  assumes "json_laws X" "erase_owner r = invitation_row X None i" "invite_of_row X r = Inr j"
  shows "j = i"
proof (cases "invite_in_range (i_invite i)")
  case True
  with invite_of_row_written [OF assms(1) _ assms(2)] assms(3) show ?thesis by simp
next
  case False
  have "iw_invite_json r = json_to_vec X (Invite_json (i_invite i))"
    using assms(2) by (cases r) (simp add: erase_owner_def invitation_row_def)
  with assms False show ?thesis
    by (auto simp: invite_of_row_def json_laws_def Invite_of_json_def Invite_json_def field_def obj_field_def invite_in_range_def)
qed

lemma load_invitations:
  assumes "json_laws X" "erase_owner ` set rows = invitation_row X None ` set is"
    "collect_results (map (invite_of_row X) rows) = Inr js"
  shows "set js = set is" "map i_id js = map iw_invite_id rows"
proof -
  have read: "map (invite_of_row X) rows = map Inr js" using assms(3) by (simp add: collect_results_Inr)
  have row: "\<exists>i \<in> set is. erase_owner r = invitation_row X None i" if "r \<in> set rows" for r
    using that assms(2) by blast
  have key: "i_id j = iw_invite_id r" if "r \<in> set rows" "invite_of_row X r = Inr j" for r j
    using row [OF that(1)] invite_of_row_sound [OF assms(1) _ that(2)] by (metis erase_owner_key invitation_row_key)
  show "map i_id js = map iw_invite_id rows"
    using read key by (induction rows arbitrary: js) auto
  show "set js = set is"
  proof
    show "set js \<subseteq> set is"
    proof
      fix j assume "j \<in> set js"
      then have "Inr j \<in> set (map (invite_of_row X) rows)" unfolding read by simp
      then obtain r where "r \<in> set rows" "invite_of_row X r = Inr j" by force
      with row invite_of_row_sound [OF assms(1)] show "j \<in> set is" by blast
    qed
    show "set is \<subseteq> set js"
    proof
      fix i assume "i \<in> set is"
      then obtain r where r: "r \<in> set rows" "erase_owner r = invitation_row X None i" using assms(2) by (metis imageE imageI)
      then have "invite_of_row X r \<in> set (map Inr js)" unfolding read [symmetric] by simp
      with invite_of_row_sound [OF assms(1) r(2)] show "i \<in> set js" by auto
    qed
  qed
qed

lemma keys_distinct_sort [simp]: "keys_distinct key (sort_key g t) = keys_distinct key t"
  by (simp add: keys_distinct_def distinct_map)

lemma load_sound:
  assumes "json_laws X" "coherent X db st" "db_load X db = Inr st'"
  shows "same_content st st'" "tables_keyed st'"
proof -
  have coh: "tables_coherent X db st" and md: "metadata_coherent db st" using assms(2) by (simp_all add: coherent_def)
  define active where "active = map provisioner_of (filter pv_active (db_provisioners db))"
  obtain js where js: "collect_results (map (invite_of_row X) (db_invitations db)) = Inr js"
    and st': "st' = \<lparr>cs_schema = cs_schema st, cs_audience = cs_audience st, cs_public_url = cs_public_url st,
       cs_relay_ca_der = cs_relay_ca_der st, revision = revision st, relay_revision = relay_revision st,
       clients = sort_key c_name (db_clients db), edges = sort_key edge_slot (db_edges db),
       relays = sort_key r_name (db_relays db), invites = js, provisioners = sort_key p_name active,
       revocations = sort_key rv_endpoint_id (db_revocations db)\<rparr>"
    using assms(3) md by (auto simp: db_load_def metadata_coherent_def active_def)
  have inv: "set js = set (invites st)" "keys_distinct i_id js"
    using load_invitations [OF assms(1) _ js] coh by (auto simp: tables_coherent_def keys_distinct_def)
  have "keys_distinct p_endpoint_id active" "set active = provisioner_of ` active_rows (db_provisioners db)"
    using coh by (simp_all add: active_def tables_coherent_def keys_distinct_def active_rows_def distinct_map_filter comp_def)
  with coh inv show "same_content st st'" "tables_keyed st'"
    by (simp_all add: st' tables_coherent_def same_content_def tables_keyed_def)
qed

lemma load_succeeds:
  assumes "json_laws X" "coherent X db st" "storable st"
  shows "\<exists>st'. db_load X db = Inr st'"
proof -
  have rows: "erase_owner ` set (db_invitations db) = invitation_row X None ` set (invites st)"
    using assms(2) by (simp add: coherent_def tables_coherent_def)
  have "\<exists>i. invite_of_row X r = Inr i" if r: "r \<in> set (db_invitations db)" for r
  proof -
    obtain i where "i \<in> set (invites st)" "erase_owner r = invitation_row X None i" using r rows by blast
    with assms(1,3) show ?thesis by (auto simp: storable_def intro: invite_of_row_written)
  qed
  then obtain f where "\<forall>r \<in> set (db_invitations db). invite_of_row X r = Inr (f r)" by metis
  then have "collect_results (map (invite_of_row X) (db_invitations db)) = Inr (map f (db_invitations db))"
    by (simp add: collect_results_Inr)
  with assms(2,3) show ?thesis
    by (simp add: db_load_def coherent_def metadata_coherent_def storable_def)
qed

section \<open>Dropping records is accepted\<close>

lemma gone_keys_same [simp]: "gone_keys key t t = []"
  using set_gone_keys [of key t t] by simp

lemma changed_items_filter: "keys_distinct key t \<Longrightarrow> changed_items key t (filter P t) = []"
  using set_changed_items [of key t "filter P t"]
  by (metis (no_types, lifting) Diff_eq_empty_iff distinct_map_filter filter_is_subset keys_distinct_def set_empty)

lemma changed_items_same: "keys_distinct key t \<Longrightarrow> changed_items key t t = []"
  using set_changed_items [of key t t] by simp

lemma apply_sync_retains:
  assumes "coherent X db previous" "state_ok previous" "storable previous"
    "later = previous\<lparr>invites := filter P (invites previous), revocations := filter Q (revocations previous)\<rparr>"
  shows "\<exists>db'. apply_sync X True previous later db = Inr db'"
proof -
  have "tables_keyed previous" using assms(2) by (rule state_ok_keyed)
  moreover have "\<forall>r \<in> set (revocations previous). rv_revision r \<le> relay_revision previous" "relay_revision previous > 0"
    using assms(2) by (auto simp: state_ok_def tables_ok_def revocations_ok_def)
  ultimately show ?thesis
    using assms(1,3) by (simp add: apply_sync_def sync_deletes_def sync_puts_def assms(4) changed_items_filter
        changed_items_same tables_keyed_def revocations_covered_def list_all_iff coherent_def metadata_coherent_def
        db_write_metadata_def storable_def Let_def ensure_def)
qed

end
