(* ===== verification/Control_Startup.thy ===== *)
theory Control_Startup
  imports Control_Db_Sync Control_Sample Core_Files Utf8
begin

text \<open>
  Control as a process (\<open>crates/as-control/src/main.rs\<close>): \<open>init\<close> and \<open>bootstrap\<close>, which prepare a state
  directory, and the start of \<open>run\<close>, which loads it, drops what is past retention and begins to serve.
  The state directory is the file system with the database beside it; \<open>None\<close> means that \<open>control.db\<close> does
  not exist.
\<close>

section \<open>The state directory\<close>

record ControlDir =
  cd_fs :: Fs
  cd_db :: "Database option"

type_synonym 'a dio = "ControlDir \<Rightarrow> (FsError + 'a) \<times> ControlDir"

definition d_ok :: "'a \<Rightarrow> 'a dio" where "d_ok x d = (Inr x, d)"

definition d_then :: "'a dio \<Rightarrow> ('a \<Rightarrow> 'b dio) \<Rightarrow> 'b dio" where
  "d_then m f d = (case m d of (Inl e, d) \<Rightarrow> (Inl e, d) | (Inr x, d) \<Rightarrow> f x d)"

definition d_files :: "'a io \<Rightarrow> 'a dio" where
  "d_files m d = (case m (cd_fs d) of (r, fs) \<Rightarrow> (r, d\<lparr>cd_fs := fs\<rparr>))"

definition d_check :: "string + 'a \<Rightarrow> 'a dio" where
  "d_check r = d_files (io_result r)"

definition d_look :: "(ControlDir \<Rightarrow> 'a dio) \<Rightarrow> 'a dio" where
  "d_look f d = f d d"

text \<open>What the outside world decides: whether the database file can be opened and written, the certificate
  authority that would be generated, whether stored key and certificate parse, time and randomness.\<close>

record StartEnv =
  se_io :: FsEnv
  se_open :: bool
  se_write :: bool
  se_generated_ca :: "string + byte list \<times> byte list"
  se_parse_ca :: "byte list \<Rightarrow> byte list \<Rightarrow> string + unit"
  se_now :: int
  se_invite_id :: string
  se_secret :: string

definition key_path :: "path \<Rightarrow> path" where "key_path dir = dir @ [''control.key'']"
definition relay_ca_key_path :: "path \<Rightarrow> path" where "relay_ca_key_path dir = dir @ [''relay-ca.key'']"
definition relay_ca_cert_path :: "path \<Rightarrow> path" where "relay_ca_cert_path dir = dir @ [''relay-ca.der'']"
definition control_lock_path :: "path \<Rightarrow> path" where "control_lock_path dir = dir @ [''control.lock'']"

section \<open>Database file and certificate authority\<close>

text \<open>A database file of the current schema; migrating it changes nothing.  A file that did not exist has
  empty tables, also when writing the first state fails.\<close>

definition Database_create :: "Ext \<Rightarrow> StartEnv \<Rightarrow> ControlState \<Rightarrow> Database dio" where
  "Database_create X V st d =
     (if \<not> se_open V then (Inl (Failed (db_error_text X DbIo)), d)
      else let db = (case cd_db d of None \<Rightarrow> empty_database | Some db \<Rightarrow> db) in
        case initialize_sync X (se_write V) st db of
          Inl e \<Rightarrow> (Inl (Failed e), d\<lparr>cd_db := Some db\<rparr>)
        | Inr db \<Rightarrow> (Inr db, d\<lparr>cd_db := Some db\<rparr>))"

definition Database_open :: "Ext \<Rightarrow> StartEnv \<Rightarrow> Database dio" where
  "Database_open X V = d_look (\<lambda>d.
     d_then (d_check (ok_or ''control database is missing; run `as-control init` to initialize a new network''
       (cd_db d))) (\<lambda>db.
     d_then (d_check (ensure (se_open V) (db_error_text X DbIo))) (\<lambda>_.
     d_ok db)))"

definition Database_apply_sync :: "Ext \<Rightarrow> StartEnv \<Rightarrow> ControlState \<Rightarrow> ControlState \<Rightarrow> Database \<Rightarrow> Database dio" where
  "Database_apply_sync X V previous later db d = (case apply_sync X (se_write V) previous later db of
      Inl e \<Rightarrow> (Inl (Failed e), d)
    | Inr db \<Rightarrow> (Inr db, d\<lparr>cd_db := Some db\<rparr>))"

definition load_relay_ca :: "StartEnv \<Rightarrow> path \<Rightarrow> (byte list \<times> Issuer) dio" where
  "load_relay_ca V dir =
     d_then (d_files (io_context ''read Relay CA key'' (fs_read (se_io V) (relay_ca_key_path dir)))) (\<lambda>key_der.
     d_then (d_files (io_context ''read Relay CA certificate'' (fs_read (se_io V) (relay_ca_cert_path dir)))) (\<lambda>cert_der.
     d_then (d_check (se_parse_ca V key_der cert_der)) (\<lambda>_.
     d_ok (cert_der, \<lparr>is_key_der = key_der, is_cert_der = cert_der\<rparr>))))"

definition load_or_create_relay_ca :: "StartEnv \<Rightarrow> path \<Rightarrow> (byte list \<times> Issuer) dio" where
  "load_or_create_relay_ca V dir = d_look (\<lambda>d.
     let key_exists = path_exists (relay_ca_key_path dir) (cd_fs d);
         cert_exists = path_exists (relay_ca_cert_path dir) (cd_fs d) in
     if key_exists \<and> cert_exists then load_relay_ca V dir
     else if \<not> key_exists \<and> \<not> cert_exists then
       d_then (d_check (se_generated_ca V)) (\<lambda>(key_der, cert_der).
       d_then (d_files (io_context (''write '' @ path_display (relay_ca_key_path dir))
         (atomic_write (se_io V) (relay_ca_key_path dir) key_der))) (\<lambda>_.
       d_then (d_files (io_context (''write '' @ path_display (relay_ca_cert_path dir))
         (atomic_write (se_io V) (relay_ca_cert_path dir) cert_der))) (\<lambda>_.
       load_relay_ca V dir)))
     else d_check (Inl ''incomplete Relay CA state: relay-ca.key and relay-ca.der must both exist''))"

section \<open>Commands\<close>

definition first_state :: "string \<Rightarrow> string \<Rightarrow> byte list \<Rightarrow> ControlState" where
  "first_state audience public_url relay_ca_der = \<lparr>cs_schema = STATE_SCHEMA, cs_audience = audience,
     cs_public_url = public_url, cs_relay_ca_der = relay_ca_der, revision = 0, relay_revision = 1,
     clients = [], edges = [], relays = [], invites = [], provisioners = [], revocations = []\<rparr>"

definition control_init :: "Ext \<Rightarrow> StartEnv \<Rightarrow> path \<Rightarrow> string \<Rightarrow> string \<Rightarrow> SecretKey dio" where
  "control_init X V dir public_url audience =
     d_then (d_check (ensure (trim audience \<noteq> []) ''--audience must not be empty'')) (\<lambda>_.
     d_then (d_check (normalize_public_url X public_url)) (\<lambda>public_url.
     d_then (d_files (ensure_private_dir (se_io V) dir)) (\<lambda>_.
     d_then (d_look (\<lambda>d. d_check (ensure (\<not> path_exists (key_path dir) (cd_fs d) \<and> cd_db d = None)
       ''control state already exists''))) (\<lambda>_.
     d_then (d_files (load_or_create_secret (se_io V) (key_path dir))) (\<lambda>key.
     d_then (load_or_create_relay_ca V dir) (\<lambda>(relay_ca_der, _).
     d_then (Database_create X V (first_state audience public_url relay_ca_der)) (\<lambda>_.
     d_ok key)))))))"

definition write_invitation :: "StartEnv \<Rightarrow> path \<Rightarrow> string \<Rightarrow> unit dio" where
  "write_invitation V path link =
     d_then (case path_parent path of Some parent \<Rightarrow> d_files (ensure_private_dir (se_io V) parent)
       | None \<Rightarrow> d_ok ()) (\<lambda>_.
     d_files (io_context (''write invitation '' @ path_display path)
       (atomic_write (se_io V) path (string_bytes link @ [10]))))"

definition open_prepared :: "Ext \<Rightarrow> StartEnv \<Rightarrow> path \<Rightarrow> (SecretKey \<times> Database \<times> ControlState) dio" where
  "open_prepared X V dir =
     d_then (d_files (read_secret (se_io V) (key_path dir))) (\<lambda>key.
     d_then (Database_open X V) (\<lambda>database.
     d_then (d_check (db_load X database)) (\<lambda>state.
     d_ok (key, database, state))))"

definition create_prepared :: "Ext \<Rightarrow> StartEnv \<Rightarrow> path \<Rightarrow> string \<Rightarrow> string \<Rightarrow> (SecretKey \<times> Database \<times> ControlState) dio" where
  "create_prepared X V dir audience public_url =
     d_then (d_files (load_or_create_secret (se_io V) (key_path dir))) (\<lambda>key.
     d_then (load_or_create_relay_ca V dir) (\<lambda>(relay_ca_der, _).
     let state = first_state audience public_url relay_ca_der in
     d_then (Database_create X V state) (\<lambda>database.
     d_ok (key, database, state))))"

definition prepare_state :: "Ext \<Rightarrow> StartEnv \<Rightarrow> path \<Rightarrow> string \<Rightarrow> string \<Rightarrow> (SecretKey \<times> Database \<times> ControlState) dio" where
  "prepare_state X V dir audience public_url = d_look (\<lambda>d.
     let key_exists = path_exists (key_path dir) (cd_fs d); database_exists = cd_db d \<noteq> None;
         ca_exists = path_exists (relay_ca_key_path dir) (cd_fs d) \<and> path_exists (relay_ca_cert_path dir) (cd_fs d) in
     d_then (d_check (ensure (key_exists = database_exists \<and> database_exists = ca_exists)
       ''incomplete control state: control.key, control.db, relay-ca.key, and relay-ca.der must all exist or all be absent'')) (\<lambda>_.
     if database_exists then open_prepared X V dir else create_prepared X V dir audience public_url))"

text \<open>The invitation of the first relay: pending ones of earlier runs are replaced.\<close>

definition bootstrap_invite ::
  "Ext \<Rightarrow> StartEnv \<Rightarrow> SecretKey \<Rightarrow> string \<Rightarrow> string \<Rightarrow> nat \<Rightarrow> ControlState \<Rightarrow> string + InviteResult option \<times> ControlState" where
  "bootstrap_invite X V key relay_name relay_url relay_ttl_secs state =
     (if relays state = [] then
        let state = state\<lparr>invites := filter (\<lambda>invite.
              \<not> (case inv_kind (i_invite invite) of IKRelay _ \<Rightarrow> True | _ \<Rightarrow> False) \<or> i_state invite \<noteq> Pending) (invites state)\<rparr> in
        and_then (create_invite_with_secret X key (se_now V) (se_invite_id V) relay_name (IKRelay relay_url)
          relay_ttl_secs (se_secret V) state) (\<lambda>(result, state).
        Inr (Some result, state))
      else and_then (ensure (list_ex (\<lambda>relay. r_name relay = relay_name \<and> r_url relay = relay_url) (relays state))
          ''configured Relay name or URL does not match durable state'') (\<lambda>_.
        Inr (None, state)))"

definition prepared_already :: "path \<Rightarrow> path \<Rightarrow> ControlDir \<Rightarrow> bool" where
  "prepared_already dir relay_invite_out d \<longleftrightarrow> path_exists (key_path dir) (cd_fs d) \<and> cd_db d \<noteq> None \<and>
     path_exists (relay_ca_key_path dir) (cd_fs d) \<and> path_exists (relay_ca_cert_path dir) (cd_fs d) \<and>
     path_exists relay_invite_out (cd_fs d)"

definition bootstrap ::
  "Ext \<Rightarrow> StartEnv \<Rightarrow> path \<Rightarrow> string \<Rightarrow> string \<Rightarrow> string \<Rightarrow> string \<Rightarrow> nat \<Rightarrow> path \<Rightarrow> SecretKey dio" where
  "bootstrap X V dir public_url audience relay_name relay_url relay_ttl_secs relay_invite_out =
     d_then (d_check (validate_name relay_name)) (\<lambda>_.
     d_then (d_check (ensure (trim audience \<noteq> []) ''--audience must not be empty'')) (\<lambda>_.
     d_then (d_check (normalize_public_url X public_url)) (\<lambda>public_url.
     d_then (d_check (normalize_relay_url X relay_url)) (\<lambda>relay_url.
     d_then (d_files (ensure_private_dir (se_io V) dir)) (\<lambda>_.
     d_look (\<lambda>d. if prepared_already dir relay_invite_out d
       then d_files (read_secret (se_io V) (key_path dir))
       else
     d_then (d_files (io_context ''control state is already in use; bootstrap must run before as-control run''
       (FileLock_try_acquire (se_io V) (control_lock_path dir)))) (\<lambda>_.
     d_then (prepare_state X V dir audience public_url) (\<lambda>(key, database, state).
     d_then (d_check (ensure (cs_audience state = audience)
       ''configured Control audience does not match durable state'')) (\<lambda>_.
     d_then (d_check (ensure (cs_public_url state = public_url)
       ''configured Control public URL does not match durable state'')) (\<lambda>_.
     d_then (d_check (bootstrap_invite X V key relay_name relay_url relay_ttl_secs state)) (\<lambda>(relay_invite, later).
     d_then (Database_apply_sync X V state later database) (\<lambda>_.
     d_then (case relay_invite of Some invite \<Rightarrow> write_invitation V relay_invite_out (ir_join_url invite)
       | None \<Rightarrow> d_ok ()) (\<lambda>_.
     d_ok key)))))))))))))"

definition open_exclusive :: "Ext \<Rightarrow> StartEnv \<Rightarrow> path \<Rightarrow> (SecretKey \<times> Database \<times> ControlState) dio" where
  "open_exclusive X V dir =
     d_then (d_files (io_context ''control state is already in use (stop as-control before offline bootstrap)''
       (FileLock_try_acquire (se_io V) (control_lock_path dir)))) (\<lambda>_.
     d_then (Database_open X V) (\<lambda>database.
     d_then (d_files (read_secret (se_io V) (key_path dir))) (\<lambda>key.
     d_then (d_check (db_load X database)) (\<lambda>state.
     d_ok (key, database, state)))))"

definition Store_new :: "Database \<Rightarrow> SecretKey \<Rightarrow> Issuer \<Rightarrow> ControlState \<Rightarrow> Store" where
  "Store_new database key relay_ca state = \<lparr>st_db = database, st_key = key, st_relay_ca = relay_ca, st_state = state, st_changed = 0,
     st_relay_changed = 0, st_watches = Map.empty\<rparr>"

definition control_run :: "Ext \<Rightarrow> StartEnv \<Rightarrow> path \<Rightarrow> Store dio" where
  "control_run X V dir =
     d_then (open_exclusive X V dir) (\<lambda>(key, database, state).
     d_then (load_relay_ca V dir) (\<lambda>(relay_ca_der, relay_ca).
     d_then (d_check (ensure (cs_relay_ca_der state = relay_ca_der) ''Relay CA files do not match control.db'')) (\<lambda>_.
     d_then (d_check (ensure (cs_schema state = STATE_SCHEMA)
       (''unsupported state schema '' @ show_nat (cs_schema state)))) (\<lambda>_.
     let later = snd (cleanup_revocations (se_now V) (snd (cleanup_invitations (se_now V) state))) in
     d_then (Database_apply_sync X V state later database) (\<lambda>database.
     d_ok (Store_new database key relay_ca later))))))"

section \<open>What a run leaves behind\<close>

lemma d_then_Inr: "d_then m f d = (Inr y, d') \<longleftrightarrow> (\<exists>x d1. m d = (Inr x, d1) \<and> f x d1 = (Inr y, d'))"
  by (auto simp: d_then_def split: prod.splits sum.splits)

lemma d_files_Inr: "d_files m d = (Inr y, d') \<longleftrightarrow> (\<exists>fs. m (cd_fs d) = (Inr y, fs) \<and> d' = d\<lparr>cd_fs := fs\<rparr>)"
  by (auto simp: d_files_def split: prod.splits)

lemma io_result_Inr: "io_result r fs = (Inr y, fs') \<longleftrightarrow> r = Inr y \<and> fs' = fs"
  by (cases r) (auto simp: io_result_def io_check_def)

lemma d_check_Inr [simp]: "d_check r d = (Inr y, d') \<longleftrightarrow> r = Inr y \<and> d' = d"
  by (auto simp: d_check_def d_files_Inr io_result_Inr)

lemma d_ok_Inr [simp]: "d_ok x d = (Inr y, d') \<longleftrightarrow> y = x \<and> d' = d"
  by (auto simp: d_ok_def)

lemma d_look_simp [simp]: "d_look f d = f d d"
  by (simp add: d_look_def)

lemma d_files_db [simp]: "d_files m d = (r, d') \<Longrightarrow> cd_db d' = cd_db d"
  by (auto simp: d_files_def split: prod.splits)

lemma Database_open_Inr: "Database_open X V d = (Inr db, d') \<longleftrightarrow> cd_db d = Some db \<and> se_open V \<and> d' = d"
  by (auto simp: Database_open_def d_then_Inr)

lemma load_relay_ca_db: "load_relay_ca V dir d = (Inr ca, d') \<Longrightarrow> cd_db d' = cd_db d"
  by (auto simp: load_relay_ca_def d_then_Inr d_files_Inr)

lemma load_or_create_relay_ca_db: "load_or_create_relay_ca V dir d = (Inr ca, d') \<Longrightarrow> cd_db d' = cd_db d"
  by (auto simp: load_or_create_relay_ca_def d_then_Inr d_files_Inr Let_def dest: load_relay_ca_db split: if_splits)

lemma Database_create_Inr:
  "Database_create X V st d = (Inr db, d') \<Longrightarrow> cd_db d = None \<Longrightarrow>
   initialize_sync X (se_write V) st empty_database = Inr db \<and> d' = d\<lparr>cd_db := Some db\<rparr>"
  by (auto simp: Database_create_def Let_def split: if_splits sum.splits)

lemma Database_apply_sync_Inr:
  "Database_apply_sync X V previous later db d = (Inr db', d') \<longleftrightarrow>
   apply_sync X (se_write V) previous later db = Inr db' \<and> d' = d\<lparr>cd_db := Some db'\<rparr>"
  by (auto simp: Database_apply_sync_def split: sum.splits)

lemma open_exclusive_Inr:
  assumes "open_exclusive X V dir d = (Inr (key, database, state), d')"
  shows "cd_db d = Some database" "db_load X database = Inr state"
  using assms by (auto simp: open_exclusive_def d_then_Inr d_files_Inr Database_open_Inr)

text \<open>What is kept when Control starts at a time \<open>now\<close>.\<close>

definition retained :: "int \<Rightarrow> ControlState \<Rightarrow> ControlState" where
  "retained now st = snd (cleanup_revocations now (snd (cleanup_invitations now st)))"

lemma retained_fields:
  "retained now st = st\<lparr>invites := filter (\<lambda>i. now < i64_saturating_add (invite_terminal now i)
      INVITATION_RETENTION_SECS) (invites st), revocations := filter (\<lambda>r. rv_expires_at r > now) (revocations st)\<rparr>"
  by (simp add: retained_def cleanup_revocations_def cleanup_invitations_def Let_def)

lemma keys_distinct_filter [simp]: "keys_distinct key t \<Longrightarrow> keys_distinct key (filter P t)"
  by (simp add: keys_distinct_def distinct_map_filter)

lemma retained_ok:
  assumes "state_ok st" shows "state_ok (retained now st)"
  using assms unfolding state_ok_def tables_ok_def tables_ok_defs retained_fields by simp

lemma retained_request_ids: "request_ids_unique st \<Longrightarrow> request_ids_unique (retained now st)"
  unfolding request_ids_unique_def retained_fields by auto

lemma same_content_retained: "same_content st st' \<Longrightarrow> same_content (retained now st) (retained now st')"
  by (simp add: same_content_def retained_fields)

definition dir_holds :: "Ext \<Rightarrow> ControlState \<Rightarrow> Database \<Rightarrow> bool" where
  "dir_holds X st db \<longleftrightarrow> state_ok st \<and> agrees X db st"

lemma control_run_Inr:
  assumes "control_run X V dir d = (Inr s, d')" "cd_db d = Some db" "json_laws X" "dir_holds X st db"
  shows "store_ok X s" "same_content (retained (se_now V) st) (st_state s)" "cd_db d' = Some (st_db s)"
    "st_changed s = 0" "st_watches s = Map.empty"
proof -
  obtain key db0 state ca issuer db' d1 d2 where parts: "open_exclusive X V dir d = (Inr (key, db0, state), d1)"
    "load_relay_ca V dir d1 = (Inr (ca, issuer), d2)" "apply_sync X (se_write V) state (retained (se_now V) state) db0 = Inr db'"
    "d' = d2\<lparr>cd_db := Some db'\<rparr>" "s = Store_new db' key issuer (retained (se_now V) state)"
    using assms(1) by (auto simp: control_run_def d_then_Inr Database_apply_sync_Inr Let_def retained_def)
  have "db0 = db" using open_exclusive_Inr(1) [OF parts(1)] assms(2) by simp
  note run = parts [unfolded this]
  have held: "coherent X db st" "state_ok st" "request_ids_unique st"
    using assms(4) by (simp_all add: dir_holds_def agrees_def)
  note loaded = load_sound [OF assms(3) held(1) open_exclusive_Inr(2) [OF run(1)]]
  have ok: "state_ok state" "coherent X db state" "request_ids_unique state"
    using loaded held same_content_ok same_content_coherent same_content_request_ids by blast+
  have "coherent X db' (retained (se_now V) state)"
    by (rule apply_sync_coherent [OF run(3) ok(2)]) (auto intro: state_ok_keyed ok(1) retained_ok)
  then show "store_ok X s"
    using ok by (simp add: run(5) store_ok_def agrees_def Store_new_def retained_ok retained_request_ids)
  show "same_content (retained (se_now V) st) (st_state s)" "cd_db d' = Some (st_db s)" "st_changed s = 0" "st_watches s = Map.empty"
    using loaded(1) by (simp_all add: run(4,5) Store_new_def same_content_retained)
qed

lemma first_state_ok: "state_ok (first_state audience url ca)"
  by (simp add: first_state_def state_ok_def tables_ok_def tables_ok_defs)

lemma first_state_holds:
  assumes "initialize_sync X io (first_state audience url ca) empty_database = Inr db"
  shows "dir_holds X (first_state audience url ca) db"
proof -
  have "coherent X db (first_state audience url ca)"
    by (rule initialize_sync_coherent [OF assms]) (simp_all add: empty_database_def first_state_ok state_ok_keyed)
  with first_state_ok show ?thesis by (auto simp: dir_holds_def agrees_def request_ids_unique_def first_state_def)
qed

lemma control_init_Inr:
  assumes "control_init X V dir public_url audience d = (Inr key, d')"
  obtains db url ca where "cd_db d = None" "cd_db d' = Some db" "dir_holds X (first_state audience url ca) db"
    "normalize_public_url X public_url = Inr url"
proof -
  obtain url d1 d2 d3 ca issuer db where run: "normalize_public_url X public_url = Inr url"
    "d_files (ensure_private_dir (se_io V) dir) d = (Inr (), d1)" "cd_db d1 = None"
    "d_files (load_or_create_secret (se_io V) (key_path dir)) d1 = (Inr key, d2)"
    "load_or_create_relay_ca V dir d2 = (Inr (ca, issuer), d3)"
    "Database_create X V (first_state audience url ca) d3 = (Inr db, d')"
    using assms by (auto simp: control_init_def d_then_Inr)
  have none: "cd_db d3 = None" "cd_db d = None"
    using d_files_db [OF run(2)] d_files_db [OF run(4)] load_or_create_relay_ca_db [OF run(5)] run(3) by simp_all
  have init: "initialize_sync X (se_write V) (first_state audience url ca) empty_database = Inr db" "cd_db d' = Some db"
    using Database_create_Inr [OF run(6) none(1)] by simp_all
  from that [OF none(2) init(2) first_state_holds [OF init(1)] run(1)] show thesis .
qed

section \<open>Starting again\<close>

definition d_wp :: "'a dio \<Rightarrow> (FsError + 'a \<Rightarrow> ControlDir \<Rightarrow> bool) \<Rightarrow> ControlDir \<Rightarrow> bool" where
  "d_wp m Q d \<longleftrightarrow> (case m d of (r, d') \<Rightarrow> Q r d')"

lemma d_wp_rules:
  "d_wp (d_ok x) Q1 d \<longleftrightarrow> Q1 (Inr x) d"
  "d_wp (d_check res) Q2 d \<longleftrightarrow> Q2 (map_err Failed res) d"
  "d_wp (d_files io) Q3 d \<longleftrightarrow> io_wp io (\<lambda>r fs. Q3 r (d\<lparr>cd_fs := fs\<rparr>)) (cd_fs d)"
  "d_wp (d_then m f) Q' d \<longleftrightarrow> d_wp m (\<lambda>r d'. case r of Inl e \<Rightarrow> Q' (Inl e) d' | Inr x \<Rightarrow> d_wp (f x) Q' d') d"
  by (auto simp: d_wp_def d_ok_def d_check_def d_files_def io_wp_def d_then_def io_result_def io_check_def
      split: prod.splits sum.splits)

text \<open>The files a prepared directory holds beside the database.\<close>

definition holds_files :: "StartEnv \<Rightarrow> path \<Rightarrow> SecretKey \<Rightarrow> byte list \<Rightarrow> Fs \<Rightarrow> bool" where
  "holds_files V dir key ca fs \<longleftrightarrow> length (key_bytes key) = SECRET_LENGTH \<and>
     (\<exists>f. fs_files fs (key_path dir) = Some f \<and> f_bytes f = key_bytes key) \<and>
     (\<exists>g h. fs_files fs (relay_ca_key_path dir) = Some g \<and> fs_files fs (relay_ca_cert_path dir) = Some h \<and>
        f_bytes h = ca \<and> se_parse_ca V (f_bytes g) ca = Inr ())"

lemma dir_paths_distinct [simp]:
  "key_path dir \<noteq> control_lock_path dir" "relay_ca_key_path dir \<noteq> control_lock_path dir"
  "relay_ca_cert_path dir \<noteq> control_lock_path dir"
  by (simp_all add: key_path_def relay_ca_key_path_def relay_ca_cert_path_def control_lock_path_def)

lemma holds_files_other:
  "same_except {control_lock_path dir} fs fs' \<Longrightarrow> holds_files V dir key ca fs \<Longrightarrow> holds_files V dir key ca fs'"
  by (simp add: holds_files_def same_except_def)

lemma holds_files_same: "fs_files fs' = fs_files fs \<Longrightarrow> holds_files V dir key ca fs \<Longrightarrow> holds_files V dir key ca fs'"
  by (simp add: holds_files_def)

lemma key_bytes_inverse [simp]: "SecretKey (key_bytes k) = k"
  by (cases k) simp

lemma Database_open_wp:
  "cd_db d = Some db \<Longrightarrow> se_open V \<Longrightarrow> d_wp (Database_open X V) Q d \<longleftrightarrow> Q (Inr db) d"
  by (simp add: Database_open_def d_wp_def d_then_def d_check_def d_files_def io_result_def io_check_def ensure_def)
    (simp add: d_ok_def)

lemma open_exclusive_succeeds:
  assumes "no_faults (se_io V)" "others_idle (se_io V)" "se_open V" "holds_files V dir key ca (cd_fs d)"
    "cd_db d = Some db" "db_load X db = Inr st"
  shows "d_wp (open_exclusive X V dir) (\<lambda>r d'. r = Inr (key, db, st) \<and> holds_files V dir key ca (cd_fs d') \<and> cd_db d' = Some db) d"
proof -
  have held: "\<exists>f. fs_files fs (key_path dir) = Some f \<and> f_bytes f = key_bytes key \<and> length (f_bytes f) = SECRET_LENGTH"
    if "holds_files V dir key ca fs" for fs
    using that by (auto simp: holds_files_def)
  have lock: "io_wp (FileLock_try_acquire (se_io V) (control_lock_path dir))
      (\<lambda>r fs. r = Inr () \<and> holds_files V dir key ca fs) (cd_fs d)"
    unfolding FileLock_try_acquire_def
    by (rule FileLock_open_wp [OF assms(2)]) (use assms(1,4) in \<open>auto intro: holds_files_other\<close>)
  have secret: "io_wp (read_secret (se_io V) (key_path dir)) (\<lambda>r fs'. r = Inr key \<and> holds_files V dir key ca fs') fs"
    if "holds_files V dir key ca fs" for fs
    by (rule read_secret_wp) (use assms(1) held [OF that] that in \<open>auto intro: holds_files_same\<close>)
  show ?thesis
    unfolding open_exclusive_def
    apply (simp add: d_wp_rules)
    apply (rule io_wp_mono [OF lock])
    apply (clarsimp simp: Database_open_wp assms(3,5,6) d_wp_rules)
    apply (rule io_wp_mono [OF secret])
     apply (simp_all add: d_wp_rules assms(5))
    done
qed

lemma load_relay_ca_succeeds:
  assumes "no_faults (se_io V)" "holds_files V dir key ca (cd_fs d)"
  shows "d_wp (load_relay_ca V dir) (\<lambda>r d'. (\<exists>issuer. r = Inr (ca, issuer) \<and> is_cert_der issuer = ca) \<and> cd_db d' = cd_db d) d"
  using assms unfolding load_relay_ca_def
  by (auto simp: d_wp_rules holds_files_def intro!: fs_read_wp)

lemma control_run_succeeds:
  assumes "json_laws X" "dir_holds X st db" "storable st" "no_faults (se_io V)" "others_idle (se_io V)" "se_open V" "se_write V"
    "holds_files V dir key (cs_relay_ca_der st) (cd_fs d)" "cd_db d = Some db"
  obtains s d' where "control_run X V dir d = (Inr s, d')" "st_key s = key" "is_cert_der (st_relay_ca s) = cs_relay_ca_der st"
proof -
  have held: "coherent X db st" "state_ok st" using assms(2) by (simp_all add: dir_holds_def agrees_def)
  obtain st' where load: "db_load X db = Inr st'" using load_succeeds [OF assms(1) held(1) assms(3)] by blast
  note same = load_sound [OF assms(1) held(1) load]
  note ok = same_content_ok [OF same held(2)] same_content_coherent [OF same(1) held(1)] same_content_storable [OF same(1) assms(3)]
  obtain db' where sync: "apply_sync X True st' (retained (se_now V) st') db = Inr db'"
    using apply_sync_retains [OF ok(2,1,3) retained_fields] by blast
  obtain r1 d1 where d1: "open_exclusive X V dir d = (r1, d1)" by fastforce
  have r1: "r1 = Inr (key, db, st')" "holds_files V dir key (cs_relay_ca_der st) (cd_fs d1)" "cd_db d1 = Some db"
    using open_exclusive_succeeds [OF assms(4,5,6,8,9) load] by (simp_all add: d_wp_def d1)
  obtain r2 d2 where d2: "load_relay_ca V dir d1 = (r2, d2)" by fastforce
  obtain issuer where r2: "r2 = Inr (cs_relay_ca_der st', issuer)" "is_cert_der issuer = cs_relay_ca_der st"
    using load_relay_ca_succeeds [OF assms(4) r1(2)] same(1) by (auto simp: d_wp_def d2 same_content_def)
  show thesis
    by (rule that [of "Store_new db' key issuer (retained (se_now V) st')" "d2\<lparr>cd_db := Some db'\<rparr>"])
      (use sync ok(3) assms(7) in \<open>simp_all add: control_run_def d_then_Inr d1 r1(1) d2 r2 storable_def
        Database_apply_sync_Inr Let_def retained_def [symmetric] Store_new_def\<close>)
qed

section \<open>Preparing a network\<close>

definition relay_pending :: "InviteRecord \<Rightarrow> bool" where
  "relay_pending i \<longleftrightarrow> (\<exists>url. inv_kind (i_invite i) = IKRelay url) \<and> i_state i = Pending"

lemma relay_kind_case: "(case k of IKRelay _ \<Rightarrow> True | _ \<Rightarrow> False) \<longleftrightarrow> (\<exists>url. k = IKRelay url)"
  by (cases k) simp_all

lemma bootstrap_invite_cases:
  assumes "bootstrap_invite X V key name url ttl st = Inr (res, later)"
  obtains (invited) i where "relays st = []" "relay_pending i" "inv_name (i_invite i) = name" "inv_kind (i_invite i) = IKRelay url"
      "i_id i = se_invite_id V" "i_request_id i = None" "invite_ok i"
      "later = st\<lparr>invites := filter (\<lambda>i. \<not> relay_pending i) (invites st) @ [i]\<rparr>"
  | (enrolled) r where "r \<in> set (relays st)" "r_name r = name" "r_url r = url" "later = st"
proof (cases "relays st = []")
  case True
  define i where "i expires_at = \<lparr>i_invite = \<lparr>inv_protocol_version = CONTROL_PROTOCOL_VERSION, inv_audience = cs_audience st,
      inv_control_url = cs_public_url st, inv_control_id = id_to_string X (ed_public X key), inv_invite_id = se_invite_id V,
      inv_name = name, inv_kind = IKRelay url, inv_secret_hash = hash_secret X (se_secret V), inv_expires_at = expires_at\<rparr>,
      i_state = Pending, i_claimed_by = None, i_request_id = None, i_managed_by = None, i_request_hash = None,
      i_terminal_at = None\<rparr>" for expires_at
  obtain expires_at where "later = st\<lparr>invites := filter (\<lambda>i. \<not> relay_pending i) (invites st) @ [i expires_at]\<rparr>"
    using assms True
    by (auto simp: bootstrap_invite_def create_invite_with_secret_def build_invite_def Let_def relay_kind_case
        relay_pending_def i_def)
  then show ?thesis
    using True by (intro invited [of "i expires_at"]) (simp_all add: i_def relay_pending_def invite_ok_def)
next
  case False
  then have "list_ex (\<lambda>relay. r_name relay = name \<and> r_url relay = url) (relays st)" "later = st"
    using assms by (auto simp: bootstrap_invite_def)
  then show ?thesis using enrolled unfolding list_ex_iff by blast
qed

lemma bootstrap_state_ok:
  assumes "state_ok st" "request_ids_unique st" "invite_ok i" "i_request_id i = None" "i_id i \<notin> i_id ` set (invites st)"
  shows "state_ok (st\<lparr>invites := filter P (invites st) @ [i]\<rparr>)" "request_ids_unique (st\<lparr>invites := filter P (invites st) @ [i]\<rparr>)"
proof -
  have "keys_distinct i_id (filter P (invites st) @ [i])"
    using assms(1,5) by (auto simp: state_ok_def tables_ok_def invites_ok_def keys_distinct_def distinct_map_filter)
  then show "state_ok (st\<lparr>invites := filter P (invites st) @ [i]\<rparr>)"
    using assms(1,3) unfolding state_ok_def tables_ok_def tables_ok_defs by simp
  show "request_ids_unique (st\<lparr>invites := filter P (invites st) @ [i]\<rparr>)"
    unfolding request_ids_unique_def
  proof (intro ballI impI)
    fix a b
    assume ab: "a \<in> set (invites (st\<lparr>invites := filter P (invites st) @ [i]\<rparr>))" "b \<in> set (invites (st\<lparr>invites := filter P (invites st) @ [i]\<rparr>))"
      "i_request_id a \<noteq> None" "i_request_id a = i_request_id b"
    then have "a \<noteq> i" "b \<noteq> i" using assms(4) by auto
    with ab have "a \<in> set (invites st)" "b \<in> set (invites st)" by simp_all
    with ab(3,4) assms(2) show "i_id a = i_id b" unfolding request_ids_unique_def by blast
  qed
qed

text \<open>Both ways to come by a state.\<close>

lemma prepared_holds:
  assumes "open_prepared X V dir d = (Inr (key, db, st'), d')" "json_laws X" "cd_db d = Some db0" "dir_holds X st db0"
  shows "dir_holds X st' db" "same_content st st'" "cd_db d' = Some db"
proof -
  have run: "db = db0" "db_load X db = Inr st'" "cd_db d' = Some db"
    using assms(1,3) by (auto simp: open_prepared_def d_then_Inr d_files_Inr Database_open_Inr)
  have "coherent X db st" "state_ok st" "request_ids_unique st" using assms(4) run(1) by (simp_all add: dir_holds_def agrees_def)
  with load_sound [OF assms(2) _ run(2)] show "dir_holds X st' db" "same_content st st'"
    by (auto simp: dir_holds_def agrees_def intro: same_content_ok same_content_coherent same_content_request_ids)
  show "cd_db d' = Some db" by (rule run(3))
qed

lemma created_holds:
  assumes "create_prepared X V dir audience url d = (Inr (key, db, st'), d')" "cd_db d = None"
  shows "dir_holds X st' db" "invites st' = []" "relays st' = []" "cd_db d' = Some db"
proof -
  obtain d1 d2 ca issuer where run: "d_files (load_or_create_secret (se_io V) (key_path dir)) d = (Inr key, d1)"
    "load_or_create_relay_ca V dir d1 = (Inr (ca, issuer), d2)" "st' = first_state audience url ca"
    "Database_create X V st' d2 = (Inr db, d')"
    using assms(1) by (auto simp: create_prepared_def d_then_Inr Let_def)
  have "cd_db d2 = None" using d_files_db [OF run(1)] load_or_create_relay_ca_db [OF run(2)] assms(2) by simp
  from Database_create_Inr [OF run(4) this]
  have init: "initialize_sync X (se_write V) st' empty_database = Inr db" "cd_db d' = Some db" by simp_all
  have "coherent X db st'"
    by (rule initialize_sync_coherent [OF init(1)]) (simp_all add: run(3) empty_database_def first_state_ok state_ok_keyed)
  then show "dir_holds X st' db" "invites st' = []" "relays st' = []" "cd_db d' = Some db"
    using init(2) by (simp_all add: dir_holds_def agrees_def run(3) first_state_ok) (simp_all add: first_state_def request_ids_unique_def)
qed

lemma prepare_state_holds:
  assumes "prepare_state X V dir audience url d = (Inr (key, db, st'), d')" "json_laws X"
    "\<forall>db. cd_db d = Some db \<longrightarrow> dir_holds X st db \<and> k \<notin> i_id ` set (invites st)"
  shows "dir_holds X st' db" "k \<notin> i_id ` set (invites st')" "cd_db d' = Some db"
    "cd_db d \<noteq> None \<longrightarrow> same_content st st'" "cd_db d = None \<longrightarrow> relays st' = [] \<and> invites st' = []"
proof -
  have run: "(if cd_db d \<noteq> None then open_prepared X V dir else create_prepared X V dir audience url) d = (Inr (key, db, st'), d')"
    using assms(1) by (auto simp: prepare_state_def Let_def d_then_Inr)
  have "dir_holds X st' db \<and> k \<notin> i_id ` set (invites st') \<and> cd_db d' = Some db \<and>
    (cd_db d \<noteq> None \<longrightarrow> same_content st st') \<and> (cd_db d = None \<longrightarrow> relays st' = [] \<and> invites st' = [])"
  proof (cases "cd_db d")
    case None
    with run created_holds [of X V dir audience url d key db st' d'] show ?thesis by simp
  next
    case (Some db0)
    with run have "open_prepared X V dir d = (Inr (key, db, st'), d')" by simp
    from prepared_holds [OF this assms(2) Some, of st] Some assms(3) show ?thesis by (auto simp: same_content_def)
  qed
  then show "dir_holds X st' db" "k \<notin> i_id ` set (invites st')" "cd_db d' = Some db"
    "cd_db d \<noteq> None \<longrightarrow> same_content st st'" "cd_db d = None \<longrightarrow> relays st' = [] \<and> invites st' = []" by blast+
qed

lemma read_secret_exists:
  assumes "read_secret E p fs = (r, fs')"
  shows "path_exists q fs' = path_exists q fs"
proof -
  have "io_wp (read_secret E p) (\<lambda>r fs'. path_exists q fs' = path_exists q fs) fs"
    unfolding read_secret_def open_file_def read_open_def
    by (auto simp: Let_def path_exists_def split: option.splits)
  then show ?thesis using assms by (rule io_wp_result)
qed

lemma bootstrap_Inr:
  assumes "bootstrap X V dir public_url audience name url ttl out d = (Inr key, d')"
  obtains (already) "path_exists out (cd_fs d')" "cd_db d \<noteq> None" "cd_db d' = cd_db d"
  | (prepared) relay_url purl d1 d2 k db st res later db' where "normalize_relay_url X url = Inr relay_url"
      "cd_db d1 = cd_db d" "prepare_state X V dir audience purl d1 = (Inr (k, db, st), d2)"
      "cs_audience st = audience" "bootstrap_invite X V k name relay_url ttl st = Inr (res, later)"
      "apply_sync X (se_write V) st later db = Inr db'" "cd_db d' = Some db'"
proof -
  obtain relay_url purl d1 where run: "normalize_relay_url X url = Inr relay_url" "normalize_public_url X public_url = Inr purl"
    "d_files (ensure_private_dir (se_io V) dir) d = (Inr (), d1)"
    using assms by (auto simp: bootstrap_def d_then_Inr)
  have db: "cd_db d1 = cd_db d" by (rule d_files_db [OF run(3)])
  show thesis
  proof (cases "prepared_already dir out d1")
    case True
    then have "d_files (read_secret (se_io V) (key_path dir)) d1 = (Inr key, d')"
      using assms run by (simp add: bootstrap_def d_then_Inr)
    then obtain fs where "read_secret (se_io V) (key_path dir) (cd_fs d1) = (Inr key, fs)" "d' = d1\<lparr>cd_fs := fs\<rparr>"
      by (auto simp: d_files_Inr)
    moreover from this(1) have "path_exists out fs = path_exists out (cd_fs d1)" by (rule read_secret_exists)
    ultimately show thesis using already True db by (simp add: prepared_already_def)
  next
    case False
    obtain d2 k dbase st d3 res later db' where rest:
      "d_files (io_context ''control state is already in use; bootstrap must run before as-control run''
         (FileLock_try_acquire (se_io V) (control_lock_path dir))) d1 = (Inr (), d2)"
      "prepare_state X V dir audience purl d2 = (Inr (k, dbase, st), d3)" "cs_audience st = audience"
      "bootstrap_invite X V k name relay_url ttl st = Inr (res, later)"
      "apply_sync X (se_write V) st later dbase = Inr db'"
      "(case res of Some invite \<Rightarrow> write_invitation V out (ir_join_url invite) | None \<Rightarrow> d_ok ())
         (d3\<lparr>cd_db := Some db'\<rparr>) = (Inr (), d')"
      using assms run False by (auto simp: bootstrap_def d_then_Inr Database_apply_sync_Inr)
    have "cd_db d2 = cd_db d" using d_files_db [OF rest(1)] db by simp
    moreover have "cd_db d' = Some db'"
      using rest(6) by (auto simp: d_then_Inr write_invitation_def d_files_Inr split: option.splits)
    ultimately show thesis using prepared [OF run(1) _ rest(2-5)] by simp
  qed
qed

lemma d_wp_more:
  "d_wp (d_look f) Q d \<longleftrightarrow> d_wp (f d) Q d"
  "d_wp (if b then m1 else m2) Q' d \<longleftrightarrow> (if b then d_wp m1 Q' d else d_wp m2 Q' d)"
  "d_wp (Database_apply_sync X V previous later db) Q2 d \<longleftrightarrow> (case apply_sync X (se_write V) previous later db of
      Inl e \<Rightarrow> Q2 (Inl (Failed e)) d | Inr db \<Rightarrow> Q2 (Inr db) (d\<lparr>cd_db := Some db\<rparr>))"
  by (simp_all add: d_wp_def Database_apply_sync_def split: sum.split)

text \<open>Running it again once the relay is enrolled.\<close>

lemma create_dir_all_other:
  assumes "\<not> prefix p dir"
  shows "fs_dirs (create_dir_all m dir fs) p = fs_dirs fs p"
proof -
  have "p \<noteq> take n dir" for n using assms take_is_prefix by blast
  then have "fold (\<lambda>n dirs. let p = take n dir in if dirs p = None then dirs(p \<mapsto> m) else dirs) ns dirs p = dirs p" for ns dirs
    by (induction ns arbitrary: dirs) (simp_all add: Let_def)
  then show ?thesis by (simp add: create_dir_all_def del: upt_Suc)
qed

lemma d_wp_mono: "d_wp m P d \<Longrightarrow> (\<And>r d'. P r d' \<Longrightarrow> Q r d') \<Longrightarrow> d_wp m Q d"
  by (auto simp: d_wp_def)

lemma ensure_private_dir_dirs:
  assumes "no_faults E"
  shows "io_wp (ensure_private_dir E dir) (\<lambda>r fs'. r = Inr () \<and> fs_files fs' = fs_files fs \<and>
    (\<forall>p. \<not> prefix p dir \<longrightarrow> fs_dirs fs' p = fs_dirs fs p)) fs"
  using assms unfolding ensure_private_dir_def
  by (auto simp: Let_def no_faults_def create_dir_all_other)

lemma open_prepared_succeeds:
  assumes "no_faults (se_io V)" "se_open V" "holds_files V dir key ca (cd_fs d)" "cd_db d = Some db" "db_load X db = Inr st"
  shows "d_wp (open_prepared X V dir) (\<lambda>r d'. r = Inr (key, db, st) \<and> cd_db d' = Some db) d"
proof -
  have "io_wp (read_secret (se_io V) (key_path dir)) (\<lambda>r fs'. r = Inr key) (cd_fs d)"
    by (rule read_secret_wp) (use assms(1,3) in \<open>auto simp: holds_files_def\<close>)
  then show ?thesis
    unfolding open_prepared_def d_wp_rules
    by (rule io_wp_mono) (auto simp: Database_open_wp assms(2,4,5) d_wp_rules)
qed

lemma bootstrap_again:
  assumes "json_laws X" "dir_holds X st db" "storable st" "no_faults (se_io V)" "others_idle (se_io V)" "se_open V" "se_write V"
    "holds_files V dir key ca (cd_fs d)" "cd_db d = Some db"
    "fs_files (cd_fs d) out = None" "fs_dirs (cd_fs d) out = None" "\<not> prefix out dir"
    "validate_name name = Inr ()" "trim (cs_audience st) \<noteq> []" "normalize_public_url X public_url = Inr (cs_public_url st)"
    "normalize_relay_url X url = Inr relay_url" "r \<in> set (relays st)" "r_name r = name" "r_url r = relay_url"
  shows "d_wp (bootstrap X V dir public_url (cs_audience st) name url ttl out) (\<lambda>r d'. r = Inr key) d"
proof -
  have held: "coherent X db st" "state_ok st" using assms(2) by (simp_all add: dir_holds_def agrees_def)
  obtain st' where load: "db_load X db = Inr st'" using load_succeeds [OF assms(1) held(1) assms(3)] by blast
  note same = load_sound [OF assms(1) held(1) load]
  note ok = same_content_ok [OF same held(2)] same_content_coherent [OF same(1) held(1)] same_content_storable [OF same(1) assms(3)]
  have "apply_sync X True st' st' db \<noteq> Inl e" for e
    using apply_sync_retains [OF ok(2,1,3), of st' "\<lambda>_. True" "\<lambda>_. True"] by auto
  then obtain db' where sync: "apply_sync X True st' st' db = Inr db'" by (cases "apply_sync X True st' st' db") auto
  have invite: "bootstrap_invite X V key name relay_url ttl st' = Inr (None, st')"
    using assms(17-19) same(1) by (auto simp: bootstrap_invite_def list_ex_iff same_content_def ensure_def)
  have lock: "io_wp (FileLock_try_acquire (se_io V) (control_lock_path dir))
      (\<lambda>r fs'. r = Inr () \<and> holds_files V dir key ca fs') fs" if "holds_files V dir key ca fs" for fs
    unfolding FileLock_try_acquire_def
    by (rule FileLock_open_wp [OF assms(5)]) (use assms(4) that in \<open>auto intro: holds_files_other\<close>)
  have prepare: "d_wp (prepare_state X V dir (cs_audience st) (cs_public_url st)) (\<lambda>r d'. r = Inr (key, db, st') \<and> cd_db d' = Some db) d1"
    if "holds_files V dir key ca (cd_fs d1)" "cd_db d1 = Some db" for d1
  proof -
    have "path_exists (key_path dir) (cd_fs d1)" "path_exists (relay_ca_key_path dir) (cd_fs d1)" "path_exists (relay_ca_cert_path dir) (cd_fs d1)"
      using that(1) by (auto simp: holds_files_def path_exists_def)
    with open_prepared_succeeds [OF assms(4,6) that(1,2) load] that(2) show ?thesis
      by (simp add: prepare_state_def d_wp_more d_wp_rules Let_def ensure_def)
  qed
  have files: "holds_files V dir key ca fs" "\<not> prepared_already dir out (d\<lparr>cd_fs := fs\<rparr>)"
    if "fs_files fs = fs_files (cd_fs d)" "\<forall>p. \<not> prefix p dir \<longrightarrow> fs_dirs fs p = fs_dirs (cd_fs d) p" for fs
    using that assms(8,10-12) by (auto simp: prepared_already_def path_exists_def intro: holds_files_same)
  have rest: "d_wp (d_then (prepare_state X V dir (cs_audience st) (cs_public_url st)) (\<lambda>(key, database, state).
      d_then (d_check (ensure (cs_audience state = cs_audience st) m1)) (\<lambda>_.
      d_then (d_check (ensure (cs_public_url state = cs_public_url st) m2)) (\<lambda>_.
      d_then (d_check (bootstrap_invite X V key name relay_url ttl state)) (\<lambda>(relay_invite, later).
      d_then (Database_apply_sync X V state later database) (\<lambda>_.
      d_then (case relay_invite of Some invite \<Rightarrow> write_invitation V out (ir_join_url invite) | None \<Rightarrow> d_ok ()) (\<lambda>_.
      d_ok key))))))) (\<lambda>r d'. r = Inr key) d1" if "holds_files V dir key ca (cd_fs d1)" "cd_db d1 = Some db" for d1 m1 m2
    unfolding d_wp_rules
    by (rule d_wp_mono [OF prepare [OF that]])
      (use same(1) in \<open>auto simp: d_wp_rules d_wp_more invite sync assms(7) ensure_def same_content_def\<close>)
  show ?thesis
    unfolding bootstrap_def
    apply (simp add: d_wp_rules(2-4) d_wp_more assms(13-16) ensure_def)
    apply (rule io_wp_mono [OF ensure_private_dir_dirs [OF assms(4)]])
    apply (clarsimp simp: files d_wp_more(1))
    apply (subst d_wp_rules(4), subst d_wp_rules(3), simp)
    apply (rule io_wp_mono [OF lock])
     apply (simp add: files)
    apply clarsimp
    apply (rule rest)
     apply (simp_all add: assms(9))
    done
qed

lemma bootstrap_outcome:
  assumes "bootstrap X V dir public_url audience name url ttl out d = (Inr key, d')" "json_laws X"
    "\<forall>db. cd_db d = Some db \<longrightarrow> dir_holds X st db \<and> se_invite_id V \<notin> i_id ` set (invites st)"
  shows "path_exists out (cd_fs d') \<and> cd_db d' = cd_db d \<and> cd_db d \<noteq> None \<or>
   (\<exists>db later relay_url. cd_db d' = Some db \<and> dir_holds X later db \<and> cs_audience later = audience \<and>
    normalize_relay_url X url = Inr relay_url \<and>
    ((\<exists>r \<in> set (relays later). r_name r = name \<and> r_url r = relay_url) \<or>
     (\<exists>i. {i \<in> set (invites later). relay_pending i} = {i} \<and> inv_name (i_invite i) = name \<and>
        inv_kind (i_invite i) = IKRelay relay_url)))"
  using assms(1)
proof (cases rule: bootstrap_Inr)
  case (prepared relay_url purl d1 d2 k db st1 res later db')
  have "dir_holds X st1 db" "se_invite_id V \<notin> i_id ` set (invites st1)"
    using prepare_state_holds [OF prepared(3) assms(2), of st "se_invite_id V"] assms(3) prepared(2) by simp_all
  then have start: "state_ok st1" "coherent X db st1" "request_ids_unique st1" "se_invite_id V \<notin> i_id ` set (invites st1)"
    by (simp_all add: dir_holds_def agrees_def)
  from prepared(5) show ?thesis
  proof (cases rule: bootstrap_invite_cases)
    case (invited i)
    then have ok: "state_ok later" "request_ids_unique later"
      using bootstrap_state_ok [OF start(1,3), of i] start(4) by simp_all
    have "coherent X db' later"
      by (rule apply_sync_coherent [OF prepared(6) start(2)]) (auto intro: state_ok_keyed start(1) ok(1))
    moreover have "{i \<in> set (invites later). relay_pending i} = {i}" using invited(2,8) by auto
    moreover have "cs_audience later = audience" using invited(8) prepared(4) by simp
    ultimately show ?thesis
      using prepared(1,7) invited(3,4) ok by (auto simp: dir_holds_def agrees_def)
  next
    case (enrolled r)
    then have "coherent X db' later"
      using apply_sync_coherent [OF prepared(6) start(2)] state_ok_keyed [OF start(1)] by simp
    then show ?thesis using enrolled start prepared(1,4,7) by (auto simp: dir_holds_def agrees_def)
  qed
qed simp

section \<open>Every outcome\<close>

text \<open>What a preparation or a start leaves in the directory, whether it succeeds or fails: no database, one
  with empty tables (writing the first state failed), or one that holds a consistent state.\<close>

definition db_settled :: "Ext \<Rightarrow> Database option \<Rightarrow> bool" where
  "db_settled X found \<longleftrightarrow> (\<forall>db. found = Some db \<longrightarrow> db = empty_database \<or> (\<exists>st. dir_holds X st db))"

lemma db_settled_None [simp]: "db_settled X None"
  by (simp add: db_settled_def)

text \<open>Steps that leave the database alone.\<close>

definition db_stays :: "'a dio \<Rightarrow> bool" where
  "db_stays m \<longleftrightarrow> (\<forall>d. cd_db (snd (m d)) = cd_db d)"

lemma db_stays_then: "db_stays m \<Longrightarrow> (\<And>x. db_stays (f x)) \<Longrightarrow> db_stays (d_then m f)"
  unfolding db_stays_def d_then_def by (simp split: prod.split sum.split) (metis snd_conv)

lemma db_stays_look: "(\<And>d0. db_stays (f d0)) \<Longrightarrow> db_stays (d_look f)"
  by (simp add: db_stays_def d_look_def)

lemma db_stays_steps:
  "db_stays (d_ok x)" "db_stays (d_files m)" "db_stays (d_check r)" "db_stays (Database_open X V)"
  by (simp_all add: db_stays_def d_ok_def d_files_def d_check_def Database_open_def d_look_def d_then_def
      split: prod.split sum.split)

lemmas db_stays_rules = db_stays_then db_stays_look db_stays_steps

lemma db_stays_ca: "db_stays (load_relay_ca V dir)" "db_stays (load_or_create_relay_ca V dir)"
  unfolding load_or_create_relay_ca_def load_relay_ca_def Let_def split_def
  by (auto intro!: db_stays_rules)

lemma db_stays_open: "db_stays (open_prepared X V dir)" "db_stays (open_exclusive X V dir)" "db_stays (write_invitation V path link)"
  unfolding open_prepared_def open_exclusive_def write_invitation_def
  by (auto intro!: db_stays_rules split: option.split)

lemma wp_stays:
  assumes "db_stays m" "\<And>e d'. cd_db d' = cd_db d \<Longrightarrow> Q (Inl e) d'"
    and "\<And>x d'. m d = (Inr x, d') \<Longrightarrow> cd_db d' = cd_db d \<Longrightarrow> Q (Inr x) d'"
  shows "d_wp m Q d"
proof -
  obtain r d' where run: "m d = (r, d')" by fastforce
  then have "cd_db d' = cd_db d" using assms(1) unfolding db_stays_def by (metis snd_conv)
  with run assms(2,3) show ?thesis by (cases r) (simp_all add: d_wp_def)
qed

lemma wp_stays_then:
  assumes "db_stays m" "\<And>e d'. cd_db d' = cd_db d \<Longrightarrow> Q (Inl e) d'"
    and "\<And>x d'. m d = (Inr x, d') \<Longrightarrow> cd_db d' = cd_db d \<Longrightarrow> d_wp (f x) Q d'"
  shows "d_wp (d_then m f) Q d"
  unfolding d_wp_rules(4) by (rule wp_stays) (use assms in simp_all)

lemma wp_settled: "db_stays m \<Longrightarrow> db_settled X (cd_db d) \<Longrightarrow> d_wp m (\<lambda>r d'. db_settled X (cd_db d')) d"
  by (rule wp_stays) simp_all

lemmas wp_steps = wp_stays_then [OF db_stays_steps(2)] wp_stays_then [OF db_stays_steps(3)]
  wp_stays_then [OF db_stays_look [OF db_stays_steps(3)]] wp_stays_then [OF db_stays_ca(1)]
  wp_stays_then [OF db_stays_ca(2)] wp_stays_then [OF db_stays_open(2)]

lemma empty_database_loads_not: "db_load X empty_database \<noteq> Inr st"
  by (simp add: db_load_def empty_database_def)

lemma Database_create_any:
  assumes "cd_db d = None"
  shows "d_wp (Database_create X V (first_state audience url ca)) (\<lambda>r d'. db_settled X (cd_db d')) d"
  using assms first_state_holds [of X "se_write V" audience url ca]
  by (auto simp: d_wp_def Database_create_def db_settled_def Let_def split: sum.split)

lemma create_prepared_any:
  assumes "cd_db d = None"
  shows "d_wp (create_prepared X V dir audience url) (\<lambda>r d'. db_settled X (cd_db d')) d"
  unfolding create_prepared_def Let_def split_def
proof (intro wp_steps, goal_cases)
  case (3 key d1 ca d2)
  then show ?case
    using d_wp_mono [OF Database_create_any [of d2 X V audience url "fst ca"]] assms
    unfolding d_wp_rules by (auto split: sum.split)
qed (simp_all add: assms db_settled_def)

lemma control_init_any:
  assumes "db_settled X (cd_db d)"
  shows "d_wp (control_init X V dir public_url audience) (\<lambda>r d'. db_settled X (cd_db d')) d"
  unfolding control_init_def split_def
proof (intro wp_steps, goal_cases)
  case (7 u1 d1 url d2 u2 d3 u3 d4 key d5 ca d6)
  then have "cd_db d6 = None" by (auto simp: d_look_def)
  then show ?case
    using d_wp_mono [OF Database_create_any [of d6 X V audience url "fst ca"]]
    unfolding d_wp_rules by (auto split: sum.split)
qed (simp_all add: assms)

lemma prepare_state_any:
  assumes "db_settled X (cd_db d)"
  shows "d_wp (prepare_state X V dir audience url) (\<lambda>r d'. db_settled X (cd_db d')) d"
proof -
  have "d_wp (if cd_db d \<noteq> None then open_prepared X V dir else create_prepared X V dir audience url)
      (\<lambda>r d'. db_settled X (cd_db d')) d1" if "cd_db d1 = cd_db d" for d1
    using that assms create_prepared_any [of d1 X V dir audience url] by (auto intro!: wp_stays [OF db_stays_open(1)])
  then show ?thesis
    unfolding prepare_state_def d_wp_more Let_def
    by (intro wp_steps) (simp_all add: assms)
qed

lemma d_wp_with_run: "d_wp m P d \<Longrightarrow> (\<And>r d'. m d = (r, d') \<Longrightarrow> P r d' \<Longrightarrow> Q r d') \<Longrightarrow> d_wp m Q d"
  by (simp add: d_wp_def split: prod.splits)

lemma prepared_consistent:
  assumes "prepare_state X V dir audience url d = (Inr (key, db, st'), d')" "json_laws X"
    "\<forall>db. cd_db d = Some db \<longrightarrow> db = empty_database \<or> (\<exists>st. dir_holds X st db \<and> k \<notin> i_id ` set (invites st))"
  shows "dir_holds X st' db \<and> k \<notin> i_id ` set (invites st')"
proof (cases "cd_db d")
  case None
  then show ?thesis using prepare_state_holds [OF assms(1,2), of undefined k] by simp
next
  case (Some db0)
  have "open_prepared X V dir d = (Inr (key, db, st'), d')"
    using assms(1) Some by (auto simp: prepare_state_def Let_def d_then_Inr)
  then have "db_load X db0 = Inr st'" using Some by (auto simp: open_prepared_def d_then_Inr d_files_Inr Database_open_Inr)
  then have "db0 \<noteq> empty_database" using empty_database_loads_not by blast
  then obtain st where "dir_holds X st db0" "k \<notin> i_id ` set (invites st)" using assms(3) Some by blast
  then show ?thesis using prepare_state_holds [OF assms(1,2), of st k] Some by simp
qed

lemma bootstrap_synced:
  assumes "dir_holds X st db" "se_invite_id V \<notin> i_id ` set (invites st)"
    "bootstrap_invite X V k name relay_url ttl st = Inr (res, later)" "apply_sync X io st later db = Inr db'"
  shows "dir_holds X later db'"
proof -
  have start: "state_ok st" "coherent X db st" "request_ids_unique st"
    using assms(1) by (simp_all add: dir_holds_def agrees_def)
  have ok: "state_ok later" "request_ids_unique later"
    using assms(3) start bootstrap_state_ok [OF start(1,3)] assms(2) by (auto elim!: bootstrap_invite_cases)
  have "coherent X db' later"
    by (rule apply_sync_coherent [OF assms(4) start(2)]) (auto intro: state_ok_keyed start(1) ok(1))
  with ok show ?thesis by (simp add: dir_holds_def agrees_def)
qed

lemma bootstrap_any:
  assumes "json_laws X" "\<forall>db. cd_db d = Some db \<longrightarrow> db = empty_database \<or>
    (\<exists>st. dir_holds X st db \<and> se_invite_id V \<notin> i_id ` set (invites st))"
  shows "d_wp (bootstrap X V dir public_url audience name url ttl out) (\<lambda>r d'. db_settled X (cd_db d')) d"
proof -
  let ?Q = "\<lambda>r d'. db_settled X (cd_db d')"
  have settled: "db_settled X (cd_db d)" using assms(2) by (auto simp: db_settled_def)
  have rest: "d_wp (d_then (prepare_state X V dir audience purl) (\<lambda>(key, database, state).
      d_then (d_check (ensure (cs_audience state = audience) m1)) (\<lambda>_.
      d_then (d_check (ensure (cs_public_url state = purl) m2)) (\<lambda>_.
      d_then (d_check (bootstrap_invite X V key name relay_url ttl state)) (\<lambda>(relay_invite, later).
      d_then (Database_apply_sync X V state later database) (\<lambda>_.
      d_then (case relay_invite of Some invite \<Rightarrow> write_invitation V out (ir_join_url invite) | None \<Rightarrow> d_ok ()) (\<lambda>_.
      d_ok key))))))) ?Q d1" if same: "cd_db d1 = cd_db d" for d1 purl relay_url m1 m2
    unfolding d_wp_rules(4) [of "prepare_state X V dir audience purl"]
  proof (rule d_wp_with_run [OF prepare_state_any], goal_cases)
    case (2 r d2)
    show ?case
    proof (cases r)
      case (Inr found)
      obtain key db st where found: "found = (key, db, st)" by (cases found)
      note holds = prepared_consistent [OF 2(1) [unfolded Inr found] assms(1) assms(2) [folded same]]
      have after: "d_wp (d_then (Database_apply_sync X V st later db) (\<lambda>_. d_then m (\<lambda>_. d_ok key))) ?Q d3"
        if inv: "bootstrap_invite X V key name relay_url ttl st = Inr (res, later)" and "cd_db d3 = cd_db d2" and stays: "db_stays m"
        for res later d3 and m :: "unit dio"
      proof -
        have m: "db_stays (d_then m (\<lambda>_. d_ok key))" by (intro db_stays_then stays db_stays_steps(1))
        have "db_settled X (Some db')" if sync: "apply_sync X (se_write V) st later db = Inr db'" for db'
          using bootstrap_synced [OF conjunct1 [OF holds] conjunct2 [OF holds] inv sync] by (auto simp: db_settled_def)
        with wp_settled [OF m] that(2) 2(2) show ?thesis
          by (simp add: d_wp_rules(4) [of "Database_apply_sync X V st later db"] d_wp_more(3) split: sum.split)
      qed
      show ?thesis
        unfolding Inr found sum.case prod.case split_def
      proof (intro wp_steps, goal_cases)
        case (4 u1 d3 u2 d4 x d5)
        then show ?case using db_stays_open(3) db_stays_steps(1)
          by (cases x) (auto intro!: after split: option.split)
      qed (use 2(2) in simp_all)
    qed (use 2 in simp)
  qed (use settled same in simp)
  show ?thesis
    unfolding bootstrap_def
  proof (intro wp_stays_then [OF db_stays_steps(2)] wp_stays_then [OF db_stays_steps(3)], goal_cases)
    case (6 u1 d1 u2 d2 purl d3 relay_url d4 u5 d5)
    then have same: "cd_db d5 = cd_db d" by simp
    have lock: "d_wp (d_then (d_files lock_io) (\<lambda>_. m)) ?Q d5" if "\<And>d6. cd_db d6 = cd_db d \<Longrightarrow> d_wp m ?Q d6" for lock_io :: "unit io" and m :: "SecretKey dio"
      by (rule wp_stays_then [OF db_stays_steps(2)]) (use same settled that in simp_all)
    show ?case
      unfolding d_wp_more(1,2)
      by (auto intro!: lock rest wp_settled [OF db_stays_steps(2)] simp: same settled)
  qed (simp_all add: settled)
qed

lemma control_run_failed:
  assumes "control_run X V dir d = (Inl e, d')"
  shows "cd_db d' = cd_db d"
proof -
  have "d_wp (control_run X V dir) (\<lambda>r d'. \<not> is_ok r \<longrightarrow> cd_db d' = cd_db d) d"
    unfolding control_run_def Let_def split_def
  proof (intro wp_steps, goal_cases)
    case (5 x1 d1 x2 d2 x3 d3 x4 d4)
    then show ?case by (simp add: d_wp_rules(1,4) d_wp_more(3) is_ok_iff split: sum.split)
  qed simp_all
  with assms show ?thesis by (simp add: d_wp_def is_ok_iff)
qed

section \<open>A first run that succeeds\<close>

text \<open>The first run, where the certificate authority was provided.\<close>

lemma load_or_create_secret_fresh:
  assumes "others_idle E" "no_faults E" "fs_files fs p = None" "p \<noteq> []"
  shows "io_wp (load_or_create_secret E p) (\<lambda>r fs'. r = Inr (fe_generated E) \<and> same_except {p, lock_path p} fs fs' \<and>
    (\<exists>f. fs_files fs' p = Some f \<and> f_bytes f = key_bytes (fe_generated E))) fs"
  using assms unfolding load_or_create_secret_def FileLock_acquire_def path_parent_def
  by (auto simp: same_except_def intro!: quiet_rules FileLock_open_wp read_secret_wp create_secret_wp)

lemma first_state_written:
  assumes "audience \<noteq> []" "url \<noteq> []" "ca \<noteq> []"
  shows "\<exists>db. initialize_sync X True (first_state audience url ca) empty_database = Inr db"
  using assms by (simp add: initialize_sync_def check_stored_revision_def revocations_covered_def ensure_def
      empty_database_def db_write_metadata_def first_state_def Let_def db_clear_def sqlite_range_def i64_try_from_u64_def
      i64_max_def with_context_def)

lemma control_init_succeeds:
  assumes "no_faults (se_io V)" "others_idle (se_io V)" "se_open V" "se_write V"
    "trim audience \<noteq> []" "normalize_public_url X public_url = Inr url" "url \<noteq> []" "ca \<noteq> []"
    "length (key_bytes (fe_generated (se_io V))) = SECRET_LENGTH" "cd_db d = None"
    "fs_files (cd_fs d) (key_path dir) = None" "fs_dirs (cd_fs d) (key_path dir) = None"
    "fs_files (cd_fs d) (relay_ca_key_path dir) = Some g" "fs_files (cd_fs d) (relay_ca_cert_path dir) = Some h"
    "f_bytes h = ca" "se_parse_ca V (f_bytes g) ca = Inr ()"
  shows "d_wp (control_init X V dir public_url audience) (\<lambda>r d'. r = Inr (fe_generated (se_io V)) \<and>
    (\<exists>db. cd_db d' = Some db \<and> dir_holds X (first_state audience url ca) db) \<and>
    holds_files V dir (fe_generated (se_io V)) ca (cd_fs d')) d"
proof -
  let ?key = "fe_generated (se_io V)"
  have paths: "key_path dir \<noteq> []" "\<not> prefix (key_path dir) dir" "relay_ca_key_path dir \<notin> {key_path dir, lock_path (key_path dir)}"
    "relay_ca_cert_path dir \<notin> {key_path dir, lock_path (key_path dir)}"
    by (auto simp: key_path_def relay_ca_key_path_def relay_ca_cert_path_def lock_path_def prefix_def)
  have audience: "audience \<noteq> []" using assms(5) trim_sublist [of audience] by auto
  have secret: "io_wp (load_or_create_secret (se_io V) (key_path dir)) (\<lambda>r fs'. r = Inr ?key \<and> holds_files V dir ?key ca fs') fs"
    if "fs_files fs = fs_files (cd_fs d)" for fs
    by (rule io_wp_mono [OF load_or_create_secret_fresh [OF assms(2,1)]])
      (use that assms(9,11,13-16) paths in \<open>auto simp: holds_files_def same_except_def\<close>)
  have load_ca: "d_wp (load_relay_ca V dir) (\<lambda>r d'. (\<exists>issuer. r = Inr (ca, issuer)) \<and> cd_db d' = None \<and> holds_files V dir ?key ca (cd_fs d')) d1"
    if "holds_files V dir ?key ca (cd_fs d1)" "cd_db d1 = None" for d1
    using that assms(1) unfolding load_relay_ca_def
    by (auto simp: d_wp_rules holds_files_def intro!: fs_read_wp)
  have ca: "d_wp (load_or_create_relay_ca V dir) (\<lambda>r d'. (\<exists>issuer. r = Inr (ca, issuer)) \<and> cd_db d' = None \<and> holds_files V dir ?key ca (cd_fs d')) d1"
    if "holds_files V dir ?key ca (cd_fs d1)" "cd_db d1 = None" for d1
  proof -
    have "path_exists (relay_ca_key_path dir) (cd_fs d1)" "path_exists (relay_ca_cert_path dir) (cd_fs d1)"
      using that(1) by (auto simp: holds_files_def path_exists_def)
    with load_ca [OF that] show ?thesis by (simp add: load_or_create_relay_ca_def d_wp_more Let_def)
  qed
  obtain db where db: "initialize_sync X True (first_state audience url ca) empty_database = Inr db"
    using first_state_written [OF audience assms(7,8)] by blast
  have create: "d_wp (Database_create X V (first_state audience url ca)) (\<lambda>r d'. (\<exists>db. r = Inr db) \<and>
      (\<exists>db. cd_db d' = Some db \<and> dir_holds X (first_state audience url ca) db) \<and> holds_files V dir ?key ca (cd_fs d')) d1" if "holds_files V dir ?key ca (cd_fs d1)" "cd_db d1 = None" for d1
    using that db first_state_holds [OF db] assms(3,4) by (simp add: d_wp_def Database_create_def)
  show ?thesis
    unfolding control_init_def
    apply (simp add: d_wp_rules d_wp_more assms(5,6) ensure_def)
    apply (rule io_wp_mono [OF ensure_private_dir_dirs [OF assms(1)]])
    apply (clarsimp simp: path_exists_def assms(10-12) paths d_wp_rules(2-4) d_wp_more(1))
    apply (rule io_wp_mono [OF secret], assumption)
    apply (clarsimp simp: d_wp_rules(4))
    apply (rule d_wp_mono [OF ca], simp_all add: assms(10))
    apply (clarsimp simp: d_wp_rules(4))
    apply (rule d_wp_mono [OF create])
      apply (auto simp: d_wp_rules(1))
    done
qed

section \<open>A small state directory\<close>

definition long_key :: SecretKey where "long_key = SecretKey (replicate 32 9)"

definition sample_start :: StartEnv where
  "sample_start = \<lparr>se_io = calm_disk, se_open = True, se_write = True, se_generated_ca = Inr ([5], [6]),
     se_parse_ca = (\<lambda>_ _. Inr ()), se_now = 1000, se_invite_id = ''first'', se_secret = ''s''\<rparr>"

definition sample_dir :: ControlDir where
  "sample_dir = \<lparr>cd_fs = \<lparr>fs_files = [key_path [''state''] \<mapsto> \<lparr>f_bytes = key_bytes long_key, f_mode = 384\<rparr>,
       relay_ca_key_path [''state''] \<mapsto> \<lparr>f_bytes = [5], f_mode = 384\<rparr>,
       relay_ca_cert_path [''state''] \<mapsto> \<lparr>f_bytes = [1], f_mode = 384\<rparr>],
     fs_dirs = Map.empty, fs_calls = 0\<rparr>, cd_db = Some sample_db\<rparr>"

lemma sample_dir_facts:
  "holds_files sample_start [''state''] long_key [1] (cd_fs sample_dir)" "cd_db sample_dir = Some sample_db"
  "fs_files (cd_fs sample_dir) [''invite''] = None" "fs_dirs (cd_fs sample_dir) [''invite''] = None"
  "no_faults (se_io sample_start)" "others_idle (se_io sample_start)" "se_open sample_start" "se_write sample_start"
  "se_invite_id sample_start \<notin> i_id ` set (invites sample_state)"
  by (simp_all add: sample_dir_def sample_start_def holds_files_def long_key_def key_path_def relay_ca_key_path_def
      relay_ca_cert_path_def SECRET_LENGTH_def no_faults_def others_idle_def calm_disk_def sample_state_def pending_def
      sample_invitation_def)

lemma sample_storable: "storable sample_state"
  by (simp add: storable_def sample_state_def STATE_SCHEMA_def i64_max_def pending_def sample_invitation_def
      invite_in_range_def i64_min_def)

lemma sample_dir_holds: "dir_holds ref_ext sample_state sample_db"
  by (simp add: dir_holds_def sample_state_ok sample_db_agrees)

lemma sample_names:
  "validate_name ''relay-1'' = Inr ()" "trim (cs_audience sample_state) \<noteq> []"
  "normalize_public_url ref_ext ''https://control'' = Inr (cs_public_url sample_state)"
  "normalize_relay_url ref_ext ''relay.example'' = Inr ''relay.example''"
proof -
  show "validate_name ''relay-1'' = Inr ()" by code_simp
  have "trim ''prod'' \<noteq> []" by (simp add: trim_visible)
  then show "trim (cs_audience sample_state) \<noteq> []" by (simp add: sample_state_def)
  show "normalize_public_url ref_ext ''https://control'' = Inr (cs_public_url sample_state)"
    by (simp add: normalize_public_url_def ref_ext_def with_context_def ensure_def trim_end_matches_def sample_state_def)
  show "normalize_relay_url ref_ext ''relay.example'' = Inr ''relay.example''"
    by (simp add: normalize_relay_url_def ref_ext_def with_context_def ensure_def)
qed

lemma sample_relay: "relay_one \<in> set (relays sample_state)" "r_name relay_one = ''relay-1''" "r_url relay_one = ''relay.example''"
  by (simp_all add: sample_state_def relay_one_def)

section \<open>Properties\<close>

text \<open>C40: \<open>as-control bootstrap\<close> prepares a network, once or again.  When it succeeds on a directory that was
  empty or held a consistent state, either the invitation file was there already and the database is
  untouched, or the directory holds a consistent state of the configured audience in which the configured
  relay is enrolled or exactly one relay invitation is pending, for the configured relay.\<close>

theorem bootstrap_prepares:
  assumes "bootstrap X V dir public_url audience name url ttl out d = (Inr key, d')" "json_laws X"
    "\<forall>db. cd_db d = Some db \<longrightarrow> dir_holds X st db \<and> se_invite_id V \<notin> i_id ` set (invites st)"
  shows "path_exists out (cd_fs d') \<and> cd_db d' = cd_db d \<and> cd_db d \<noteq> None \<or>
   (\<exists>db later relay_url. cd_db d' = Some db \<and> dir_holds X later db \<and> cs_audience later = audience \<and>
    normalize_relay_url X url = Inr relay_url \<and>
    ((\<exists>r \<in> set (relays later). r_name r = name \<and> r_url r = relay_url) \<or>
     (\<exists>i. {i \<in> set (invites later). relay_pending i} = {i} \<and> inv_name (i_invite i) = name \<and>
        inv_kind (i_invite i) = IKRelay relay_url)))"
  using assms by (rule bootstrap_outcome)

theorem bootstrap_prepares_witness:
  "\<exists>d'. bootstrap ref_ext sample_start [''state''] ''https://control'' ''prod'' ''relay-1'' ''relay.example'' 900
      [''invite''] sample_dir = (Inr long_key, d') \<and>
    (path_exists [''invite''] (cd_fs d') \<and> cd_db d' = cd_db sample_dir \<and> cd_db sample_dir \<noteq> None \<or>
     (\<exists>db later relay_url. cd_db d' = Some db \<and> dir_holds ref_ext later db \<and> cs_audience later = ''prod'' \<and>
      normalize_relay_url ref_ext ''relay.example'' = Inr relay_url \<and>
      ((\<exists>r \<in> set (relays later). r_name r = ''relay-1'' \<and> r_url r = relay_url) \<or>
       (\<exists>i. {i \<in> set (invites later). relay_pending i} = {i} \<and> inv_name (i_invite i) = ''relay-1'' \<and>
          inv_kind (i_invite i) = IKRelay relay_url))))"
proof -
  have "cs_audience sample_state = ''prod''" by (simp add: sample_state_def)
  moreover have "d_wp (bootstrap ref_ext sample_start [''state''] ''https://control'' (cs_audience sample_state) ''relay-1''
      ''relay.example'' 900 [''invite'']) (\<lambda>r d'. r = Inr long_key) sample_dir"
    by (rule bootstrap_again [OF ref_ext_laws(4) sample_dir_holds sample_storable sample_dir_facts(5,6,7,8,1,2,3,4) _
          sample_names(1,2,3,4) sample_relay]) simp
  ultimately obtain d' where "bootstrap ref_ext sample_start [''state''] ''https://control'' ''prod'' ''relay-1'' ''relay.example'' 900
      [''invite''] sample_dir = (Inr long_key, d')" by (auto simp: d_wp_def split: prod.splits)
  moreover from bootstrap_prepares [OF this ref_ext_laws(4), of sample_state] sample_dir_facts(2,9) sample_dir_holds
  show ?thesis using calculation by auto
qed

text \<open>C15: Control comes back as it was.  After any requests, on a disk without faults, a Control started again on
  the same directory loads its database, and begins with the same identity, the same revisions and exactly the
  tables it had, apart from the invitations and revocations past their retention; its store is consistent.\<close>

theorem control_restart:
  assumes "json_laws X" "store_ok X s" "storable (st_state s)"
    "no_faults (se_io V)" "others_idle (se_io V)" "se_open V" "se_write V"
    "holds_files V dir (st_key s) (cs_relay_ca_der (st_state s)) (cd_fs d)" "cd_db d = Some (st_db s)"
  shows "\<exists>s' d'. control_run X V dir d = (Inr s', d') \<and> cd_db d' = Some (st_db s') \<and> store_ok X s' \<and>
    st_key s' = st_key s \<and> same_content (retained (se_now V) (st_state s)) (st_state s')"
proof -
  have holds: "dir_holds X (st_state s) (st_db s)" using assms(2) by (simp add: store_ok_def dir_holds_def)
  obtain s' d' where "control_run X V dir d = (Inr s', d')" "st_key s' = st_key s"
    by (rule control_run_succeeds [OF assms(1) holds assms(3-9)])
  with control_run_Inr [OF this(1) assms(9,1) holds] show ?thesis by blast
qed

theorem control_restart_witness:
  "\<exists>s' d'. control_run ref_ext sample_start [''state''] sample_dir = (Inr s', d') \<and> cd_db d' = Some (st_db s') \<and>
    store_ok ref_ext s' \<and> st_key s' = long_key \<and> same_content (retained 1000 sample_state) (st_state s')"
proof -
  let ?s = "sample_store\<lparr>st_key := long_key\<rparr>"
  have "store_ok ref_ext ?s" using sample_store_ok by (simp add: store_ok_def)
  moreover have "st_state ?s = sample_state" "cs_relay_ca_der sample_state = [1]" "st_db ?s = sample_db" "se_now sample_start = 1000"
    by (simp_all add: sample_store_def sample_state_def sample_start_def)
  ultimately show ?thesis
    using control_restart [OF ref_ext_laws(4), of ?s sample_start "[''state'']" sample_dir] sample_dir_facts sample_storable
    by simp
qed

end
