(* ===== verification/Spec2Isabelle.thy ===== *)
theory Spec2Isabelle
  imports Control_Provisioner Control_Admin Relay_Process Edge_Requests Edge_Control Control_Startup
begin

text \<open>
  \<^bold>\<open>agent-scale\<close> lets clients run commands, move files and reach MCP servers on edges they own.  A central
  \<^emph>\<open>Control\<close> enrols clients, edges and relays by invitation and signs for every node a map of what it may
  trust; \<^emph>\<open>relays\<close> carry the traffic of nodes that show a credential signed by Control; an \<^emph>\<open>edge\<close> serves
  the clients its map allows.  The development models these programs from their sources, every error
  path included, and proves what they promise one another.

  \<^bold>\<open>Reading the model.\<close>  A Rust \<open>Result\<close> is \<open>'e + 'a\<close> with \<open>Inl\<close> the error.  Code outside the repository
  (Ed25519, SHA-256, base64url, JSON text, URLs) is the record \<open>Ext\<close> of \<open>External\<close>, an argument of every
  definition that uses it; what is relied on is named (\<open>sig_laws\<close>, \<open>id_laws\<close>, \<open>json_laws\<close>, \ldots) and holds
  of the concrete \<open>ref_ext\<close>, at which the witnesses are evaluated.  The clock, randomness, the disk, the
  network, child processes and what other tasks do while one waits are further arguments.  Integers carry
  their ranges as predicates where a message or a file limits them; strings are their UTF-8 bytes.

  \<^bold>\<open>Vocabulary.\<close>  \<open>AS_Prelude\<close>: results, integer ranges, byte encodings, and \<open>keyed_table\<close>, the contract of
  a table searched by key, which all tables of Control and the database and the maps of \<open>Hash_Maps\<close> and
  \<open>BTree_Maps\<close> meet.  \<open>Utf8\<close>: when bytes are a string, and trimming.

  \<^bold>\<open>Messages.\<close>  \<open>Control_Api\<close> and \<open>Provisioner_Api\<close> (\<open>crates/control-api\<close>), \<open>Relay_Api\<close> (\<open>crates/relay-api\<close>),
  \<open>Protocol\<close> (\<open>crates/protocol\<close>) and \<open>Node_Docs\<close> (how nodes read what Control sends): every message with
  the bytes that are signed, signing, verification and the text form.  Shown: signed requests verify as
  their signer (\<open>signed_request\<close> proves it once for the messages that share the scheme), tokens,
  credentials and documents survive their text form, and, in this theory over all of them, equal signed
  bytes mean equal content.

  \<^bold>\<open>Control\<close> (\<open>crates/as-control\<close>).
  \<^item> \<open>Control_State\<close>: the six tables, the changes a mutation is made of, the shared checks, signed maps.
  \<^item> \<open>Control_Db\<close>: the statements of \<open>apply_delta_sync\<close> with the constraints of \<open>schema.sql\<close>.
  \<^item> \<open>Control_Db_Sync\<close>: writing and reading a whole state (\<open>initialize_sync\<close>, \<open>apply_sync\<close>, \<open>load\<close>).
  \<^item> \<open>Control_Startup\<close>: \<open>init\<close>, \<open>bootstrap\<close> and \<open>run\<close> up to serving, over a state directory in which any
    call may fail.  A restarted Control serves what it had, and a preparation that fails half-way leaves the
    database absent, empty or consistent.
  \<^item> \<open>Control_Store\<close>: admission queues, the mutation runner, \<open>commit_delta\<close>, the watch registry; the
    Relay CA that signs certificates is part of the store.  Locale \<open>write_through\<close>: memory follows the disk; locale \<open>control_handler\<close>: what a handler built from
    commits keeps.
  \<^item> \<open>Control_Events\<close>: the specification: the invariant \<open>state_ok\<close> of the tables and the mutations
    \<open>control_event\<close> that may ever be committed.
  \<^item> \<open>Control_Handlers\<close>, \<open>Control_Provisioner\<close>, \<open>Control_Watch\<close>, \<open>Control_Admin\<close>: each HTTP handler, the two
    long polls with what other requests do while they wait, credential renewal, the clean-up loop and
    the local administration socket.  A handler is a function \<open>Store \<Rightarrow> result \<times> Store\<close>; its proofs go
    through \<open>op_wp\<close>.  Each is an interpretation of \<open>control_handler\<close>.
  \<^item> \<open>Control_Claims\<close>, \<open>Control_Owner\<close>: who may enrol, what a signed map grants, that an error changes
    nothing, that an invited node does join, a relay with the certificate the CA signs for it, what a
    client may do to its edges.  \<open>Control_Sample\<close> is
    the deployment of the witnesses.

  \<^bold>\<open>Files.\<close>  \<open>Core_Files\<close> (\<open>crates/core\<close>): an operation is a function on a file system in which every call
  may fail, a write may stop half-way, and other processes run while a lock is awaited.  Shown:
  replacement is all or nothing, identities never change.  Locale \<open>json_state\<close> gives each state file
  (revocations, relay and edge profile, MCP registry) its round trip.

  \<^bold>\<open>Relay\<close> (\<open>crates/as-relay\<close>).  \<open>Relay_Server\<close>: admission and the revocation index, a refinement of
  overriding a map.  \<open>Relay_Process\<close>: joining, start-up and polling; a restarted relay admits what it
  admitted.  \<open>Control_Link\<close>: the retry loop around a request, which ends by its deadline.

  \<^bold>\<open>Edge\<close> (\<open>crates/as-edge\<close>, \<open>crates/transport\<close>).
  \<^item> \<open>Transport\<close>: frames on streams that may break anywhere, datagrams, verified downloads.
  \<^item> \<open>Edge_Server\<close>: the authorized clients, their connections and the accept loop as a step relation.
  \<^item> \<open>Edge_Control\<close>: profile, joining, start-up, and the watch that applies signed maps.
  \<^item> \<open>Edge_Registry\<close>: the MCP definitions, a refinement of an atomic map.
  \<^item> \<open>Edge_Session\<close>, \<open>Edge_Proxy\<close>, \<open>Edge_Http\<close>: commands, local MCP servers, proxies and the HTTP bridge,
    as event loops; locale \<open>framed_loop\<close> is the \<open>select!\<close> over frames and a second source.
  \<^item> \<open>Edge_Requests\<close>: \<open>serve_request\<close>, which composes them.  What the children it starts and the blob store
    do to files is a parameter; shown is which requests can change which files.

  \<^bold>\<open>The programs together\<close>, in this theory.  \<open>control_life\<close>: every way a Control can be prepared, started, used,
  stopped and prepared again, failed preparations and starts included; whenever one
  serves, its tables and its database are consistent.  The map that Control answers makes an edge authorize
  exactly the owner in Control's table; an edge removed at Control is admitted by no relay that has taken
  the update Control then sends.

  \<^bold>\<open>Bounds and fuel.\<close>  No definition has fuel.  Loops that follow an environment (retries, polls, watches,
  event loops) recurse over the list of what the environment does, and the theorems hold for every such
  list; \<open>send_control\<close> terminates by its deadline, and decoders by the length of their input.

  \<^bold>\<open>Not modelled.\<close>
  \<^item> \<open>db.rs\<close>, migrations of older schemas and the pragmas of a connection: they are text for SQLite.
  \<^item> \<open>as-control/src/main.rs\<close>, the HTTP router, TLS listeners and the command line around \<open>run\<close>.
  \<^item> \<open>agent-scale\<close>, the client program: argument parsing, the local socket and the daemon's threads.
  \<^item> \<open>service.rs\<close>, \<open>xtask\<close>, \<open>fd-lib\<close>, \<open>rg-lib\<close>, \<open>relay-dev\<close>, \<open>android_dns.rs\<close>: they drive other programs
    or the build and keep no state of their own.
  \<^item> \<open>vendor/iroh\<close>, \<open>vendor/iroh-blobs\<close>: third-party transport; endpoints, connections and verified chunks
    are parameters.
  \<^item> Logging, argument parsing, terminal prompts, and the effects of \<open>rustls\<close>, \<open>rcgen\<close> and \<open>reqwest\<close>
    beyond their results.
\<close>

section \<open>Control over its whole life\<close>

text \<open>What may happen to the store of a running Control: one atomic section of a request, a tick of the
  clean-up loop, or a change of the watch registry.\<close>

inductive control_serves :: "Ext \<Rightarrow> Store \<Rightarrow> Store \<Rightarrow> bool" for X where
  serve_claim: "claim X env claim_request s = (r1, s') \<Longrightarrow> control_serves X s s'"
| serve_edge_invite: "client_edge_invite X env invite_request s = (r2, s') \<Longrightarrow> control_serves X s s'"
| serve_edge_remove: "client_edge_remove X env remove_request s = (r3, s') \<Longrightarrow> control_serves X s s'"
| serve_provisioner: "provisioner_request X env auth body s = (r4, s') \<Longrightarrow> control_serves X s s'"
| serve_admin: "dispatch_local_admin X env (\<lambda>s. s) admin_request s = (r5, s') \<Longrightarrow> control_serves X s s'"
| serve_renewal: "renew_mutation X env node s = (r6, s') \<Longrightarrow> control_serves X s s'"
| serve_port: "validate_qad_port port = Inr () \<Longrightarrow> qad_port_mutation X env node port s = (r7, s') \<Longrightarrow> control_serves X s s'"
| serve_cleanup: "cleanup_tick X env s = (r8, s') \<Longrightarrow> control_serves X s s'"
| serve_registry: "control_serves X s (s\<lparr>st_watches := counts\<rparr>)"

text \<open>A Control begins without a database.  It is prepared by \<open>init\<close> or \<open>bootstrap\<close>, which may fail anywhere
  and be repeated, starts, unless the start fails, serves, and may stop at any moment, keeping what its
  database holds.  A bootstrap draws an invitation id that is not in use.\<close>

datatype ControlPhase = Stopped "Database option" | Running Store

inductive control_life :: "Ext \<Rightarrow> ControlPhase \<Rightarrow> bool" for X where
  life_fresh: "control_life X (Stopped None)"
| life_init: "control_life X (Stopped (cd_db d)) \<Longrightarrow> control_init X V dir public_url audience d = (r1, d') \<Longrightarrow>
    control_life X (Stopped (cd_db d'))"
| life_bootstrap: "control_life X (Stopped (cd_db d)) \<Longrightarrow>
    bootstrap X V dir public_url audience name url ttl out d = (r2, d') \<Longrightarrow>
    \<forall>db. cd_db d = Some db \<longrightarrow> se_invite_id V \<notin> iw_invite_id ` set (db_invitations db) \<Longrightarrow>
    control_life X (Stopped (cd_db d'))"
| life_start: "control_life X (Stopped (cd_db d)) \<Longrightarrow> control_run X V dir d = (Inr s, d') \<Longrightarrow> control_life X (Running s)"
| life_start_failed: "control_life X (Stopped (cd_db d)) \<Longrightarrow> control_run X V dir d = (Inl e, d') \<Longrightarrow>
    control_life X (Stopped (cd_db d'))"
| life_serve: "control_life X (Running s) \<Longrightarrow> control_serves X s s' \<Longrightarrow> control_life X (Running s')"
| life_stop: "control_life X (Running s) \<Longrightarrow> control_life X (Stopped (Some (st_db s)))"

lemma control_serves_ok:
  assumes "control_serves X s s'" "store_ok X s"
  shows "store_ok X s'"
  using assms(1)
proof cases
  case (serve_claim env q r)
  then show ?thesis using claim_handler.keeps_store_ok [OF assms(2)] by blast
next
  case (serve_edge_invite env q r)
  then show ?thesis using edge_invite_handler.keeps_store_ok [OF assms(2)] by blast
next
  case (serve_edge_remove env q r)
  then show ?thesis using edge_remove_handler.keeps_store_ok [OF assms(2)] by blast
next
  case (serve_provisioner env h b r)
  then show ?thesis using provisioner_handler.keeps_store_ok [OF assms(2)] by blast
next
  case (serve_admin env q r)
  then show ?thesis using admin_handler.keeps_store_ok [OF assms(2)] by blast
next
  case (serve_renewal env n r)
  then show ?thesis using renew_handler.keeps_store_ok [OF assms(2)] by blast
next
  case (serve_port p env n r)
  then have "p \<noteq> Some 0" by (simp add: validate_qad_port_def)
  from qad_port_mutation_refines [OF this, of X env n s] serve_port show ?thesis
    using mutates_store_ok [OF assms(2)] by (simp add: op_wp_def)
next
  case (serve_cleanup env r)
  then show ?thesis using cleanup_handler.keeps_store_ok [OF assms(2)] by blast
next
  case (serve_registry counts)
  then show ?thesis using assms(2) by (simp add: store_ok_def)
qed

lemma dir_holds_same_ids:
  assumes "dir_holds X st db"
  shows "iw_invite_id ` set (db_invitations db) = i_id ` set (invites st)"
proof -
  have "erase_owner ` set (db_invitations db) = invitation_row X None ` set (invites st)"
    using assms by (simp add: dir_holds_def agrees_def coherent_def tables_coherent_def)
  then have "iw_invite_id ` erase_owner ` set (db_invitations db) = iw_invite_id ` invitation_row X None ` set (invites st)" by simp
  then show ?thesis by (simp add: image_image)
qed

lemma control_life_holds:
  assumes "control_life X phase" "json_laws X"
  shows "case phase of Stopped found \<Rightarrow> db_settled X found | Running s \<Rightarrow> store_ok X s"
  using assms(1)
proof induction
  case (life_init d V dir public_url audience r d')
  then show ?case using control_init_any [of X d V dir public_url audience] by (simp add: d_wp_def)
next
  case (life_bootstrap d V dir public_url audience name url ttl out r d')
  then have "\<forall>db. cd_db d = Some db \<longrightarrow> db = empty_database \<or>
      (\<exists>st. dir_holds X st db \<and> se_invite_id V \<notin> i_id ` set (invites st))"
    using dir_holds_same_ids by (fastforce simp: db_settled_def)
  from bootstrap_any [OF assms(2) this, of dir public_url audience name url ttl out] life_bootstrap show ?case
    by (simp add: d_wp_def)
next
  case (life_start d V dir s d')
  obtain db st where "cd_db d = Some db" "db_load X db = Inr st"
    using life_start(2) by (auto simp: control_run_def d_then_Inr dest: open_exclusive_Inr)
  moreover from this obtain st' where "dir_holds X st' db"
    using life_start(3) empty_database_loads_not by (fastforce simp: db_settled_def)
  ultimately show ?case using control_run_Inr(1) [OF life_start(2) _ assms(2)] by simp
next
  case (life_start_failed d V dir e d')
  then show ?case using control_run_failed [OF life_start_failed(2)] by simp
next
  case (life_serve s s')
  then show ?case using control_serves_ok by simp
next
  case (life_stop s)
  then show ?case by (auto simp: store_ok_def dir_holds_def db_settled_def)
qed simp

text \<open>A directory with a Relay CA but neither key nor database.\<close>

definition fresh_dir :: ControlDir where
  "fresh_dir = \<lparr>cd_fs = \<lparr>fs_files = [relay_ca_key_path [''state''] \<mapsto> \<lparr>f_bytes = [5], f_mode = 384\<rparr>,
       relay_ca_cert_path [''state''] \<mapsto> \<lparr>f_bytes = [1], f_mode = 384\<rparr>],
     fs_dirs = Map.empty, fs_calls = 0\<rparr>, cd_db = None\<rparr>"

lemma fresh_life:
  obtains s where "control_life ref_ext (Running s)" "st_key s = fe_generated calm_disk"
proof -
  let ?key = "fe_generated calm_disk" and ?V = "sample_start" and ?st = "first_state ''prod'' ''https://control'' [1]"
  have V: "se_io ?V = calm_disk" by (simp add: sample_start_def)
  have url: "trim ''prod'' \<noteq> []" "normalize_public_url ref_ext ''https://control'' = Inr ''https://control''"
    using sample_names(2,3) by (simp_all add: sample_state_def)
  have files: "fs_files (cd_fs fresh_dir) (key_path [''state'']) = None" "fs_dirs (cd_fs fresh_dir) (key_path [''state'']) = None"
    "fs_files (cd_fs fresh_dir) (relay_ca_key_path [''state'']) = Some \<lparr>f_bytes = [5], f_mode = 384\<rparr>"
    "fs_files (cd_fs fresh_dir) (relay_ca_cert_path [''state'']) = Some \<lparr>f_bytes = [1], f_mode = 384\<rparr>" "cd_db fresh_dir = None"
    by (simp_all add: fresh_dir_def key_path_def relay_ca_key_path_def relay_ca_cert_path_def)
  have "d_wp (control_init ref_ext ?V [''state''] ''https://control'' ''prod'') (\<lambda>r d'. r = Inr ?key \<and>
      (\<exists>db. cd_db d' = Some db \<and> dir_holds ref_ext ?st db) \<and> holds_files ?V [''state''] ?key [1] (cd_fs d')) fresh_dir"
    using control_init_succeeds [OF sample_dir_facts(5-8) url, of "[1]" fresh_dir "[''state'']", OF _ _ _ files(5,1-4)]
    by (simp add: V) (simp add: sample_start_def calm_disk_def SECRET_LENGTH_def)
  then obtain d db where d: "control_init ref_ext ?V [''state''] ''https://control'' ''prod'' fresh_dir = (Inr ?key, d)"
    "cd_db d = Some db" "dir_holds ref_ext ?st db" "holds_files ?V [''state''] ?key [1] (cd_fs d)"
    by (auto simp: d_wp_def split: prod.splits)
  have "storable ?st" "cs_relay_ca_der ?st = [1]" by (simp_all add: storable_def first_state_def i64_max_def)
  then obtain s d' where "control_run ref_ext ?V [''state''] d = (Inr s, d')" "st_key s = ?key"
    using control_run_succeeds [OF ref_ext_laws(4) d(3) _ sample_dir_facts(5-8) _ d(2)] d(4) by (metis (no_types, lifting))
  moreover have "control_life ref_ext (Stopped (cd_db d))"
    using life_init [OF _ d(1)] life_fresh [of ref_ext] files(5) by simp
  ultimately show thesis using that life_start by blast
qed

text \<open>C10: Control never leaves its types.  In whatever way a Control was prepared, whatever requests, local
  commands, renewals and clean-ups it has served since, also across failed commits, restarts, failed
  preparations and starts, and repeated bootstraps, its tables are well formed and its database holds the
  same content.\<close>

theorem control_always_consistent:
  assumes "control_life X (Running s)" "json_laws X"
  shows "state_ok (st_state s) \<and> agrees X (st_db s) (st_state s)"
  using control_life_holds [OF assms] by (simp add: store_ok_def)

theorem control_always_consistent_witness:
  "\<exists>s. control_life ref_ext (Running s) \<and> st_key s = fe_generated calm_disk \<and>
    state_ok (st_state s) \<and> agrees ref_ext (st_db s) (st_state s)"
proof -
  obtain s where "control_life ref_ext (Running s)" "st_key s = fe_generated calm_disk" by (rule fresh_life)
  with control_always_consistent [OF this(1) ref_ext_laws(4)] show ?thesis by blast
qed

section \<open>What signatures cover\<close>

text \<open>C20: The signed bytes of every message determine its content.  Two edge invitation,
  edge removal, status or watch requests with equal signed bytes agree on every field
  but the signature; claims, invitations, node maps, Relay credentials and revocation updates with equal
  signed bytes are equal.  Two provisioner requests whose signed bytes are equal are equal, or their bodies
  are a collision of SHA-256.  An altered message is therefore never covered by the original signature's
  bytes.\<close>

theorem signed_bytes_cover_content:
  assumes "json_laws X"
  shows "(EdgeInviteRequest_signing_bytes X a = EdgeInviteRequest_signing_bytes X a' \<longrightarrow>
        a\<lparr>eir_signature := s\<rparr> = a'\<lparr>eir_signature := s\<rparr>) \<and>
     (EdgeRemoveRequest_signing_bytes X b = EdgeRemoveRequest_signing_bytes X b' \<longrightarrow>
        b\<lparr>err_signature := s\<rparr> = b'\<lparr>err_signature := s\<rparr>) \<and>
     (StatusRequest_signing_bytes X c = StatusRequest_signing_bytes X c' \<longrightarrow>
        c\<lparr>sr_signature := s\<rparr> = c'\<lparr>sr_signature := s\<rparr>) \<and>
     (WatchRequest_signing_bytes X d = WatchRequest_signing_bytes X d' \<longrightarrow>
        d\<lparr>wr_signature := s\<rparr> = d'\<lparr>wr_signature := s\<rparr>) \<and>
     (domain_bytes X CLAIM_DOMAIN (Claim_json e) = domain_bytes X CLAIM_DOMAIN (Claim_json e') \<longrightarrow> e = e') \<and>
     (domain_bytes X INVITE_DOMAIN (Invite_json f) = domain_bytes X INVITE_DOMAIN (Invite_json f') \<longrightarrow> f = f') \<and>
     (domain_bytes X MAP_DOMAIN (NodeMap_json g) = domain_bytes X MAP_DOMAIN (NodeMap_json g') \<longrightarrow> g = g') \<and>
     (RelayCredential_canonical_bytes X h = RelayCredential_canonical_bytes X h' \<longrightarrow> h = h') \<and>
     (RevocationUpdate_canonical_bytes X k = RevocationUpdate_canonical_bytes X k' \<longrightarrow> k = k') \<and>
     (provisioner_signing_bytes X (ph_body (ProvisionerHttpRequest_new X p key)) =
        provisioner_signing_bytes X (ph_body (ProvisionerHttpRequest_new X p' key)) \<longrightarrow> p = p' \<or>
        ph_body (ProvisionerHttpRequest_new X p key) \<noteq> ph_body (ProvisionerHttpRequest_new X p' key) \<and>
        sha256 X (ph_body (ProvisionerHttpRequest_new X p key)) = sha256 X (ph_body (ProvisionerHttpRequest_new X p' key)))"
proof -
  have "p = p' \<or> ph_body (ProvisionerHttpRequest_new X p key) \<noteq> ph_body (ProvisionerHttpRequest_new X p' key) \<and>
      sha256 X (ph_body (ProvisionerHttpRequest_new X p key)) = sha256 X (ph_body (ProvisionerHttpRequest_new X p' key))"
    if "provisioner_signing_bytes X (ph_body (ProvisionerHttpRequest_new X p key)) =
      provisioner_signing_bytes X (ph_body (ProvisionerHttpRequest_new X p' key))"
    using that assms by (simp add: provisioner_signing_bytes_def ProvisionerHttpRequest_new_def Let_def json_to_vec_inject)
  then show ?thesis
    unfolding relay_bytes_cover [OF assms] domain_bytes_inject [OF assms]
    by (intro conjI impI request_bytes_cover [OF assms]) simp_all
qed

theorem signed_bytes_cover_content_witness:
  "RelayCredential_canonical_bytes ref_ext sample_credential \<noteq>
     RelayCredential_canonical_bytes ref_ext (sample_credential\<lparr>rc_generation := 8\<rparr>)"
  using signed_bytes_cover_content [where X = ref_ext and h = sample_credential and h' = "sample_credential\<lparr>rc_generation := 8\<rparr>"]
  by (simp add: sample_credential_def)

section \<open>From Control to an edge\<close>

text \<open>The HTTP answer that carries a map.\<close>

definition map_response :: "Ext \<Rightarrow> SignedNodeMap \<Rightarrow> Control_Link.HttpResponse" where
  "map_response X m = \<lparr>h_status = 200, h_retry_after = None, h_body = json_to_vec X (SignedNodeMap_json X m)\<rparr>"

lemma signed_map_of_edge:
  assumes "sig_laws X" "id_laws X" "signed_map X st key now n = Inr m" "state_ok st"
    "e \<in> set (edges st)" "e_endpoint_id e = id_to_string X n"
  shows "SignedNodeMap_verify X m (ed_public X key) n = Inr ()" "nm_allowed_clients (snm_map m) = [e_owner_id e]"
    "nm_audience (snm_map m) = cs_audience st" "nm_control_url (snm_map m) = cs_public_url st"
    "nm_revision (snm_map m) = revision st" "\<exists>t. nm_relay_credential (snm_map m) = Some t"
    "ri_url ` set (nm_relays (snm_map m)) = r_url ` set (relays st)"
proof -
  have e: "find_by e_endpoint_id (id_to_string X n) (edges st) = Some e"
    using assms(4-6) by (auto simp: state_ok_def find_by_Some_iff dest: tables_ok_distinct)
  obtain cred allowed infos where v: "node_view X st key n = Inr (cred, allowed, infos)"
    using assms(3) by (auto simp: signed_map_def)
  note view = node_view_edge [OF e v]
  show "SignedNodeMap_verify X m (ed_public X key) n = Inr ()" "nm_allowed_clients (snm_map m) = [e_owner_id e]"
    "nm_audience (snm_map m) = cs_audience st" "nm_control_url (snm_map m) = cs_public_url st"
    "nm_revision (snm_map m) = revision st" "\<exists>t. nm_relay_credential (snm_map m) = Some t"
    "ri_url ` set (nm_relays (snm_map m)) = r_url ` set (relays st)"
    using assms(1-3) view
    by (auto simp: signed_map_def v SignedNodeMap_sign_verify) (auto simp: SignedNodeMap_sign_def image_image)
qed

lemma insert_relays_accepts:
  "\<forall>(value, x) \<in> set rs. \<exists>u. relay_url_parse X value = Inr u \<Longrightarrow>
   \<exists>endpoint'. insert_relays X current rs endpoint = (Inr (), endpoint')"
  by (induction X current rs endpoint rule: insert_relays.induct) (auto split: sum.splits)

lemma map_relays_urls: "fst ` set (map_relays credential m) = ri_url ` set (nm_relays m)"
  by (simp add: map_relays_def hash_keys_collect image_image)

lemma apply_control_map_accepts:
  assumes "nm_relay_credential (snm_map m) = Some t" "\<forall>url \<in> ri_url ` set (nm_relays (snm_map m)). \<exists>u. relay_url_parse X url = Inr u"
    "map (id_parse X) (nm_allowed_clients (snm_map m)) = map Inr ids" "cp_auth (ew_pin w) = Managed old"
  shows "\<exists>w'. apply_control_map X m w = (Inr (), w') \<and> cp_auth (ew_pin w') = Managed (set ids) \<and> ew_profile w' = ew_profile w"
proof -
  have "\<forall>(value, x) \<in> set (map_relays t (snm_map m)). \<exists>u. relay_url_parse X value = Inr u"
    using assms(2) unfolding map_relays_urls [of t, symmetric] by auto
  then obtain endpoint where ins: "insert_relays X (ew_current w) (map_relays t (snm_map m)) (ew_endpoint w) = (Inr (), endpoint)"
    using insert_relays_accepts by blast
  have "parse_clients X ''invalid allowed client: '' (snm_map m) = Inr (set ids)" using assms(3) by (auto simp: parse_clients_Inr)
  moreover obtain pin where "replace_managed (set ids) (ew_pin w) = (Inr (), pin)" "cp_auth pin = Managed (set ids)"
    using replace_managed_auth [OF assms(4), of "set ids"] by (metis surj_pair)
  ultimately show ?thesis by (simp add: apply_control_map_def assms(1) ins Let_def)
qed

text \<open>C12: Control decides who may use an edge.  When Control answers a watching edge with a map, the edge, on
  receiving those bytes, applies that map, and from then on authorizes exactly the client that
  Control's table names as the owner of the edge.\<close>

theorem control_decides_edge_access:
  assumes "sig_laws X" "id_laws X" "json_laws X"
    "state_ok (st_state s)" "map_reply X env node s = (Inr (Some m), s')" "node_map_in_range (snm_map m)"
    "e \<in> set (edges (st_state s))" "e_endpoint_id e = id_to_string X node" "id_parse X (e_owner_id e) = Inr owner"
    "\<forall>r \<in> set (relays (st_state s)). \<exists>u. relay_url_parse X (r_url r) = Inr u"
    "cp_auth (ew_pin w) = Managed old" "eg_audience (ew_profile w) = cs_audience (st_state s)"
    "eg_control_url (ew_profile w) = cs_public_url (st_state s)"
    "nm_revision (snm_map (eg_map (ew_profile w))) \<le> revision (st_state s)"
  shows "\<exists>w'. watch_answer X E path (ed_public X (st_key s)) node (Inr (map_response X m)) w = (WatchAgain, w') \<and>
    cp_auth (ew_pin w') = Managed {owner} \<and> eg_map (ew_profile w') = m"
proof -
  have m: "signed_map X (st_state s) (st_key s) (env_later env) node = Inr m"
    using assms(5) by (auto simp: map_reply_def op_lock_def op_check_def op_ok_def map_err_Inr split: sum.splits)
  note signed = signed_map_of_edge [OF assms(1,2) m assms(4,7,8)]
  have "valid_next X (ed_public X (st_key s)) node (ew_profile w) m = Inr ()"
    using signed assms(12-14) by (simp add: valid_next_def ensure_def)
  moreover obtain t where "nm_relay_credential (snm_map m) = Some t" using signed(6) by blast
  then obtain w1 where w1: "apply_control_map X m w = (Inr (), w1)" "cp_auth (ew_pin w1) = Managed {owner}" "ew_profile w1 = ew_profile w"
    using apply_control_map_accepts [of m t X "[owner]" w old] signed(2,7) assms(9-11) by auto
  ultimately show ?thesis
    using assms(3,6)
    by (auto simp: watch_answer_def map_response_def is_success_def json_laws_def SignedNodeMap_round_trip [OF assms(3)]
        Let_def split: prod.split)
qed

definition box_watching :: EdgeWatch where
  "box_watching = \<lparr>ew_profile = box_profile\<lparr>eg_audience := ''prod'', eg_control_url := ''https://control''\<rparr>,
     ew_pin = pin_managed {}, ew_endpoint = [], ew_current = [], ew_fs = box_fs\<rparr>"

theorem control_decides_edge_access_witness:
  "\<exists>m w'. map_reply ref_ext sample_env (ed_public ref_ext box_key) sample_store = (Inr (Some m), sample_store) \<and>
    watch_answer ref_ext calm_disk state_path (ed_public ref_ext control_key) (ed_public ref_ext box_key)
      (Inr (map_response ref_ext m)) box_watching = (WatchAgain, w') \<and>
    cp_auth (ew_pin w') = Managed {ed_public ref_ext alice_key}"
proof -
  let ?node = "ed_public ref_ext box_key"
  have ids: "id_to_string ref_ext ?node = ''xac''" "id_parse ref_ext ''xab'' = Inr (ed_public ref_ext alice_key)"
    using key_ids(3,4) id_parse_to_string [of ref_ext "ed_public ref_ext alice_key"] by (simp_all add: key_id_def)
  obtain m where m: "signed_map ref_ext sample_state control_key 1000 ?node = Inr m"
    using signed_map_succeeds [OF _ sample_state_ok, of ref_ext ?node]
    by (auto simp: node_registered_def ids sample_state_def box_def)
  then have reply: "map_reply ref_ext sample_env ?node sample_store = (Inr (Some m), sample_store)"
    by (simp add: map_reply_def op_lock_def op_check_def op_ok_def sample_bounds)
  have "node_map_in_range (snm_map m)"
    using m by (auto simp: signed_map_def node_map_in_range_def SignedNodeMap_sign_def sample_state_def relay_one_def
        CONTROL_PROTOCOL_VERSION_def i64_range_def i64_min_def i64_max_def relay_info_in_range_def)
  moreover have "box \<in> set (edges sample_state)" "\<forall>r \<in> set (relays sample_state). \<exists>u. relay_url_parse ref_ext (r_url r) = Inr u"
    "cp_auth (ew_pin box_watching) = Managed {}" "eg_audience (ew_profile box_watching) = cs_audience sample_state"
    "eg_control_url (ew_profile box_watching) = cs_public_url sample_state" "e_endpoint_id box = ''xac''" "e_owner_id box = ''xab''"
    "nm_revision (snm_map (eg_map (ew_profile box_watching))) \<le> revision sample_state"
    by (simp_all add: sample_state_def relay_one_def box_def box_watching_def box_profile_def box_map_def pin_managed_def
        SignedNodeMap_sign_def ref_ext_def)
  ultimately show ?thesis
    using control_decides_edge_access [OF ref_ext_laws(1,2,4), of sample_store sample_env ?node m sample_store box
        "ed_public ref_ext alice_key" box_watching "{}" calm_disk state_path] reply sample_state_ok ids
    by (simp add: sample_bounds) blast
qed

section \<open>From Control to a relay\<close>

lemma index_denies:
  assumes "index_of st i = Some (g, x)" "SignedRelayCredential_decode X token = Inr c"
    "rc_generation (src_credential c) \<le> g" "rc_expires_at (src_credential c) \<le> x"
  shows "on_connect X st i (Some token) now \<noteq> Allow"
  using assms by (auto simp: on_connect_def validate_credential_def index_of_def revoked_through_def ensure_def Let_def
      split: sum.splits if_splits)

lemma reply_brings_revocation:
  assumes "sig_laws X" "revocation_reply X env relay known s = (Inr (Some u), s')"
    "r \<in> set (revocations (st_state s))" "known < rv_revision r"
  shows "ru_version (sru_update u) = relay_revision (st_state s)"
    "\<exists>v \<in> set (ru_revocations (sru_update u)). rvk_endpoint_id v = rv_endpoint_id r \<and>
       revocation_entry v = (rv_generation r, rv_expires_at r)"
proof -
  have "SignedRevocationUpdate_sign X (revocation_update (st_state s) known (env_later env)) (st_key s) = Inr u"
    using assms(2) by (auto simp: revocation_reply_def op_lock_def op_check_def op_ok_def split: sum.splits)
  with SignedRevocationUpdate_sign_verify [OF assms(1) this] assms(3,4)
  show "ru_version (sru_update u) = relay_revision (st_state s)"
    "\<exists>v \<in> set (ru_revocations (sru_update u)). rvk_endpoint_id v = rv_endpoint_id r \<and>
       revocation_entry v = (rv_generation r, rv_expires_at r)"
    by (auto simp: revocation_update_def revocation_entry_def)
qed

lemma update_enters_index:
  assumes "relay_ok X st" "apply_revocation_update X env u st = (Inr report, st')" "update_in_range (sru_update u)"
    "pretty_laws X" "ru_version (ra_current st) < ru_version (sru_update u)"
    "v \<in> set (ru_revocations (sru_update u))" "id_parse X (rvk_endpoint_id v) = Inr i"
  shows "index_of st' i = Some (revocation_entry v)"
  using assms(1-4)
proof (cases rule: apply_update_cases)
  case (extended fs idx delta merged)
  have "index_of st' = live (re_later env) (index_of st) ++ (\<lambda>i. hash_get i delta)"
    by (rule extended_index [OF assms(1) extended(3,5,6)]) (simp_all add: extended(7))
  moreover have "hash_get i delta = Some (revocation_entry v)"
    unfolding validate_revocations_index(2) [OF extended(5)] using assms(6,7) by (auto simp: revokes_def)
  ultimately show ?thesis by simp
qed (use assms(5) in simp_all)

lemma relay_learns_of_box:
  assumes "st_key s = control_key" "st_state s = sample_state\<lparr>edges := [], revocations := [\<lparr>rv_endpoint_id = ''xac'',
      rv_generation = 4, rv_expires_at = 605700, rv_revision = 3\<rparr>], revision := 6, relay_revision := 3\<rparr>"
  obtains u report st' where
    "revocation_reply ref_ext sample_env (ed_public ref_ext relay_key) (ru_version (ra_current sample_relay)) s = (Inr (Some u), s)"
    "update_in_range (sru_update u)" "apply_revocation_update ref_ext relay_env u sample_relay = (Inr report, st')"
proof -
  let ?known = "ru_version (ra_current sample_relay)"
  let ?up = "revocation_update (st_state s) ?known 1000"
  have known: "?known \<le> 1" by (simp add: sample_relay_def initial_revocations_def)
  have valid: "RevocationUpdate_validate ref_ext ?up = Inr ()"
    "validate_revocations ref_ext ?up ''prod'' = Inr [(ed_public ref_ext box_key, (4, 605700))]"
    using known by (simp_all add: validate_revocations_def RevocationUpdate_validate_def relay_ensure_protocol_version_def
        revocation_update_def assms sample_state_def RevocationUpdate_entries_def collect_results_Inr sample_ids
        hash_collect_def hash_insert_def)
  then obtain u where u: "SignedRevocationUpdate_sign ref_ext ?up control_key = Inr u"
    by (simp add: SignedRevocationUpdate_sign_def)
  note signed = SignedRevocationUpdate_sign_verify [OF ref_ext_laws(1) u]
  have reply: "revocation_reply ref_ext sample_env (ed_public ref_ext relay_key) ?known s = (Inr (Some u), s)"
    using u by (simp add: revocation_reply_def op_lock_def op_check_def op_ok_def anyhow_relay_exists_def ensure_def
        sample_ids assms sample_bounds sample_state_def relay_one_def)
  have range: "update_in_range (sru_update u)"
    using signed by (simp add: update_in_range_def revocation_update_def assms sample_state_def i64_range_def
        RELAY_PROTOCOL_VERSION_def i64_min_def i64_max_def revocation_in_range_def)
  have "ra_authority_id sample_relay = ed_public ref_ext control_key" "ra_audience sample_relay = ''prod''"
    by (simp_all add: sample_relay_def authority_key_def control_key_def)
  then obtain st' where "apply_revocation_update ref_ext relay_env u sample_relay = (Inr (relay_status ref_ext st'), st')"
    using apply_update_accepts [OF sample_relay_ok, of relay_env u "[(ed_public ref_ext box_key, (4, 605700))]"] signed valid(2) known
    by (simp add: relay_env_def revocation_update_def assms i64_saturating_sub_def i64_min_def i64_max_def
        RELAY_CLOCK_SKEW_SECS_def index_of_def sample_relay_def) blast
  with reply range show thesis using that by blast
qed

text \<open>C11: A removed edge is cut off.  After a client has removed an edge, a relay that was no further than
  Control and takes the update Control then answers admits the removed identity with no credential of
  the removed generation or an earlier one that Control dated up to the edge's expiry, at any time.\<close>

theorem removed_edge_is_cut_off:
  assumes "sig_laws X" "pretty_laws X" "store_ok X s"
    "client_edge_remove X env q s = (r, s1)" "s1 \<noteq> s" "id_parse X (err_endpoint_id q) = Inr node"
    "relay_ok X st" "ru_version (ra_current st) \<le> relay_revision (st_state s)"
    "revocation_reply X env' relay (ru_version (ra_current st)) s1 = (Inr (Some u), s2)" "update_in_range (sru_update u)"
    "apply_revocation_update X renv u st = (Inr report, st')"
  shows "\<exists>e \<in> set (edges (st_state s)). e_endpoint_id e = err_endpoint_id q \<and>
    (\<forall>token c now. SignedRelayCredential_decode X token = Inr c \<and> rc_generation (src_credential c) \<le> e_generation e \<and>
       rc_expires_at (src_credential c) \<le> e_expires_at e \<longrightarrow> on_connect X st' node (Some token) now \<noteq> Allow)"
proof -
  from client_edge_remove_outcome [OF assms(3), of env q] assms(4,5)
  obtain e where e: "e \<in> set (edges (st_state s))" "e_endpoint_id e = err_endpoint_id q" "removes_edge e (st_state s) (st_state s1)"
    by (auto simp: op_wp_def)
  then obtain v where v: "v \<in> set (revocations (st_state s1))" "rv_endpoint_id v = err_endpoint_id q"
    "e_generation e \<le> rv_generation v" "e_expires_at e \<le> rv_expires_at v" "rv_revision v = relay_revision (st_state s1)"
    and newer: "ru_version (ra_current st) < relay_revision (st_state s1)"
    using assms(8) by (auto simp: removes_edge_def)
  note sent = reply_brings_revocation [OF assms(1,9) v(1), unfolded v(5), OF newer]
  then obtain x where x: "x \<in> set (ru_revocations (sru_update u))" "rvk_endpoint_id x = err_endpoint_id q"
    "revocation_entry x = (rv_generation v, rv_expires_at v)" using v(2) by auto
  have "index_of st' node = Some (rv_generation v, rv_expires_at v)"
    using update_enters_index [OF assms(7,11,10,2) _ x(1)] newer sent(1) x(2,3) assms(6) by simp
  then show ?thesis using e(1,2) v(3,4) by (intro bexI conjI) (auto dest: index_denies)
qed

theorem removed_edge_is_cut_off_witness:
  "\<exists>q s1 u report st'. EdgeRemoveRequest_sign ref_ext alice_key ''prod'' ''n'' 1000 ''box'' ''xac'' = Inr q \<and>
    snd (client_edge_remove ref_ext sample_env q sample_store) = s1 \<and>
    revocation_reply ref_ext sample_env (ed_public ref_ext relay_key) (ru_version (ra_current sample_relay)) s1 = (Inr (Some u), s1) \<and>
    apply_revocation_update ref_ext relay_env u sample_relay = (Inr report, st') \<and>
    (\<forall>token c now. SignedRelayCredential_decode ref_ext token = Inr c \<and> rc_generation (src_credential c) \<le> 4 \<and>
       rc_expires_at (src_credential c) \<le> 605700 \<longrightarrow> on_connect ref_ext st' (ed_public ref_ext box_key) (Some token) now \<noteq> Allow)"
proof -
  obtain q s1 where q: "EdgeRemoveRequest_sign ref_ext alice_key ''prod'' ''n'' 1000 ''box'' ''xac'' = Inr q"
    "snd (client_edge_remove ref_ext sample_env q sample_store) = s1" "st_key s1 = control_key"
    "st_state s1 = sample_state\<lparr>edges := [], revocations := [\<lparr>rv_endpoint_id = ''xac'', rv_generation = 4,
      rv_expires_at = 605700, rv_revision = 3\<rparr>], revision := 6, relay_revision := 3\<rparr>"
    using alice_removes_box by blast
  obtain r where run: "client_edge_remove ref_ext sample_env q sample_store = (r, s1)" using q(2) by (metis prod.collapse)
  have changed: "s1 \<noteq> sample_store" using q(4) by (auto simp: sample_store_def sample_state_def)
  have box: "err_endpoint_id q = ''xac''" using q(1) by (auto simp: EdgeRemoveRequest_sign_def Let_def)
  obtain u report st' where relay: "revocation_reply ref_ext sample_env (ed_public ref_ext relay_key)
      (ru_version (ra_current sample_relay)) s1 = (Inr (Some u), s1)" "update_in_range (sru_update u)"
    "apply_revocation_update ref_ext relay_env u sample_relay = (Inr report, st')"
    by (rule relay_learns_of_box [OF q(3,4)])
  have "ru_version (ra_current sample_relay) \<le> relay_revision (st_state sample_store)"
    by (simp add: sample_relay_def initial_revocations_def sample_bounds)
  from removed_edge_is_cut_off [OF ref_ext_laws(1,5) sample_store_ok run changed _ sample_relay_ok this relay, of "ed_public ref_ext box_key"]
  show ?thesis using q relay by (auto simp: box sample_ids sample_bounds sample_state_def box_def)
qed

end
